(* ===== verification/Prelude.thy ===== *)
theory Prelude
  imports Main "HOL-Library.Word"
begin

text \<open>
  Shared vocabulary of the development: the machine types of the C++ sources, the generic
  big- and little-endian byte codecs that every wire format of the library is proved equal to,
  and the list and word lemmas the component theories share.

  \<^item> \<open>u8\<close>, \<open>u16\<close>, \<open>u32\<close>, \<open>u64\<close> are \<open>std::uint8_t\<close> .. \<open>std::uint64_t\<close>; \<open>bytes\<close> is a
    \<open>std::vector<std::uint8_t>\<close> or a \<open>std::span\<close> of them.
  \<^item> \<open>be_bytes n w\<close> are the low \<open>n\<close> bytes of \<open>w\<close>, most significant first; \<open>of_be\<close> reads them
    back. \<open>le_bytes\<close> and \<open>of_le\<close> are the little-endian pair.
  \<^item> the collection \<open>wire_simps\<close> rewrites the explicit shift-and-mask code of the sources to
    these codecs.
\<close>

unbundle bit_operations_syntax

subsection \<open>Machine types\<close>

type_synonym u8 = "8 word"
type_synonym u16 = "16 word"
type_synonym u32 = "32 word"
type_synonym u64 = "64 word"
type_synonym bytes = "u8 list"

text \<open>\<open>std::endian::native\<close>, a parameter of the code that looks at it.\<close>

datatype endian = Little | Big

named_theorems wire_simps "rewrites of the sources' byte shuffling to the generic codecs"

subsection \<open>Generic byte codecs\<close>

fun be_bytes :: "nat \<Rightarrow> 'a::len word \<Rightarrow> bytes" where
  "be_bytes 0 w = []"
| "be_bytes (Suc n) w = be_bytes n (drop_bit 8 w) @ [ucast w]"

definition of_be :: "bytes \<Rightarrow> 'a::len word" where
  "of_be bs = foldl (\<lambda>acc b. push_bit 8 acc OR ucast b) 0 bs"

definition le_bytes :: "nat \<Rightarrow> 'a::len word \<Rightarrow> bytes" where
  "le_bytes n w = rev (be_bytes n w)"

definition of_le :: "bytes \<Rightarrow> 'a::len word" where
  "of_le bs = of_be (rev bs)"

lemma length_be_bytes [simp]: "length (be_bytes n w) = n"
  by (induction n arbitrary: w) auto

lemma length_le_bytes [simp]: "length (le_bytes n w) = n"
  by (simp add: le_bytes_def)

lemma of_be_Nil [simp]: "of_be [] = 0"
  by (simp add: of_be_def)

lemma of_be_snoc: "of_be (bs @ [b]) = push_bit 8 (of_be bs) OR ucast b"
  by (simp add: of_be_def)

lemma of_be_Cons1 [wire_simps]: "of_be [a] = ucast a"
  by (simp add: of_be_def)

lemma split_low_byte:
  "push_bit 8 (take_bit n (drop_bit 8 w)) OR ucast (ucast w :: u8) = take_bit (n + 8) (w :: 'a::len word)"
  by (rule bit_word_eqI) (auto simp: bit_simps)

lemma of_be_be_bytes: "of_be (be_bytes n w) = take_bit (8 * n) (w :: 'a::len word)"
proof (induction n arbitrary: w)
  case (Suc n)
  have "of_be (be_bytes (Suc n) w) = push_bit 8 (take_bit (8 * n) (drop_bit 8 w)) OR ucast (ucast w :: u8)"
    by (simp add: of_be_snoc Suc)
  then show ?case by (simp add: split_low_byte add.commute)
qed simp

lemma of_be_be_bytes_full:
  "LENGTH('a) \<le> 8 * n \<Longrightarrow> of_be (be_bytes n w) = (w :: 'a::len word)"
  by (simp add: of_be_be_bytes take_bit_word_eq_self)

lemma bit_of_be_bound: "bit (of_be bs :: 'a::len word) i \<Longrightarrow> i < 8 * length bs"
proof (induction bs arbitrary: i rule: rev_induct)
  case (snoc b bs)
  then show ?case
    by (auto simp: of_be_snoc bit_simps dest: bit_imp_le_length) (force dest: snoc.IH)+
qed simp

lemma be_bytes_of_be:
  "length bs = n \<Longrightarrow> 8 * n \<le> LENGTH('a) \<Longrightarrow> be_bytes n (of_be bs :: 'a::len word) = bs"
proof (induction n arbitrary: bs)
  case (Suc n)
  then obtain cs b where bs: "bs = cs @ [b]" and len: "length cs = n"
    by (metis length_append_singleton length_0_conv nat.simps(3) old.nat.inject rev_exhaust)
  have hi: "drop_bit 8 (of_be bs :: 'a word) = of_be cs"
    using Suc.prems len
    by (intro bit_word_eqI) (auto simp: bs of_be_snoc bit_simps dest: bit_of_be_bound bit_imp_le_length)
  have lo: "ucast (of_be bs :: 'a word) = b"
    using Suc.prems by (intro bit_word_eqI) (auto simp: bs of_be_snoc bit_simps)
  from Suc.IH [OF len] Suc.prems show ?case by (simp add: hi lo) (simp add: bs)
qed simp

lemma of_le_le_bytes_full:
  "LENGTH('a) \<le> 8 * n \<Longrightarrow> of_le (le_bytes n w) = (w :: 'a::len word)"
  by (simp add: of_le_def le_bytes_def of_be_be_bytes_full)

lemma le_bytes_of_le:
  "length bs = n \<Longrightarrow> 8 * n \<le> LENGTH('a) \<Longrightarrow> le_bytes n (of_le bs :: 'a::len word) = bs"
  by (simp add: of_le_def le_bytes_def be_bytes_of_be)

subsection \<open>Words and naturals\<close>

lemma unat_of_nat_small: "n < 2 ^ LENGTH('a) \<Longrightarrow> unat (of_nat n :: 'a::len word) = n"
  by (simp add: unsigned_of_nat take_bit_nat_eq_self)

lemma uint_of_nat_small: "k < 2 ^ LENGTH('a) \<Longrightarrow> uint (of_nat k :: 'a::len word) = int k"
  by (simp add: unsigned_of_nat take_bit_nat_eq_self)

lemma unat_ucast_mod: "unat (ucast (w :: 'a::len word) :: 'b::len word) = unat w mod 2 ^ LENGTH('b)"
  by (simp add: unsigned_ucast_eq unsigned_take_bit_eq take_bit_eq_mod)

lemma unat_ucast_up: "LENGTH('a) \<le> LENGTH('b) \<Longrightarrow> unat (ucast (w :: 'a::len word) :: 'b::len word) = unat w"
  by (simp add: unat_ucast_mod order_less_le_trans [OF unsigned_less])

lemma of_nat_eq_small:
  "a < 2 ^ LENGTH('a) \<Longrightarrow> b < 2 ^ LENGTH('a) \<Longrightarrow> (of_nat a :: 'a::len word) = of_nat b \<longleftrightarrow> a = b"
  by (metis unat_of_nat_small)

lemma unat_eqD: "unat (a :: 'a::len word) = unat b \<Longrightarrow> a = b"
  by (metis unsigned_word_eqI)

lemma u16_max: "(0xFFFF :: u16) = - 1"
  by simp

text \<open>The sign of a 16-bit difference: \<open>a\<close> is not before \<open>b\<close> when it is less than \<open>2 ^ 15\<close> ahead of it.\<close>

lemma sint_u16: "sint (w :: u16) = (if uint w < 2 ^ 15 then uint w else uint w - 2 ^ 16)"
proof -
  have "uint w < 2 ^ LENGTH(16)" by (rule unsigned_less)
  then have lt: "uint w < 65536" by simp
  have ge: "0 \<le> uint w" by simp
  show ?thesis
  proof (cases "uint w < 2 ^ 15")
    case True
    then have "signed_take_bit 15 (uint w) = uint w" using ge by (intro signed_take_bit_int_eq_self) linarith+
    then show ?thesis using True by (simp add: sint_uint)
  next
    case False
    then have "signed_take_bit 15 (uint w) = signed_take_bit 15 (uint w - 65536)"
      by (simp add: signed_take_bit_eq_iff_take_bit_eq take_bit_eq_mod)
    also have "\<dots> = uint w - 65536" using False lt by (intro signed_take_bit_int_eq_self) simp_all
    finally show ?thesis using False by (simp add: sint_uint)
  qed
qed

lemma uint_u16_less: "uint (w :: u16) < 65536"
  using unsigned_less [of w, where 'a = int] by simp

subsection \<open>The two- and four-byte codecs written out\<close>

lemma be_bytes_4: "be_bytes 4 v = [ucast (drop_bit 24 v), ucast (drop_bit 16 v), ucast (drop_bit 8 v), ucast v]"
  by (simp add: numeral_eq_Suc)

lemma be_bytes_2: "be_bytes 2 w = [ucast (drop_bit 8 w), ucast w]"
  by (simp add: numeral_2_eq_2)

lemma of_be_2: "of_be [a, b] = push_bit 8 (ucast a) OR ucast b"
  by (simp add: of_be_def)

lemma of_be_4:
  "(of_be [a, b, c, d] :: u32) = push_bit 24 (ucast a) OR push_bit 16 (ucast b) OR push_bit 8 (ucast c) OR ucast d"
  by (simp add: of_be_def push_bit_or or.assoc)

lemma ucast_and_255: "(ucast (w AND 0xFF) :: u8) = ucast (w :: 'a::len word)"
proof (rule bit_word_eqI)
  fix n assume "n < LENGTH(8)"
  then show "bit (ucast (w AND 0xFF) :: u8) n = bit (ucast w :: u8) n"
    using bit_mask_iff [of 8 n, where 'a = "'a word"]
    by (auto simp: bit_simps mask_eq_exp_minus_1 dest: bit_imp_le_length)
qed

subsection \<open>Lists at literal positions\<close>

lemma list_update_numeral: "(x # xs)[numeral v := y] = x # xs[pred_numeral v := y]"
  by (simp add: numeral_eq_Suc)

lemma replicate_numeral: "replicate (numeral v) x = x # replicate (pred_numeral v) x"
  by (simp add: numeral_eq_Suc)

end
