(* ===== verification/BitStream.thy ===== *)
theory BitStream
  imports Prelude "HOL-Library.Sublist"
begin

text \<open>
  \<open>include/campello_net/serialization/bit_stream.hpp\<close>: the bit-level stream every payload of the
  library is built with and parsed from.

  \<^item> \<open>bitstream\<close> is the class with its three members; every \<open>write_*\<close> returns the updated
    stream, every \<open>read_*\<close> returns the value (\<open>None\<close> for a C++ \<open>false\<close>) and the updated stream,
    because a failing read may already have moved the cursor.
  \<^item> positions are unbounded naturals (the code counts bits in a \<open>std::size_t\<close>); the number of bits
    of a \<open>write_bits\<close>/\<open>read_bits\<close> call is at most 64, as at every call in the repository.
  \<^item> \<open>endian\<close> is \<open>std::endian::native\<close>, a parameter of everything that calls \<open>to_net\<close>.
  \<^item> a \<open>float\<close> or \<open>double\<close> argument is its bit pattern, as the code copies it with \<open>memcpy\<close>.

  The abstraction \<open>bits\<close> of a stream is the list of the bits written, most significant first, and
  \<open>bs_ok\<close> is the class invariant. The locale \<open>codec\<close> is the contract between a \<open>serialize\<close> and
  its \<open>deserialize\<close>; the theory \<open>Serializable\<close> interprets it for every type of the sources.
\<close>

subsection \<open>The stream and its bit-level operations\<close>

record bitstream =
  buffer :: bytes
  write_bit_pos :: nat
  read_bit_pos :: nat

definition bs_empty :: bitstream where
  "bs_empty = \<lparr>buffer = [], write_bit_pos = 0, read_bit_pos = 0\<rparr>"

definition bs_of_span :: "bytes \<Rightarrow> bitstream" where
  "bs_of_span d = \<lparr>buffer = d, write_bit_pos = length d * 8, read_bit_pos = 0\<rparr>"

definition put_bit :: "bool \<Rightarrow> bitstream \<Rightarrow> bitstream" where
  "put_bit b s =
     (let byte_idx = write_bit_pos s div 8;
          bit_idx = 7 - write_bit_pos s mod 8;
          buf = (if length (buffer s) \<le> byte_idx then buffer s @ [0] else buffer s);
          buf' = (if b then buf[byte_idx := buf ! byte_idx OR push_bit bit_idx 1] else buf)
      in s\<lparr>buffer := buf', write_bit_pos := write_bit_pos s + 1\<rparr>)"

fun write_bits_loop :: "u64 \<Rightarrow> nat \<Rightarrow> bitstream \<Rightarrow> bitstream" where
  "write_bits_loop v 0 s = s"
| "write_bits_loop v (Suc i) s = write_bits_loop v i (put_bit (bit v i) s)"

definition write_bits :: "bitstream \<Rightarrow> u64 \<Rightarrow> nat \<Rightarrow> bitstream" where
  "write_bits s v n = (if n = 0 then s else write_bits_loop v n s)"

fun read_bits_loop :: "nat \<Rightarrow> u64 \<Rightarrow> bitstream \<Rightarrow> u64 \<times> bitstream" where
  "read_bits_loop 0 v s = (v, s)"
| "read_bits_loop (Suc k) v s =
     (let byte_idx = read_bit_pos s div 8;
          bit_idx = 7 - read_bit_pos s mod 8;
          b = bit (buffer s ! byte_idx) bit_idx
      in read_bits_loop k (push_bit 1 v OR of_bool b) (s\<lparr>read_bit_pos := read_bit_pos s + 1\<rparr>))"

definition read_bits :: "bitstream \<Rightarrow> nat \<Rightarrow> u64 option \<times> bitstream" where
  "read_bits s n =
     (if n = 0 then (Some 0, s)
      else if write_bit_pos s < read_bit_pos s + n then (None, s)
      else (let (v, s') = read_bits_loop n 0 s in (Some v, s')))"

definition byte_count :: "bitstream \<Rightarrow> nat" where
  "byte_count s = (write_bit_pos s + 7) div 8"

definition bs_span :: "bitstream \<Rightarrow> bytes" where
  "bs_span s = take (byte_count s) (buffer s)"

definition reset_read :: "bitstream \<Rightarrow> bitstream" where
  "reset_read s = s\<lparr>read_bit_pos := 0\<rparr>"

definition bs_reset :: "bitstream \<Rightarrow> bitstream" where
  "bs_reset s = s\<lparr>write_bit_pos := 0, read_bit_pos := 0, buffer := []\<rparr>"

definition align_to_byte :: "bitstream \<Rightarrow> bitstream" where
  "align_to_byte s =
     (if write_bit_pos s mod 8 \<noteq> 0 then write_bits s 0 (8 - write_bit_pos s mod 8) else s)"

definition align_read_to_byte :: "bitstream \<Rightarrow> bool \<times> bitstream" where
  "align_read_to_byte s =
     (if read_bit_pos s mod 8 \<noteq> 0
      then (let (v, s') = read_bits s (8 - read_bit_pos s mod 8) in (v \<noteq> None, s'))
      else (True, s))"

subsection \<open>Integers\<close>

definition to_net16 :: "endian \<Rightarrow> u16 \<Rightarrow> u16" where
  "to_net16 en v = (if en = Big then v else drop_bit 8 v OR push_bit 8 v)"

definition to_net32 :: "endian \<Rightarrow> u32 \<Rightarrow> u32" where
  "to_net32 en v = (if en = Big then v
     else (drop_bit 24 v AND 0xFF) OR (drop_bit 8 v AND 0xFF00) OR (push_bit 8 v AND 0xFF0000)
          OR push_bit 24 v)"

definition to_net64 :: "endian \<Rightarrow> u64 \<Rightarrow> u64" where
  "to_net64 en v = (if en = Big then v
     else push_bit 32 (ucast (to_net32 en (ucast v))) OR ucast (to_net32 en (ucast (drop_bit 32 v))))"

definition write_bool :: "bitstream \<Rightarrow> bool \<Rightarrow> bitstream" where
  "write_bool s b = write_bits s (if b then 1 else 0) 1"

definition write_uint8 :: "bitstream \<Rightarrow> u8 \<Rightarrow> bitstream" where
  "write_uint8 s v = write_bits s (ucast v) 8"

definition write_uint16 :: "endian \<Rightarrow> bitstream \<Rightarrow> u16 \<Rightarrow> bitstream" where
  "write_uint16 en s v = write_bits s (ucast (to_net16 en v)) 16"

definition write_uint32 :: "endian \<Rightarrow> bitstream \<Rightarrow> u32 \<Rightarrow> bitstream" where
  "write_uint32 en s v = write_bits s (ucast (to_net32 en v)) 32"

definition write_uint64 :: "endian \<Rightarrow> bitstream \<Rightarrow> u64 \<Rightarrow> bitstream" where
  "write_uint64 en s v = write_bits s (to_net64 en v) 64"

definition read_bool :: "bitstream \<Rightarrow> bool option \<times> bitstream" where
  "read_bool s = (let (v, s') = read_bits s 1 in (map_option (\<lambda>w. w \<noteq> 0) v, s'))"

definition read_uint8 :: "bitstream \<Rightarrow> u8 option \<times> bitstream" where
  "read_uint8 s = (let (v, s') = read_bits s 8 in (map_option ucast v, s'))"

definition read_uint16 :: "endian \<Rightarrow> bitstream \<Rightarrow> u16 option \<times> bitstream" where
  "read_uint16 en s = (let (v, s') = read_bits s 16 in (map_option (\<lambda>w. to_net16 en (ucast w)) v, s'))"

definition read_uint32 :: "endian \<Rightarrow> bitstream \<Rightarrow> u32 option \<times> bitstream" where
  "read_uint32 en s = (let (v, s') = read_bits s 32 in (map_option (\<lambda>w. to_net32 en (ucast w)) v, s'))"

definition read_uint64 :: "endian \<Rightarrow> bitstream \<Rightarrow> u64 option \<times> bitstream" where
  "read_uint64 en s = (let (v, s') = read_bits s 64 in (map_option (to_net64 en) v, s'))"

text \<open>The signed variants cast to and from the unsigned type of the same width; a signed value is the
  integer it denotes.\<close>

definition write_int8 :: "bitstream \<Rightarrow> int \<Rightarrow> bitstream" where
  "write_int8 s v = write_bits s (ucast (word_of_int v :: u8)) 8"

definition write_int16 :: "endian \<Rightarrow> bitstream \<Rightarrow> int \<Rightarrow> bitstream" where
  "write_int16 en s v = write_uint16 en s (word_of_int v)"

definition write_int32 :: "endian \<Rightarrow> bitstream \<Rightarrow> int \<Rightarrow> bitstream" where
  "write_int32 en s v = write_uint32 en s (word_of_int v)"

definition write_int64 :: "endian \<Rightarrow> bitstream \<Rightarrow> int \<Rightarrow> bitstream" where
  "write_int64 en s v = write_uint64 en s (word_of_int v)"

definition read_int8 :: "bitstream \<Rightarrow> int option \<times> bitstream" where
  "read_int8 s = (let (v, s') = read_uint8 s in (map_option sint v, s'))"

definition read_int16 :: "endian \<Rightarrow> bitstream \<Rightarrow> int option \<times> bitstream" where
  "read_int16 en s = (let (v, s') = read_uint16 en s in (map_option sint v, s'))"

definition read_int32 :: "endian \<Rightarrow> bitstream \<Rightarrow> int option \<times> bitstream" where
  "read_int32 en s = (let (v, s') = read_uint32 en s in (map_option sint v, s'))"

definition read_int64 :: "endian \<Rightarrow> bitstream \<Rightarrow> int option \<times> bitstream" where
  "read_int64 en s = (let (v, s') = read_uint64 en s in (map_option sint v, s'))"

subsection \<open>Variable-length integers\<close>

lemma unat_drop_bit_lt:
  assumes "c < (v :: 'a::len word)" "0 < n" shows "unat (drop_bit n v) < unat v"
proof -
  have "0 < unat v" using assms(1) by (simp add: word_gt_0 unat_gt_0) (metis word_not_simps(1))
  moreover have "unat (drop_bit n v) = unat v div 2 ^ n" unfolding unat_drop_bit_eq by (simp add: drop_bit_eq_div)
  moreover have "(1::nat) < 2 ^ n" using assms(2) by (intro one_less_power) auto
  ultimately show ?thesis by simp
qed

function write_varint_loop :: "u64 \<Rightarrow> bitstream \<Rightarrow> bitstream" where
  "write_varint_loop v s =
     (if 0x7F < v
      then write_varint_loop (drop_bit 7 v) (write_uint8 s (ucast ((v AND 0x7F) OR 0x80)))
      else write_uint8 s (ucast (v AND 0x7F)))"
  by pat_completeness auto
termination
  by (relation "measure (\<lambda>(v, s). unat v)") (auto simp: unat_drop_bit_lt)

declare write_varint_loop.simps [simp del]

definition write_varint :: "bitstream \<Rightarrow> u64 \<Rightarrow> bitstream" where
  "write_varint s v = write_varint_loop v (align_to_byte s)"

function read_varint_loop :: "u64 \<Rightarrow> nat \<Rightarrow> bitstream \<Rightarrow> u64 option \<times> bitstream" where
  "read_varint_loop acc shift s =
     (case read_uint8 s of
        (None, s') \<Rightarrow> (None, s')
      | (Some byte, s') \<Rightarrow>
          (let acc' = acc OR push_bit shift (ucast (byte AND 0x7F))
           in if byte AND 0x80 = 0 then (Some acc', s')
              else if 64 \<le> shift + 7 then (None, s')
              else read_varint_loop acc' (shift + 7) s'))"
  by pat_completeness auto
termination
  by (relation "measure (\<lambda>(acc, shift, s). 64 - shift)") auto

declare read_varint_loop.simps [simp del]

definition read_varint :: "bitstream \<Rightarrow> u64 option \<times> bitstream" where
  "read_varint s =
     (case align_read_to_byte s of (False, s') \<Rightarrow> (None, s') | (True, s') \<Rightarrow> read_varint_loop 0 0 s')"

subsection \<open>Floating-point bit patterns\<close>

definition write_float :: "endian \<Rightarrow> bitstream \<Rightarrow> u32 \<Rightarrow> bitstream" where
  "write_float en s ui = write_uint32 en (align_to_byte s) ui"

definition write_double :: "endian \<Rightarrow> bitstream \<Rightarrow> u64 \<Rightarrow> bitstream" where
  "write_double en s ui = write_uint64 en (align_to_byte s) ui"

definition read_float :: "endian \<Rightarrow> bitstream \<Rightarrow> u32 option \<times> bitstream" where
  "read_float en s =
     (case align_read_to_byte s of (False, s') \<Rightarrow> (None, s') | (True, s') \<Rightarrow> read_uint32 en s')"

definition read_double :: "endian \<Rightarrow> bitstream \<Rightarrow> u64 option \<times> bitstream" where
  "read_double en s =
     (case align_read_to_byte s of (False, s') \<Rightarrow> (None, s') | (True, s') \<Rightarrow> read_uint64 en s')"

definition float_to_half :: "u32 \<Rightarrow> u16" where
  "float_to_half ui =
     (let sign = drop_bit 31 ui AND 0x1;
          exponent = drop_bit 23 ui AND 0xFF;
          mantissa = ui AND 0x7FFFFF
      in if exponent = 0 then ucast (push_bit 15 sign)
         else if exponent = 0xFF
         then ucast (push_bit 15 sign OR push_bit 10 0x1F OR (if mantissa \<noteq> 0 then 0x200 else 0))
         else (let new_exp = sint exponent - 127 + 15
               in if 31 \<le> new_exp then ucast (push_bit 15 sign OR push_bit 10 0x1F)
                  else if new_exp \<le> 0 then ucast (push_bit 15 sign)
                  else ucast (push_bit 15 sign OR push_bit 10 (word_of_int new_exp)
                              OR ucast (ucast (drop_bit 13 mantissa) :: u16))))"

definition half_to_float :: "u16 \<Rightarrow> u32" where
  "half_to_float h =
     (let sign = drop_bit 15 h AND 0x1;
          exponent = drop_bit 10 h AND 0x1F;
          mantissa = h AND 0x3FF
      in if exponent = 0 then push_bit 31 (ucast sign)
         else if exponent = 0x1F
         then push_bit 31 (ucast sign) OR push_bit 23 0xFF OR push_bit 13 (ucast mantissa)
         else push_bit 31 (ucast sign) OR push_bit 23 (word_of_int (uint exponent - 15 + 127))
              OR push_bit 13 (ucast mantissa))"

definition write_half :: "bitstream \<Rightarrow> u32 \<Rightarrow> bitstream" where
  "write_half s ui = write_bits (align_to_byte s) (ucast (float_to_half ui)) 16"

definition read_half :: "bitstream \<Rightarrow> u32 option \<times> bitstream" where
  "read_half s =
     (case align_read_to_byte s of
        (False, s') \<Rightarrow> (None, s')
      | (True, s') \<Rightarrow>
          (let (v, s'') = read_bits s' 16 in (map_option (\<lambda>w. half_to_float (ucast w)) v, s'')))"

subsection \<open>Raw bytes and strings\<close>

definition write_bytes :: "bitstream \<Rightarrow> bytes \<Rightarrow> bitstream" where
  "write_bytes s d =
     (let s1 = align_to_byte s; start_byte = write_bit_pos s1 div 8
      in s1\<lparr>buffer := take start_byte (buffer s1)
                       @ replicate (start_byte - length (buffer s1)) 0 @ d,
            write_bit_pos := write_bit_pos s1 + length d * 8\<rparr>)"

definition read_bytes :: "bitstream \<Rightarrow> nat \<Rightarrow> bytes option \<times> bitstream" where
  "read_bytes s len =
     (case align_read_to_byte s of
        (False, s1) \<Rightarrow> (None, s1)
      | (True, s1) \<Rightarrow>
          if write_bit_pos s1 < read_bit_pos s1 + len * 8 then (None, s1)
          else (Some (take len (drop (read_bit_pos s1 div 8) (buffer s1))),
                s1\<lparr>read_bit_pos := read_bit_pos s1 + len * 8\<rparr>))"

definition write_string :: "bitstream \<Rightarrow> bytes \<Rightarrow> bitstream" where
  "write_string s str = write_bytes (write_varint s (of_nat (length str))) str"

definition read_string :: "bitstream \<Rightarrow> bytes option \<times> bitstream" where
  "read_string s =
     (case read_varint s of
        (None, s1) \<Rightarrow> (None, s1)
      | (Some len, s1) \<Rightarrow>
          if 65535 < len then (None, s1)
          else if 0 < len then read_bytes s1 (unat len)
          else (Some [], s1))"

subsection \<open>Arrays\<close>

definition write_array :: "(bitstream \<Rightarrow> 'a \<Rightarrow> bitstream) \<Rightarrow> bitstream \<Rightarrow> 'a list \<Rightarrow> bitstream" where
  "write_array ser s xs = foldl ser (write_varint s (of_nat (length xs))) xs"

fun read_elems :: "(bitstream \<Rightarrow> 'a option \<times> bitstream) \<Rightarrow> nat \<Rightarrow> bitstream \<Rightarrow> 'a list option \<times> bitstream" where
  "read_elems des 0 s = (Some [], s)"
| "read_elems des (Suc n) s =
     (case des s of
        (None, s1) \<Rightarrow> (None, s1)
      | (Some x, s1) \<Rightarrow>
          (case read_elems des n s1 of
             (None, s2) \<Rightarrow> (None, s2)
           | (Some xs, s2) \<Rightarrow> (Some (x # xs), s2)))"

definition read_array :: "(bitstream \<Rightarrow> 'a option \<times> bitstream) \<Rightarrow> bitstream \<Rightarrow> 'a list option \<times> bitstream" where
  "read_array des s =
     (case read_varint s of
        (None, s1) \<Rightarrow> (None, s1)
      | (Some len, s1) \<Rightarrow> if 1000000 < len then (None, s1) else read_elems des (unat len) s1)"

subsection \<open>The abstraction: the list of bits written\<close>

definition cell :: "bytes \<Rightarrow> nat \<Rightarrow> bool" where
  "cell b i = bit (b ! (i div 8)) (7 - i mod 8)"

definition bits :: "bitstream \<Rightarrow> bool list" where
  "bits s = map (cell (buffer s)) [0..<write_bit_pos s]"

definition bs_ok :: "bitstream \<Rightarrow> bool" where
  "bs_ok s \<longleftrightarrow> length (buffer s) = (write_bit_pos s + 7) div 8
     \<and> read_bit_pos s \<le> write_bit_pos s
     \<and> (\<forall>i. write_bit_pos s \<le> i \<longrightarrow> i < 8 * length (buffer s) \<longrightarrow> \<not> cell (buffer s) i)"

lemma length_bits [simp]: "length (bits s) = write_bit_pos s"
  by (simp add: bits_def)

lemma nth_bits [simp]: "i < write_bit_pos s \<Longrightarrow> bits s ! i = cell (buffer s) i"
  by (simp add: bits_def)

lemma bits_read_pos [simp]: "bits (s\<lparr>read_bit_pos := r\<rparr>) = bits s"
  by (simp add: bits_def)

lemma bs_ok_empty [simp]: "bs_ok bs_empty" "bits bs_empty = []"
  by (simp_all add: bs_ok_def bs_empty_def bits_def)

lemma bs_of_span_sel [simp]: "buffer (bs_of_span d) = d" "write_bit_pos (bs_of_span d) = length d * 8"
    "read_bit_pos (bs_of_span d) = 0"
  by (simp_all add: bs_of_span_def)

lemma bs_empty_sel [simp]: "write_bit_pos bs_empty = 0" "read_bit_pos bs_empty = 0" "buffer bs_empty = []"
  by (simp_all add: bs_empty_def)

lemma bs_ok_of_span [simp]: "bs_ok (bs_of_span d)"
  by (auto simp: bs_ok_def bs_of_span_def)

lemma bs_ok_read_pos: "bs_ok s \<Longrightarrow> r \<le> write_bit_pos s \<Longrightarrow> bs_ok (s\<lparr>read_bit_pos := r\<rparr>)"
  by (simp add: bs_ok_def)

lemma bs_ok_buffer_len: "bs_ok s \<Longrightarrow> i < write_bit_pos s \<Longrightarrow> i div 8 < length (buffer s)"
  by (simp add: bs_ok_def)

lemma cell_append: "i < 8 * length b \<Longrightarrow> cell (b @ c) i = cell b i"
  by (simp add: cell_def nth_append less_mult_imp_div_less mult.commute)

lemma cell_set_bit:
  assumes "w div 8 < length b"
  shows "cell (b[w div 8 := b ! (w div 8) OR push_bit (7 - w mod 8) 1]) i = (cell b i \<or> i = w)"
proof (cases "i div 8 = w div 8")
  case True
  have sub: "a < 8 \<Longrightarrow> b < 8 \<Longrightarrow> 7 - a = 7 - b \<longleftrightarrow> a = b" for a b :: nat by arith
  have "7 - i mod 8 = 7 - w mod 8 \<longleftrightarrow> i mod 8 = w mod 8" by (rule sub) simp_all
  also have "\<dots> \<longleftrightarrow> i = w" using True by (metis div_mult_mod_eq)
  finally show ?thesis
    using True assms by (auto simp: cell_def bit_simps)
next
  case False
  then show ?thesis using assms by (auto simp: cell_def)
qed

lemma put_bit_ok:
  assumes "bs_ok s"
  shows "bs_ok (put_bit b s)" and "bits (put_bit b s) = bits s @ [b]"
    and "read_bit_pos (put_bit b s) = read_bit_pos s"
    and "write_bit_pos (put_bit b s) = Suc (write_bit_pos s)"
proof -
  define w where "w = write_bit_pos s"
  define buf where "buf = (if length (buffer s) \<le> w div 8 then buffer s @ [0] else buffer s)"
  have len: "length (buffer s) = (w + 7) div 8" and rp: "read_bit_pos s \<le> w"
    using assms by (auto simp: bs_ok_def w_def)
  define q where "q = w div 8"
  have up: "(w + 7) div 8 = (if w mod 8 = 0 then q else q + 1)" "8 * q + w mod 8 = w" "w mod 8 < 8"
    unfolding q_def by (auto simp: div_add1_eq [of w 7])
  have lbuf: "length buf = w div 8 + 1" and wl: "w div 8 < length buf"
    using up(1) by (auto simp: buf_def len q_def)
  have cbuf: "cell buf i = cell (buffer s) i" if "i < 8 * length (buffer s)" for i
    using that by (simp add: buf_def cell_append)
  have ztail: "\<not> cell buf i" if "w \<le> i" "i < 8 * length buf" for i
  proof (cases "i < 8 * length (buffer s)")
    case True
    then show ?thesis using assms that by (simp add: cbuf bs_ok_def w_def)
  next
    case False
    then have "i div 8 = length (buffer s)" "length (buffer s) \<le> w div 8"
      using that lbuf by (auto simp: buf_def split: if_splits)
    then show ?thesis by (simp add: buf_def cell_def)
  qed
  define buf' where "buf' = (if b then buf[w div 8 := buf ! (w div 8) OR push_bit (7 - w mod 8) 1] else buf)"
  have put: "put_bit b s = s\<lparr>buffer := buf', write_bit_pos := w + 1\<rparr>"
    by (simp add: put_bit_def Let_def buf'_def buf_def w_def)
  have c': "cell buf' i = (cell buf i \<or> b \<and> i = w)" for i
    using cell_set_bit [OF wl] by (simp add: buf'_def)
  have l': "length buf' = w div 8 + 1" by (simp add: buf'_def lbuf)
  show "bs_ok (put_bit b s)"
    using rp ztail lbuf by (auto simp: bs_ok_def put l' c')
  show "bits (put_bit b s) = bits s @ [b]"
  proof (rule nth_equalityI)
    fix i assume "i < length (bits (put_bit b s))"
    then have i: "i \<le> w" by (simp add: put)
    have wlt: "w < 8 * length buf" using lbuf by simp
    show "bits (put_bit b s) ! i = (bits s @ [b]) ! i"
    proof (cases "i = w")
      case True
      then show ?thesis using ztail [of w] wlt by (simp add: put c' nth_append flip: w_def)
    next
      case False
      then have lt: "i < w" using i by simp
      then have "i < 8 * length (buffer s)" using len up by (auto split: if_splits)
      then show ?thesis using lt by (simp add: put c' cbuf nth_append flip: w_def)
    qed
  qed (simp add: put w_def)
qed (simp_all add: put_bit_def Let_def)

subsection \<open>What the bit-level operations do to the abstraction\<close>

definition msb_bits :: "nat \<Rightarrow> 'a::len word \<Rightarrow> bool list" where
  "msb_bits n v = map (bit v) (rev [0..<n])"

lemma length_msb_bits [simp]: "length (msb_bits n v) = n"
  by (simp add: msb_bits_def)

lemma write_bits_loop_ok:
  "bs_ok s \<Longrightarrow> bs_ok (write_bits_loop v n s) \<and> bits (write_bits_loop v n s) = bits s @ msb_bits n v
     \<and> read_bit_pos (write_bits_loop v n s) = read_bit_pos s"
  by (induction n arbitrary: s) (simp_all add: put_bit_ok msb_bits_def)

lemma write_bits_ok:
  assumes "bs_ok s"
  shows "bs_ok (write_bits s v n)" "bits (write_bits s v n) = bits s @ msb_bits n v"
    "read_bit_pos (write_bits s v n) = read_bit_pos s"
  using write_bits_loop_ok [OF assms, of v n] by (auto simp: write_bits_def msb_bits_def)

lemma write_pos_write_bits: "bs_ok s \<Longrightarrow> write_bit_pos (write_bits s v n) = write_bit_pos s + n"
  using write_bits_ok(2) [of s v n] by (metis length_append length_bits length_msb_bits)

definition of_msb :: "bool list \<Rightarrow> u64" where
  "of_msb bs = foldl (\<lambda>v b. push_bit 1 v OR of_bool b) 0 bs"

lemma read_bits_loop_eq:
  assumes "bs_ok s" "read_bit_pos s + n \<le> write_bit_pos s"
  shows "read_bits_loop n v s =
    (foldl (\<lambda>v b. push_bit 1 v OR of_bool b) v (take n (drop (read_bit_pos s) (bits s))),
     s\<lparr>read_bit_pos := read_bit_pos s + n\<rparr>)"
  using assms
proof (induction n arbitrary: v s)
  case (Suc n)
  let ?s = "s\<lparr>read_bit_pos := read_bit_pos s + 1\<rparr>"
  have ok: "bs_ok ?s" using Suc.prems by (simp add: bs_ok_read_pos)
  have lt: "read_bit_pos s < length (bits s)" using Suc.prems by simp
  have hd: "drop (read_bit_pos s) (bits s) = cell (buffer s) (read_bit_pos s) # drop (Suc (read_bit_pos s)) (bits s)"
    using Cons_nth_drop_Suc [OF lt] lt by simp
  show ?case
    using Suc.IH [OF ok] Suc.prems by (simp add: hd Let_def cell_def)
qed simp

lemma read_bits_eq:
  assumes "bs_ok s"
  shows "read_bits s n =
    (if read_bit_pos s + n \<le> write_bit_pos s
     then (Some (of_msb (take n (drop (read_bit_pos s) (bits s)))), s\<lparr>read_bit_pos := read_bit_pos s + n\<rparr>)
     else (None, s))"
  using assms read_bits_loop_eq [OF assms]
  by (auto simp: read_bits_def of_msb_def bs_ok_def)

lemma of_msb_msb_bits_gen:
  "foldl (\<lambda>v b. push_bit 1 v OR of_bool b) a (msb_bits n v) = push_bit n a OR take_bit n (v :: u64)"
proof (induction n arbitrary: a)
  case (Suc n)
  have "push_bit n (push_bit 1 a OR of_bool (bit v n)) OR take_bit n v
      = push_bit (Suc n) a OR take_bit (Suc n) v"
    by (rule bit_word_eqI) (auto simp: bit_simps less_Suc_eq)
  then show ?case using Suc by (simp add: msb_bits_def)
qed (simp add: msb_bits_def)

lemma of_msb_msb_bits: "of_msb (msb_bits n v) = take_bit n v"
  unfolding of_msb_def of_msb_msb_bits_gen by simp

end
