(* ===== verification/Serializable.thy ===== *)
theory Serializable
  imports BitStream
begin

text \<open>
  \<open>include/campello_net/serialization/serializable.hpp\<close>: the overloaded free functions
  \<open>serialize\<close> and \<open>deserialize\<close>, and the contract every such pair keeps.

  The locale \<open>codec\<close> states that contract once: \<open>ser\<close> only appends to the stream, and \<open>des\<close>, started
  where \<open>ser\<close> started and on any stream that still begins with the bits \<open>ser\<close> left behind, returns
  the value and stops exactly where \<open>ser\<close> stopped. It is therefore closed under sequencing and
  under arrays, and it implies that a value sent as a packet (\<open>span()\<close>) and parsed by a fresh
  stream comes back. Every overload of the header is an interpretation of it.
\<close>

subsection \<open>The contract of a serialize / deserialize pair\<close>

locale codec =
  fixes ser :: "bitstream \<Rightarrow> 'a \<Rightarrow> bitstream"
    and des :: "bitstream \<Rightarrow> 'a option \<times> bitstream"
    and valid :: "'a \<Rightarrow> bool"
  assumes ser_ok: "bs_ok s \<Longrightarrow> valid x \<Longrightarrow> bs_ok (ser s x)"
    and ser_appends: "bs_ok s \<Longrightarrow> valid x \<Longrightarrow> prefix (bits s) (bits (ser s x))"
    and ser_read_pos: "bs_ok s \<Longrightarrow> valid x \<Longrightarrow> read_bit_pos (ser s x) = read_bit_pos s"
    and des_ser: "bs_ok s \<Longrightarrow> valid x \<Longrightarrow> bs_ok t \<Longrightarrow> read_bit_pos t = write_bit_pos s \<Longrightarrow>
      prefix (bits (ser s x)) (bits t) \<Longrightarrow>
      des t = (Some x, t\<lparr>read_bit_pos := write_bit_pos (ser s x)\<rparr>)"
begin

lemma write_pos_mono: "bs_ok s \<Longrightarrow> valid x \<Longrightarrow> write_bit_pos s \<le> write_bit_pos (ser s x)"
  using ser_appends [of s x] by (metis prefix_length_le length_bits)

lemma bs_span_bits:
  assumes "bs_ok s" shows "prefix (bits s) (bits (bs_of_span (bs_span s)))"
proof -
  have l: "bs_span s = buffer s" "write_bit_pos s \<le> 8 * length (buffer s)"
    using assms by (auto simp: bs_span_def byte_count_def bs_ok_def)
  have "bits s = take (write_bit_pos s) (bits (bs_of_span (buffer s)))"
    using l(2) by (auto simp: bits_def take_map mult.commute)
  then show ?thesis unfolding l(1) by (metis take_is_prefix)
qed

lemma packet_roundtrip:
  assumes "valid x" shows "fst (des (bs_of_span (bs_span (ser bs_empty x)))) = Some x"
proof -
  have ok: "bs_ok (ser bs_empty x)" using assms by (simp add: ser_ok)
  have "des (bs_of_span (bs_span (ser bs_empty x)))
      = (Some x, (bs_of_span (bs_span (ser bs_empty x)))\<lparr>read_bit_pos := write_bit_pos (ser bs_empty x)\<rparr>)"
    using assms bs_span_bits [OF ok]
    by (intro des_ser) simp_all
  then show ?thesis by simp
qed

lemma foldl_ser:
  "bs_ok s \<Longrightarrow> \<forall>x\<in>set xs. valid x \<Longrightarrow>
     bs_ok (foldl ser s xs) \<and> prefix (bits s) (bits (foldl ser s xs))
     \<and> read_bit_pos (foldl ser s xs) = read_bit_pos s"
proof (induction xs arbitrary: s)
  case (Cons x xs)
  have "bs_ok (ser s x)" "prefix (bits s) (bits (ser s x))" "read_bit_pos (ser s x) = read_bit_pos s"
    using Cons.prems by (auto simp: ser_ok ser_appends ser_read_pos)
  then show ?case using Cons.IH [of "ser s x"] Cons.prems by (auto intro: prefix_order.trans)
qed simp

lemma read_elems_foldl:
  "bs_ok s \<Longrightarrow> \<forall>x\<in>set xs. valid x \<Longrightarrow> bs_ok t \<Longrightarrow> read_bit_pos t = write_bit_pos s \<Longrightarrow>
     prefix (bits (foldl ser s xs)) (bits t) \<Longrightarrow>
     read_elems des (length xs) t = (Some xs, t\<lparr>read_bit_pos := write_bit_pos (foldl ser s xs)\<rparr>)"
proof (induction xs arbitrary: s t)
  case (Cons x xs)
  have ok: "bs_ok (ser s x)" and v: "valid x" "\<forall>x\<in>set xs. valid x"
    using Cons.prems by (auto simp: ser_ok)
  have pre: "prefix (bits (ser s x)) (bits t)"
    using foldl_ser [OF ok v(2)] Cons.prems(5) by (auto intro: prefix_order.trans)
  let ?t = "t\<lparr>read_bit_pos := write_bit_pos (ser s x)\<rparr>"
  have d: "des t = (Some x, ?t)" using Cons.prems v pre by (intro des_ser) auto
  have okt: "bs_ok ?t"
    using Cons.prems(3) prefix_length_le [OF pre] by (intro bs_ok_read_pos) auto
  have "read_elems des (length xs) ?t = (Some xs, ?t\<lparr>read_bit_pos := write_bit_pos (foldl ser (ser s x) xs)\<rparr>)"
    using Cons.prems v okt ok by (intro Cons.IH) auto
  then show ?case by (simp add: d)
qed simp

end

subsection \<open>Closure under sequencing\<close>

definition ser_pair ::
  "(bitstream \<Rightarrow> 'a \<Rightarrow> bitstream) \<Rightarrow> (bitstream \<Rightarrow> 'b \<Rightarrow> bitstream) \<Rightarrow> bitstream \<Rightarrow> 'a \<times> 'b \<Rightarrow> bitstream" where
  "ser_pair f g s p = g (f s (fst p)) (snd p)"

definition des_pair ::
  "(bitstream \<Rightarrow> 'a option \<times> bitstream) \<Rightarrow> (bitstream \<Rightarrow> 'b option \<times> bitstream) \<Rightarrow>
   bitstream \<Rightarrow> ('a \<times> 'b) option \<times> bitstream" where
  "des_pair f g s =
     (case f s of
        (None, s1) \<Rightarrow> (None, s1)
      | (Some x, s1) \<Rightarrow> (case g s1 of (None, s2) \<Rightarrow> (None, s2) | (Some y, s2) \<Rightarrow> (Some (x, y), s2)))"

lemma codec_pair:
  assumes "codec f1 d1 v1" "codec f2 d2 v2"
  shows "codec (ser_pair f1 f2) (des_pair d1 d2) (\<lambda>p. v1 (fst p) \<and> v2 (snd p))"
proof (unfold_locales, goal_cases)
  case (1 s x)
  then show ?case using assms by (auto simp: ser_pair_def codec.ser_ok)
next
  case (2 s x)
  then have "prefix (bits s) (bits (f1 s (fst x)))" "bs_ok (f1 s (fst x))"
    using assms(1) by (auto simp: codec.ser_ok codec.ser_appends)
  then show ?case using 2 codec.ser_appends [OF assms(2)]
    by (auto simp: ser_pair_def intro: prefix_order.trans)
next
  case (3 s x)
  then show ?case using assms by (auto simp: ser_pair_def codec.ser_ok codec.ser_read_pos)
next
  case (4 s x t)
  let ?s = "f1 s (fst x)"
  have ok: "bs_ok ?s" using 4 assms(1) by (auto simp: codec.ser_ok)
  have "prefix (bits ?s) (bits (f2 ?s (snd x)))" using 4 ok assms(2) by (auto simp: codec.ser_appends)
  then have pre: "prefix (bits ?s) (bits t)" using 4(5) by (auto simp: ser_pair_def intro: prefix_order.trans)
  let ?t = "t\<lparr>read_bit_pos := write_bit_pos ?s\<rparr>"
  have d1: "d1 t = (Some (fst x), ?t)" using 4 pre by (intro codec.des_ser [OF assms(1)]) auto
  have "bs_ok ?t" using 4 prefix_length_le [OF pre] by (intro bs_ok_read_pos) auto
  then have "d2 ?t = (Some (snd x), ?t\<lparr>read_bit_pos := write_bit_pos (f2 ?s (snd x))\<rparr>)"
    using 4 ok by (intro codec.des_ser [OF assms(2)]) (auto simp: ser_pair_def)
  then show ?case by (simp add: des_pair_def d1 ser_pair_def)
qed

subsection \<open>Fixed-width values and alignment\<close>

lemma codec_fixed:
  assumes "\<And>x. valid x \<Longrightarrow> dec (take_bit n (enc x)) = x"
  shows "codec (\<lambda>s x. write_bits s (enc x) n)
     (\<lambda>s. let (v, s') = read_bits s n in (map_option dec v, s')) valid"
proof (unfold_locales, goal_cases)
  case (4 s x t)
  have w: "write_bit_pos (write_bits s (enc x) n) = write_bit_pos s + n"
    using 4 by (simp add: write_pos_write_bits)
  obtain ys where ys: "bits t = bits s @ msb_bits n (enc x) @ ys"
    using 4 by (auto simp: write_bits_ok prefix_def)
  have "take n (drop (read_bit_pos t) (bits t)) = msb_bits n (enc x)"
    using 4(4) by (simp add: ys)
  moreover have "write_bit_pos t = write_bit_pos s + n + length ys"
    using arg_cong [OF ys, of length] by simp
  ultimately show ?case
    using 4 assms by (simp add: read_bits_eq w of_msb_msb_bits)
qed (auto simp: write_bits_ok)

text \<open>\<open>up8 n\<close> is the first byte boundary at or after bit \<open>n\<close>.\<close>

definition up8 :: "nat \<Rightarrow> nat" where
  "up8 n = 8 * ((n + 7) div 8)"

lemma up8_aligned: "n mod 8 = 0 \<Longrightarrow> up8 n = n"
  by (auto simp: up8_def div_add1_eq [of n 7])

lemma up8_mod [simp]: "up8 n mod 8 = 0"
  by (simp add: up8_def)

lemma up8_pad:
  assumes "n mod 8 \<noteq> 0" shows "n + (8 - n mod 8) = up8 n"
proof -
  have ar: "8 * q + m = k \<Longrightarrow> m < 8 \<Longrightarrow> k + (8 - m) = 8 * (q + 1)" for q m k :: nat by arith
  have "n + (8 - n mod 8) = 8 * (n div 8 + 1)" by (rule ar) simp_all
  then show ?thesis using assms by (simp add: up8_def div_add1_eq [of n 7])
qed

lemma align_to_byte_ok:
  assumes "bs_ok s"
  shows "bs_ok (align_to_byte s)" "prefix (bits s) (bits (align_to_byte s))"
    "read_bit_pos (align_to_byte s) = read_bit_pos s"
    "write_bit_pos (align_to_byte s) = up8 (write_bit_pos s)"
proof -
  show "bs_ok (align_to_byte s)" "prefix (bits s) (bits (align_to_byte s))"
    "read_bit_pos (align_to_byte s) = read_bit_pos s"
    using assms by (simp_all add: align_to_byte_def write_bits_ok)
  show "write_bit_pos (align_to_byte s) = up8 (write_bit_pos s)"
  proof (cases "write_bit_pos s mod 8 = 0")
    case True
    then show ?thesis by (simp add: align_to_byte_def up8_aligned)
  next
    case False
    then show ?thesis
      by (simp only: align_to_byte_def write_pos_write_bits [OF assms] up8_pad [OF False] if_True
          simp_thms)
  qed
qed

lemma align_read_eq:
  assumes "bs_ok t" "up8 (read_bit_pos t) \<le> write_bit_pos t"
  shows "align_read_to_byte t = (True, t\<lparr>read_bit_pos := up8 (read_bit_pos t)\<rparr>)"
proof (cases "read_bit_pos t mod 8 = 0")
  case True
  then show ?thesis by (simp add: align_read_to_byte_def up8_aligned)
next
  case False
  note pad = up8_pad [OF False]
  have "read_bits t (8 - read_bit_pos t mod 8) =
      (Some (of_msb (take (8 - read_bit_pos t mod 8) (drop (read_bit_pos t) (bits t)))),
       t\<lparr>read_bit_pos := up8 (read_bit_pos t)\<rparr>)"
    using assms(2) by (simp only: read_bits_eq [OF assms(1)] pad if_True)
  then show ?thesis using False by (simp only: align_read_to_byte_def if_True Let_def) simp
qed

lemma codec_align:
  assumes "codec f d v"
  shows "codec (\<lambda>s x. f (align_to_byte s) x)
     (\<lambda>s. case align_read_to_byte s of (False, s') \<Rightarrow> (None, s') | (True, s') \<Rightarrow> d s') v"
proof (unfold_locales, goal_cases)
  case (1 s x)
  then show ?case by (simp add: codec.ser_ok [OF assms] align_to_byte_ok)
next
  case (2 s x)
  then show ?case using align_to_byte_ok [of s] codec.ser_appends [OF assms, of "align_to_byte s" x]
    by (auto intro: prefix_order.trans)
next
  case (3 s x)
  then show ?case by (simp add: codec.ser_read_pos [OF assms] align_to_byte_ok)
next
  case (4 s x t)
  note al = align_to_byte_ok [OF 4(1)]
  have "prefix (bits (align_to_byte s)) (bits (f (align_to_byte s) x))"
    using 4 al by (simp add: codec.ser_appends [OF assms])
  then have pre: "prefix (bits (align_to_byte s)) (bits t)" using 4 by (auto intro: prefix_order.trans)
  let ?t = "t\<lparr>read_bit_pos := write_bit_pos (align_to_byte s)\<rparr>"
  have ar: "align_read_to_byte t = (True, ?t)"
    using 4 prefix_length_le [OF pre] al(4) by (subst align_read_eq) auto
  have "bs_ok ?t" using 4 prefix_length_le [OF pre] by (intro bs_ok_read_pos) auto
  then have "d ?t = (Some x, ?t\<lparr>read_bit_pos := write_bit_pos (f (align_to_byte s) x)\<rparr>)"
    using 4 al by (intro codec.des_ser [OF assms]) auto
  then show ?case by (simp add: ar)
qed

subsection \<open>The integer overloads\<close>

lemma to_net16_invol [simp]: "to_net16 en (to_net16 en v) = v"
proof (rule bit_word_eqI)
  fix n assume n: "n < LENGTH(16)"
  show "bit (to_net16 en (to_net16 en v)) n = bit v n"
    using n by (cases "n < 8") (auto simp: to_net16_def bit_simps)
qed

lemma net_masks:
  "(0xFF :: u32) = mask 8" "(0xFF00 :: u32) = push_bit 8 (mask 8)" "(0xFF0000 :: u32) = push_bit 16 (mask 8)"
  by (simp_all add: mask_eq_exp_minus_1 push_bit_eq_mult)

lemma to_net32_Little: "to_net32 Little v = of_le (be_bytes 4 v)"
proof (rule bit_word_eqI)
  fix n assume n: "n < LENGTH(32)"
  consider "n < 8" | "8 \<le> n" "n < 16" | "16 \<le> n" "n < 24" | "24 \<le> n" "n < 32" using n by force
  then show "bit (to_net32 Little v) n = bit (of_le (be_bytes 4 v) :: u32) n"
    by cases (auto simp: to_net32_def net_masks of_le_def of_be_def be_bytes_4 bit_simps)
qed

lemma to_net32_invol [simp]: "to_net32 en (to_net32 en v) = v"
proof (cases en)
  case Little
  have "be_bytes 4 (of_le (be_bytes 4 v) :: u32) = rev (be_bytes 4 v)"
    using le_bytes_of_le [where 'a = 32, of "be_bytes 4 v" 4] by (simp add: le_bytes_def rev_swap)
  then show ?thesis using Little by (simp add: to_net32_Little of_le_def of_be_be_bytes_full)
qed (simp add: to_net32_def)

lemma to_net64_invol [simp]: "to_net64 en (to_net64 en v) = v"
proof (cases en)
  case Little
  let ?w = "to_net64 Little v"
  have lo: "ucast ?w = to_net32 Little (ucast (drop_bit 32 v))"
    by (rule bit_word_eqI) (auto simp: to_net64_def bit_simps)
  have hi: "(ucast (drop_bit 32 ?w) :: u32) = to_net32 Little (ucast v)"
    by (rule bit_word_eqI) (auto simp: to_net64_def bit_simps dest: bit_imp_le_length)
  have "to_net64 Little ?w = push_bit 32 (ucast (to_net32 Little (ucast ?w :: u32)))
      OR ucast (to_net32 Little (ucast (drop_bit 32 ?w)))"
    by (simp add: to_net64_def)
  also have "\<dots> = push_bit 32 (ucast (ucast (drop_bit 32 v) :: u32)) OR ucast (ucast v :: u32)"
    unfolding lo hi by simp
  also have "\<dots> = v" by (rule bit_word_eqI) (auto simp: bit_simps)
  finally show ?thesis using Little by simp
qed (simp add: to_net64_def)

lemma ucast_low: "LENGTH('a::len) = n \<Longrightarrow> n \<le> 64 \<Longrightarrow> ucast (take_bit n (ucast (v :: 'a word) :: u64)) = v"
  by (rule bit_word_eqI) (auto simp: bit_simps)

lemma codec_uint8: "codec write_uint8 read_uint8 (\<lambda>_. True)"
  unfolding write_uint8_def [abs_def] read_uint8_def [abs_def]
  by (rule codec_fixed) (simp add: ucast_low)

lemma codec_bool: "codec write_bool read_bool (\<lambda>_. True)"
  unfolding write_bool_def [abs_def] read_bool_def [abs_def]
  by (rule codec_fixed) (simp)

lemma codec_uint16: "codec (write_uint16 en) (read_uint16 en) (\<lambda>_. True)"
  unfolding write_uint16_def [abs_def] read_uint16_def [abs_def]
  by (rule codec_fixed) (simp add: ucast_low)

lemma codec_uint32: "codec (write_uint32 en) (read_uint32 en) (\<lambda>_. True)"
  unfolding write_uint32_def [abs_def] read_uint32_def [abs_def]
  by (rule codec_fixed) (simp add: ucast_low)

lemma codec_uint64: "codec (write_uint64 en) (read_uint64 en) (\<lambda>_. True)"
  unfolding write_uint64_def [abs_def] read_uint64_def [abs_def]
  by (rule codec_fixed) (simp add: take_bit_word_eq_self)

lemma codec_float: "codec (write_float en) (read_float en) (\<lambda>_. True)"
  unfolding write_float_def [abs_def] read_float_def [abs_def]
  by (rule codec_align) (rule codec_uint32)

lemma codec_double: "codec (write_double en) (read_double en) (\<lambda>_. True)"
  unfolding write_double_def [abs_def] read_double_def [abs_def]
  by (rule codec_align) (rule codec_uint64)

subsection \<open>Variable-length integers\<close>

lemma bit_varint_masks [simp]:
  "bit (0x7F :: u64) n \<longleftrightarrow> n < 7" "bit (0x7F :: u8) n \<longleftrightarrow> n < 7"
  "bit (0x80 :: u64) n \<longleftrightarrow> n = 7" "bit (0x80 :: u8) n \<longleftrightarrow> n = 7"
proof -
  have "(0x7F :: u64) = mask 7" "(0x7F :: u8) = mask 7"
    "(0x80 :: u8) = 2 ^ 7" "(0x80 :: u64) = 2 ^ 7"
    by (simp_all add: mask_eq_exp_minus_1)
  then show "bit (0x7F :: u64) n \<longleftrightarrow> n < 7" "bit (0x7F :: u8) n \<longleftrightarrow> n < 7"
    "bit (0x80 :: u64) n \<longleftrightarrow> n = 7" "bit (0x80 :: u8) n \<longleftrightarrow> n = 7"
    by (simp_all only: bit_mask_iff bit_exp_iff) auto
qed

lemma bit_varint_masks_int [simp]:
  "bit (0x7F :: int) n \<longleftrightarrow> n < 7" "bit (0x80 :: int) n \<longleftrightarrow> n = 7"
  "bit (0x7F :: nat) n \<longleftrightarrow> n < 7" "bit (0x80 :: nat) n \<longleftrightarrow> n = 7"
proof -
  have "(0x7F :: int) = mask 7" "(0x7F :: nat) = mask 7" "(0x80 :: int) = 2 ^ 7" "(0x80 :: nat) = 2 ^ 7"
    by (simp_all add: mask_eq_exp_minus_1)
  then show "bit (0x7F :: int) n \<longleftrightarrow> n < 7" "bit (0x80 :: int) n \<longleftrightarrow> n = 7"
    "bit (0x7F :: nat) n \<longleftrightarrow> n < 7" "bit (0x80 :: nat) n \<longleftrightarrow> n = 7"
    by (simp_all only: bit_mask_iff bit_exp_iff) auto
qed

lemma split_low_7: "take_bit 7 v OR push_bit 7 (drop_bit 7 v) = (v :: u64)"
proof (rule bit_word_eqI)
  fix n assume "n < LENGTH(64)"
  then show "bit (take_bit 7 v OR push_bit 7 (drop_bit 7 v)) n = bit v n"
    by (cases "n < 7") (auto simp: bit_simps)
qed

lemma varint_more_byte:
  fixes v :: u64 defines "b \<equiv> ucast ((v AND 0x7F) OR 0x80) :: u8"
  shows "b AND 0x80 \<noteq> 0" "ucast (b AND 0x7F) = take_bit 7 v"
proof -
  have "bit (b AND 0x80) 7" by (simp add: b_def bit_simps)
  then show "b AND 0x80 \<noteq> 0" by (metis bit_0_eq bot_apply bot_bool_def)
  show "ucast (b AND 0x7F) = take_bit 7 v"
    by (rule bit_word_eqI) (auto simp: b_def bit_simps)
qed

lemma varint_last_byte:
  fixes v :: u64 defines "b \<equiv> ucast (v AND 0x7F) :: u8"
  assumes "\<not> 0x7F < v"
  shows "b AND 0x80 = 0" "ucast (b AND 0x7F) = v"
proof -
  have "unat v < 2 ^ 7" using assms(2) by (simp add: not_less word_le_nat_alt)
  then have "take_bit 7 (unat v) = unat v" by (rule take_bit_nat_eq_self)
  then have "take_bit 7 v = v" by (subst word_unat_eq_iff) (simp add: unsigned_take_bit_eq)
  moreover have "ucast (b AND 0x7F) = take_bit 7 v"
    by (rule bit_word_eqI) (auto simp: b_def bit_simps)
  ultimately show "ucast (b AND 0x7F) = v" by simp
  show "b AND 0x80 = 0"
    by (rule bit_word_eqI) (auto simp: b_def bit_simps)
qed

lemma write_varint_loop_ok:
  "bs_ok s \<Longrightarrow> bs_ok (write_varint_loop v s) \<and> prefix (bits s) (bits (write_varint_loop v s))
     \<and> read_bit_pos (write_varint_loop v s) = read_bit_pos s"
proof (induction v s rule: write_varint_loop.induct)
  case (1 v s)
  have u: "bs_ok (write_uint8 s b)" "prefix (bits s) (bits (write_uint8 s b))"
    "read_bit_pos (write_uint8 s b) = read_bit_pos s" for b
    using 1(2) by (auto simp: codec.ser_ok [OF codec_uint8] codec.ser_appends [OF codec_uint8]
        codec.ser_read_pos [OF codec_uint8])
  show ?case
  proof (cases "0x7F < v")
    case True
    then show ?thesis using 1(1) [OF True u(1)] u
      by (subst (1 2 3) write_varint_loop.simps) (auto intro: prefix_order.trans)
  next
    case False
    then show ?thesis using u by (subst (1 2 3) write_varint_loop.simps) auto
  qed
qed

lemma read_varint_loop_write:
  "bs_ok s \<Longrightarrow> bs_ok t \<Longrightarrow> read_bit_pos t = write_bit_pos s \<Longrightarrow>
     prefix (bits (write_varint_loop v s)) (bits t) \<Longrightarrow> shift < 64 \<Longrightarrow> unat v < 2 ^ (64 - shift) \<Longrightarrow>
     read_varint_loop acc shift t =
       (Some (acc OR push_bit shift v), t\<lparr>read_bit_pos := write_bit_pos (write_varint_loop v s)\<rparr>)"
proof (induction v s arbitrary: acc shift t rule: write_varint_loop.induct)
  case (1 v s)
  show ?case
  proof (cases "0x7F < v")
    case True
    let ?b = "ucast ((v AND 0x7F) OR 0x80) :: u8"
    let ?s = "write_uint8 s ?b"
    have w: "write_varint_loop v s = write_varint_loop (drop_bit 7 v) ?s"
      using True by (subst write_varint_loop.simps) simp
    have oks: "bs_ok ?s" using 1(2) by (simp add: codec.ser_ok [OF codec_uint8])
    have pre: "prefix (bits ?s) (bits t)"
      using write_varint_loop_ok [OF oks, of "drop_bit 7 v"] 1(5) w by (auto intro: prefix_order.trans)
    let ?t = "t\<lparr>read_bit_pos := write_bit_pos ?s\<rparr>"
    have rd: "read_uint8 t = (Some ?b, ?t)"
      using 1 pre by (intro codec.des_ser [OF codec_uint8]) auto
    have okt: "bs_ok ?t" using 1(3) prefix_length_le [OF pre] by (intro bs_ok_read_pos) auto
    have big: "128 \<le> unat v" using True by (simp add: word_less_nat_alt)
    have sh: "shift + 7 < 64"
    proof (rule ccontr)
      assume "\<not> ?thesis"
      then have "(2::nat) ^ (64 - shift) \<le> 2 ^ 7" by (intro power_increasing) auto
      then show False using big 1(7) by simp
    qed
    have "unat (drop_bit 7 v) = unat v div 128"
      unfolding unat_drop_bit_eq by (simp add: drop_bit_eq_div)
    moreover have "(2::nat) ^ (64 - shift) = 2 ^ (64 - (shift + 7)) * 2 ^ 7"
      unfolding power_add [symmetric] using sh by simp
    ultimately have lt: "unat (drop_bit 7 v) < 2 ^ (64 - (shift + 7))"
      using 1(7) by (auto intro: less_mult_imp_div_less)
    let ?acc = "acc OR push_bit shift (ucast (?b AND 0x7F))"
    have step: "read_varint_loop acc shift t = read_varint_loop ?acc (shift + 7) ?t"
      using sh varint_more_byte(1) [of v] by (subst read_varint_loop.simps) (simp add: rd Let_def)
    have rec: "read_varint_loop ?acc (shift + 7) ?t =
        (Some (?acc OR push_bit (shift + 7) (drop_bit 7 v)),
         ?t\<lparr>read_bit_pos := write_bit_pos (write_varint_loop (drop_bit 7 v) ?s)\<rparr>)"
      using True oks okt 1(5) sh lt by (intro 1(1)) (auto simp: w)
    have "?acc OR push_bit (shift + 7) (drop_bit 7 v) = acc OR push_bit shift v"
      unfolding varint_more_byte(2) push_bit_push_bit [of shift 7, symmetric] or.assoc
        push_bit_or [symmetric] split_low_7 ..
    then show ?thesis by (simp only: step rec w) simp
  next
    case False
    let ?b = "ucast (v AND 0x7F) :: u8"
    have w: "write_varint_loop v s = write_uint8 s ?b"
      using False by (subst write_varint_loop.simps) simp
    have rd: "read_uint8 t = (Some ?b, t\<lparr>read_bit_pos := write_bit_pos (write_uint8 s ?b)\<rparr>)"
      using 1 w by (intro codec.des_ser [OF codec_uint8]) auto
    show ?thesis
      using varint_last_byte [OF False] by (subst read_varint_loop.simps) (simp add: rd w Let_def)
  qed
qed

lemma codec_varint: "codec write_varint read_varint (\<lambda>_. True)"
proof -
  have "codec (\<lambda>s v. write_varint_loop v s) (read_varint_loop 0 0) (\<lambda>_. True)"
  proof (unfold_locales, goal_cases)
    case (4 s x t)
    then show ?case using read_varint_loop_write [of s t x 0 0] unsigned_less [of x] by simp
  qed (simp_all add: write_varint_loop_ok)
  then show ?thesis
    unfolding write_varint_def [abs_def] read_varint_def [abs_def] by (rule codec_align)
qed

subsection \<open>Raw bytes and strings\<close>

lemma cell_append_right: "cell (b @ c) (8 * length b + i) = cell c i"
  by (simp add: cell_def nth_append)

lemma cell_drop: "8 * k + i < 8 * length b \<Longrightarrow> i < 8 * n \<Longrightarrow> cell (take n (drop k b)) i = cell b (8 * k + i)"
  by (simp add: cell_def less_mult_imp_div_less mult.commute)

lemma bytes_eq_cells:
  assumes "length b = length c" "\<And>i. i < 8 * length b \<Longrightarrow> cell b i = cell c i" shows "b = c"
proof (rule nth_equalityI [OF assms(1)])
  fix k assume k: "k < length b"
  show "b ! k = c ! k"
  proof (rule bit_word_eqI)
    fix j assume "j < LENGTH(8)"
    then have m: "7 - (7 - j) = j" "7 - j < 8" by simp_all
    define m where "m = 7 - j"
    have "7 - m = j" "m < 8" using m by (simp_all add: m_def)
    then show "bit (b ! k) j = bit (c ! k) j"
      using assms(2) [of "8 * k + m"] k by (simp add: cell_def)
  qed
qed

lemma write_bytes_ok:
  assumes "bs_ok s"
  shows "bits (write_bytes s d) = bits (align_to_byte s) @ map (cell d) [0..<8 * length d]"
    and "bs_ok (write_bytes s d)" and "read_bit_pos (write_bytes s d) = read_bit_pos s"
proof -
  let ?s = "align_to_byte s"
  note al = align_to_byte_ok [OF assms]
  have len: "length (buffer ?s) = write_bit_pos ?s div 8" and al8: "write_bit_pos ?s = 8 * length (buffer ?s)"
    using al(1,4) by (auto simp: bs_ok_def up8_def)
  have wb: "write_bytes s d = ?s\<lparr>buffer := buffer ?s @ d, write_bit_pos := write_bit_pos ?s + length d * 8\<rparr>"
    by (simp add: write_bytes_def Let_def len [symmetric])
  have "cell (buffer ?s @ d) i = (bits ?s @ map (cell d) [0..<8 * length d]) ! i"
    if "i < write_bit_pos ?s + length d * 8" for i
  proof (cases "i < write_bit_pos ?s")
    case True
    then show ?thesis using al8 by (simp add: nth_append cell_append)
  next
    case False
    then obtain j where "i = 8 * length (buffer ?s) + j" using al8 by (metis le_iff_add not_less)
    then show ?thesis using that al8 by (simp add: nth_append cell_append_right)
  qed
  then show "bits (write_bytes s d) = bits ?s @ map (cell d) [0..<8 * length d]"
    by (intro nth_equalityI) (simp_all add: wb)
  show "bs_ok (write_bytes s d)" using al al8 by (auto simp: wb bs_ok_def)
  show "read_bit_pos (write_bytes s d) = read_bit_pos s" using al by (simp add: wb)
qed

lemma codec_bytes: "codec write_bytes (\<lambda>s. read_bytes s n) (\<lambda>d. length d = n)"
proof (unfold_locales, goal_cases)
  case (2 s x)
  then show ?case using align_to_byte_ok(2) [of s] by (auto simp: write_bytes_ok intro: prefix_order.trans)
next
  case (4 s d t)
  let ?s = "align_to_byte s"
  note al = align_to_byte_ok [OF 4(1)]
  have pt: "prefix (bits ?s @ map (cell d) [0..<8 * n]) (bits t)"
    using 4 by (simp add: write_bytes_ok)
  then have pre: "prefix (bits ?s) (bits t)" by (auto simp: prefix_def)
  have wt: "write_bit_pos ?s + 8 * n \<le> write_bit_pos t"
    using prefix_length_le [OF pt] by simp
  have ar: "align_read_to_byte t = (True, t\<lparr>read_bit_pos := write_bit_pos ?s\<rparr>)"
    using 4 wt al(4) by (subst align_read_eq) auto
  obtain k where k: "write_bit_pos ?s = 8 * k" using al(4) by (auto simp: up8_def)
  have lt: "8 * (k + n) \<le> 8 * length (buffer t)" using wt k 4(3) by (auto simp: bs_ok_def)
  have "take n (drop k (buffer t)) = d"
  proof (rule bytes_eq_cells)
    show "length (take n (drop k (buffer t))) = length d" using lt 4(2) by simp
    fix i assume "i < 8 * length (take n (drop k (buffer t)))"
    then have i: "i < 8 * n" by simp
    have "cell (buffer t) (8 * k + i) = bits t ! (8 * k + i)" using i wt k by simp
    also have "\<dots> = (bits ?s @ map (cell d) [0..<8 * n]) ! (8 * k + i)"
      using pt i k by (auto simp: prefix_def nth_append)
    also have "\<dots> = cell d i" using i k by (simp add: nth_append)
    finally show "cell (take n (drop k (buffer t))) i = cell d i"
      using i lt by (subst cell_drop) auto
  qed
  moreover have "write_bit_pos (write_bytes s d) = write_bit_pos ?s + 8 * n"
    using 4 write_bytes_ok(1) [OF 4(1), of d] by (metis length_append length_bits length_map length_upt diff_zero)
  ultimately show ?case using wt by (simp add: read_bytes_def ar k mult.commute)
qed (auto simp: write_bytes_ok)

lemma codec_string: "codec write_string read_string (\<lambda>str. length str \<le> 65535)"
proof (unfold_locales, goal_cases)
  case (1 s x)
  then show ?case by (simp add: write_string_def write_bytes_ok codec.ser_ok [OF codec_varint])
next
  case (2 s x)
  have ok: "bs_ok (write_varint s (of_nat (length x)))" using 2 by (simp add: codec.ser_ok [OF codec_varint])
  show ?case
    using codec.ser_appends [OF codec_varint, OF 2(1)] codec.ser_appends [OF codec_bytes, OF ok]
    by (auto simp: write_string_def intro: prefix_order.trans)
next
  case (3 s x)
  then show ?case
    by (simp add: write_string_def write_bytes_ok codec.ser_ok [OF codec_varint] codec.ser_read_pos [OF codec_varint])
next
  case (4 s x t)
  let ?s = "write_varint s (of_nat (length x))"
  have ok: "bs_ok ?s" using 4 by (simp add: codec.ser_ok [OF codec_varint])
  have pre: "prefix (bits ?s) (bits t)"
    using codec.ser_appends [OF codec_bytes, OF ok, of x] 4(5) by (auto simp: write_string_def intro: prefix_order.trans)
  let ?t = "t\<lparr>read_bit_pos := write_bit_pos ?s\<rparr>"
  have okt: "bs_ok ?t" using 4 prefix_length_le [OF pre] by (intro bs_ok_read_pos) auto
  have v: "read_varint t = (Some (of_nat (length x)), ?t)"
    using 4 pre by (intro codec.des_ser [OF codec_varint]) auto
  have un: "unat (of_nat (length x) :: u64) = length x"
    using 4(2) by (intro unat_of_nat_small) simp
  have b: "read_bytes ?t (length x) = (Some x, ?t\<lparr>read_bit_pos := write_bit_pos (write_bytes ?s x)\<rparr>)"
    using 4 ok okt by (intro codec.des_ser [OF codec_bytes]) (auto simp: write_string_def)
  have le: "\<not> 65535 < (of_nat (length x) :: u64)" using 4(2) un by (simp add: word_less_nat_alt)
  show ?case
  proof (cases "x = []")
    case True
    have "write_bit_pos (write_bytes ?s []) = write_bit_pos (align_to_byte ?s)"
      using write_bytes_ok(1) [OF ok, of "[]"] by (metis append_Nil2 length_bits list.size(3) mult_0_right upt_rec less_irrefl map_is_Nil_conv)
    moreover have "write_bit_pos ?s mod 8 = 0"
      using True by (simp add: write_varint_def write_varint_loop.simps align_to_byte_ok 4(1)
          codec.ser_ok [OF codec_uint8] write_uint8_def write_pos_write_bits)
    ultimately show ?thesis using True v by (simp add: read_string_def write_string_def align_to_byte_def)
  next
    case False
    then have "0 < (of_nat (length x) :: u64)" using un by (simp add: word_less_nat_alt)
    then show ?thesis using v b le un by (simp add: read_string_def write_string_def)
  qed
qed

subsection \<open>Arrays of a serializable element\<close>

lemma codec_array:
  assumes "codec f d v"
  shows "codec (write_array f) (read_array d) (\<lambda>xs. length xs \<le> 1000000 \<and> (\<forall>x\<in>set xs. v x))"
proof (unfold_locales, goal_cases)
  case (1 s xs)
  then show ?case using codec.foldl_ser [OF assms] by (simp add: write_array_def codec.ser_ok [OF codec_varint])
next
  case (2 s xs)
  let ?s = "write_varint s (of_nat (length xs))"
  have "prefix (bits s) (bits ?s)" "bs_ok ?s"
    using 2 by (auto simp: codec.ser_appends [OF codec_varint] codec.ser_ok [OF codec_varint])
  then show ?case using codec.foldl_ser [OF assms, of ?s xs] 2
    by (auto simp: write_array_def intro: prefix_order.trans)
next
  case (3 s xs)
  then show ?case using codec.foldl_ser [OF assms]
    by (simp add: write_array_def codec.ser_ok [OF codec_varint] codec.ser_read_pos [OF codec_varint])
next
  case (4 s xs t)
  let ?s = "write_varint s (of_nat (length xs))"
  have ok: "bs_ok ?s" using 4 by (simp add: codec.ser_ok [OF codec_varint])
  have pre: "prefix (bits ?s) (bits t)"
    using codec.foldl_ser [OF assms ok, of xs] 4 by (auto simp: write_array_def intro: prefix_order.trans)
  let ?t = "t\<lparr>read_bit_pos := write_bit_pos ?s\<rparr>"
  have okt: "bs_ok ?t" using 4 prefix_length_le [OF pre] by (intro bs_ok_read_pos) auto
  have r: "read_varint t = (Some (of_nat (length xs)), ?t)"
    using 4 pre by (intro codec.des_ser [OF codec_varint]) auto
  have un: "unat (of_nat (length xs) :: u64) = length xs"
    using 4(2) by (intro unat_of_nat_small) simp
  have le: "\<not> 1000000 < (of_nat (length xs) :: u64)" using 4(2) un by (simp add: word_less_nat_alt)
  have "read_elems d (length xs) ?t = (Some xs, ?t\<lparr>read_bit_pos := write_bit_pos (foldl f ?s xs)\<rparr>)"
    using 4 ok okt by (intro codec.read_elems_foldl [OF assms]) (auto simp: write_array_def)
  then show ?case using r un le by (simp add: read_array_def write_array_def)
qed

subsection \<open>Signed integers\<close>

lemma codec_map:
  assumes "codec f d v"
  shows "codec (\<lambda>s x. f s (enc x)) (\<lambda>s. let (r, s') = d s in (map_option dec r, s'))
     (\<lambda>x. v (enc x) \<and> dec (enc x) = x)"
proof (unfold_locales, goal_cases)
  case (4 s x t)
  then have "d t = (Some (enc x), t\<lparr>read_bit_pos := write_bit_pos (f s (enc x))\<rparr>)"
    by (intro codec.des_ser [OF assms]) auto
  then show ?case using 4 by simp
qed (auto simp: codec.ser_ok [OF assms] codec.ser_appends [OF assms] codec.ser_read_pos [OF assms])

lemma codec_weaken: "codec f d v \<Longrightarrow> (\<And>x. w x \<Longrightarrow> v x) \<Longrightarrow> codec f d w"
  unfolding codec_def by blast

definition fits_signed :: "nat \<Rightarrow> int \<Rightarrow> bool" where
  "fits_signed n v \<longleftrightarrow> - (2 ^ (n - 1)) \<le> v \<and> v < 2 ^ (n - 1)"

lemma sint_word_of_int_fits:
  "fits_signed LENGTH('a) v \<Longrightarrow> sint (word_of_int v :: 'a::len word) = v"
  by (simp add: fits_signed_def sint_uint signed_take_bit_int_eq_self unsigned_of_int
      signed_take_bit_take_bit)

lemma codec_int:
  assumes "codec f d (\<lambda>_. True)"
  shows "codec (\<lambda>s v. f s (word_of_int v :: 'a::len word)) (\<lambda>s. let (r, s') = d s in (map_option sint r, s'))
     (fits_signed LENGTH('a))"
  by (rule codec_weaken [OF codec_map [OF assms]]) (simp add: sint_word_of_int_fits)

subsection \<open>The overloads of serialize and deserialize\<close>

definition serialize_bool :: "bitstream \<Rightarrow> bool \<Rightarrow> bitstream" where
  "serialize_bool s v = write_bool s v"

definition deserialize_bool :: "bitstream \<Rightarrow> bool option \<times> bitstream" where
  "deserialize_bool s = read_bool s"

definition serialize_uint8 :: "bitstream \<Rightarrow> u8 \<Rightarrow> bitstream" where
  "serialize_uint8 s v = write_uint8 s v"

definition deserialize_uint8 :: "bitstream \<Rightarrow> u8 option \<times> bitstream" where
  "deserialize_uint8 s = read_uint8 s"

definition serialize_uint16 :: "endian \<Rightarrow> bitstream \<Rightarrow> u16 \<Rightarrow> bitstream" where
  "serialize_uint16 en s v = write_uint16 en s v"

definition deserialize_uint16 :: "endian \<Rightarrow> bitstream \<Rightarrow> u16 option \<times> bitstream" where
  "deserialize_uint16 en s = read_uint16 en s"

definition serialize_uint32 :: "endian \<Rightarrow> bitstream \<Rightarrow> u32 \<Rightarrow> bitstream" where
  "serialize_uint32 en s v = write_uint32 en s v"

definition deserialize_uint32 :: "endian \<Rightarrow> bitstream \<Rightarrow> u32 option \<times> bitstream" where
  "deserialize_uint32 en s = read_uint32 en s"

definition serialize_uint64 :: "endian \<Rightarrow> bitstream \<Rightarrow> u64 \<Rightarrow> bitstream" where
  "serialize_uint64 en s v = write_uint64 en s v"

definition deserialize_uint64 :: "endian \<Rightarrow> bitstream \<Rightarrow> u64 option \<times> bitstream" where
  "deserialize_uint64 en s = read_uint64 en s"

definition serialize_int8 :: "bitstream \<Rightarrow> int \<Rightarrow> bitstream" where
  "serialize_int8 s v = write_uint8 s (word_of_int v)"

definition deserialize_int8 :: "bitstream \<Rightarrow> int option \<times> bitstream" where
  "deserialize_int8 s = (let (v, s') = read_uint8 s in (map_option sint v, s'))"

definition serialize_int16 :: "endian \<Rightarrow> bitstream \<Rightarrow> int \<Rightarrow> bitstream" where
  "serialize_int16 en s v = write_uint16 en s (word_of_int v)"

definition deserialize_int16 :: "endian \<Rightarrow> bitstream \<Rightarrow> int option \<times> bitstream" where
  "deserialize_int16 en s = (let (v, s') = read_uint16 en s in (map_option sint v, s'))"

definition serialize_int32 :: "endian \<Rightarrow> bitstream \<Rightarrow> int \<Rightarrow> bitstream" where
  "serialize_int32 en s v = write_uint32 en s (word_of_int v)"

definition deserialize_int32 :: "endian \<Rightarrow> bitstream \<Rightarrow> int option \<times> bitstream" where
  "deserialize_int32 en s = (let (v, s') = read_uint32 en s in (map_option sint v, s'))"

definition serialize_int64 :: "endian \<Rightarrow> bitstream \<Rightarrow> int \<Rightarrow> bitstream" where
  "serialize_int64 en s v = write_uint64 en s (word_of_int v)"

definition deserialize_int64 :: "endian \<Rightarrow> bitstream \<Rightarrow> int option \<times> bitstream" where
  "deserialize_int64 en s = (let (v, s') = read_uint64 en s in (map_option sint v, s'))"

definition serialize_float :: "endian \<Rightarrow> bitstream \<Rightarrow> u32 \<Rightarrow> bitstream" where
  "serialize_float en s v = write_float en s v"

definition deserialize_float :: "endian \<Rightarrow> bitstream \<Rightarrow> u32 option \<times> bitstream" where
  "deserialize_float en s = read_float en s"

definition serialize_double :: "endian \<Rightarrow> bitstream \<Rightarrow> u64 \<Rightarrow> bitstream" where
  "serialize_double en s v = write_double en s v"

definition deserialize_double :: "endian \<Rightarrow> bitstream \<Rightarrow> u64 option \<times> bitstream" where
  "deserialize_double en s = read_double en s"

definition serialize_string :: "bitstream \<Rightarrow> bytes \<Rightarrow> bitstream" where
  "serialize_string s v = write_string s v"

definition deserialize_string :: "bitstream \<Rightarrow> bytes option \<times> bitstream" where
  "deserialize_string s = read_string s"

definition serialize_array :: "(bitstream \<Rightarrow> 'a \<Rightarrow> bitstream) \<Rightarrow> bitstream \<Rightarrow> 'a list \<Rightarrow> bitstream" where
  "serialize_array ser s xs = foldl ser s xs"

definition deserialize_array ::
  "(bitstream \<Rightarrow> 'a option \<times> bitstream) \<Rightarrow> nat \<Rightarrow> bitstream \<Rightarrow> 'a list option \<times> bitstream" where
  "deserialize_array des n s = read_elems des n s"

definition serialize_vector :: "(bitstream \<Rightarrow> 'a \<Rightarrow> bitstream) \<Rightarrow> bitstream \<Rightarrow> 'a list \<Rightarrow> bitstream" where
  "serialize_vector ser s xs = foldl ser (write_varint s (of_nat (length xs))) xs"

definition deserialize_vector ::
  "(bitstream \<Rightarrow> 'a option \<times> bitstream) \<Rightarrow> bitstream \<Rightarrow> 'a list option \<times> bitstream" where
  "deserialize_vector des s =
     (case read_varint s of
        (None, s1) \<Rightarrow> (None, s1)
      | (Some count, s1) \<Rightarrow> if 1000000 < count then (None, s1) else read_elems des (unat count) s1)"

interpretation bool_codec: codec serialize_bool deserialize_bool "\<lambda>_. True"
  unfolding serialize_bool_def [abs_def] deserialize_bool_def [abs_def] by (rule codec_bool)

interpretation uint8_codec: codec serialize_uint8 deserialize_uint8 "\<lambda>_. True"
  unfolding serialize_uint8_def [abs_def] deserialize_uint8_def [abs_def] by (rule codec_uint8)

interpretation uint16_codec: codec "serialize_uint16 en" "deserialize_uint16 en" "\<lambda>_. True" for en
  unfolding serialize_uint16_def [abs_def] deserialize_uint16_def [abs_def] by (rule codec_uint16)

interpretation uint32_codec: codec "serialize_uint32 en" "deserialize_uint32 en" "\<lambda>_. True" for en
  unfolding serialize_uint32_def [abs_def] deserialize_uint32_def [abs_def] by (rule codec_uint32)

interpretation uint64_codec: codec "serialize_uint64 en" "deserialize_uint64 en" "\<lambda>_. True" for en
  unfolding serialize_uint64_def [abs_def] deserialize_uint64_def [abs_def] by (rule codec_uint64)

interpretation int8_codec: codec serialize_int8 deserialize_int8 "fits_signed 8"
  unfolding serialize_int8_def [abs_def] deserialize_int8_def [abs_def]
  using codec_int [OF codec_uint8] by simp

interpretation int16_codec: codec "serialize_int16 en" "deserialize_int16 en" "fits_signed 16" for en
  unfolding serialize_int16_def [abs_def] deserialize_int16_def [abs_def]
  using codec_int [OF codec_uint16] by simp

interpretation int32_codec: codec "serialize_int32 en" "deserialize_int32 en" "fits_signed 32" for en
  unfolding serialize_int32_def [abs_def] deserialize_int32_def [abs_def]
  using codec_int [OF codec_uint32] by simp

interpretation int64_codec: codec "serialize_int64 en" "deserialize_int64 en" "fits_signed 64" for en
  unfolding serialize_int64_def [abs_def] deserialize_int64_def [abs_def]
  using codec_int [OF codec_uint64] by simp

interpretation float_codec: codec "serialize_float en" "deserialize_float en" "\<lambda>_. True" for en
  unfolding serialize_float_def [abs_def] deserialize_float_def [abs_def] by (rule codec_float)

interpretation double_codec: codec "serialize_double en" "deserialize_double en" "\<lambda>_. True" for en
  unfolding serialize_double_def [abs_def] deserialize_double_def [abs_def] by (rule codec_double)

interpretation string_codec: codec serialize_string deserialize_string "\<lambda>str. length str \<le> 65535"
  unfolding serialize_string_def [abs_def] deserialize_string_def [abs_def] by (rule codec_string)

lemma codec_vector:
  assumes "codec f d v"
  shows "codec (serialize_vector f) (deserialize_vector d)
     (\<lambda>xs. length xs \<le> 1000000 \<and> (\<forall>x\<in>set xs. v x))"
  using codec_array [OF assms]
  by (simp add: serialize_vector_def [abs_def] deserialize_vector_def [abs_def]
      write_array_def [abs_def] read_array_def [abs_def])

interpretation bytes_vector_codec: codec "serialize_vector serialize_uint8" "deserialize_vector deserialize_uint8"
  "\<lambda>xs. length xs \<le> 1000000 \<and> (\<forall>x\<in>set xs. True)"
  by (rule codec_vector) unfold_locales

end
