(* ===== verification/StreamLaws.thy ===== *)
theory StreamLaws
  imports Serializable
begin

text \<open>
  The properties of \<open>bit_stream.hpp\<close> and \<open>serializable.hpp\<close> that hold for any input, well formed
  or not, and the round trips read off the \<open>codec\<close> interpretations.

  The locale \<open>reader\<close> is the safety half of a \<open>deserialize\<close>: on arbitrary bytes it moves the read
  cursor forward, at most to the end of the bits written, and touches nothing else. With
  \<open>read_bits_eq\<close> (the bits a read returns are the bits between the two cursors) this is the memory
  safety of parsing.
\<close>

unbundle bit_operations_syntax

subsection \<open>The contract of a reader on untrusted bytes\<close>

definition cursor_moves :: "bitstream \<Rightarrow> bitstream \<Rightarrow> bool" where
  "cursor_moves s s' \<longleftrightarrow> buffer s' = buffer s \<and> write_bit_pos s' = write_bit_pos s
     \<and> read_bit_pos s \<le> read_bit_pos s' \<and> read_bit_pos s' \<le> write_bit_pos s"

locale reader =
  fixes des :: "bitstream \<Rightarrow> 'a option \<times> bitstream"
  assumes moves: "bs_ok s \<Longrightarrow> cursor_moves s (snd (des s))"

lemma cursor_moves_refl: "bs_ok s \<Longrightarrow> cursor_moves s s"
  by (simp add: cursor_moves_def bs_ok_def)

lemma cursor_moves_ok: "bs_ok s \<Longrightarrow> cursor_moves s s' \<Longrightarrow> bs_ok s'"
  by (auto simp: cursor_moves_def bs_ok_def)

lemma cursor_moves_trans: "cursor_moves s s' \<Longrightarrow> cursor_moves s' s'' \<Longrightarrow> cursor_moves s s''"
  by (auto simp: cursor_moves_def)

context reader begin

lemma keeps_ok: "bs_ok s \<Longrightarrow> bs_ok (snd (des s))"
  by (blast intro: cursor_moves_ok moves)

lemma keeps_bits: "bs_ok s \<Longrightarrow> bits (snd (des s)) = bits s"
  using moves [of s] by (auto simp: cursor_moves_def bits_def)

lemma moves_step: "bs_ok s \<Longrightarrow> des s = (r, s') \<Longrightarrow> bs_ok s' \<and> cursor_moves s s'"
  using moves keeps_ok by (metis snd_conv)

lemma moves_elems: "bs_ok s \<Longrightarrow> cursor_moves s (snd (read_elems des n s))"
proof (induction n arbitrary: s)
  case (Suc n)
  obtain r s1 where d: "des s = (r, s1)" by fastforce
  note s1 = moves_step [OF Suc.prems d]
  show ?case
    using Suc.IH [of s1] s1 cursor_moves_trans
    by (auto simp: d split: option.split prod.split)
qed (simp add: cursor_moves_refl)

end

lemma read_elems_length: "read_elems des n s = (Some xs, s') \<Longrightarrow> length xs = n"
  by (induction n arbitrary: s xs) (auto split: prod.splits option.splits)

lemma read_elems_length': "fst (read_elems des n s) = Some xs \<Longrightarrow> length xs = n"
  by (cases "read_elems des n s") (auto dest: read_elems_length)

lemma reader_bind:
  assumes "reader d" "\<And>x. reader (k x)"
  shows "reader (\<lambda>s. case d s of (None, s1) \<Rightarrow> (None, s1) | (Some x, s1) \<Rightarrow> k x s1)"
proof
  fix s :: bitstream assume ok: "bs_ok s"
  obtain r s1 where d: "d s = (r, s1)" by fastforce
  note s1 = reader.moves_step [OF assms(1) ok d]
  show "cursor_moves s (snd (case d s of (None, s1) \<Rightarrow> (None, s1) | (Some x, s1) \<Rightarrow> k x s1))"
    using s1 reader.moves [OF assms(2)] cursor_moves_trans by (auto simp: d split: option.split)
qed

lemma reader_const: "reader (\<lambda>s. (r, s))"
  by unfold_locales (simp add: cursor_moves_refl)

lemma reader_map: "reader d \<Longrightarrow> reader (\<lambda>s. let (v, s') = d s in (map_option f v, s'))"
  by (simp add: reader_def split: prod.split) (metis snd_conv)

lemma reader_align:
  assumes "reader d"
  shows "reader (\<lambda>s. case align_read_to_byte s of (False, s') \<Rightarrow> (None, s') | (True, s') \<Rightarrow> d s')"
proof
  fix s :: bitstream assume ok: "bs_ok s"
  obtain b s1 where a: "align_read_to_byte s = (b, s1)" by fastforce
  have "cursor_moves s s1"
    using a ok by (auto simp: align_read_to_byte_def read_bits_eq cursor_moves_def bs_ok_def split: if_splits)
  then show "cursor_moves s (snd (case align_read_to_byte s of (False, s') \<Rightarrow> (None, s') | (True, s') \<Rightarrow> d s'))"
    using reader.moves [OF assms cursor_moves_ok [OF ok]] cursor_moves_trans by (auto simp: a split: bool.split)
qed

lemma reader_bits: "reader (\<lambda>s. read_bits s n)"
  by unfold_locales (auto simp: read_bits_eq cursor_moves_def bs_ok_def)

lemmas fixed_width_readers = read_bool_def read_uint8_def read_uint16_def read_uint32_def read_uint64_def
  read_float_def read_double_def

lemma readers_fixed:
  "reader read_bool" "reader read_uint8" "reader (read_uint16 en)" "reader (read_uint32 en)"
  "reader (read_uint64 en)"
  unfolding read_bool_def [abs_def] read_uint8_def [abs_def] read_uint16_def [abs_def]
    read_uint32_def [abs_def] read_uint64_def [abs_def]
  by (rule reader_map [OF reader_bits])+

lemma readers_aligned: "reader (read_float en)" "reader (read_double en)"
  unfolding read_float_def [abs_def] read_double_def [abs_def]
  by (rule reader_align [OF readers_fixed(4)] reader_align [OF readers_fixed(5)])+

lemma reader_half: "reader read_half"
  unfolding read_half_def [abs_def] by (rule reader_align [OF reader_map [OF reader_bits]])

lemma read_varint_loop_moves: "bs_ok s \<Longrightarrow> cursor_moves s (snd (read_varint_loop acc shift s))"
proof (induction acc shift s rule: read_varint_loop.induct)
  case (1 acc shift s)
  obtain r s1 where d: "read_uint8 s = (r, s1)" by fastforce
  note s1 = reader.moves_step [OF readers_fixed(2) 1(2) d]
  show ?case
  proof (cases r)
    case None
    then show ?thesis using s1 d by (simp add: read_varint_loop.simps)
  next
    case (Some b)
    let ?acc = "acc OR push_bit shift (ucast (b AND 0x7F))"
    have "\<not> 64 \<le> shift + 7 \<Longrightarrow> b AND 0x80 \<noteq> 0 \<Longrightarrow> cursor_moves s (snd (read_varint_loop ?acc (shift + 7) s1))"
      using 1(1) [OF d [symmetric] Some refl] s1 cursor_moves_trans by blast
    then show ?thesis using s1 Some d
      by (subst read_varint_loop.simps) (simp add: Let_def)
  qed
qed

lemma reader_varint: "reader read_varint"
  unfolding read_varint_def [abs_def]
  by (rule reader_align) (unfold_locales, rule read_varint_loop_moves)

lemma reader_bytes: "reader (\<lambda>s. read_bytes s n)"
  unfolding read_bytes_def
  by (rule reader_align) (unfold_locales, auto simp: cursor_moves_def bs_ok_def)

lemma reader_if: "reader d \<Longrightarrow> reader e \<Longrightarrow> reader (\<lambda>s. if P then d s else e s)"
  by (cases P) simp_all

lemma reader_string: "reader read_string"
  unfolding read_string_def [abs_def]
  by (intro reader_bind reader_varint reader_if reader_const reader_bytes)

lemma reader_array: "reader d \<Longrightarrow> reader (read_array d)"
  unfolding read_array_def [abs_def]
  by (intro reader_bind reader_varint reader_if reader_const)
    (unfold_locales, rule reader.moves_elems)

lemma reader_vector: "reader d \<Longrightarrow> reader (deserialize_vector d)"
  unfolding deserialize_vector_def [abs_def]
  by (intro reader_bind reader_varint reader_if reader_const)
    (unfold_locales, rule reader.moves_elems)

interpretation bool_reader: reader deserialize_bool
  unfolding deserialize_bool_def [abs_def] by (rule readers_fixed)

interpretation uint8_reader: reader deserialize_uint8
  unfolding deserialize_uint8_def [abs_def] by (rule readers_fixed)

interpretation uint16_reader: reader "deserialize_uint16 en" for en
  unfolding deserialize_uint16_def [abs_def] by (rule readers_fixed)

interpretation uint32_reader: reader "deserialize_uint32 en" for en
  unfolding deserialize_uint32_def [abs_def] by (rule readers_fixed)

interpretation uint64_reader: reader "deserialize_uint64 en" for en
  unfolding deserialize_uint64_def [abs_def] by (rule readers_fixed)

interpretation float_reader: reader "deserialize_float en" for en
  unfolding deserialize_float_def [abs_def] by (rule readers_aligned)

interpretation double_reader: reader "deserialize_double en" for en
  unfolding deserialize_double_def [abs_def] by (rule readers_aligned)

interpretation string_reader: reader deserialize_string
  unfolding deserialize_string_def [abs_def] by (rule reader_string)

interpretation half_reader: reader read_half
  by (rule reader_half)

interpretation varint_reader: reader read_varint
  by (rule reader_varint)

interpretation u32_vector_reader: reader "deserialize_vector (deserialize_uint32 en)" for en
  by (rule reader_vector) unfold_locales

interpretation u32_vector_codec: codec "serialize_vector (serialize_uint32 en)" "deserialize_vector (deserialize_uint32 en)"
  "\<lambda>xs. length xs \<le> 1000000 \<and> (\<forall>x\<in>set xs. True)" for en
  by (rule codec_vector) unfold_locales

subsection \<open>Half-precision floats\<close>

lemma and_masks:
  "w AND 0x1F = take_bit 5 w" "w AND 0x3FF = take_bit 10 w" "w AND 0xFF = take_bit 8 w"
  "w AND 0x7FFFFF = take_bit 23 w" "w AND 0x1 = of_bool (bit w 0)" for w :: "'a::len word"
  by (simp_all add: take_bit_eq_mask mask_eq_exp_minus_1 and_one_eq odd_iff_mod_2_eq_one bit_0 )
 
lemma half_fields:
  fixes E M :: u32 and b :: bool
  assumes "E = take_bit 8 E" "M = take_bit 10 M"
  defines "ui \<equiv> push_bit 31 (of_bool b) OR push_bit 23 E OR push_bit 13 M"
  shows "bit (drop_bit 31 ui) 0 = b" "take_bit 8 (drop_bit 23 ui) = E" "drop_bit 13 (take_bit 23 ui) = M"
proof -
  have b: "bit E n \<Longrightarrow> n < 8" "bit M n \<Longrightarrow> n < 10" for n
    using assms(1-2) by (metis bit_take_bit_iff)+
  show "bit (drop_bit 31 ui) 0 = b" unfolding ui_def
    by (cases b) (auto simp: bit_simps dest: b)
  show "take_bit 8 (drop_bit 23 ui) = E" unfolding ui_def
    by (rule bit_word_eqI, cases b) (auto simp: bit_simps dest: b)
  show "drop_bit 13 (take_bit 23 ui) = M" unfolding ui_def
    by (rule bit_word_eqI, cases b) (auto simp: bit_simps dest: b)
qed

lemma half_parts:
  fixes h :: u16
  shows "push_bit 15 (of_bool (bit (drop_bit 15 h) 0)) OR push_bit 10 (take_bit 5 (drop_bit 10 h)) OR take_bit 10 h = h"
proof (rule bit_word_eqI)
  fix n assume "n < LENGTH(16)"
  then have "n < 10 \<or> (10 \<le> n \<and> n < 15) \<or> n = 15" by auto
  then show "bit (push_bit 15 (of_bool (bit (drop_bit 15 h) 0)) OR push_bit 10 (take_bit 5 (drop_bit 10 h)) OR take_bit 10 h) n = bit h n"
    by (elim disjE) (auto simp: bit_simps)
qed

lemma sint_small: "uint (w :: 'a::len word) < 2 ^ (LENGTH('a) - 1) \<Longrightarrow> sint w = uint w"
  unfolding sint_uint by (rule signed_take_bit_int_eq_self) (auto intro: order_trans [of _ 0])

lemma float_to_half_fields:
  fixes E M :: u32 and b :: bool
  assumes "E = take_bit 8 E" "M = take_bit 10 M" "112 < uint E" "uint E < 143"
  shows "float_to_half (push_bit 31 (of_bool b) OR push_bit 23 E OR push_bit 13 M)
    = ucast (push_bit 15 (of_bool b :: u32) OR push_bit 10 (word_of_int (uint E - 112)) OR ucast (ucast M :: u16))"
proof -
  have "E \<noteq> 0" "E \<noteq> 0xFF" using assms(3,4) by auto
  moreover have "sint E = uint E" using assms(4) by (simp add: sint_small)
  ultimately show ?thesis
    unfolding float_to_half_def Let_def and_masks half_fields [OF assms(1,2)]
    using assms(3,4) by (simp del: of_int_diff)
qed

lemma half_exact:
  fixes h :: u16
  assumes "take_bit 5 (drop_bit 10 h) \<noteq> 0x1F" "take_bit 5 (drop_bit 10 h) = 0 \<Longrightarrow> take_bit 10 h = 0"
  shows "float_to_half (half_to_float h) = h"
proof -
  define b e k where "b = bit (drop_bit 15 h) 0" and "e = take_bit 5 (drop_bit 10 h)" and "k = take_bit 10 h"
  have h: "push_bit 15 (of_bool b) OR push_bit 10 e OR k = h"
    using half_parts [of h] by (simp add: b_def e_def k_def)
  let ?M = "ucast k :: u32"
  define E :: u32 where "E = word_of_int (uint e - 15 + 127)"
  have eb: "uint e < 32" unfolding e_def using take_bit_int_less_exp [of 5 "uint (drop_bit 10 h)"] by (simp add: unsigned_take_bit_eq)
  have uE: "uint E = uint e + 112"
    using eb by (simp add: E_def uint_word_ariths unsigned_ucast_eq take_bit_eq_mod)
  have E: "E = take_bit 8 E"
    unfolding word_uint_eq_iff unsigned_take_bit_eq uE
    by (rule sym, rule take_bit_int_eq_self) (use eb in auto)
  have M: "?M = take_bit 10 ?M" unfolding k_def
    by (rule bit_word_eqI) (auto simp: bit_simps)
  have ff: "half_to_float h = (if e = 0 then push_bit 31 (ucast (of_bool b :: u16))
     else push_bit 31 (ucast (of_bool b :: u16)) OR push_bit 23 E OR push_bit 13 ?M)"
    using assms(1) unfolding half_to_float_def Let_def and_masks by (simp add: b_def e_def k_def E_def del: of_int_add of_int_diff)
  show ?thesis
  proof (cases "e = 0")
    case True
    then have "h = push_bit 15 (of_bool b)" using assms h by (simp add: e_def k_def)
    moreover have "half_to_float h = (if b then 0x80000000 else 0)" using True ff by simp
    moreover have "float_to_half 0x80000000 = 0x8000" "float_to_half 0 = 0" by code_simp+
    ultimately show ?thesis by (cases b) simp_all
  next
    case False
    then have "uint e \<noteq> 0" "uint e \<noteq> 31" using assms(1) by (auto simp: e_def word_uint_eq_iff)
    then have "112 < uint E" "uint E < 143" using eb uE by (auto simp: order_less_le)
    note f = float_to_half_fields [OF E M this, of b]
    have "ucast (push_bit 15 (of_bool b :: u32) OR push_bit 10 (word_of_int (uint E - 112)) OR ucast (ucast ?M :: u16))
        = push_bit 15 (of_bool b) OR push_bit 10 e OR k"
      unfolding uE by (rule bit_word_eqI) (auto simp: bit_simps)
    then show ?thesis using False f h by (cases b) (simp_all add: ff)
  qed
qed
subsection \<open>Byte order on the wire\<close>

lemma cell_be_bytes: "i < 8 * n \<Longrightarrow> cell (be_bytes n w) i = bit w (8 * n - 1 - i)"
proof (induction n arbitrary: w)
  case (Suc n)
  show ?case
  proof (cases "i < 8 * n")
    case True
    then show ?thesis using Suc.IH [of "drop_bit 8 w"] by (simp add: cell_append bit_simps)
  next
    case False
    then obtain j where j: "i = 8 * n + j" "j < 8" using Suc.prems by (metis add_diff_inverse_nat mult_Suc_right nat_add_left_cancel_less add.commute)
    have "cell (be_bytes n (drop_bit 8 w) @ [ucast w]) (8 * length (be_bytes n (drop_bit 8 w)) + j) = cell [ucast w] j"
      by (rule cell_append_right)
    then show ?thesis using j by (auto simp: cell_def bit_simps)
  qed
qed simp

lemma bs_span_write_bits:
  "bs_span (write_bits bs_empty v (8 * n)) = be_bytes n v"
proof (rule bytes_eq_cells)
  let ?s = "write_bits bs_empty v (8 * n)"
  have ok: "bs_ok ?s" and b: "bits ?s = msb_bits (8 * n) v" and w: "write_bit_pos ?s = 8 * n"
    by (simp_all add: write_bits_ok write_pos_write_bits)
  then have sp: "bs_span ?s = buffer ?s" "length (buffer ?s) = n" by (auto simp: bs_span_def byte_count_def bs_ok_def)
  show "length (bs_span ?s) = length (be_bytes n v)" by (simp add: sp)
  fix i assume "i < 8 * length (bs_span ?s)"
  then have i: "i < 8 * n" by (simp add: sp)
  have "cell (buffer ?s) i = bits ?s ! i" using i w by (simp del: nth_bits add: bits_def)
  then show "cell (bs_span ?s) i = cell (be_bytes n v) i" using i
    by (simp add: sp b cell_be_bytes) (simp add: msb_bits_def rev_nth)
qed

lemma be_bytes_4_ucast: "be_bytes 4 (ucast (v :: u32) :: u64) = be_bytes 4 v"
proof -
  have "ucast (drop_bit k (ucast v :: u64)) = (ucast (drop_bit k v) :: u8)" for k
    by (rule bit_word_eqI) (auto simp: bit_simps dest: bit_imp_le_length)
  moreover have "ucast (ucast v :: u64) = (ucast v :: u8)"
    by (rule bit_word_eqI) (auto simp: bit_simps)
  ultimately show ?thesis unfolding be_bytes_4 by simp
qed

lemma bs_span_write_uint32: "bs_span (write_uint32 en bs_empty v) = be_bytes 4 (to_net32 en v)"
  using bs_span_write_bits [of "ucast (to_net32 en v)" 4] by (simp add: write_uint32_def be_bytes_4_ucast)

subsection \<open>Properties of the stream\<close>

text \<open>C14: \<open>BitStream::write_bits\<close> is an append: on a well-formed stream it adds exactly the low \<open>n\<close>
  bits of the value, most significant first, to the bits already written, keeps the class invariant and
  the read cursor, and a \<open>read_bits\<close> of the same width placed there gives the value back truncated to
  \<open>n\<close> bits.\<close>
theorem write_bits_append_read:
  assumes "bs_ok s"
  shows "bits (write_bits s v n) = bits s @ msb_bits n v \<and> bs_ok (write_bits s v n)
    \<and> read_bit_pos (write_bits s v n) = read_bit_pos s
    \<and> fst (read_bits ((write_bits s v n)\<lparr>read_bit_pos := write_bit_pos s\<rparr>) n) = Some (take_bit n v)"
proof -
  have "bs_ok ((write_bits s v n)\<lparr>read_bit_pos := write_bit_pos s\<rparr>)"
    using assms by (intro bs_ok_read_pos) (simp_all add: write_bits_ok write_pos_write_bits)
  from read_bits_eq [OF this, of n] show ?thesis
    using assms by (simp add: write_bits_ok write_pos_write_bits of_msb_msb_bits)
qed

lemma write_bits_append_read_witness:
  "fst (read_bits ((write_bits bs_empty 0x2D 6)\<lparr>read_bit_pos := write_bit_pos bs_empty\<rparr>) 6) = Some (take_bit 6 0x2D)"
  using write_bits_append_read [of bs_empty, where v = "0x2D" and n = 6] by simp

text \<open>C13: a message of several fields survives the wire: a flag, a varint, a string of at most 65535
  bytes and a float written one after the other, sent as the bytes of \<open>span()\<close> and parsed by a fresh
  stream in the same order, come back unchanged, alignment padding included.\<close>
theorem message_roundtrip:
  assumes "length str \<le> 65535"
  shows "fst (des_pair deserialize_bool (des_pair read_varint (des_pair deserialize_string (deserialize_float en)))
      (bs_of_span (bs_span (ser_pair serialize_bool (ser_pair write_varint
         (ser_pair serialize_string (serialize_float en))) bs_empty (b, n, str, f)))))
    = Some (b, n, str, f)"
proof -
  have "codec (ser_pair serialize_bool (ser_pair write_varint (ser_pair serialize_string (serialize_float en))))
    (des_pair deserialize_bool (des_pair read_varint (des_pair deserialize_string (deserialize_float en))))
    (\<lambda>p. True \<and> True \<and> length (fst (snd (snd p))) \<le> 65535 \<and> True)"
    by (intro codec_pair codec_varint) unfold_locales
  from codec.packet_roundtrip [OF this] assms show ?thesis by simp
qed

lemma message_roundtrip_witness:
  "fst (des_pair deserialize_bool (des_pair read_varint (des_pair deserialize_string (deserialize_float Little)))
      (bs_of_span (bs_span (ser_pair serialize_bool (ser_pair write_varint
         (ser_pair serialize_string (serialize_float Little))) bs_empty (True, 300, [104, 105], 0x3F800000)))))
    = Some (True, 300, [104, 105], 0x3F800000)"
  using message_roundtrip [where str = "[104, 105]"] by simp

text \<open>a \<open>std::vector\<close> of at most 1,000,000 integers, the sanity limit of \<open>deserialize\<close>, survives the
  wire between hosts of one byte order.\<close>
theorem vector_roundtrip:
  assumes "length xs \<le> 1000000"
  shows "fst (deserialize_vector (deserialize_uint32 en)
    (bs_of_span (bs_span (serialize_vector (serialize_uint32 en) bs_empty xs)))) = Some xs"
  using u32_vector_codec.packet_roundtrip assms by simp

lemma vector_roundtrip_witness:
  "fst (deserialize_vector (deserialize_uint32 Little)
    (bs_of_span (bs_span (serialize_vector (serialize_uint32 Little) bs_empty [7, 0xFFFFFFFF])))) = Some [7, 0xFFFFFFFF]"
  using vector_roundtrip [of "[7, 0xFFFFFFFF]" Little] by simp

text \<open>C15: parsing is safe on any bytes: a \<open>deserialize\<close> of a string or of a vector of 32-bit integers run on an arbitrary
  packet never moves the cursor past the end of the packet and changes nothing else of the stream, and
  what it accepts is within the limits (65535 bytes, 1,000,000 elements).\<close>
theorem untrusted_parse_safe:
  "cursor_moves (bs_of_span d) (snd (deserialize_string (bs_of_span d)))
   \<and> cursor_moves (bs_of_span d) (snd (deserialize_vector (deserialize_uint32 en) (bs_of_span d)))
   \<and> pred_option (\<lambda>str. length str \<le> 65535) (fst (deserialize_string (bs_of_span d)))
   \<and> pred_option (\<lambda>xs. length xs \<le> 1000000) (fst (deserialize_vector (deserialize_uint32 en) (bs_of_span d)))"
proof -
  have "pred_option (\<lambda>str. length str \<le> 65535) (fst (deserialize_string s))" for s
    by (auto simp: deserialize_string_def read_string_def read_bytes_def word_less_nat_alt
        split: prod.splits option.splits bool.splits)
  moreover have "pred_option (\<lambda>xs. length xs \<le> 1000000) (fst (deserialize_vector (deserialize_uint32 en) s))" for s
    by (auto simp: deserialize_vector_def word_less_nat_alt pred_option_def
        split: prod.splits option.splits dest!: read_elems_length')
  ultimately show ?thesis
    using string_reader.moves [OF bs_ok_of_span] u32_vector_reader.moves [OF bs_ok_of_span] by simp
qed

text \<open>the wire order of the integers is the host's, not the network's: on a little-endian host
  \<open>write_uint32\<close> swaps the bytes and then writes the swapped value most significant bit first, so the
  packet holds the value least significant byte first; a big-endian host writes it most significant
  byte first, and reads a packet of the other kind byte-reversed.\<close>
theorem uint32_wire_order:
  "bs_span (write_uint32 Little bs_empty v) = le_bytes 4 v
   \<and> bs_span (write_uint32 Big bs_empty v) = be_bytes 4 v
   \<and> fst (read_uint32 Big (bs_of_span (bs_span (write_uint32 Little bs_empty v)))) = Some (of_be (le_bytes 4 v))"
proof -
  have n: "to_net32 Little v = of_be (le_bytes 4 v)" "to_net32 Big v = v" for v
    by (simp_all add: to_net32_Little of_le_def le_bytes_def) (simp add: to_net32_def)
  have "be_bytes 4 (of_be (le_bytes 4 v) :: u32) = le_bytes 4 v"
    using be_bytes_of_be [of "le_bytes 4 v", where 'a = 32] by simp
  moreover have "write_uint32 Little bs_empty v = write_uint32 Big bs_empty (to_net32 Little v)"
    unfolding write_uint32_def by (simp add: n(2))
  ultimately show ?thesis
    using codec.packet_roundtrip [OF codec_uint32 [of Big], of "to_net32 Little v"]
    by (simp add: bs_span_write_uint32 n)
qed

text \<open>the half-precision conversion loses nothing it can represent: a half that is zero or normal
  (every exponent but the subnormal 0 with a mantissa and the all-ones one), widened to a float by
  \<open>read_half\<close>, is narrowed back to itself by \<open>write_half\<close>.\<close>
theorem half_roundtrip:
  fixes h :: u16
  assumes "drop_bit 10 h AND 0x1F \<noteq> 0x1F" "drop_bit 10 h AND 0x1F \<noteq> 0 \<or> h AND 0x3FF = 0"
  shows "float_to_half (half_to_float h) = h"
  using half_exact [of h] assms unfolding and_masks by blast

lemma half_roundtrip_witness: "float_to_half (half_to_float 0x3C01) = 0x3C01"
  by (rule half_roundtrip) simp_all

end
