(* ===== verification/Packet.thy ===== *)
theory Packet
  imports Prelude
begin

text \<open>
  \<open>include/campello_net/transport/packet.hpp\<close> and \<open>src/transport/packet.cpp\<close>: the 16-byte header every
  datagram of the UDP transport starts with.

  \<open>packet_header\<close> is the struct with its fields at their widths; \<open>hdr_serialize\<close> returns the bytes the
  code stores into the buffer (\<open>None\<close> when it returns \<open>false\<close>). The lemmas show that the hand-written
  shifts are the big-endian codec of the prelude, that the header is a bijection with 16-byte strings,
  and that the two sub-fields of \<open>flags\<close> do not disturb each other.
\<close>

unbundle bit_operations_syntax

subsection \<open>Enumerations and the header\<close>

datatype reliability = Unreliable | ReliableOrdered | ReliableUnordered | UnreliableSequenced

fun rel_code :: "reliability \<Rightarrow> u8" where
  "rel_code Unreliable = 0"
| "rel_code ReliableOrdered = 1"
| "rel_code ReliableUnordered = 2"
| "rel_code UnreliableSequenced = 3"

definition rel_of_code :: "u8 \<Rightarrow> reliability" where
  "rel_of_code c = (if c = 0 then Unreliable else if c = 1 then ReliableOrdered
     else if c = 2 then ReliableUnordered else UnreliableSequenced)"

datatype packet_type = PtUser | PtHandshake | PtDisconnect | PtAck | PtFragment

fun pt_code :: "packet_type \<Rightarrow> u8" where
  "pt_code PtUser = 0"
| "pt_code PtHandshake = 1"
| "pt_code PtDisconnect = 2"
| "pt_code PtAck = 3"
| "pt_code PtFragment = 4"

definition PROTOCOL_ID :: u16 where "PROTOCOL_ID = 0xCA17"
definition HDR_SIZE :: nat where "HDR_SIZE = 16"
definition MAX_PACKET_SIZE :: nat where "MAX_PACKET_SIZE = 1200"
definition MAX_PAYLOAD_SIZE :: nat where "MAX_PAYLOAD_SIZE = MAX_PACKET_SIZE - HDR_SIZE"

record packet_header =
  protocol_id :: u16
  packet_type :: u8
  flags :: u8
  sequence :: u16
  ack :: u16
  ack_bits :: u32
  payload_len :: u16
  frag_index :: u8
  frag_count :: u8

definition default_header :: packet_header where
  "default_header = \<lparr>protocol_id = PROTOCOL_ID, packet_type = 0, flags = 0, sequence = 0, ack = 0,
     ack_bits = 0, payload_len = 0, frag_index = 0, frag_count = 0\<rparr>"

subsection \<open>Flags\<close>

definition hdr_reliability :: "packet_header \<Rightarrow> reliability" where
  "hdr_reliability h = rel_of_code (drop_bit 2 (flags h) AND 0x3)"

definition hdr_channel :: "packet_header \<Rightarrow> u8" where
  "hdr_channel h = flags h AND 0x3"

definition set_reliability :: "packet_header \<Rightarrow> reliability \<Rightarrow> packet_header" where
  "set_reliability h r = h\<lparr>flags := (flags h AND 0x3) OR push_bit 2 (rel_code r AND 0x3)\<rparr>"

definition set_channel :: "packet_header \<Rightarrow> u8 \<Rightarrow> packet_header" where
  "set_channel h ch = h\<lparr>flags := (flags h AND NOT 0x3) OR (ch AND 0x3)\<rparr>"

subsection \<open>Wire format\<close>

definition hdr_serialize :: "packet_header \<Rightarrow> nat \<Rightarrow> bytes option" where
  "hdr_serialize h max_len =
     (if max_len < HDR_SIZE then None
      else Some
        [ucast (drop_bit 8 (protocol_id h)), ucast (protocol_id h AND 0xFF),
         packet_type h, flags h,
         ucast (drop_bit 8 (sequence h)), ucast (sequence h AND 0xFF),
         ucast (drop_bit 8 (ack h)), ucast (ack h AND 0xFF),
         ucast (drop_bit 24 (ack_bits h)), ucast (drop_bit 16 (ack_bits h)),
         ucast (drop_bit 8 (ack_bits h)), ucast (ack_bits h AND 0xFF),
         ucast (drop_bit 8 (payload_len h)), ucast (payload_len h AND 0xFF),
         frag_index h, frag_count h])"

definition hdr_deserialize :: "bytes \<Rightarrow> nat \<Rightarrow> packet_header option" where
  "hdr_deserialize b len =
     (if len < HDR_SIZE then None
      else Some \<lparr>protocol_id = push_bit 8 (ucast (b ! 0)) OR ucast (b ! 1),
                 packet_type = b ! 2,
                 flags = b ! 3,
                 sequence = push_bit 8 (ucast (b ! 4)) OR ucast (b ! 5),
                 ack = push_bit 8 (ucast (b ! 6)) OR ucast (b ! 7),
                 ack_bits = push_bit 24 (ucast (b ! 8)) OR push_bit 16 (ucast (b ! 9))
                            OR push_bit 8 (ucast (b ! 10)) OR ucast (b ! 11),
                 payload_len = push_bit 8 (ucast (b ! 12)) OR ucast (b ! 13),
                 frag_index = b ! 14,
                 frag_count = b ! 15\<rparr>)"

subsection \<open>Lemmas\<close>

text \<open>The header is the concatenation of big-endian fields.\<close>

lemma hdr_serialize_be [wire_simps]:
  "hdr_serialize h n = (if n < HDR_SIZE then None
     else Some (be_bytes 2 (protocol_id h) @ [packet_type h, flags h] @ be_bytes 2 (sequence h)
       @ be_bytes 2 (ack h) @ be_bytes 4 (ack_bits h) @ be_bytes 2 (payload_len h) @ [frag_index h, frag_count h]))"
  by (simp add: hdr_serialize_def be_bytes_2 be_bytes_4 ucast_and_255)

lemma hdr_deserialize_be [wire_simps]:
  "hdr_deserialize [b0,b1,b2,b3,b4,b5,b6,b7,b8,b9,b10,b11,b12,b13,b14,b15] 16 = Some
     \<lparr>protocol_id = of_be [b0,b1], packet_type = b2, flags = b3, sequence = of_be [b4,b5], ack = of_be [b6,b7],
      ack_bits = of_be [b8,b9,b10,b11], payload_len = of_be [b12,b13], frag_index = b14, frag_count = b15\<rparr>"
  by (simp add: hdr_deserialize_def HDR_SIZE_def of_be_2 of_be_4)

lemma hdr_serialize_length: "hdr_serialize h n = Some b \<Longrightarrow> length b = 16"
  by (auto simp: hdr_serialize_be split: if_splits)

lemma hdr_deserialize_serialize:
  assumes "hdr_serialize h n = Some b" shows "hdr_deserialize (b @ p) 16 = Some h"
proof -
  have f: "of_be (be_bytes 2 v) = v" for v :: u16 by (simp add: of_be_be_bytes_full)
  have g: "of_be (be_bytes 4 v) = v" for v :: u32 by (simp add: of_be_be_bytes_full)
  have "b = be_bytes 2 (protocol_id h) @ [packet_type h, flags h] @ be_bytes 2 (sequence h)
       @ be_bytes 2 (ack h) @ be_bytes 4 (ack_bits h) @ be_bytes 2 (payload_len h) @ [frag_index h, frag_count h]"
    using assms by (simp add: hdr_serialize_be split: if_splits)
  then show ?thesis
    using f [of "protocol_id h"] f [of "sequence h"] f [of "ack h"] f [of "payload_len h"] g [of "ack_bits h"]
    by (simp add: hdr_deserialize_def HDR_SIZE_def be_bytes_2 be_bytes_4 of_be_2 of_be_4 nth_append)
qed

lemma list16_cases:
  assumes "length b = 16"
  obtains b0 b1 b2 b3 b4 b5 b6 b7 b8 b9 b10 b11 b12 b13 b14 b15
  where "b = [b0,b1,b2,b3,b4,b5,b6,b7,b8,b9,b10,b11,b12,b13,b14,b15]"
  using assms by (auto simp: numeral_eq_Suc length_Suc_conv)

lemma hdr_serialize_deserialize:
  assumes "length b = 16" "hdr_deserialize b 16 = Some h" shows "hdr_serialize h 16 = Some b"
proof -
  have f: "be_bytes 2 (of_be [x, y] :: u16) = [x, y]" for x y using be_bytes_of_be [of "[x, y]" 2, where 'a = 16] by simp
  have g: "be_bytes 4 (of_be [x, y, z, w] :: u32) = [x, y, z, w]" for x y z w
    using be_bytes_of_be [of "[x, y, z, w]" 4, where 'a = 32] by simp
  from assms(1) show ?thesis
    by (rule list16_cases) (use assms(2) in \<open>auto simp: hdr_deserialize_be hdr_serialize_be HDR_SIZE_def f g\<close>)
qed

lemma low2_bits:
  fixes x y :: u8
  shows "(x AND 0x3 OR push_bit 2 (y AND 0x3)) AND 0x3 = x AND 0x3"
    "drop_bit 2 (x AND 0x3 OR push_bit 2 (y AND 0x3)) AND 0x3 = y AND 0x3"
    "(x AND NOT 0x3 OR (y AND 0x3)) AND 0x3 = y AND 0x3"
    "drop_bit 2 (x AND NOT 0x3 OR (y AND 0x3)) = drop_bit 2 x"
proof -
  have m: "(0x3::u8) = mask 2" by (simp add: mask_eq_exp_minus_1)
  show "(x AND 0x3 OR push_bit 2 (y AND 0x3)) AND 0x3 = x AND 0x3"
    unfolding m by (rule bit_word_eqI) (auto simp: bit_simps)
  show "drop_bit 2 (x AND 0x3 OR push_bit 2 (y AND 0x3)) AND 0x3 = y AND 0x3"
    unfolding m by (rule bit_word_eqI) (auto simp: bit_simps)
  show "(x AND NOT 0x3 OR (y AND 0x3)) AND 0x3 = y AND 0x3"
    unfolding m by (rule bit_word_eqI) (auto simp: bit_simps)
  show "drop_bit 2 (x AND NOT 0x3 OR (y AND 0x3)) = drop_bit 2 x"
    unfolding m by (rule bit_word_eqI) (auto simp: bit_simps dest: bit_imp_le_length)
qed

lemma rel_code_and3: "rel_code r AND 0x3 = rel_code r"
  by (cases r) simp_all

lemma rel_of_rel_code [simp]: "rel_of_code (rel_code r) = r"
  by (cases r) (simp_all add: rel_of_code_def)

lemma flags_upd: "flags (h\<lparr>flags := x\<rparr>) = x"
  by simp

lemma flags_laws [simp]:
  "hdr_reliability (set_reliability h r) = r"
  "hdr_channel (set_reliability h r) = hdr_channel h"
  "hdr_channel (set_channel h ch) = ch AND 0x3"
  "hdr_reliability (set_channel h ch) = hdr_reliability h"
  unfolding hdr_reliability_def hdr_channel_def set_reliability_def set_channel_def flags_upd low2_bits
  unfolding rel_code_and3 rel_of_rel_code by (rule refl)+

text \<open>The two sub-fields are read off \<open>flags\<close> alone.\<close>

lemma hdr_flags_only [simp]:
  "hdr_channel (h\<lparr>packet_type := x\<rparr>) = hdr_channel h" "hdr_reliability (h\<lparr>packet_type := x\<rparr>) = hdr_reliability h"
  "hdr_channel (h\<lparr>sequence := y\<rparr>) = hdr_channel h" "hdr_reliability (h\<lparr>sequence := y\<rparr>) = hdr_reliability h"
  "hdr_channel (h\<lparr>ack := y\<rparr>) = hdr_channel h" "hdr_reliability (h\<lparr>ack := y\<rparr>) = hdr_reliability h"
  "hdr_channel (h\<lparr>ack_bits := z\<rparr>) = hdr_channel h" "hdr_reliability (h\<lparr>ack_bits := z\<rparr>) = hdr_reliability h"
  "hdr_channel (h\<lparr>payload_len := y\<rparr>) = hdr_channel h" "hdr_reliability (h\<lparr>payload_len := y\<rparr>) = hdr_reliability h"
  "hdr_channel (h\<lparr>frag_index := x\<rparr>) = hdr_channel h" "hdr_reliability (h\<lparr>frag_index := x\<rparr>) = hdr_reliability h"
  "hdr_channel (h\<lparr>frag_count := x\<rparr>) = hdr_channel h" "hdr_reliability (h\<lparr>frag_count := x\<rparr>) = hdr_reliability h"
  by (simp_all add: hdr_channel_def hdr_reliability_def)

text \<open>the packet header is a faithful wire format: what \<open>serialize\<close> writes is 16 bytes, \<open>deserialize\<close> of
  a datagram that begins with them returns the header whatever follows, and every 16-byte string is the
  encoding of exactly the header \<open>deserialize\<close> returns for it, so no bit of the wire is lost or ignored.\<close>
theorem header_bijection:
  assumes "16 \<le> n" "length c = 16"
  shows "(\<exists>b. hdr_serialize h n = Some b \<and> length b = 16 \<and> hdr_deserialize (b @ p) 16 = Some h)
    \<and> (\<exists>k. hdr_deserialize c 16 = Some k \<and> hdr_serialize k 16 = Some c)"
proof -
  obtain b where "hdr_serialize h n = Some b" using assms(1) by (simp add: hdr_serialize_def HDR_SIZE_def)
  moreover obtain k where "hdr_deserialize c 16 = Some k" by (simp add: hdr_deserialize_def HDR_SIZE_def)
  ultimately show ?thesis
    using assms(2) hdr_serialize_deserialize hdr_serialize_length hdr_deserialize_serialize by blast
qed

lemma header_bijection_witness:
  "(\<exists>b. hdr_serialize default_header 1200 = Some b \<and> length b = 16 \<and> hdr_deserialize (b @ [1, 2]) 16 = Some default_header)
   \<and> (\<exists>k. hdr_deserialize (replicate 16 7) 16 = Some k \<and> hdr_serialize k 16 = Some (replicate 16 7))"
  using header_bijection [of 1200 "replicate 16 7" default_header "[1, 2]"] by simp

end
