(* ===== verification/Address.thy ===== *)
theory Address
  imports Prelude "HOL-Library.List_Lexorder"
begin

text \<open>
  \<open>include/campello_net/transport/address.hpp\<close> and \<open>src/transport/address.cpp\<close>: the endpoint of a peer.

  \<^item> \<open>sockaddr\<close> is what the 128-byte \<open>storage_\<close> holds: the zero bytes of a default address, a
    \<open>sockaddr_in6\<close>, a \<open>sockaddr_in\<close>, or a socket address of another family. A port is in host order;
    an IP address is its bytes in network order.
  \<^item> the operating system's \<open>getaddrinfo\<close>, \<open>inet_pton\<close> and \<open>inet_ntop\<close> are parameters.
  \<^item> the second half is the WASM variant of the class, a host string and a port.

  The lemmas show that \<open>operator<\<close> and \<open>operator==\<close> agree with one linear order on the well-formed
  addresses, which is what the ordered containers keyed by an address rely on.
\<close>

subsection \<open>Native addresses\<close>

datatype sockaddr =
    SaUnset
  | SaV6 (v6_port: u16) (v6_flow: u32) (v6_addr: bytes) (v6_scope: u32)
  | SaV4 (v4_port: u16) (v4_addr: bytes)
  | SaOther nat

record address =
  valid :: bool
  storage :: sockaddr
  storage_len :: nat

fun sa_family :: "sockaddr \<Rightarrow> nat" where
  "sa_family SaUnset = 0"
| "sa_family (SaV4 p b) = 2"
| "sa_family (SaV6 p f b s) = 10"
| "sa_family (SaOther k) = k"

definition addr_default :: address where
  "addr_default = \<lparr>valid = False, storage = SaUnset, storage_len = 0\<rparr>"

definition addr_any :: "(u16 \<Rightarrow> (sockaddr \<times> nat) option) \<Rightarrow> (u16 \<Rightarrow> (sockaddr \<times> nat) option) \<Rightarrow> u16 \<Rightarrow> address" where
  "addr_any gai6 gai4 port =
     (case gai6 port of
        Some (sa, len) \<Rightarrow> \<lparr>valid = True, storage = sa, storage_len = len\<rparr>
      | None \<Rightarrow>
          (case gai4 port of
             Some (sa, len) \<Rightarrow> \<lparr>valid = True, storage = sa, storage_len = len\<rparr>
           | None \<Rightarrow> addr_default))"

definition addr_parse :: "(string \<Rightarrow> bytes option) \<Rightarrow> (string \<Rightarrow> bytes option) \<Rightarrow> string \<Rightarrow> u16 \<Rightarrow> address" where
  "addr_parse pton4 pton6 ip port =
     (if CHR '':'' \<notin> set ip
      then (case pton4 ip of
              Some b \<Rightarrow> \<lparr>valid = True, storage = SaV6 port 0 (replicate 10 0 @ [0xFF, 0xFF] @ b) 0, storage_len = 28\<rparr>
            | None \<Rightarrow> addr_default)
      else (case pton6 ip of
              Some b \<Rightarrow> \<lparr>valid = True, storage = SaV6 port 0 b 0, storage_len = 28\<rparr>
            | None \<Rightarrow> addr_default))"

definition addr_port :: "address \<Rightarrow> u16" where
  "addr_port a =
     (if \<not> valid a then 0
      else (case storage a of SaV6 p _ _ _ \<Rightarrow> p | SaV4 p _ \<Rightarrow> p | _ \<Rightarrow> 0))"

definition is_v4_mapped :: "bytes \<Rightarrow> bool" where
  "is_v4_mapped b \<longleftrightarrow> b ! 0 = 0 \<and> b ! 1 = 0 \<and> b ! 2 = 0 \<and> b ! 3 = 0 \<and> b ! 4 = 0 \<and> b ! 5 = 0 \<and> b ! 6 = 0
     \<and> b ! 7 = 0 \<and> b ! 8 = 0 \<and> b ! 9 = 0 \<and> b ! 10 = 0xFF \<and> b ! 11 = 0xFF"

definition addr_ip :: "(bytes \<Rightarrow> string) \<Rightarrow> (bytes \<Rightarrow> string) \<Rightarrow> address \<Rightarrow> string" where
  "addr_ip ntop4 ntop6 a =
     (if \<not> valid a then ''''
      else (case storage a of
              SaV6 _ _ b _ \<Rightarrow> if is_v4_mapped b then ntop4 (drop 12 b) else ntop6 b
            | _ \<Rightarrow> ''''))"

fun decimal :: "nat \<Rightarrow> string" where
  "decimal n = (if n < 10 then [char_of (48 + n)] else decimal (n div 10) @ [char_of (48 + n mod 10)])"

declare decimal.simps [simp del]

definition addr_to_string :: "(bytes \<Rightarrow> string) \<Rightarrow> (bytes \<Rightarrow> string) \<Rightarrow> address \<Rightarrow> string" where
  "addr_to_string ntop4 ntop6 a = addr_ip ntop4 ntop6 a @ '':'' @ decimal (unat (addr_port a))"

definition addr_eq :: "address \<Rightarrow> address \<Rightarrow> bool" where
  "addr_eq a b =
     (if valid a \<noteq> valid b then False
      else if \<not> valid a then True
      else if sa_family (storage a) \<noteq> sa_family (storage b) then False
      else (case (storage a, storage b) of
              (SaV6 p _ x _, SaV6 q _ y _) \<Rightarrow> p = q \<and> x = y
            | (SaV4 p x, SaV4 q y) \<Rightarrow> p = q \<and> x = y
            | _ \<Rightarrow> False))"

definition addr_ne :: "address \<Rightarrow> address \<Rightarrow> bool" where
  "addr_ne a b \<longleftrightarrow> \<not> addr_eq a b"

text \<open>\<open>std::memcmp\<close> of two byte strings of one length.\<close>

fun memcmp :: "bytes \<Rightarrow> bytes \<Rightarrow> int" where
  "memcmp (x # xs) (y # ys) = (if x = y then memcmp xs ys else uint x - uint y)"
| "memcmp _ _ = 0"

definition s_addr :: "endian \<Rightarrow> bytes \<Rightarrow> u32" where
  "s_addr en b = (if en = Big then of_be b else of_le b)"

definition addr_less :: "endian \<Rightarrow> address \<Rightarrow> address \<Rightarrow> bool" where
  "addr_less en a b =
     (if valid a \<noteq> valid b then \<not> valid a
      else if sa_family (storage a) \<noteq> sa_family (storage b)
      then sa_family (storage a) < sa_family (storage b)
      else (case (storage a, storage b) of
              (SaV6 p _ x _, SaV6 q _ y _) \<Rightarrow> if p \<noteq> q then p < q else memcmp x y < 0
            | (SaV4 p x, SaV4 q y) \<Rightarrow> if p \<noteq> q then p < q else s_addr en x < s_addr en y
            | _ \<Rightarrow> False))"

definition set_raw_storage :: "address \<Rightarrow> sockaddr \<Rightarrow> nat \<Rightarrow> address" where
  "set_raw_storage a sa len =
     (if len \<le> 128
      then \<lparr>valid = True,
            storage = (case sa of SaV6 p _ b _ \<Rightarrow> SaV6 p 0 b 0 | _ \<Rightarrow> sa),
            storage_len = len\<rparr>
      else a)"

subsection \<open>Addresses of the WASM build\<close>

record wasm_address =
  w_valid :: bool
  w_port :: u16
  w_host_len :: u8
  w_host :: bytes
  w_storage_len :: nat

definition wasm_any :: "u16 \<Rightarrow> wasm_address" where
  "wasm_any port = (let h = map (of_nat \<circ> of_char) ''0.0.0.0'' in
     \<lparr>w_valid = True, w_port = port, w_host_len = 7, w_host = h @ replicate (125 - 7) 0, w_storage_len = 128\<rparr>)"

definition wasm_parse :: "bytes \<Rightarrow> u16 \<Rightarrow> wasm_address" where
  "wasm_parse ip port =
     (let copy_len = min (length ip) 124
      in \<lparr>w_valid = True, w_port = port, w_host_len = of_nat copy_len,
          w_host = take copy_len ip @ replicate (125 - copy_len) 0, w_storage_len = 128\<rparr>)"

definition wasm_addr_port :: "wasm_address \<Rightarrow> u16" where
  "wasm_addr_port a = (if \<not> w_valid a then 0 else w_port a)"

definition wasm_ip :: "wasm_address \<Rightarrow> bytes" where
  "wasm_ip a = (if \<not> w_valid a then [] else take (unat (w_host_len a)) (w_host a))"

definition wasm_eq :: "wasm_address \<Rightarrow> wasm_address \<Rightarrow> bool" where
  "wasm_eq a b =
     (if w_valid a \<noteq> w_valid b then False
      else if \<not> w_valid a then True
      else w_port a = w_port b \<and> w_host_len a = w_host_len b
           \<and> memcmp (take (unat (w_host_len a)) (w_host a)) (take (unat (w_host_len a)) (w_host b)) = 0)"

definition wasm_less :: "wasm_address \<Rightarrow> wasm_address \<Rightarrow> bool" where
  "wasm_less a b =
     (if w_valid a \<noteq> w_valid b then \<not> w_valid a
      else if w_port a \<noteq> w_port b then w_port a < w_port b
      else let n = min (unat (w_host_len a)) (unat (w_host_len b));
               c = memcmp (take n (w_host a)) (take n (w_host b))
           in if c \<noteq> 0 then c < 0 else w_host_len a < w_host_len b)"

subsection \<open>Well-formed addresses and their order\<close>

text \<open>What the constructors and \<open>set_raw_storage\<close> build: the zero storage when invalid, an IPv4 or IPv6
  socket address with an address of its length when valid.\<close>

definition addr_ok :: "address \<Rightarrow> bool" where
  "addr_ok a \<longleftrightarrow>
     (if valid a then (case storage a of SaV6 _ _ b _ \<Rightarrow> length b = 16 | SaV4 _ b \<Rightarrow> length b = 4 | _ \<Rightarrow> False)
      else storage a = SaUnset)"

definition addr_key :: "endian \<Rightarrow> address \<Rightarrow> int list" where
  "addr_key en a =
     (if \<not> valid a then []
      else int (sa_family (storage a)) # (case storage a of
             SaV6 p _ b _ \<Rightarrow> uint p # map uint b | SaV4 p b \<Rightarrow> [uint p, uint (s_addr en b)] | _ \<Rightarrow> []))"

lemma memcmp_less:
  "length x = length y \<Longrightarrow> memcmp x y < 0 \<longleftrightarrow> map uint x < map uint y"
  by (induction x y rule: list_induct2) (auto simp: word_uint_eq_iff)

lemma memcmp_zero: "length x = length y \<Longrightarrow> memcmp x y = 0 \<longleftrightarrow> x = y"
  by (induction x y rule: list_induct2) (auto simp: word_uint_eq_iff)

lemma s_addr_inj: assumes "length x = 4" "length y = 4" shows "s_addr en x = s_addr en y \<longleftrightarrow> x = y"
proof -
  have "be_bytes 4 (of_be z :: u32) = z" "le_bytes 4 (of_le z :: u32) = z" if "length z = 4" for z
    using that be_bytes_of_be [of z 4, where 'a = 32] le_bytes_of_le [of z 4, where 'a = 32] by simp_all
  then show ?thesis unfolding s_addr_def using assms by metis
qed

lemma map_uint_inj: "map uint x = map uint y \<longleftrightarrow> x = (y :: bytes)"
  by (rule inj_map_eq_map) (simp add: inj_on_def word_uint_eq_iff)

lemma addr_ok_cases:
  assumes "addr_ok a"
  obtains "\<not> valid a" "storage a = SaUnset"
  | p f b s where "valid a" "storage a = SaV6 p f b s" "length b = 16"
  | p b where "valid a" "storage a = SaV4 p b" "length b = 4"
  using assms by (cases "storage a") (auto simp: addr_ok_def split: if_splits)

lemma addr_less_key:
  assumes "addr_ok a" "addr_ok b" shows "addr_less en a b \<longleftrightarrow> addr_key en a < addr_key en b"
  by (rule addr_ok_cases [OF assms(1)]; rule addr_ok_cases [OF assms(2)])
    (auto simp: addr_less_def addr_key_def memcmp_less word_less_alt word_uint_eq_iff)

lemma addr_eq_key:
  assumes "addr_ok a" "addr_ok b" shows "addr_eq a b \<longleftrightarrow> addr_key en a = addr_key en b"
  by (rule addr_ok_cases [OF assms(1)]; rule addr_ok_cases [OF assms(2)])
    (auto simp: addr_eq_def addr_key_def map_uint_inj s_addr_inj simp flip: word_uint_eq_iff)

lemma addr_ok_default [simp]: "addr_ok addr_default"
  by (simp add: addr_ok_def addr_default_def)

lemma addr_ok_parse:
  assumes "\<And>s b. pton4 s = Some b \<Longrightarrow> length b = 4" "\<And>s b. pton6 s = Some b \<Longrightarrow> length b = 16"
  shows "addr_ok (addr_parse pton4 pton6 ip port)"
  using assms by (auto simp: addr_ok_def addr_parse_def addr_default_def split: option.split)

lemma addr_ok_set_raw:
  assumes "case sa of SaV6 _ _ b _ \<Rightarrow> length b = 16 | SaV4 _ b \<Rightarrow> length b = 4 | _ \<Rightarrow> False" "len \<le> 128"
  shows "addr_ok (set_raw_storage a sa len)"
  using assms by (auto simp: addr_ok_def set_raw_storage_def split: sockaddr.splits)

lemma addr_eq_refl [simp]: "addr_ok a \<Longrightarrow> addr_eq a a"
  by (simp add: addr_eq_key [of a a Little])

lemma addr_eq_sym: "addr_ok a \<Longrightarrow> addr_ok b \<Longrightarrow> addr_eq a b \<longleftrightarrow> addr_eq b a"
  by (auto simp: addr_eq_key [of _ _ Little])

lemma addr_eq_trans: "addr_ok a \<Longrightarrow> addr_ok b \<Longrightarrow> addr_ok c \<Longrightarrow> addr_eq a b \<Longrightarrow> addr_eq b c \<Longrightarrow> addr_eq a c"
  by (auto simp: addr_eq_key [of _ _ Little])

text \<open>What a caller reads back from a parsed address: the port it gave and the canonical text of the IP
  address, for IPv4 through the IPv4-mapped IPv6 address the constructor stores.\<close>

lemma is_v4_mapped_prefix: "is_v4_mapped (replicate 10 0 @ [0xFF, 0xFF] @ b)"
  by (simp add: is_v4_mapped_def nth_append)

lemma addr_parse_v4:
  assumes "CHR '':'' \<notin> set ip" "pton4 ip = Some b"
  shows "addr_port (addr_parse pton4 pton6 ip port) = port \<and> addr_ip ntop4 ntop6 (addr_parse pton4 pton6 ip port) = ntop4 b"
  using assms is_v4_mapped_prefix [of b] by (simp add: addr_parse_def addr_port_def addr_ip_def)

lemma wasm_roundtrip:
  assumes "length ip \<le> 124" shows "wasm_addr_port (wasm_parse ip port) = port \<and> wasm_ip (wasm_parse ip port) = ip"
  using assms by (simp add: wasm_addr_port_def wasm_ip_def wasm_parse_def Let_def unat_of_nat_small)

lemma wasm_eq_parse:
  assumes "length x \<le> 124" "length y \<le> 124"
  shows "wasm_eq (wasm_parse x p) (wasm_parse y q) \<longleftrightarrow> x = y \<and> p = q"
proof -
  have u: "unat (of_nat (length z) :: u8) = length z" if "length z \<le> 124" for z :: bytes
    using that by (intro unat_of_nat_small) simp
  have "(of_nat (length x) :: u8) = of_nat (length y) \<longleftrightarrow> length x = length y"
    using u [OF assms(1)] u [OF assms(2)] by metis
  then show ?thesis using assms u [OF assms(1)]
    by (auto simp: wasm_eq_def wasm_parse_def Let_def memcmp_zero)
qed

text \<open>on well-formed addresses \<open>operator<\<close> is a strict linear order whose equality is \<open>operator==\<close>:
  it is irreflexive and transitive, and of two addresses exactly one of less, equal, greater holds.\<close>
theorem address_order:
  assumes "addr_ok a" "addr_ok b" "addr_ok c"
  shows "\<not> addr_less en a a
    \<and> (addr_less en a b \<and> addr_less en b c \<longrightarrow> addr_less en a c)
    \<and> (addr_eq a b \<longleftrightarrow> \<not> addr_less en a b \<and> \<not> addr_less en b a)
    \<and> \<not> (addr_less en a b \<and> addr_less en b a)"
  using assms by (auto simp: addr_less_key addr_eq_key [of a b en])

lemma address_order_witness:
  "addr_eq \<lparr>valid = True, storage = SaV6 9 0 (replicate 16 1) 0, storage_len = 28\<rparr>
     \<lparr>valid = True, storage = SaV6 9 5 (replicate 16 1) 3, storage_len = 28\<rparr>
   \<longleftrightarrow> \<not> addr_less Little \<lparr>valid = True, storage = SaV6 9 0 (replicate 16 1) 0, storage_len = 28\<rparr>
     \<lparr>valid = True, storage = SaV6 9 5 (replicate 16 1) 3, storage_len = 28\<rparr>
     \<and> \<not> addr_less Little \<lparr>valid = True, storage = SaV6 9 5 (replicate 16 1) 3, storage_len = 28\<rparr>
     \<lparr>valid = True, storage = SaV6 9 0 (replicate 16 1) 0, storage_len = 28\<rparr>"
  using address_order [of "\<lparr>valid = True, storage = SaV6 9 0 (replicate 16 1) 0, storage_len = 28\<rparr>"
      "\<lparr>valid = True, storage = SaV6 9 5 (replicate 16 1) 3, storage_len = 28\<rparr>" addr_default Little]
  by (simp add: addr_ok_def addr_default_def)

end
