(* ===== verification/Floats.thy ===== *)
theory Floats
  imports Prelude Complex_Main "HOL-Library.Log_Nat"
begin

text \<open>
  The C++ types \<open>float\<close> and \<open>double\<close>, as far as the sources compute with them.

  A finite floating-point value is the rational number it denotes, and every arithmetic operation
  of the sources is the exact operation on rationals followed by one rounding: \<open>f32\<close> rounds to
  the nearest number with a 24-bit significand (\<open>float\<close>), \<open>f64\<close> to the nearest one with a
  53-bit significand (\<open>double\<close>), ties to the even significand, as IEEE 754 prescribes. The
  exponent range is not bounded: the model says nothing about overflow to infinity, subnormal
  numbers and NaN. Where the sources only move the bits of a \<open>float\<close> around, the component
  theories use its 32-bit pattern instead.
\<close>

subsection \<open>Rounding to an integer, ties to even\<close>

definition rne :: "rat \<Rightarrow> int" where
  "rne x = (let n = \<lfloor>x\<rfloor>; d = x - of_int n in
     if d < 1/2 then n else if 1/2 < d then n + 1 else if even n then n else n + 1)"

lemma rne_of_int [simp]: "rne (of_int n) = n"
  by (simp add: rne_def)

lemma rne_bounds: "of_int (rne x) \<le> x + 1/2" "x - 1/2 \<le> of_int (rne x)"
  by (auto simp: rne_def Let_def) (use of_int_floor_le [of x] floor_correct [of x] in linarith)+

lemma rne_mono: assumes "x \<le> y" shows "rne x \<le> rne y"
proof (cases "\<lfloor>x\<rfloor> = \<lfloor>y\<rfloor>")
  case True
  then show ?thesis using assms by (auto simp: rne_def Let_def)
next
  case False
  then have "\<lfloor>x\<rfloor> + 1 \<le> \<lfloor>y\<rfloor>" using assms floor_mono [of x y] by linarith
  moreover have "rne x \<le> \<lfloor>x\<rfloor> + 1" by (simp add: rne_def Let_def)
  moreover have "\<lfloor>y\<rfloor> \<le> rne y" by (simp add: rne_def Let_def)
  ultimately show ?thesis by linarith
qed

lemma rne_le_int: "x \<le> of_int n \<Longrightarrow> rne x \<le> n"
  using rne_mono [of x "of_int n"] by simp

lemma int_le_rne: "of_int n \<le> x \<Longrightarrow> n \<le> rne x"
  using rne_mono [of "of_int n" x] by simp

subsection \<open>The exponent of a positive rational\<close>

lemma pow2_less_iff [simp]: "(2::rat) powi a < 2 powi b \<longleftrightarrow> a < b"
  by (metis linorder_not_less one_less_numeral_iff power_int_increasing power_int_strict_increasing
      semiring_norm(76) less_imp_le)

lemma pow2_le_iff [simp]: "(2::rat) powi a \<le> 2 powi b \<longleftrightarrow> a \<le> b"
  by (simp flip: linorder_not_less)

lemma pow2_pos [simp]: "0 < (2::rat) powi a"
  by simp

definition fexp :: "rat \<Rightarrow> int" where
  "fexp x = (let (a, b) = quotient_of x; e = bitlen a - bitlen b
     in if 2 powi e \<le> x then e else e - 1)"

lemma powi_diff_bitlen:
  assumes "0 < a" "0 < b"
  shows "(2::rat) powi (bitlen a - bitlen b - 1) \<le> of_int a / of_int b"
    and "of_int a / of_int b < (2::rat) powi (bitlen a - bitlen b + 1)"
proof -
  let ?A = "bitlen a" and ?B = "bitlen b"
  have pos: "1 \<le> ?A" "1 \<le> ?B"
    using assms bitlen_ge_iff_power [of 1 a] bitlen_ge_iff_power [of 1 b] by auto
  have le: "(2::int) ^ nat (?A - 1) \<le> a" "a < 2 ^ nat ?A" "2 ^ nat (?B - 1) \<le> b" "b < 2 ^ nat ?B"
    using assms bitlen_bounds by blast+
  have conv: "of_int (2 ^ nat k) = (2::rat) powi k" if "0 \<le> k" for k
    using that by (simp add: power_int_def)
  have r: "(2::rat) powi (?A - 1) \<le> of_int a" "of_int a < (2::rat) powi ?A"
    "(2::rat) powi (?B - 1) \<le> of_int b" "of_int b < (2::rat) powi ?B"
    using le pos by (simp_all flip: conv)
  have b0: "0 < (of_int b :: rat)" using assms by simp
  have "(2::rat) powi (?A - ?B - 1) = 2 powi (?A - 1) / 2 powi ?B"
    by (simp add: power_int_diff power_int_add)
  also have "\<dots> \<le> of_int a / of_int b" using r b0 assms by (intro frac_le) auto
  finally show "(2::rat) powi (?A - ?B - 1) \<le> of_int a / of_int b" .
  have "of_int a / of_int b < (2::rat) powi ?A / 2 powi (?B - 1)"
    using r b0 assms by (intro frac_less) auto
  also have "\<dots> = (2::rat) powi (?A - ?B + 1)"
    by (simp add: power_int_diff power_int_add)
  finally show "of_int a / of_int b < (2::rat) powi (?A - ?B + 1)" .
qed

lemma fexp_bounds:
  assumes "0 < x" shows "2 powi fexp x \<le> x" "x < 2 powi (fexp x + 1)"
proof -
  obtain a b where q: "quotient_of x = (a, b)" by fastforce
  have b: "0 < b" using q by (rule quotient_of_denom_pos)
  have x: "x = of_int a / of_int b" using q by (rule quotient_of_div)
  have a: "0 < a" using assms b by (simp add: x zero_less_divide_iff)
  note pd = powi_diff_bitlen [OF a b, folded x]
  show "2 powi fexp x \<le> x" using pd by (simp add: fexp_def q Let_def)
  show "x < 2 powi (fexp x + 1)" using pd by (auto simp: fexp_def q Let_def)
qed

lemma fexp_unique:
  assumes "2 powi e \<le> x" "x < 2 powi (e + 1)" shows "fexp x = e"
proof -
  have x: "0 < x" using assms(1) by (rule less_le_trans [rotated]) simp
  note fb = fexp_bounds [OF x]
  have "(2::rat) powi fexp x < 2 powi (e + 1)" using fb assms by linarith
  moreover have "(2::rat) powi e < 2 powi (fexp x + 1)" using fb assms by linarith
  ultimately show ?thesis by simp
qed

lemma fexp_mono: assumes "0 < x" "x \<le> y" shows "fexp x \<le> fexp y"
proof -
  have "(2::rat) powi fexp x < 2 powi (fexp y + 1)"
    using fexp_bounds [of x] fexp_bounds [of y] assms by linarith
  then show ?thesis by simp
qed

subsection \<open>Rounding to a significand of p bits\<close>

definition fround :: "nat \<Rightarrow> rat \<Rightarrow> rat" where
  "fround p x = (if x = 0 then 0
     else let u = 2 powi (fexp \<bar>x\<bar> - int p + 1) in of_int (rne (x / u)) * u)"

abbreviation f32 :: "rat \<Rightarrow> rat" where "f32 \<equiv> fround 24"

abbreviation f64 :: "rat \<Rightarrow> rat" where "f64 \<equiv> fround 53"

lemma fround_0 [simp]: "fround p 0 = 0"
  by (simp add: fround_def)

lemma rne_uminus: "rne (- x) = - rne x"
proof (cases "x = of_int \<lfloor>x\<rfloor>")
  case True
  then show ?thesis by (metis of_int_minus rne_of_int)
next
  case False
  then have f: "\<lfloor>- x\<rfloor> = - \<lfloor>x\<rfloor> - 1"
    by (metis ceiling_altdef ceiling_def diff_minus_eq_add minus_diff_eq add.commute
        minus_add_distrib uminus_add_conv_diff add.inverse_inverse)
  show ?thesis by (auto simp: rne_def Let_def f)
qed

lemma fround_uminus: "fround p (- x) = - fround p x"
  by (simp add: fround_def Let_def rne_uminus)

lemma fround_pos_bounds:
  assumes "0 < x" "0 < p"
  shows "2 powi fexp x \<le> fround p x" and "fround p x \<le> 2 powi (fexp x + 1)"
proof -
  let ?e = "fexp x" and ?u = "(2::rat) powi (fexp x - int p + 1)"
  have split: "(2::rat) powi ?e = of_int (2 ^ (p - 1)) * ?u" "(2::rat) powi (?e + 1) = of_int (2 ^ p) * ?u"
    using assms(2) by (simp_all flip: power_int_of_nat power_int_add add: of_nat_diff)
  have "of_int (2 ^ (p - 1)) \<le> x / ?u"
    using fexp_bounds(1) [OF assms(1)] split by (simp add: pos_le_divide_eq)
  then have "of_int (2 ^ (p - 1)) \<le> (of_int (rne (x / ?u)) :: rat)"
    using int_le_rne of_int_le_iff by blast
  then show "2 powi ?e \<le> fround p x"
    using assms split(1) by (simp add: fround_def Let_def)
  have "x / ?u \<le> of_int (2 ^ p)"
    using fexp_bounds(2) [OF assms(1)] split by (simp add: pos_divide_le_eq)
  then have "(of_int (rne (x / ?u)) :: rat) \<le> of_int (2 ^ p)"
    using rne_le_int of_int_le_iff by blast
  then show "fround p x \<le> 2 powi (?e + 1)"
    using assms split(2) by (simp add: fround_def Let_def)
qed

lemma fround_pos: "0 < x \<Longrightarrow> 0 < p \<Longrightarrow> 0 < fround p x"
  using fround_pos_bounds(1) pow2_pos by (rule less_le_trans [rotated])

lemma fround_nonneg: "0 \<le> x \<Longrightarrow> 0 < p \<Longrightarrow> 0 \<le> fround p x"
  using fround_pos [of x p] by (cases "x = 0") (auto simp: less_imp_le)

lemma fround_mono_pos:
  assumes "0 < x" "x \<le> y" "0 < p" shows "fround p x \<le> fround p y"
proof (cases "fexp x = fexp y")
  case True
  then show ?thesis using assms
    by (auto simp: fround_def Let_def intro!: mult_right_mono rne_mono divide_right_mono)
next
  case False
  then have e: "fexp x + 1 \<le> fexp y" using fexp_mono [OF assms(1,2)] by simp
  have "fround p x \<le> 2 powi (fexp x + 1)" using assms by (intro fround_pos_bounds)
  also have "\<dots> \<le> 2 powi fexp y" using e by simp
  also have "\<dots> \<le> fround p y" using assms by (intro fround_pos_bounds) auto
  finally show ?thesis .
qed

lemma fround_mono:
  assumes "x \<le> y" "0 < p" shows "fround p x \<le> fround p y"
proof -
  consider "0 < x" | "y < 0" | "x \<le> 0" "0 \<le> y" using assms by linarith
  then show ?thesis
  proof cases
    case 1
    then show ?thesis using assms by (simp add: fround_mono_pos)
  next
    case 2
    then show ?thesis
      using fround_mono_pos [of "- y" "- x" p] assms by (simp add: fround_uminus)
  next
    case 3
    then show ?thesis
      using fround_nonneg [of y p] fround_nonneg [of "- x" p] assms
      by (simp add: fround_uminus)
  qed
qed

text \<open>A number with at most \<open>p\<close> significant bits is not changed: every integer below
  \<open>2 ^ p\<close>, and every such integer scaled by a power of two.\<close>

lemma fround_scaled:
  assumes "\<bar>m\<bar> < 2 ^ p" shows "fround p (of_int m * 2 powi k) = of_int m * 2 powi k"
proof (cases "m = 0")
  case False
  let ?x = "of_int m * 2 powi k :: rat"
  let ?e = "fexp \<bar>?x\<bar>"
  have ax: "\<bar>?x\<bar> = of_int \<bar>m\<bar> * 2 powi k" by (simp add: abs_mult)
  have "0 < \<bar>?x\<bar>" using False by simp
  then have "2 powi ?e \<le> \<bar>?x\<bar>" by (rule fexp_bounds)
  also have "\<dots> < of_int (2 ^ p) * 2 powi k"
    unfolding ax using assms by (intro mult_strict_right_mono) (simp_all only: of_int_less_iff pow2_pos)
  also have "\<dots> = 2 powi (int p + k)" by (simp add: power_int_add)
  finally have "?e < int p + k" by simp
  then have ge: "0 \<le> k - (?e - int p + 1)" by simp
  define j where "j = nat (k - (?e - int p + 1))"
  have "?x / 2 powi (?e - int p + 1) = of_int m * 2 powi (k - (?e - int p + 1))"
    by (simp add: power_int_diff)
  also have "\<dots> = of_int (m * 2 ^ j)"
    using ge by (simp add: j_def power_int_def)
  finally have q: "?x / 2 powi (?e - int p + 1) = of_int (m * 2 ^ j)" .
  have "of_int (rne (?x / 2 powi (?e - int p + 1))) * 2 powi (?e - int p + 1)
      = ?x / 2 powi (?e - int p + 1) * (2 powi (?e - int p + 1) :: rat)"
    unfolding q rne_of_int ..
  then show ?thesis using False by (simp add: fround_def Let_def)
qed simp

lemma fround_int: "\<bar>m\<bar> < 2 ^ p \<Longrightarrow> fround p (of_int m) = of_int m"
  using fround_scaled [of m p 0] by simp

lemma fround_1 [simp]: "0 < p \<Longrightarrow> fround p 1 = 1"
  using fround_int [of 1 p] by simp

lemma fround_numeral [simp]: "numeral n < (2::int) ^ p \<Longrightarrow> fround p (numeral n) = numeral n"
  using fround_int [of "numeral n" p] by simp

lemma fround_of_nat: "n < 2 ^ p \<Longrightarrow> fround p (of_nat n) = of_nat n"
  using fround_int [of "int n" p] by simp

subsection \<open>Representable numbers\<close>

lemma fround_repr_pos:
  assumes "0 < x" "0 < p"
  obtains m k where "fround p x = of_int m * 2 powi k" "0 \<le> m" "m < 2 ^ p"
proof -
  let ?u = "(2::rat) powi (fexp x - int p + 1)"
  define m where "m = rne (x / ?u)"
  have f: "fround p x = of_int m * ?u" using assms by (simp add: fround_def Let_def m_def)
  have top: "(2::rat) powi (fexp x + 1) = of_int (2 ^ p) * ?u"
    by (simp flip: power_int_of_nat power_int_add)
  have "of_int m * ?u \<le> of_int (2 ^ p) * ?u"
    using fround_pos_bounds(2) [OF assms] unfolding f top .
  then have le: "m \<le> 2 ^ p" by (subst (asm) mult_le_cancel_right_pos) (simp_all only: of_int_le_iff pow2_pos)
  have "0 \<le> m" unfolding m_def using assms by (intro int_le_rne) simp
  show ?thesis
  proof (cases "m = 2 ^ p")
    case True
    have "fround p x = of_int (2 ^ (p - 1)) * 2 powi (fexp x - int p + 2)"
      using True f assms(2) by (simp flip: power_int_of_nat power_int_add add: of_nat_diff add.commute)
    then show ?thesis using that [of "2 ^ (p - 1)"] assms(2) by simp
  next
    case False
    then show ?thesis using that f le \<open>0 \<le> m\<close> by auto
  qed
qed

lemma fround_idem: assumes "0 < p" shows "fround p (fround p x) = fround p x"
proof -
  have pos: "fround p (fround p y) = fround p y" if "0 < y" for y
    using fround_repr_pos [OF that assms] by (metis fround_scaled abs_of_nonneg)
  consider "x = 0" | "0 < x" | "0 < - x" by linarith
  then show ?thesis
    by cases (use pos [of x] pos [of "- x"] in \<open>simp_all add: fround_uminus\<close>)
qed

text \<open>Subtracting an integer from a larger representable number below \<open>2 ^ p\<close> is exact.\<close>

lemma fround_diff_nat:
  assumes rep: "fround p x = x" and "of_nat n \<le> x" "x \<le> 2 ^ p" "0 < n" "0 < p"
  shows "fround p (x - of_nat n) = x - of_nat n"
proof -
  have "0 < x" using assms by (metis of_nat_0_less_iff less_le_trans)
  then obtain m k where x: "x = of_int m * 2 powi k" and m: "0 \<le> m" "m < 2 ^ p"
    using fround_repr_pos [of x p] assms by metis
  show ?thesis
  proof (cases "0 \<le> k")
    case True
    define z where "z = m * 2 ^ nat k"
    have z: "x = of_int z" using True by (simp add: x z_def power_int_def)
    have "of_int z \<le> (of_int (2 ^ p) :: rat)" "of_int (int n) \<le> (of_int z :: rat)" using assms z by simp_all
    then have "z \<le> 2 ^ p" "int n \<le> z" by (simp_all only: of_int_le_iff)
    then have "fround p (of_int (z - int n)) = of_int (z - int n)"
      using assms(4) by (intro fround_int) simp
    then show ?thesis by (simp add: z)
  next
    case False
    define j where "j = nat (- k)"
    have "(2::rat) powi k * 2 ^ j = 1" using False by (simp add: j_def power_int_def flip: power_mult_distrib)
    then have d: "x - of_nat n = of_int (m - int n * 2 ^ j) * 2 powi k"
      by (simp add: x left_diff_distrib mult.assoc mult.commute [of "2 ^ j"])
    have "0 \<le> x - of_nat n" using assms by simp
    then have "0 \<le> m - int n * 2 ^ j" unfolding d by (simp only: zero_le_mult_iff of_int_0_le_iff) (use pow2_pos [of k] in linarith)
    moreover have "m - int n * 2 ^ j < 2 ^ p" using m by (smt (verit) mult_nonneg_nonneg of_nat_0_le_iff zero_le_power)
    ultimately show ?thesis unfolding d by (intro fround_scaled) simp
  qed
qed

subsection \<open>The rounding error\<close>

lemma fround_error: assumes "0 < p" shows "\<bar>fround p x - x\<bar> \<le> \<bar>x\<bar> / 2 ^ p"
proof -
  have pos: "\<bar>fround p y - y\<bar> \<le> y / 2 ^ p" if y: "0 < y" for y
  proof -
    let ?u = "(2::rat) powi (fexp y - int p + 1)"
    have u: "0 < ?u" by simp
    have "\<bar>of_int (rne (y / ?u)) - y / ?u\<bar> \<le> 1 / 2"
      using rne_bounds [of "y / ?u"] by linarith
    then have "\<bar>of_int (rne (y / ?u)) - y / ?u\<bar> * ?u \<le> 1 / 2 * ?u"
      using u by (intro mult_right_mono) simp_all
    also have "\<bar>of_int (rne (y / ?u)) - y / ?u\<bar> * ?u = \<bar>of_int (rne (y / ?u)) * ?u - y\<bar>"
      by (simp add: abs_mult_pos left_diff_distrib)
    also have "1 / 2 * ?u = 2 powi fexp y / 2 ^ p"
      by (simp add: power_int_add power_int_diff)
    also have "\<dots> \<le> y / 2 ^ p" using fexp_bounds(1) [OF y] by (simp add: divide_right_mono)
    finally show ?thesis using y by (simp add: fround_def Let_def)
  qed
  consider "x = 0" | "0 < x" | "0 < - x" by linarith
  then show ?thesis
  proof cases
    case 3
    then have "\<bar>x - fround p x\<bar> \<le> - x / 2 ^ p" using pos [of "- x"] by (simp add: fround_uminus)
    then show ?thesis using 3 by (simp add: abs_minus_commute)
  qed (use pos [of x] in simp_all)
qed

lemma fround_le_double: "0 \<le> x \<Longrightarrow> 0 < p \<Longrightarrow> fround p x \<le> 2 * x"
  using fround_pos_bounds(2) [of x p] fexp_bounds(1) [of x]
  by (cases "x = 0") (simp_all add: power_int_add)

end
