(* ===== verification/UdpState.thy ===== *)
theory UdpState
  imports Packet Address Floats
begin

text \<open>
  \<open>src/transport/udp_transport.cpp\<close>, first part: the state of \<open>UdpTransport::Impl\<close> and the helpers that
  only look at it or write one datagram.

  \<^item> the records are the nested structs, field by field, integers at their width;
  \<^item> a time is the rational value of a \<open>double\<close> of seconds, and every floating-point operation is
    rounded as the hardware does (\<open>f64\<close>, \<open>f32\<close> of theory \<open>Floats\<close>);
  \<^item> the operating system is a parameter: \<open>os to d\<close> says whether \<open>sendto\<close> of the datagram \<open>d\<close> to \<open>to\<close>
    reports all bytes sent, and \<open>wire\<close> logs the datagrams it took;
  \<^item> the clock readings of one call are one value, the argument \<open>now\<close>;
  \<^item> an access the C++ standard leaves undefined (an index outside a vector, a shift of a 32-bit value
    by 32 or more) is an \<open>Inl\<close> fault, in \<open>UdpReceive\<close>.
\<close>

unbundle bit_operations_syntax

subsection \<open>State\<close>

type_synonym time = rat

record pending =
  p_sequence :: u16
  p_send_time :: time
  p_retries :: u8
  p_data :: bytes
  p_fragmented :: bool
  p_priority :: u8

record buffered_packet =
  b_sequence :: u16
  b_frag_index :: u8
  b_frag_count :: u8
  b_data :: bytes

record channel =
  local_seq :: u16
  remote_seq :: u16
  ch_ack_bits :: u32
  pendings :: "pending list"
  receive_buffer :: "buffered_packet list"
  ch_bandwidth_limit :: u32
  ch_bytes_sent :: u32

datatype conn_state = Connecting | Connected | Disconnecting

record connection =
  c_address :: address
  c_state :: conn_state
  last_recv_time :: time
  last_send_time :: time
  smoothed_rtt :: rat
  rtt_variance :: rat
  channels :: "channel list"
  global_bandwidth_limit :: u32
  c_bytes_sent :: u32
  last_bandwidth_reset :: time

record fragment_assembly =
  fa_address :: address
  base_sequence :: u16
  fa_frag_count :: u8
  received_mask :: u8
  start_time :: time
  fragments :: "bytes list"

datatype mode = ModeNone | ModeServer | ModeClient

record udp =
  socket_open :: bool
  mode :: mode
  bound_address :: address
  server_address :: address
  connections :: "connection list"
  receive_queue :: "(address \<times> bytes) list"
  receive_read_idx :: nat
  fragment_assemblies :: "fragment_assembly list"
  packets_sent :: u64
  packets_received :: u64
  packets_acked :: u64
  wire :: "(address \<times> bytes) list"

definition new_channel :: channel where
  "new_channel = \<lparr>local_seq = 0, remote_seq = 0xFFFF, ch_ack_bits = 0, pendings = [], receive_buffer = [],
     ch_bandwidth_limit = 0, ch_bytes_sent = 0\<rparr>"

definition new_connection :: "address \<Rightarrow> time \<Rightarrow> connection" where
  "new_connection addr now = \<lparr>c_address = addr, c_state = Connecting, last_recv_time = now, last_send_time = 0,
     smoothed_rtt = f32 (1/10), rtt_variance = f32 (1/20), channels = replicate 4 new_channel,
     global_bandwidth_limit = 0, c_bytes_sent = 0, last_bandwidth_reset = 0\<rparr>"

definition new_udp :: udp where
  "new_udp = \<lparr>socket_open = False, mode = ModeNone, bound_address = addr_default, server_address = addr_default,
     connections = [], receive_queue = [], receive_read_idx = 0, fragment_assemblies = [],
     packets_sent = 0, packets_received = 0, packets_acked = 0, wire = []\<rparr>"

definition is_reliable :: "reliability \<Rightarrow> bool" where
  "is_reliable r \<longleftrightarrow> r = ReliableOrdered \<or> r = ReliableUnordered"

subsection \<open>Connections\<close>

fun find_index :: "address \<Rightarrow> connection list \<Rightarrow> nat option" where
  "find_index addr [] = None"
| "find_index addr (c # cs) = (if addr_eq (c_address c) addr then Some 0 else map_option Suc (find_index addr cs))"

definition find_connection :: "udp \<Rightarrow> address \<Rightarrow> nat option" where
  "find_connection u addr = find_index addr (connections u)"

definition get_or_create_connection :: "time \<Rightarrow> udp \<Rightarrow> address \<Rightarrow> nat \<times> udp" where
  "get_or_create_connection now u addr =
     (case find_connection u addr of
        Some i \<Rightarrow> (i, u)
      | None \<Rightarrow> (length (connections u), u\<lparr>connections := connections u @ [new_connection addr now]\<rparr>))"

definition upd_channel :: "nat \<Rightarrow> (channel \<Rightarrow> channel) \<Rightarrow> connection \<Rightarrow> connection" where
  "upd_channel ch f c = c\<lparr>channels := (channels c)[ch := f (channels c ! ch)]\<rparr>"

subsection \<open>Bandwidth\<close>

definition reset_bandwidth_counters :: "connection \<Rightarrow> time \<Rightarrow> connection" where
  "reset_bandwidth_counters c t =
     (if 1 \<le> f64 (t - last_bandwidth_reset c)
      then c\<lparr>c_bytes_sent := 0, last_bandwidth_reset := t,
             channels := map (\<lambda>k. k\<lparr>ch_bytes_sent := 0\<rparr>) (channels c)\<rparr>
      else c)"

definition check_and_consume_bandwidth :: "time \<Rightarrow> connection \<Rightarrow> nat \<Rightarrow> nat \<Rightarrow> bool \<times> connection" where
  "check_and_consume_bandwidth now c0 ch sz =
     (let c = reset_bandwidth_counters c0 now
      in if 0 < global_bandwidth_limit c \<and> unat (global_bandwidth_limit c) < unat (c_bytes_sent c) + sz then (False, c)
         else let k = channels c ! ch
              in if 0 < ch_bandwidth_limit k \<and> unat (ch_bandwidth_limit k) < unat (ch_bytes_sent k) + sz then (False, c)
                 else (True, upd_channel ch (\<lambda>k. k\<lparr>ch_bytes_sent := ch_bytes_sent k + of_nat sz\<rparr>)
                               (c\<lparr>c_bytes_sent := c_bytes_sent c + of_nat sz\<rparr>)))"

subsection \<open>One datagram\<close>

definition send_raw :: "(address \<Rightarrow> bytes \<Rightarrow> bool) \<Rightarrow> udp \<Rightarrow> address \<Rightarrow> packet_header \<Rightarrow> bytes \<Rightarrow> bool \<times> udp" where
  "send_raw os u to hdr payload =
     (if \<not> socket_open u then (False, u)
      else if MAX_PACKET_SIZE < HDR_SIZE + length payload then (False, u)
      else case hdr_serialize hdr HDR_SIZE of
             None \<Rightarrow> (False, u)
           | Some b \<Rightarrow>
               if os to (b @ payload)
               then (True, u\<lparr>packets_sent := packets_sent u + 1, wire := wire u @ [(to, b @ payload)]\<rparr>)
               else (False, u))"

definition base_header :: "packet_type \<Rightarrow> reliability \<Rightarrow> nat \<Rightarrow> packet_header" where
  "base_header pt r ch = set_channel (set_reliability (default_header\<lparr>packet_type := pt_code pt\<rparr>) r) (of_nat ch)"

definition send_handshake :: "(address \<Rightarrow> bytes \<Rightarrow> bool) \<Rightarrow> udp \<Rightarrow> address \<Rightarrow> udp" where
  "send_handshake os u to = snd (send_raw os u to ((base_header PtHandshake Unreliable 0)\<lparr>payload_len := 0\<rparr>) [])"

definition send_disconnect :: "(address \<Rightarrow> bytes \<Rightarrow> bool) \<Rightarrow> udp \<Rightarrow> address \<Rightarrow> udp" where
  "send_disconnect os u to = snd (send_raw os u to ((base_header PtDisconnect Unreliable 0)\<lparr>payload_len := 0\<rparr>) [])"

definition send_keepalive :: "(address \<Rightarrow> bytes \<Rightarrow> bool) \<Rightarrow> udp \<Rightarrow> connection \<Rightarrow> udp" where
  "send_keepalive os u c =
     (let k = channels c ! 0
      in snd (send_raw os u (c_address c)
           ((base_header PtAck Unreliable 0)\<lparr>ack := remote_seq k, ack_bits := ch_ack_bits k, payload_len := 0\<rparr>) []))"

end
