(* ===== verification/UdpSend.thy ===== *)
theory UdpSend
  imports UdpState
begin

text \<open>
  \<open>src/transport/udp_transport.cpp\<close>, second part: sending, acknowledgement and retransmission.

  A function that takes \<open>Connection&\<close> takes the connection and the transport and returns both; the
  caller stores the connection back at its index. Loops over a vector are recursions over the list of
  its indices, with the flag that stops them where the code returns early.
\<close>

unbundle bit_operations_syntax

subsection \<open>\<open>send_to_connection\<close>\<close>

definition data_header :: "packet_type \<Rightarrow> nat \<Rightarrow> channel \<Rightarrow> u16 \<Rightarrow> nat \<Rightarrow> packet_header" where
  "data_header pt ch k sq len =
     (base_header pt (rel_of_code (of_nat ch)) ch)\<lparr>sequence := sq, ack := remote_seq k, ack_bits := ch_ack_bits k,
        payload_len := of_nat len\<rparr>"

definition num_fragments :: "nat \<Rightarrow> nat" where
  "num_fragments len = (len + MAX_PAYLOAD_SIZE - 1) div MAX_PAYLOAD_SIZE"

definition fragment :: "bytes \<Rightarrow> nat \<Rightarrow> bytes" where
  "fragment d i = take (min MAX_PAYLOAD_SIZE (length d - i * MAX_PAYLOAD_SIZE)) (drop (i * MAX_PAYLOAD_SIZE) d)"

definition fragment_header :: "nat \<Rightarrow> channel \<Rightarrow> u16 \<Rightarrow> bytes \<Rightarrow> nat \<Rightarrow> packet_header" where
  "fragment_header ch k sq d i =
     (data_header PtFragment ch k sq (length (fragment d i)))\<lparr>frag_index := of_nat (i + 1),
        frag_count := of_nat (num_fragments (length d))\<rparr>"

fun send_fragments :: "(address \<Rightarrow> bytes \<Rightarrow> bool) \<Rightarrow> time \<Rightarrow> reliability \<Rightarrow> u16 \<Rightarrow> bytes \<Rightarrow> nat list \<Rightarrow>
    connection \<Rightarrow> udp \<Rightarrow> bool \<times> connection \<times> udp" where
  "send_fragments os now r sq d [] c u = (True, c, u)"
| "send_fragments os now r sq d (i # is) c u =
     (let ch = unat (rel_code r);
          (ok, c1) = (if is_reliable r then (True, c)
                      else check_and_consume_bandwidth now c ch (HDR_SIZE + MAX_PAYLOAD_SIZE))
      in if \<not> ok then (False, c1, u)
         else let c2 = c1\<lparr>last_send_time := now\<rparr>;
                  (sent, u1) = send_raw os u (c_address c2) (fragment_header ch (channels c2 ! ch) sq d i) (fragment d i)
              in if \<not> sent then (False, c2, u1) else send_fragments os now r sq d is c2 u1)"

definition send_to_connection :: "(address \<Rightarrow> bytes \<Rightarrow> bool) \<Rightarrow> time \<Rightarrow> connection \<Rightarrow> udp \<Rightarrow> bytes \<Rightarrow> reliability \<Rightarrow> u8 \<Rightarrow>
    bool \<times> connection \<times> udp" where
  "send_to_connection os now c u d r prio =
     (if c_state c \<noteq> Connected \<and> c_state c \<noteq> Connecting then (False, c, u)
      else let ch = unat (rel_code r); k = channels c ! ch; sq = local_seq k
      in if length d \<le> MAX_PAYLOAD_SIZE
         then let hdr = data_header PtUser ch k sq (length d)
              in if is_reliable r
                 then let c1 = upd_channel ch (\<lambda>k. k\<lparr>local_seq := sq + 1,
                               pendings := pendings k @ [\<lparr>p_sequence = sq, p_send_time = now, p_retries = 0, p_data = d,
                                                          p_fragmented = False, p_priority = prio\<rparr>]\<rparr>) c;
                          c2 = c1\<lparr>last_send_time := now\<rparr>;
                          (sent, u1) = send_raw os u (c_address c2) hdr d
                      in (sent, c2, u1)
                 else let c1 = upd_channel ch (\<lambda>k. k\<lparr>local_seq := sq + 1\<rparr>) c;
                          (ok, c2) = check_and_consume_bandwidth now c1 ch (HDR_SIZE + length d)
                      in if \<not> ok then (False, c2, u)
                         else let c3 = c2\<lparr>last_send_time := now\<rparr>;
                                  (sent, u1) = send_raw os u (c_address c3) hdr d
                              in (sent, c3, u1)
         else if 255 < num_fragments (length d) then (False, c, u)
         else let c1 = upd_channel ch (\<lambda>k. k\<lparr>local_seq := sq + 1\<rparr>) c;
                  c2 = (if is_reliable r
                        then upd_channel ch (\<lambda>k. k\<lparr>pendings := pendings k @
                               [\<lparr>p_sequence = sq, p_send_time = now, p_retries = 0, p_data = d,
                                 p_fragmented = True, p_priority = prio\<rparr>]\<rparr>) c1
                        else c1)
              in send_fragments os now r sq d [0..<num_fragments (length d)] c2 u)"

subsection \<open>\<open>process_acks\<close>\<close>

definition is_acked :: "u16 \<Rightarrow> u32 \<Rightarrow> u16 \<Rightarrow> bool" where
  "is_acked a bits sq =
     (if sq = a then True
      else let diff = uint a - uint sq
           in 0 < diff \<and> diff \<le> 32 \<and> bits AND push_bit (nat (diff - 1)) 1 \<noteq> 0)"

text \<open>The connection's two smoothed values after one acknowledged packet.\<close>

definition rtt_sample :: "time \<Rightarrow> pending \<Rightarrow> connection \<Rightarrow> connection" where
  "rtt_sample now p c =
     (let s = f32 (f64 (now - p_send_time p));
          srtt = f32 (f32 (smoothed_rtt c * (7/8)) + f32 (s * (1/8)));
          var = f32 (f32 (rtt_variance c * (7/8)) + f32 (\<bar>f32 (s - srtt)\<bar> * (1/8)))
      in c\<lparr>smoothed_rtt := srtt, rtt_variance := var\<rparr>)"

fun ack_loop :: "time \<Rightarrow> u16 \<Rightarrow> u32 \<Rightarrow> pending list \<Rightarrow> connection \<Rightarrow> u64 \<Rightarrow> pending list \<times> connection \<times> u64" where
  "ack_loop now a bits [] c n = ([], c, n)"
| "ack_loop now a bits (p # ps) c n =
     (if is_acked a bits (p_sequence p) then ack_loop now a bits ps (rtt_sample now p c) (n + 1)
      else let (qs, c', n') = ack_loop now a bits ps c n in (p # qs, c', n'))"

definition process_acks :: "time \<Rightarrow> connection \<Rightarrow> udp \<Rightarrow> nat \<Rightarrow> u16 \<Rightarrow> u32 \<Rightarrow> connection \<times> udp" where
  "process_acks now c u ch a bits =
     (if length (channels c) \<le> ch then (c, u)
      else if \<not> is_reliable (rel_of_code (of_nat ch)) then (c, u)
      else let (ps, c', n) = ack_loop now a bits (pendings (channels c ! ch)) c (packets_acked u)
           in (upd_channel ch (\<lambda>k. k\<lparr>pendings := ps\<rparr>) c', u\<lparr>packets_acked := n\<rparr>))"

subsection \<open>\<open>resend_pending\<close>\<close>

definition resend_timeout :: "connection \<Rightarrow> rat" where
  "resend_timeout c =
     (let t = f32 (smoothed_rtt c + f32 (4 * rtt_variance c));
          t1 = (if t < f32 (1/20) then f32 (1/20) else t)
      in if 1 < t1 then 1 else t1)"

definition upd_pending :: "nat \<Rightarrow> nat \<Rightarrow> (pending \<Rightarrow> pending) \<Rightarrow> connection \<Rightarrow> connection" where
  "upd_pending ch j f c = upd_channel ch (\<lambda>k. k\<lparr>pendings := (pendings k)[j := f (pendings k ! j)]\<rparr>) c"

fun resend_fragments :: "(address \<Rightarrow> bytes \<Rightarrow> bool) \<Rightarrow> time \<Rightarrow> nat \<Rightarrow> u16 \<Rightarrow> bytes \<Rightarrow> nat list \<Rightarrow>
    connection \<Rightarrow> udp \<Rightarrow> connection \<times> udp" where
  "resend_fragments os now ch sq d [] c u = (c, u)"
| "resend_fragments os now ch sq d (i # is) c u =
     (let (ok, c1) = check_and_consume_bandwidth now c ch (HDR_SIZE + MAX_PAYLOAD_SIZE)
      in if \<not> ok then resend_fragments os now ch sq d is c1 u
         else resend_fragments os now ch sq d is c1
                (snd (send_raw os u (c_address c1) (fragment_header ch (channels c1 ! ch) sq d i) (fragment d i))))"

text \<open>The body of the loop over \<open>channel.pending\<close>: the flag says whether the code returned.\<close>

definition resend_one :: "(address \<Rightarrow> bytes \<Rightarrow> bool) \<Rightarrow> time \<Rightarrow> time \<Rightarrow> nat \<Rightarrow> nat \<Rightarrow> connection \<Rightarrow> udp \<Rightarrow>
    bool \<times> connection \<times> udp" where
  "resend_one os now t ch j c u =
     (let p = pendings (channels c ! ch) ! j
      in if \<not> resend_timeout c < f64 (t - p_send_time p) then (False, c, u)
         else let c1 = upd_pending ch j (\<lambda>p. p\<lparr>p_send_time := t, p_retries := p_retries p + 1\<rparr>) c
              in if 10 < p_retries p + 1 then (True, c1\<lparr>c_state := Disconnecting\<rparr>, u)
                 else if p_fragmented p
                 then let (c2, u1) = resend_fragments os now ch (p_sequence p) (p_data p)
                                       [0..<num_fragments (length (p_data p))] c1 u
                      in (False, c2, u1)
                 else let (ok, c2) = check_and_consume_bandwidth now c1 ch (HDR_SIZE + length (p_data p))
                      in if \<not> ok then (False, c2, u)
                         else (False, c2, snd (send_raw os u (c_address c2)
                                (data_header PtUser ch (channels c2 ! ch) (p_sequence p) (length (p_data p))) (p_data p))))"

fun resend_loop :: "(address \<Rightarrow> bytes \<Rightarrow> bool) \<Rightarrow> time \<Rightarrow> time \<Rightarrow> (nat \<times> nat) list \<Rightarrow> connection \<Rightarrow> udp \<Rightarrow>
    connection \<times> udp" where
  "resend_loop os now t [] c u = (c, u)"
| "resend_loop os now t ((ch, j) # is) c u =
     (let (stop, c1, u1) = resend_one os now t ch j c u
      in if stop then (c1, u1) else resend_loop os now t is c1 u1)"

definition pending_indices :: "connection \<Rightarrow> (nat \<times> nat) list" where
  "pending_indices c =
     concat (map (\<lambda>ch. map (Pair ch) [0..<length (pendings (channels c ! ch))]) [0..<length (channels c)])"

definition resend_pending :: "(address \<Rightarrow> bytes \<Rightarrow> bool) \<Rightarrow> time \<Rightarrow> connection \<Rightarrow> udp \<Rightarrow> time \<Rightarrow> connection \<times> udp" where
  "resend_pending os now c u t = resend_loop os now t (pending_indices c) c u"

end
