(* ===== verification/UdpReceive.thy ===== *)
theory UdpReceive
  imports UdpSend
begin

text \<open>
  \<open>src/transport/udp_transport.cpp\<close>, third part: what the transport does with a datagram.

  A run that reaches undefined behaviour of the C++ abstract machine is the value \<open>Inl fault\<close>: an index
  outside \<open>fragments\<close>, or a shift of a 32-bit \<open>1u\<close> by 32 or more.
\<close>

unbundle bit_operations_syntax

datatype udp_fault = FragmentIndexOutOfRange | ShiftOutOfRange

subsection \<open>Fragment assemblies\<close>

definition fa_matches :: "address \<Rightarrow> u16 \<Rightarrow> fragment_assembly \<Rightarrow> bool" where
  "fa_matches addr sq fa \<longleftrightarrow> addr_eq (fa_address fa) addr \<and> base_sequence fa = sq"

fun fa_index :: "address \<Rightarrow> u16 \<Rightarrow> fragment_assembly list \<Rightarrow> nat option" where
  "fa_index addr sq [] = None"
| "fa_index addr sq (fa # fas) = (if fa_matches addr sq fa then Some 0 else map_option Suc (fa_index addr sq fas))"

definition new_assembly :: "time \<Rightarrow> address \<Rightarrow> u16 \<Rightarrow> u8 \<Rightarrow> fragment_assembly" where
  "new_assembly now addr sq n = \<lparr>fa_address = addr, base_sequence = sq, fa_frag_count = n, received_mask = 0,
     start_time = now, fragments = replicate (unat n) []\<rparr>"

definition find_or_create_fragment_assembly :: "time \<Rightarrow> udp \<Rightarrow> address \<Rightarrow> u16 \<Rightarrow> u8 \<Rightarrow> nat \<times> udp" where
  "find_or_create_fragment_assembly now u addr sq n =
     (case fa_index addr sq (fragment_assemblies u) of
        Some i \<Rightarrow> (i, u)
      | None \<Rightarrow> (length (fragment_assemblies u),
                 u\<lparr>fragment_assemblies := fragment_assemblies u @ [new_assembly now addr sq n]\<rparr>))"

definition remove_fragment_assembly :: "udp \<Rightarrow> address \<Rightarrow> u16 \<Rightarrow> udp" where
  "remove_fragment_assembly u addr sq =
     u\<lparr>fragment_assemblies := filter (\<lambda>fa. \<not> fa_matches addr sq fa) (fragment_assemblies u)\<rparr>"

definition cleanup_fragments :: "udp \<Rightarrow> time \<Rightarrow> udp" where
  "cleanup_fragments u t =
     u\<lparr>fragment_assemblies := filter (\<lambda>fa. \<not> 2 < f64 (t - start_time fa)) (fragment_assemblies u)\<rparr>"

definition push_receive :: "udp \<Rightarrow> address \<Rightarrow> bytes \<Rightarrow> udp" where
  "push_receive u sender d = u\<lparr>receive_queue := receive_queue u @ [(sender, d)]\<rparr>"

subsection \<open>\<open>process_payload\<close> and \<open>process_packet\<close>\<close>

definition process_payload :: "time \<Rightarrow> connection \<Rightarrow> udp \<Rightarrow> packet_header \<Rightarrow> bytes \<Rightarrow> udp_fault + udp" where
  "process_payload now c u hdr payload =
     (if 1 < frag_count hdr
      then let (i, u1) = find_or_create_fragment_assembly now u (c_address c) (sequence hdr) (frag_count hdr);
               fa = fragment_assemblies u1 ! i;
               k = unat (frag_index hdr) - 1
           in if frag_index hdr = 0 \<or> length (fragments fa) \<le> k then Inl FragmentIndexOutOfRange
              else if fragments fa ! k \<noteq> [] then Inr u1
              else if 32 \<le> k then Inl ShiftOutOfRange
              else let fa1 = fa\<lparr>fragments := (fragments fa)[k := payload],
                                received_mask := received_mask fa OR push_bit k 1\<rparr>;
                       u2 = u1\<lparr>fragment_assemblies := (fragment_assemblies u1)[i := fa1]\<rparr>
                   in if 32 \<le> unat (frag_count hdr) then Inl ShiftOutOfRange
                      else if (ucast (received_mask fa1) :: u32) = push_bit (unat (frag_count hdr)) 1 - 1
                      then Inr (remove_fragment_assembly
                                  (push_receive u2 (c_address c) (concat (fragments fa1))) (c_address c) (sequence hdr))
                      else Inr u2
      else Inr (push_receive u (c_address c) payload))"

definition lift_conn :: "connection \<Rightarrow> udp_fault + udp \<Rightarrow> udp_fault + (connection \<times> udp)" where
  "lift_conn c r = (case r of Inl e \<Rightarrow> Inl e | Inr u \<Rightarrow> Inr (c, u))"

text \<open>\<open>process_packet\<close> after the lookup of the connection, which it holds a reference to.\<close>

definition process_on_connection :: "(address \<Rightarrow> bytes \<Rightarrow> bool) \<Rightarrow> time \<Rightarrow> address \<Rightarrow> packet_header \<Rightarrow> bytes \<Rightarrow>
    connection \<Rightarrow> udp \<Rightarrow> udp_fault + (connection \<times> udp)" where
  "process_on_connection os now from hdr payload c0 u0 =
     (let c1 = c0\<lparr>last_recv_time := now\<rparr>; ch = unat (hdr_channel hdr)
      in if length (channels c1) \<le> ch then Inr (c1, u0)
         else let (c, u) = process_acks now c1 u0 ch (ack hdr) (ack_bits hdr)
              in if packet_type hdr = pt_code PtHandshake
                 then Inr (if c_state c = Connecting then c\<lparr>c_state := Connected\<rparr> else c, send_handshake os u from)
                 else if packet_type hdr = pt_code PtDisconnect then Inr (c\<lparr>c_state := Disconnecting\<rparr>, u)
                 else if packet_type hdr = pt_code PtAck then Inr (c, u)
                 else let k = channels c ! ch; sq = sequence hdr
                      in case hdr_reliability hdr of
                           ReliableOrdered \<Rightarrow>
                             (let expected = remote_seq k + 1
                              in if sq = expected
                                 then let c2 = upd_channel ch (\<lambda>k. k\<lparr>remote_seq := sq,
                                                ch_ack_bits := push_bit 1 (ch_ack_bits k) OR 1\<rparr>) c
                                      in lift_conn c2 (process_payload now c2 u hdr payload)
                                 else if expected < sq
                                 then if frag_count hdr \<le> 1
                                      then if \<exists>b\<in>set (receive_buffer k). b_sequence b = sq then Inr (c, u)
                                           else Inr (upd_channel ch (\<lambda>k. k\<lparr>receive_buffer := receive_buffer k @
                                                  [\<lparr>b_sequence = sq, b_frag_index = 0, b_frag_count = 1,
                                                    b_data = payload\<rparr>]\<rparr>) c, u)
                                      else Inr (c, u)
                                 else Inr (c, u))
                         | ReliableUnordered \<Rightarrow>
                             (let c2 = upd_channel ch (\<lambda>k. k\<lparr>remote_seq := sq,
                                        ch_ack_bits := push_bit 1 (ch_ack_bits k) OR 1\<rparr>) c
                              in lift_conn c2 (process_payload now c2 u hdr payload))
                         | UnreliableSequenced \<Rightarrow>
                             (if sq \<le> remote_seq k then Inr (c, u)
                              else let c2 = upd_channel ch (\<lambda>k. k\<lparr>remote_seq := sq\<rparr>) c
                                   in lift_conn c2 (process_payload now c2 u hdr payload))
                         | Unreliable \<Rightarrow> lift_conn c (process_payload now c u hdr payload))"

definition process_packet :: "(address \<Rightarrow> bytes \<Rightarrow> bool) \<Rightarrow> time \<Rightarrow> udp \<Rightarrow> address \<Rightarrow> packet_header \<Rightarrow> bytes \<Rightarrow>
    udp_fault + udp" where
  "process_packet os now u from hdr payload =
     (if protocol_id hdr \<noteq> PROTOCOL_ID then Inr u
      else let (i, u1) = get_or_create_connection now u from
           in case process_on_connection os now from hdr payload (connections u1 ! i) u1 of
                Inl e \<Rightarrow> Inl e
              | Inr (c, u2) \<Rightarrow> Inr (u2\<lparr>connections := (connections u2)[i := c]\<rparr>))"

definition cleanup_connections :: "udp \<Rightarrow> time \<Rightarrow> udp" where
  "cleanup_connections u t =
     u\<lparr>connections := filter (\<lambda>c. \<not> (c_state c = Disconnecting \<or> 5 < f64 (t - last_recv_time c))) (connections u)\<rparr>"

end
