(* ===== verification/UdpTransport.thy ===== *)
theory UdpTransport
  imports UdpReceive
begin

text \<open>
  \<open>src/transport/udp_transport.cpp\<close>, last part: the public operations of \<open>UdpTransport\<close>.

  The results of creating and binding the socket are the Boolean arguments \<open>sock_ok\<close> and \<open>bind_ok\<close>; the
  datagrams \<open>recvfrom\<close> returns before it reports an empty socket are the list \<open>ins\<close> of \<open>poll\<close>, each with
  its source socket address and the clock when it is processed.
\<close>

definition udp_disconnect :: "(address \<Rightarrow> bytes \<Rightarrow> bool) \<Rightarrow> udp \<Rightarrow> udp" where
  "udp_disconnect os u =
     (let u1 = foldl (\<lambda>u c. if c_state c = Connected then send_disconnect os u (c_address c) else u) u (connections u)
      in u1\<lparr>socket_open := False, connections := [], receive_queue := [], receive_read_idx := 0,
            fragment_assemblies := [], mode := ModeNone, packets_sent := 0, packets_received := 0,
            packets_acked := 0\<rparr>)"

definition udp_bind :: "(address \<Rightarrow> bytes \<Rightarrow> bool) \<Rightarrow> bool \<Rightarrow> bool \<Rightarrow> address \<Rightarrow> udp \<Rightarrow> bool \<times> udp" where
  "udp_bind os sock_ok bind_ok addr u =
     (let u1 = udp_disconnect os u
      in if \<not> sock_ok then (False, u1)
         else if \<not> bind_ok then (False, u1\<lparr>socket_open := False\<rparr>)
         else (True, u1\<lparr>socket_open := True, mode := ModeServer, bound_address := addr\<rparr>))"

definition udp_connect :: "(address \<Rightarrow> bytes \<Rightarrow> bool) \<Rightarrow> bool \<Rightarrow> bool \<Rightarrow> time \<Rightarrow> address \<Rightarrow> udp \<Rightarrow> bool \<times> udp" where
  "udp_connect os sock_ok bind_ok now addr u =
     (let u1 = udp_disconnect os u
      in if \<not> sock_ok then (False, u1)
         else if \<not> bind_ok then (False, u1\<lparr>socket_open := False\<rparr>)
         else let u2 = u1\<lparr>socket_open := True, mode := ModeClient, server_address := addr,
                          connections := connections u1 @ [new_connection addr now]\<rparr>
              in (True, send_handshake os u2 addr))"

definition udp_is_connected :: "udp \<Rightarrow> bool" where
  "udp_is_connected u =
     (if mode u = ModeClient then connections u \<noteq> [] \<and> c_state (connections u ! 0) = Connected
      else mode u = ModeServer \<and> socket_open u)"

text \<open>\<open>send_to_connection\<close> on the connection at an index.\<close>

definition send_at :: "(address \<Rightarrow> bytes \<Rightarrow> bool) \<Rightarrow> time \<Rightarrow> nat \<Rightarrow> udp \<Rightarrow> bytes \<Rightarrow> reliability \<Rightarrow> u8 \<Rightarrow> bool \<times> udp" where
  "send_at os now i u d r prio =
     (let (ok, c, u1) = send_to_connection os now (connections u ! i) u d r prio
      in (ok, u1\<lparr>connections := (connections u1)[i := c]\<rparr>))"

fun send_all :: "(address \<Rightarrow> bytes \<Rightarrow> bool) \<Rightarrow> time \<Rightarrow> nat list \<Rightarrow> udp \<Rightarrow> bytes \<Rightarrow> reliability \<Rightarrow> bool \<Rightarrow> bool \<times> udp" where
  "send_all os now [] u d r any = (any, u)"
| "send_all os now (i # is) u d r any =
     (let (ok, u1) = send_at os now i u d r 0 in send_all os now is u1 d r (any \<or> ok))"

definition udp_send :: "(address \<Rightarrow> bytes \<Rightarrow> bool) \<Rightarrow> time \<Rightarrow> udp \<Rightarrow> bytes \<Rightarrow> reliability \<Rightarrow> bool \<times> udp" where
  "udp_send os now u d r =
     (if mode u = ModeClient
      then if connections u = [] then (False, u) else send_at os now 0 u d r 0
      else if mode u = ModeServer then send_all os now [0..<length (connections u)] u d r False
      else (False, u))"

definition udp_send_with_priority :: "(address \<Rightarrow> bytes \<Rightarrow> bool) \<Rightarrow> time \<Rightarrow> udp \<Rightarrow> address \<Rightarrow> bytes \<Rightarrow> reliability \<Rightarrow> u8 \<Rightarrow>
    bool \<times> udp" where
  "udp_send_with_priority os now u addr d r prio =
     (case find_connection u addr of Some i \<Rightarrow> send_at os now i u d r prio | None \<Rightarrow> (False, u))"

definition udp_send_to :: "(address \<Rightarrow> bytes \<Rightarrow> bool) \<Rightarrow> time \<Rightarrow> udp \<Rightarrow> address \<Rightarrow> bytes \<Rightarrow> reliability \<Rightarrow> bool \<times> udp" where
  "udp_send_to os now u addr d r =
     (case find_connection u addr of Some i \<Rightarrow> send_at os now i u d r 0 | None \<Rightarrow> (False, u))"

type_synonym arrival = "((sockaddr \<times> nat) \<times> bytes) \<times> time"

text \<open>The receive loop of \<open>poll\<close>: a datagram longer than the 1200-byte buffer is cut by \<open>recvfrom\<close>.\<close>

fun poll_receive :: "(address \<Rightarrow> bytes \<Rightarrow> bool) \<Rightarrow> arrival list \<Rightarrow> udp \<Rightarrow> udp_fault + udp" where
  "poll_receive os [] u = Inr u"
| "poll_receive os (((src, d0), now) # ins) u =
     (let d = take MAX_PACKET_SIZE d0
      in if length d < HDR_SIZE then poll_receive os ins u
         else case hdr_deserialize d HDR_SIZE of
                None \<Rightarrow> poll_receive os ins u
              | Some hdr \<Rightarrow>
                  (case process_packet os now u (set_raw_storage addr_default (fst src) (snd src)) hdr (drop HDR_SIZE d) of
                     Inl e \<Rightarrow> Inl e
                   | Inr u1 \<Rightarrow> poll_receive os ins (u1\<lparr>packets_received := packets_received u1 + 1\<rparr>)))"

fun poll_connections :: "(address \<Rightarrow> bytes \<Rightarrow> bool) \<Rightarrow> time \<Rightarrow> nat list \<Rightarrow> udp \<Rightarrow> udp" where
  "poll_connections os t [] u = u"
| "poll_connections os t (i # is) u =
     (let c = connections u ! i
      in if c_state c = Connected
         then let (c1, u1) = resend_pending os t c u t;
                  (c2, u2) = (if f64 (1/10) < f64 (t - last_send_time c1)
                              then (c1\<lparr>last_send_time := t\<rparr>, send_keepalive os u1 c1) else (c1, u1))
              in poll_connections os t is (u2\<lparr>connections := (connections u2)[i := c2]\<rparr>)
         else poll_connections os t is u)"

definition udp_poll :: "(address \<Rightarrow> bytes \<Rightarrow> bool) \<Rightarrow> time \<Rightarrow> arrival list \<Rightarrow> udp \<Rightarrow> udp_fault + udp" where
  "udp_poll os t ins u =
     (if \<not> socket_open u then Inr u
      else case poll_receive os ins u of
             Inl e \<Rightarrow> Inl e
           | Inr u1 \<Rightarrow> Inr (cleanup_connections
                        (cleanup_fragments (poll_connections os t [0..<length (connections u1)] u1) t) t))"

definition udp_pop_receive :: "udp \<Rightarrow> nat \<Rightarrow> (bytes \<times> address) option \<times> udp" where
  "udp_pop_receive u max_length =
     (if length (receive_queue u) \<le> receive_read_idx u
      then (None, u\<lparr>receive_queue := [], receive_read_idx := 0\<rparr>)
      else let (sender, d) = receive_queue u ! receive_read_idx u
           in (Some (take (min max_length (length d)) d, sender), u\<lparr>receive_read_idx := receive_read_idx u + 1\<rparr>))"

subsection \<open>Statistics and limits\<close>

definition udp_rtt :: "udp \<Rightarrow> rat" where
  "udp_rtt u =
     (if connections u = [] then 0
      else f32 (foldl (\<lambda>s c. f32 (s + smoothed_rtt c)) 0 (connections u) / f32 (of_nat (length (connections u)))))"

definition udp_packet_loss :: "udp \<Rightarrow> rat" where
  "udp_packet_loss u =
     (if packets_sent u = 0 then 0
      else let unacked = (if packets_acked u < packets_sent u then packets_sent u - packets_acked u else 0)
           in f32 (f32 (of_nat (unat unacked)) / f32 (of_nat (unat (packets_sent u)))))"

definition udp_connection_rtt :: "udp \<Rightarrow> address \<Rightarrow> rat" where
  "udp_connection_rtt u addr =
     (case find_connection u addr of Some i \<Rightarrow> smoothed_rtt (connections u ! i) | None \<Rightarrow> 0)"

definition udp_connection_packet_loss :: "udp \<Rightarrow> address \<Rightarrow> rat" where
  "udp_connection_packet_loss u addr =
     (case find_connection u addr of
        Some i \<Rightarrow>
          (let total = sum_list (map (\<lambda>k. length (pendings k)) (channels (connections u ! i)))
           in if total = 0 then 0 else f32 (f32 (of_nat total) / f32 (f32 (of_nat total) + 100)))
      | None \<Rightarrow> 0)"

definition upd_connection :: "nat \<Rightarrow> (connection \<Rightarrow> connection) \<Rightarrow> udp \<Rightarrow> udp" where
  "upd_connection i f u = u\<lparr>connections := (connections u)[i := f (connections u ! i)]\<rparr>"

definition set_connection_bandwidth_limit :: "udp \<Rightarrow> address \<Rightarrow> u32 \<Rightarrow> udp" where
  "set_connection_bandwidth_limit u addr bps =
     (case find_connection u addr of
        Some i \<Rightarrow> upd_connection i (\<lambda>c. c\<lparr>global_bandwidth_limit := bps\<rparr>) u
      | None \<Rightarrow> u)"

definition set_channel_bandwidth_limit :: "udp \<Rightarrow> address \<Rightarrow> reliability \<Rightarrow> u32 \<Rightarrow> udp" where
  "set_channel_bandwidth_limit u addr r bps =
     (case find_connection u addr of
        Some i \<Rightarrow>
          (let ch = unat (rel_code r)
           in if ch < length (channels (connections u ! i))
              then upd_connection i (upd_channel ch (\<lambda>k. k\<lparr>ch_bandwidth_limit := bps\<rparr>)) u else u)
      | None \<Rightarrow> u)"

end
