(* ===== verification/UdpReliable.thy ===== *)
theory UdpReliable
  imports UdpTransport "HOL-Library.Sublist"
begin

text \<open>
  The reliable-ordered channel of the UDP transport, end to end.

  Two transports are joined by a network that may lose, duplicate, delay and reorder datagrams in any
  way but invents none: a \<open>poll\<close> of one side may receive any list of datagrams the other side ever put on
  the wire. Each side sends unfragmented messages on the ReliableOrdered channel, fewer than 65536 of
  them (the sequence number does not wrap). While neither transport drops the connection, what a side's application has
  received is a prefix of what the other side sent, and every message not yet received is still in the
  sender's retransmission list.

  \<open>conn_ok\<close> is the invariant of a connection, \<open>dgram_ok\<close> of a datagram on the wire; the operations of the
  previous theories are shown to keep them one by one, and the step relation \<open>link_step\<close> of the pair
  puts them together.
\<close>

declare One_nat_def [simp del]

subsection \<open>Invariants of a connection and of a datagram\<close>

text \<open>\<open>L\<close> is the list of messages this side has sent, \<open>n\<close> the number it has received in order.\<close>

definition pend_ok :: "bytes list \<Rightarrow> pending \<Rightarrow> bool" where
  "pend_ok L p \<longleftrightarrow> (\<exists>k<length L. p_sequence p = of_nat k \<and> p_data p = L ! k) \<and> \<not> p_fragmented p
     \<and> length (p_data p) \<le> MAX_PAYLOAD_SIZE"

definition conn_ok :: "address \<Rightarrow> bytes list \<Rightarrow> nat \<Rightarrow> connection \<Rightarrow> bool" where
  "conn_ok peer L n c \<longleftrightarrow> c_address c = peer \<and> length (channels c) = 4
     \<and> (\<forall>i<4. i \<noteq> 1 \<longrightarrow> pendings (channels c ! i) = [])
     \<and> local_seq (channels c ! 1) = of_nat (length L)
     \<and> remote_seq (channels c ! 1) = of_nat n - 1
     \<and> (n = 0 \<longrightarrow> ch_ack_bits (channels c ! 1) = 0)
     \<and> (\<forall>p\<in>set (pendings (channels c ! 1)). pend_ok L p)"

definition pend_keys :: "connection \<Rightarrow> u16 set" where
  "pend_keys c = p_sequence ` set (pendings (channels c ! 1))"

definition ack_ok :: "nat \<Rightarrow> packet_header \<Rightarrow> bool" where
  "ack_ok n h \<longleftrightarrow> (\<exists>j\<le>n. ack h = of_nat j - 1 \<and> (j = 0 \<longrightarrow> ack_bits h = 0))"

definition pkt_ok :: "bytes list \<Rightarrow> nat \<Rightarrow> packet_header \<Rightarrow> bytes \<Rightarrow> bool" where
  "pkt_ok L n h d \<longleftrightarrow> protocol_id h = PROTOCOL_ID \<and> frag_count h = 0 \<and> length d \<le> MAX_PAYLOAD_SIZE
     \<and> (packet_type h = pt_code PtUser \<and> hdr_channel h = 1 \<and> hdr_reliability h = ReliableOrdered
          \<and> (\<exists>k<length L. sequence h = of_nat k \<and> d = L ! k) \<and> ack_ok n h
        \<or> packet_type h \<in> {pt_code PtHandshake, pt_code PtAck} \<and> hdr_channel h = 0)"

definition dgram_ok :: "bytes list \<Rightarrow> nat \<Rightarrow> bytes \<Rightarrow> bool" where
  "dgram_ok L n b \<longleftrightarrow> (\<exists>h hb d. hdr_serialize h HDR_SIZE = Some hb \<and> b = hb @ d \<and> pkt_ok L n h d)"

definition wire_ok :: "bytes list \<Rightarrow> nat \<Rightarrow> udp \<Rightarrow> bool" where
  "wire_ok L n u \<longleftrightarrow> (\<forall>m\<in>set (wire u). dgram_ok L n (snd m))"

lemma ack_ok_mono: "ack_ok n h \<Longrightarrow> n \<le> n' \<Longrightarrow> ack_ok n' h"
  unfolding ack_ok_def by (meson order_trans)

lemma pkt_ok_mono:
  assumes "pkt_ok L n h d" "n \<le> n'" shows "pkt_ok (L @ M) n' h d"
proof -
  have "\<exists>k<length L. sequence h = of_nat k \<and> d = L ! k \<Longrightarrow> \<exists>k<length (L @ M). sequence h = of_nat k \<and> d = (L @ M) ! k"
    by (metis length_append nth_append trans_less_add1)
  then show ?thesis using assms ack_ok_mono unfolding pkt_ok_def by blast
qed

lemma wire_ok_mono: "wire_ok L n u \<Longrightarrow> n \<le> n' \<Longrightarrow> wire_ok (L @ M) n' u"
  unfolding wire_ok_def dgram_ok_def by (blast intro: pkt_ok_mono)

lemma conn_ok_append: "conn_ok peer L n c \<Longrightarrow> conn_ok peer L n (c\<lparr>last_send_time := t\<rparr>)"
  by (simp add: conn_ok_def)

subsection \<open>Headers\<close>

lemma base_header_fields [simp]:
  "protocol_id (base_header pt r ch) = PROTOCOL_ID" "packet_type (base_header pt r ch) = pt_code pt"
  "frag_count (base_header pt r ch) = 0" "hdr_reliability (base_header pt r ch) = r"
  "hdr_channel (base_header pt r ch) = of_nat ch AND 3"
  unfolding base_header_def by (simp_all only: flags_laws) (simp_all add: set_channel_def set_reliability_def default_header_def)

text \<open>The operations below touch a transport only through its log and counters.\<close>

definition udp_frame :: "udp \<Rightarrow> udp \<Rightarrow> bool" where
  "udp_frame u u' \<longleftrightarrow> connections u' = connections u \<and> receive_queue u' = receive_queue u
     \<and> receive_read_idx u' = receive_read_idx u \<and> socket_open u' = socket_open u"

lemma udp_frame_refl [simp]: "udp_frame u u"
  by (simp add: udp_frame_def)

lemma udp_frame_trans: "udp_frame u v \<Longrightarrow> udp_frame v w \<Longrightarrow> udp_frame u w"
  by (simp add: udp_frame_def)

lemma send_raw_frame: "udp_frame u (snd (send_raw os u to h d))"
  by (simp add: send_raw_def udp_frame_def split: option.split)

lemma send_raw_wire_ok:
  assumes "wire_ok L n u" "pkt_ok L n h d" shows "wire_ok L n (snd (send_raw os u to h d))"
  using assms by (auto simp: send_raw_def wire_ok_def dgram_ok_def split: option.split)

lemma data_header_ok:
  assumes "conn_ok peer L n c" "k < length L" "d = L ! k" "length d \<le> MAX_PAYLOAD_SIZE"
  shows "pkt_ok L n (data_header PtUser 1 (channels c ! 1) (of_nat k) (length d)) d"
proof -
  have "ack_ok n (data_header PtUser 1 (channels c ! 1) (of_nat k) (length d))"
    using assms(1) by (auto simp: conn_ok_def ack_ok_def data_header_def)
  moreover have "rel_of_code (of_nat 1) = ReliableOrdered" by (simp add: rel_of_code_def)
  ultimately show ?thesis
    using assms(2-4) by (auto simp: pkt_ok_def data_header_def)
qed

subsection \<open>What the invariant sees of a connection\<close>

definition pend_core :: "pending \<Rightarrow> u16 \<times> bytes \<times> bool" where
  "pend_core p = (p_sequence p, p_data p, p_fragmented p)"

definition chan_core :: "channel \<Rightarrow> u16 \<times> u16 \<times> u32 \<times> (u16 \<times> bytes \<times> bool) list" where
  "chan_core k = (local_seq k, remote_seq k, ch_ack_bits k, map pend_core (pendings k))"

definition conn_core :: "connection \<Rightarrow> address \<times> (u16 \<times> u16 \<times> u32 \<times> (u16 \<times> bytes \<times> bool) list) list" where
  "conn_core c = (c_address c, map chan_core (channels c))"

lemma conn_coreD:
  assumes "conn_core c' = conn_core c"
  shows "c_address c' = c_address c" "length (channels c') = length (channels c)"
    "\<And>i. i < length (channels c) \<Longrightarrow> chan_core (channels c' ! i) = chan_core (channels c ! i)"
proof -
  show "c_address c' = c_address c" using assms by (simp add: conn_core_def)
  have m: "map chan_core (channels c') = map chan_core (channels c)" using assms by (simp add: conn_core_def)
  show l: "length (channels c') = length (channels c)" using arg_cong [OF m, of length] by simp
  show "\<And>i. i < length (channels c) \<Longrightarrow> chan_core (channels c' ! i) = chan_core (channels c ! i)"
    using m l by (metis nth_map)
qed

lemma pend_ok_core: "pend_ok L p \<longleftrightarrow> (case pend_core p of (s, d, f) \<Rightarrow>
    (\<exists>k<length L. s = of_nat k \<and> d = L ! k) \<and> \<not> f \<and> length d \<le> MAX_PAYLOAD_SIZE)"
  by (simp add: pend_ok_def pend_core_def)

lemma pend_set_core:
  assumes "map pend_core ps = map pend_core qs"
  shows "(\<forall>p\<in>set ps. pend_ok L p) \<longleftrightarrow> (\<forall>p\<in>set qs. pend_ok L p)" "p_sequence ` set ps = p_sequence ` set qs"
proof -
  have s: "pend_core ` set ps = pend_core ` set qs" using arg_cong [OF assms, of set] by simp
  show "(\<forall>p\<in>set ps. pend_ok L p) \<longleftrightarrow> (\<forall>p\<in>set qs. pend_ok L p)"
    unfolding pend_ok_core using s by (metis (no_types, lifting) image_iff)
  have "p_sequence ` set xs = fst ` pend_core ` set xs" for xs by (force simp: pend_core_def)
  then show "p_sequence ` set ps = p_sequence ` set qs" using s by simp
qed

lemma conn_ok_core:
  assumes "conn_core c' = conn_core c" "conn_ok peer L n c"
  shows "conn_ok peer L n c'" "pend_keys c' = pend_keys c"
proof -
  note d = conn_coreD [OF assms(1)]
  have four: "length (channels c) = 4" using assms(2) by (simp add: conn_ok_def)
  have k: "chan_core (channels c' ! i) = chan_core (channels c ! i)" if "i < 4" for i using d(3) four that by simp
  have p: "map pend_core (pendings (channels c' ! i)) = map pend_core (pendings (channels c ! i))" if "i < 4" for i
    using k [OF that] by (simp add: chan_core_def)
  have e: "pendings (channels c' ! i) = [] \<longleftrightarrow> pendings (channels c ! i) = []" if "i < 4" for i
    using p [OF that] by (metis map_is_Nil_conv)
  show "conn_ok peer L n c'"
    using assms(2) d(1,2) e k [of 1] pend_set_core(1) [OF p [of 1]] by (simp add: conn_ok_def chan_core_def)
  show "pend_keys c' = pend_keys c" unfolding pend_keys_def using pend_set_core(2) [OF p [of 1]] by simp
qed

lemma map_update_same: "g y = g (xs ! i) \<Longrightarrow> map g (xs[i := y]) = map g xs"
  by (cases "i < length xs") (auto intro!: nth_equalityI simp: nth_list_update list_update_beyond)

lemma core_upd_channel:
  "(\<And>k. chan_core (f k) = chan_core k) \<Longrightarrow> conn_core (upd_channel ch f c) = conn_core c"
  by (simp add: conn_core_def upd_channel_def map_update_same)

lemma core_simps [simp]:
  "conn_core (c\<lparr>last_send_time := t\<rparr>) = conn_core c" "conn_core (c\<lparr>last_recv_time := t\<rparr>) = conn_core c"
  "conn_core (c\<lparr>c_state := st\<rparr>) = conn_core c" "conn_core (c\<lparr>smoothed_rtt := r, rtt_variance := v\<rparr>) = conn_core c"
  "conn_core (c\<lparr>c_bytes_sent := b\<rparr>) = conn_core c"
  by (simp_all add: conn_core_def)

lemma core_bandwidth: "conn_core (snd (check_and_consume_bandwidth now c ch sz)) = conn_core c"
proof -
  have r: "conn_core (reset_bandwidth_counters c now) = conn_core c"
    by (simp add: reset_bandwidth_counters_def conn_core_def chan_core_def comp_def)
  show ?thesis
    by (simp add: check_and_consume_bandwidth_def Let_def core_upd_channel chan_core_def r)
qed

lemma core_rtt_sample: "conn_core (rtt_sample now p c) = conn_core c"
  by (simp add: rtt_sample_def Let_def)

lemma core_upd_pending:
  "(\<And>p. pend_core (f p) = pend_core p) \<Longrightarrow> conn_core (upd_pending ch j f c) = conn_core c"
  unfolding upd_pending_def
  by (rule core_upd_channel) (simp add: chan_core_def map_update_same)

subsection \<open>Sending and retransmission\<close>

text \<open>\<open>keeps peer L n c u c' u'\<close>: an operation that neither sends nor receives a message.\<close>

definition keeps :: "address \<Rightarrow> bytes list \<Rightarrow> nat \<Rightarrow> connection \<Rightarrow> udp \<Rightarrow> connection \<Rightarrow> udp \<Rightarrow> bool" where
  "keeps peer L n c u c' u' \<longleftrightarrow> (conn_ok peer L n c \<and> wire_ok L n u \<longrightarrow>
     conn_ok peer L n c' \<and> wire_ok L n u' \<and> pend_keys c' = pend_keys c \<and> udp_frame u u')"

lemma keeps_trans: "keeps peer L n c u c1 u1 \<Longrightarrow> keeps peer L n c1 u1 c2 u2 \<Longrightarrow> keeps peer L n c u c2 u2"
  unfolding keeps_def by (blast intro: udp_frame_trans dest: sym)

lemma keeps_core: "conn_core c' = conn_core c \<Longrightarrow> keeps peer L n c u c' u"
  unfolding keeps_def using conn_ok_core udp_frame_refl by blast

lemma keeps_send:
  assumes "conn_core c' = conn_core c" "conn_ok peer L n c \<Longrightarrow> pkt_ok L n h d"
  shows "keeps peer L n c u c' (snd (send_raw os u to h d))"
  unfolding keeps_def using conn_ok_core [OF assms(1)] send_raw_wire_ok assms(2) send_raw_frame by blast

lemma pending_header_ok:
  assumes "conn_ok peer L n c" "p \<in> set (pendings (channels c ! 1))"
  shows "pkt_ok L n (data_header PtUser 1 (channels c ! 1) (p_sequence p) (length (p_data p))) (p_data p)"
    "\<not> p_fragmented p"
proof -
  have p: "pend_ok L p" using assms by (simp add: conn_ok_def)
  then obtain k where k: "k < length L" "p_sequence p = of_nat k" "p_data p = L ! k" by (auto simp: pend_ok_def)
  have "length (p_data p) \<le> MAX_PAYLOAD_SIZE" using p by (simp add: pend_ok_def)
  from data_header_ok [OF assms(1) k(1) k(3) this] show
    "pkt_ok L n (data_header PtUser 1 (channels c ! 1) (p_sequence p) (length (p_data p))) (p_data p)" by (simp add: k(2))
  show "\<not> p_fragmented p" using p by (simp add: pend_ok_def)
qed

lemma resend_one_keeps:
  assumes "conn_ok peer L n c" "ch < 4" "j < length (pendings (channels c ! ch))"
    "resend_one os now t ch j c u = (stop, c', u')"
  shows "conn_core c' = conn_core c \<and> keeps peer L n c u c' u'"
proof -
  have ch: "ch = 1" using assms(1-3) by (auto simp: conn_ok_def)
  let ?p = "pendings (channels c ! 1) ! j"
  define c1 where "c1 = upd_pending 1 j (\<lambda>p. p\<lparr>p_send_time := t, p_retries := p_retries p + 1\<rparr>) c"
  obtain ok c2 where b: "check_and_consume_bandwidth now c1 1 (HDR_SIZE + length (p_data ?p)) = (ok, c2)" by fastforce
  have core1: "conn_core c1 = conn_core c"
    unfolding c1_def by (rule core_upd_pending) (simp add: pend_core_def)
  have core2: "conn_core c2 = conn_core c"
    using core_bandwidth [of now c1 1 "HDR_SIZE + length (p_data ?p)"] b core1 by simp
  have p: "?p \<in> set (pendings (channels c ! 1))" using assms(3) ch by simp
  note ph = pending_header_ok [OF assms(1) p]
  have "data_header PtUser 1 (channels c2 ! 1) s l = data_header PtUser 1 (channels c ! 1) s l" for s l
    using conn_coreD(3) [OF core2, of 1] assms(1) by (simp add: data_header_def chan_core_def conn_ok_def)
  then have ph2: "pkt_ok L n (data_header PtUser 1 (channels c2 ! 1) (p_sequence ?p) (length (p_data ?p))) (p_data ?p)"
    using ph(1) by simp
  have cd: "conn_core (c1\<lparr>c_state := Disconnecting\<rparr>) = conn_core c" using core1 by simp
  consider "c' = c" "u' = u" | "c' = c1\<lparr>c_state := Disconnecting\<rparr>" "u' = u" | "c' = c2" "u' = u"
    | "c' = c2" "u' = snd (send_raw os u (c_address c2)
        (data_header PtUser 1 (channels c2 ! 1) (p_sequence ?p) (length (p_data ?p))) (p_data ?p))"
    using assms(4) ph(2) b unfolding ch resend_one_def Let_def c1_def [symmetric] by (auto split: if_splits)
  then show ?thesis
    by cases (simp_all add: keeps_core keeps_send cd core1 core2 ph2)
qed

lemma core_pendings_length:
  assumes "conn_core c' = conn_core c" "i < length (channels c)"
  shows "length (pendings (channels c' ! i)) = length (pendings (channels c ! i))"
  using conn_coreD(3) [OF assms] by (simp add: chan_core_def) (metis length_map)

lemma resend_loop_keeps:
  assumes "conn_ok peer L n c" "\<forall>i\<in>set is. fst i < 4 \<and> snd i < length (pendings (channels c ! fst i))"
    "resend_loop os now t is c u = (c', u')"
  shows "keeps peer L n c u c' u'"
  using assms
proof (induction "is" arbitrary: c u)
  case Nil
  then show ?case by (simp add: keeps_core)
next
  case (Cons i "is")
  obtain ch j where i: "i = (ch, j)" by fastforce
  obtain stop c1 u1 where o: "resend_one os now t ch j c u = (stop, c1, u1)" by (metis prod_cases3)
  have k: "conn_core c1 = conn_core c" "keeps peer L n c u c1 u1"
    using resend_one_keeps [OF Cons.prems(1) _ _ o] Cons.prems(2) i by auto
  have ok1: "conn_ok peer L n c1" using conn_ok_core [OF k(1)] Cons.prems(1) by blast
  have "length (channels c) = 4" using Cons.prems(1) by (simp add: conn_ok_def)
  then have "\<forall>i\<in>set is. fst i < 4 \<and> snd i < length (pendings (channels c1 ! fst i))"
    using Cons.prems(2) core_pendings_length [OF k(1)] by simp
  then have "\<not> stop \<Longrightarrow> keeps peer L n c1 u1 c' u'"
    using Cons.IH [OF ok1] Cons.prems(3) o i by simp
  then show ?case using k(2) keeps_trans Cons.prems(3) o i by (auto split: if_splits)
qed

lemma resend_pending_keeps:
  assumes "conn_ok peer L n c" "resend_pending os now c u t = (c', u')"
  shows "keeps peer L n c u c' u'"
proof (rule resend_loop_keeps [OF assms(1)])
  show "resend_loop os now t (pending_indices c) c u = (c', u')" using assms(2) by (simp add: resend_pending_def)
  show "\<forall>i\<in>set (pending_indices c). fst i < 4 \<and> snd i < length (pendings (channels c ! fst i))"
    using assms(1) by (auto simp: pending_indices_def conn_ok_def)
qed

lemma control_header_ok:
  "pt \<in> {PtHandshake, PtAck} \<Longrightarrow> protocol_id h = PROTOCOL_ID \<Longrightarrow> frag_count h = 0 \<Longrightarrow> packet_type h = pt_code pt \<Longrightarrow>
   hdr_channel h = 0 \<Longrightarrow> pkt_ok L n h []"
  by (auto simp: pkt_ok_def)

lemma send_keepalive_keeps: "conn_core c' = conn_core c \<Longrightarrow> keeps peer L n c u c' (send_keepalive os u c)"
  unfolding send_keepalive_def Let_def
  by (rule keeps_send) (simp_all add: control_header_ok [of PtAck])

lemma send_handshake_keeps: "conn_core c' = conn_core c \<Longrightarrow> keeps peer L n c u c' (send_handshake os u to)"
  unfolding send_handshake_def
  by (rule keeps_send) (simp_all add: control_header_ok [of PtHandshake])

text \<open>A message of at most one packet enters the retransmission list under the next sequence number.\<close>

lemma send_ordered:
  assumes "conn_ok peer L n c" "wire_ok L n u" "length d \<le> MAX_PAYLOAD_SIZE" "c_state c \<noteq> Disconnecting"
    "send_to_connection os now c u d ReliableOrdered prio = (ok, c', u')"
  shows "conn_ok peer (L @ [d]) n c' \<and> wire_ok (L @ [d]) n u' \<and> udp_frame u u'
    \<and> pend_keys c' = insert (of_nat (length L)) (pend_keys c)"
proof -
  let ?p = "\<lparr>p_sequence = local_seq (channels c ! 1), p_send_time = now, p_retries = 0, p_data = d,
    p_fragmented = False, p_priority = prio\<rparr>"
  let ?h = "data_header PtUser 1 (channels c ! 1) (local_seq (channels c ! 1)) (length d)"
  define c1 where "c1 = upd_channel 1 (\<lambda>k. k\<lparr>local_seq := local_seq (channels c ! 1) + 1, pendings := pendings k @ [?p]\<rparr>) c"
  have g: "\<not> (c_state c \<noteq> Connected \<and> c_state c \<noteq> Connecting)" using assms(4) by (cases "c_state c") auto
  have "send_to_connection os now c u d ReliableOrdered prio
      = (let (sent, u1) = send_raw os u (c_address c1) ?h d in (sent, c1\<lparr>last_send_time := now\<rparr>, u1))"
    unfolding send_to_connection_def c1_def using g assms(3) by (auto simp: Let_def is_reliable_def upd_channel_def)
  then have c': "c' = c1\<lparr>last_send_time := now\<rparr>" and u': "u' = snd (send_raw os u (c_address c1) ?h d)"
    using assms(5) by (auto split: prod.splits)
  have sq: "local_seq (channels c ! 1) = of_nat (length L)" using assms(1) by (simp add: conn_ok_def)
  have mono: "pend_ok L p \<Longrightarrow> pend_ok (L @ [d]) p" for p
    unfolding pend_ok_def by (metis length_append nth_append trans_less_add1)
  have new: "pend_ok (L @ [d]) ?p" using assms(3) by (auto simp: pend_ok_def sq)
  have ch: "1 < length (channels c)" using assms(1) by (simp add: conn_ok_def)
  have "conn_ok peer (L @ [d]) n c1"
    using assms(1) ch mono new unfolding conn_ok_def c1_def upd_channel_def
    by (auto simp: nth_list_update)
  moreover have "pend_keys c' = insert (of_nat (length L)) (pend_keys c)"
    using ch by (simp add: pend_keys_def c' c1_def upd_channel_def sq)
  moreover have "conn_ok peer (L @ [d]) n (c\<lparr>channels := (channels c)[1 := (channels c ! 1)\<lparr>local_seq := of_nat (length (L @ [d]))\<rparr>]\<rparr>)"
    using assms(1) ch mono unfolding conn_ok_def by (auto simp: nth_list_update)
  from data_header_ok [OF this, of "length L" d] have "pkt_ok (L @ [d]) n ?h d"
    using assms(3) ch by (simp add: sq data_header_def)
  ultimately show ?thesis
    using wire_ok_mono [OF assms(2) order_refl, of "[d]"] send_raw_wire_ok send_raw_frame
    by (simp add: c' u' conn_ok_append)
qed

subsection \<open>Acknowledgements\<close>

lemma ack_sound:
  assumes "ack_ok m h" "m \<le> 65535" "k < 65535" "is_acked (ack h) (ack_bits h) (of_nat k)"
  shows "k < m"
proof -
  obtain j where j: "j \<le> m" "ack h = of_nat j - 1" "j = 0 \<longrightarrow> ack_bits h = 0" using assms(1) by (auto simp: ack_ok_def)
  have uk: "uint (of_nat k :: u16) = int k" using assms(3) by (intro uint_of_nat_small) simp
  show ?thesis
  proof (cases "j = 0")
    case True
    have "uint (- 1 :: u16) = 65535" by (simp add: unsigned_minus_1_eq_mask mask_eq_exp_minus_1)
    then have "(of_nat k :: u16) \<noteq> - 1" using uk assms(3) by auto
    then show ?thesis using assms(4) j True by (auto simp: is_acked_def)
  next
    case False
    have "ack h = of_nat (j - 1)" using False j(2) by (simp add: of_nat_diff)
    moreover have "uint (of_nat (j - 1) :: u16) = int (j - 1)" using assms(2) j(1) by (intro uint_of_nat_small) simp
    ultimately show ?thesis using assms(4) uk j(1) False
      by (auto simp: is_acked_def Let_def word_uint_eq_iff split: if_splits)
  qed
qed

lemma ack_loop_eq:
  "ack_loop now a bits ps c n = (qs, c', n') \<Longrightarrow>
     qs = filter (\<lambda>p. \<not> is_acked a bits (p_sequence p)) ps \<and> conn_core c' = conn_core c"
  by (induction ps arbitrary: c n qs c' n') (auto simp: core_rtt_sample split: if_splits prod.splits)


lemma process_acks_ok:
  assumes c: "conn_ok peer L n c" and m: "ch = 1 \<longrightarrow> ack_ok m h" "m \<le> length L" "length L \<le> 65535"
    and r: "process_acks now c u ch (ack h) (ack_bits h) = (c', u')" "ch = 0 \<or> ch = 1"
  shows "conn_ok peer L n c' \<and> udp_frame u u' \<and> wire u' = wire u
     \<and> (\<forall>k<length L. m \<le> k \<longrightarrow> of_nat k \<in> pend_keys c \<longrightarrow> of_nat k \<in> pend_keys c')"
proof (cases "ch = 1")
  case False
  then show ?thesis using c r by (auto simp: process_acks_def rel_of_code_def is_reliable_def split: if_splits)
next
  case True
  have rel: "rel_of_code (of_nat 1) = ReliableOrdered" by (simp add: rel_of_code_def)
  have len: "length (channels c) = 4" using c by (simp add: conn_ok_def)
  obtain qs c1 n1 where l: "ack_loop now (ack h) (ack_bits h) (pendings (channels c ! 1)) c (packets_acked u) = (qs, c1, n1)"
    by (metis prod_cases3)
  note q = ack_loop_eq [OF l]
  have c': "c' = upd_channel 1 (\<lambda>k. k\<lparr>pendings := qs\<rparr>) c1" and u': "u' = u\<lparr>packets_acked := n1\<rparr>"
    using r True len l rel by (auto simp: process_acks_def is_reliable_def)
  have ok1: "conn_ok peer L n c1" "pend_keys c1 = pend_keys c" using conn_ok_core [OF _ c] q by blast+
  have sub: "set qs \<subseteq> set (pendings (channels c ! 1))" using q by auto
  have pc: "\<forall>p\<in>set qs. pend_ok L p" using c sub by (auto simp: conn_ok_def)
  have len1: "1 < length (channels c1)" using ok1(1) by (simp add: conn_ok_def)
  have "conn_ok peer L n c'"
    using ok1(1) pc len1 unfolding conn_ok_def c' upd_channel_def by (auto simp: nth_list_update)
  moreover have "of_nat k \<in> pend_keys c'" if k: "k < length L" "m \<le> k" "of_nat k \<in> pend_keys c" for k
  proof -
    obtain p where p: "p \<in> set (pendings (channels c ! 1))" "p_sequence p = of_nat k" using k(3) by (auto simp: pend_keys_def)
    have "\<not> is_acked (ack h) (ack_bits h) (of_nat k)"
      using ack_sound [of m h k] m True k by auto
    then have "p \<in> set qs" using q p by simp
    then show ?thesis using p(2) len1 by (force simp: pend_keys_def c' upd_channel_def)
  qed
  ultimately show ?thesis by (simp add: u' udp_frame_def)
qed

subsection \<open>Receiving\<close>

lemma process_payload_plain:
  "frag_count h = 0 \<Longrightarrow> process_payload now c u h d = Inr (push_receive u (c_address c) d)"
  by (simp add: process_payload_def)

lemma process_on_connection_ok:
  assumes c: "conn_ok peer L n c" and w: "wire_ok L n u" and p: "pkt_ok L2 m h d"
    and b: "m \<le> length L" "length L \<le> 65535" "n \<le> length L2" "length L2 \<le> 65535"
  defines "n' \<equiv> (if packet_type h = pt_code PtUser \<and> sequence h = of_nat n then n + 1 else n)"
  shows "\<exists>c' u'. process_on_connection os now peer h d c u = Inr (c', u')
     \<and> conn_ok peer L n' c' \<and> wire_ok L n' u' \<and> n' \<le> length L2
     \<and> connections u' = connections u \<and> receive_read_idx u' = receive_read_idx u \<and> socket_open u' = socket_open u
     \<and> receive_queue u' = receive_queue u @ map (Pair peer) (drop n (take n' L2))
     \<and> (\<forall>k<length L. m \<le> k \<longrightarrow> of_nat k \<in> pend_keys c \<longrightarrow> of_nat k \<in> pend_keys c')"
proof -
  define ch where "ch = unat (hdr_channel h)"
  define c0 where "c0 = c\<lparr>last_recv_time := now\<rparr>"
  have ch: "ch = 0 \<or> ch = 1" "ch = 1 \<longrightarrow> ack_ok m h" using p by (auto simp: pkt_ok_def ch_def)
  have c0: "conn_ok peer L n c0" "pend_keys c0 = pend_keys c" using conn_ok_core [OF _ c, of c0] by (simp_all add: c0_def)
  obtain c1 u1 where a: "process_acks now c0 u ch (ack h) (ack_bits h) = (c1, u1)" by fastforce
  note pa = process_acks_ok [OF c0(1) ch(2) b(1,2) a ch(1)]
  have w1: "wire_ok L n u1" using w pa by (simp add: wire_ok_def)
  have len: "length (channels c0) = 4" using c0(1) by (simp add: conn_ok_def)
  have f: "frag_count h = 0" using p by (simp add: pkt_ok_def)
  have same: "length (channels c0) \<le> ch \<longleftrightarrow> False" using len ch(1) by auto
  note unf = process_on_connection_def [of os now peer h d c u, folded c0_def ch_def, unfolded Let_def, folded c0_def ch_def,
      unfolded same if_False a prod.case]
  have keep: ?thesis if "process_on_connection os now peer h d c u = Inr (c', u')" "keeps peer L n c1 u1 c' u'" "n' = n" for c' u'
    using that pa w1 b(3) c0(2) unfolding keeps_def by (auto simp: udp_frame_def)
  consider (hs) "packet_type h = pt_code PtHandshake" | (ak) "packet_type h = pt_code PtAck"
    | (usr) "packet_type h = pt_code PtUser" using p by (auto simp: pkt_ok_def)
  then show ?thesis
  proof cases
    case hs
    show ?thesis
      by (rule keep [OF _ send_handshake_keeps [of "if c_state c1 = Connecting then c1\<lparr>c_state := Connected\<rparr> else c1"]])
        (use hs in \<open>simp_all add: unf n'_def\<close>)
  next
    case ak
    show ?thesis
      by (rule keep [OF _ keeps_core [of c1]]) (use ak in \<open>simp_all add: unf n'_def\<close>)
  next
    case usr
    then obtain k where k: "k < length L2" "sequence h = of_nat k" "d = L2 ! k" and u1: "ch = 1" "hdr_reliability h = ReliableOrdered"
      using p by (auto simp: pkt_ok_def ch_def)
    have exp: "remote_seq (channels c1 ! 1) + 1 = of_nat n" using pa by (simp add: conn_ok_def)
    have inj: "(of_nat k :: u16) = of_nat n \<longleftrightarrow> k = n"
      by (rule of_nat_eq_small) (use k(1) b(3,4) in simp_all)
    show ?thesis
    proof (cases "k = n")
      case True
      define c2 where "c2 = upd_channel 1 (\<lambda>k. k\<lparr>remote_seq := of_nat n, ch_ack_bits := push_bit 1 (ch_ack_bits k) OR 1\<rparr>) c1"
      have len1: "1 < length (channels c1)" using pa by (simp add: conn_ok_def)
      have "process_on_connection os now peer h d c u = Inr (c2, push_receive u1 (c_address c2) d)"
        using usr u1 exp k(2) True by (simp add: unf process_payload_plain [OF f] lift_conn_def c2_def Let_def)
      moreover have "conn_ok peer L (n + 1) c2"
        using pa len1 unfolding conn_ok_def c2_def upd_channel_def by (auto simp: nth_list_update)
      moreover have "pend_keys c2 = pend_keys c1" using len1 by (simp add: pend_keys_def c2_def upd_channel_def)
      moreover have "drop n (take (n + 1) L2) = [d]"
        using take_Suc_conv_app_nth [of n L2] k True by (simp add: Suc_eq_plus1)
      moreover have "wire_ok L (n + 1) u1" using wire_ok_mono [OF w1, of "n + 1" "[]"] by simp
      moreover have "n' = n + 1" using usr k True by (simp add: n'_def)
      ultimately show ?thesis using pa k(1) True c0(2)
        by (auto simp: push_receive_def wire_ok_def udp_frame_def conn_ok_def)
    next
      case False
      then have n': "n' = n" using k inj by (simp add: n'_def)
      have ne: "(of_nat k :: u16) \<noteq> of_nat n" using False inj by simp
      have core: "conn_core (upd_channel ch (\<lambda>q. q\<lparr>receive_buffer := receive_buffer q @ X\<rparr>) c1) = conn_core c1" for X
        by (rule core_upd_channel) (simp add: chan_core_def)
      have "\<exists>c2. process_on_connection os now peer h d c u = Inr (c2, u1) \<and> conn_core c2 = conn_core c1"
        using usr u1 exp k(2) ne core by (simp add: unf Let_def)
      then obtain c2 where c2: "process_on_connection os now peer h d c u = Inr (c2, u1)" "conn_core c2 = conn_core c1"
        by blast
      show ?thesis by (rule keep [OF c2(1) keeps_core [OF c2(2)] n'])
    qed
  qed
qed
subsection \<open>One side of the link\<close>

definition side_ok :: "address \<Rightarrow> bytes list \<Rightarrow> nat \<Rightarrow> udp \<Rightarrow> bool" where
  "side_ok peer L n u \<longleftrightarrow> (connections u = [] \<and> L = [] \<and> n = 0 \<or> (\<exists>c. connections u = [c] \<and> conn_ok peer L n c))
     \<and> wire_ok L n u"

definition keys :: "udp \<Rightarrow> u16 set" where
  "keys u = (case connections u of [] \<Rightarrow> {} | c # _ \<Rightarrow> pend_keys c)"

text \<open>\<open>received peer L L2 m n u n' u'\<close>: the transport went from \<open>n\<close> to \<open>n'\<close> messages received, queueing the
  next ones of the peer's list \<open>L2\<close> and dropping no message the peer has not received (\<open>m\<close> it has).\<close>

definition received :: "address \<Rightarrow> bytes list \<Rightarrow> bytes list \<Rightarrow> nat \<Rightarrow> nat \<Rightarrow> udp \<Rightarrow> nat \<Rightarrow> udp \<Rightarrow> bool" where
  "received peer L L2 m n u n' u' \<longleftrightarrow> side_ok peer L n' u' \<and> n \<le> n' \<and> n' \<le> length L2
     \<and> receive_read_idx u' = receive_read_idx u \<and> socket_open u' = socket_open u
     \<and> receive_queue u' = receive_queue u @ map (Pair peer) (drop n (take n' L2))
     \<and> (\<forall>k<length L. m \<le> k \<longrightarrow> of_nat k \<in> keys u \<longrightarrow> of_nat k \<in> keys u')"

lemma received_trans:
  assumes "received peer L L2 m n u n1 u1" "received peer L L2 m n1 u1 n2 u2"
  shows "received peer L L2 m n u n2 u2"
proof -
  have "n \<le> n1" "n1 \<le> n2" "n1 \<le> length L2" using assms by (simp_all add: received_def)
  then have "take n2 L2 = take n1 L2 @ drop n1 (take n2 L2)" by (metis append_take_drop_id min.absorb1 take_take)
  then have "drop n (take n2 L2) = drop n (take n1 L2) @ drop n1 (take n2 L2)"
    using \<open>n \<le> n1\<close> \<open>n1 \<le> length L2\<close> by (metis append_Nil diff_is_0_eq drop0 drop_append length_take min.absorb2)
  then show ?thesis using assms unfolding received_def by simp
qed

lemma received_refl: "side_ok peer L n u \<Longrightarrow> n \<le> length L2 \<Longrightarrow> received peer L L2 m n u n u"
  by (simp add: received_def)

lemma new_connection_ok: "conn_ok peer [] 0 (new_connection peer now)"
proof -
  have "i < 4 \<Longrightarrow> replicate 4 new_channel ! i = new_channel" for i by simp
  then show ?thesis unfolding conn_ok_def new_connection_def by (simp add: new_channel_def u16_max)
qed

lemma process_packet_ok:
  assumes a: "addr_ok peer" and s: "side_ok peer L n u" and p: "pkt_ok L2 m h d"
    and b: "m \<le> length L" "length L \<le> 65535" "n \<le> length L2" "length L2 \<le> 65535"
  defines "n' \<equiv> (if packet_type h = pt_code PtUser \<and> sequence h = of_nat n then n + 1 else n)"
  shows "\<exists>u'. process_packet os now u peer h d = Inr u' \<and> received peer L L2 m n u n' u'"
proof -
  have pid: "protocol_id h = PROTOCOL_ID" using p by (simp add: pkt_ok_def)
  define u1 where "u1 = snd (get_or_create_connection now u peer)"
  have "\<exists>c. connections u1 = [c] \<and> conn_ok peer L n c \<and> get_or_create_connection now u peer = (0, u1) \<and> keys u \<subseteq> pend_keys c"
  proof (cases "connections u")
    case Nil
    then have "get_or_create_connection now u peer = (0, u\<lparr>connections := [new_connection peer now]\<rparr>)"
      by (simp add: get_or_create_connection_def find_connection_def)
    then show ?thesis using s Nil new_connection_ok [of peer now] by (simp add: side_ok_def u1_def keys_def)
  next
    case (Cons c cs)
    then have cs: "connections u = [c]" "conn_ok peer L n c" using s by (auto simp: side_ok_def)
    then have "addr_eq (c_address c) peer" using a by (simp add: conn_ok_def)
    then have "get_or_create_connection now u peer = (0, u)"
      using cs by (simp add: get_or_create_connection_def find_connection_def)
    then show ?thesis using cs by (simp add: u1_def keys_def)
  qed
  then obtain c where c: "connections u1 = [c]" "conn_ok peer L n c" "get_or_create_connection now u peer = (0, u1)"
    and k: "keys u \<subseteq> pend_keys c" by blast
  have fr: "wire_ok L n u1" "receive_queue u1 = receive_queue u" "receive_read_idx u1 = receive_read_idx u"
    "socket_open u1 = socket_open u"
    using s by (auto simp: side_ok_def u1_def get_or_create_connection_def wire_ok_def split: option.split)
  have n': "n \<le> n'" by (simp add: n'_def)
  obtain c' u2 where r: "process_on_connection os now peer h d c u1 = Inr (c', u2)"
     "conn_ok peer L n' c'" "wire_ok L n' u2" "n' \<le> length L2"
     "connections u2 = connections u1" "receive_read_idx u2 = receive_read_idx u1" "socket_open u2 = socket_open u1"
     "receive_queue u2 = receive_queue u1 @ map (Pair peer) (drop n (take n' L2))"
     "\<forall>k<length L. m \<le> k \<longrightarrow> of_nat k \<in> pend_keys c \<longrightarrow> of_nat k \<in> pend_keys c'"
    using process_on_connection_ok [OF c(2) fr(1) p b, of os now, folded n'_def] by blast
  have "process_packet os now u peer h d = Inr (u2\<lparr>connections := [c']\<rparr>)"
    using pid c r by (simp add: process_packet_def)
  moreover have "received peer L L2 m n u n' (u2\<lparr>connections := [c']\<rparr>)"
    using r fr c(1) k n' unfolding received_def side_ok_def keys_def wire_ok_def by auto
  ultimately show ?thesis by blast
qed

lemma dgram_parse:
  assumes "dgram_ok L n b"
  obtains h d where "take MAX_PACKET_SIZE b = b" "HDR_SIZE \<le> length b" "hdr_deserialize b HDR_SIZE = Some h"
    "drop HDR_SIZE b = d" "pkt_ok L n h d"
proof -
  obtain h hb d where h: "hdr_serialize h HDR_SIZE = Some hb" "b = hb @ d" "pkt_ok L n h d" using assms by (auto simp: dgram_ok_def)
  have "length hb = 16" using h(1) by (rule hdr_serialize_length)
  moreover have "length d \<le> MAX_PAYLOAD_SIZE" using h(3) by (simp add: pkt_ok_def)
  ultimately show ?thesis
    using h hdr_deserialize_serialize [OF h(1), of d] that [of h d]
    by (auto simp: HDR_SIZE_def MAX_PACKET_SIZE_def MAX_PAYLOAD_SIZE_def)
qed

definition from_peer :: "address \<Rightarrow> (address \<times> bytes) list \<Rightarrow> arrival \<Rightarrow> bool" where
  "from_peer peer W a \<longleftrightarrow> set_raw_storage addr_default (fst (fst (fst a))) (snd (fst (fst a))) = peer
     \<and> snd (fst a) \<in> snd ` set W"

lemma poll_receive_ok:
  assumes a: "addr_ok peer" and s: "side_ok peer L n u"
    and i: "\<forall>a\<in>set ins. from_peer peer W a" "\<forall>w\<in>set W. dgram_ok L2 m (snd w)"
    and b: "m \<le> length L" "length L \<le> 65535" "n \<le> length L2" "length L2 \<le> 65535"
  shows "\<exists>n' u'. poll_receive os ins u = Inr u' \<and> received peer L L2 m n u n' u'"
  using s i(1) b(3)
proof (induction ins arbitrary: n u)
  case Nil
  then show ?case by (auto intro!: exI [of _ n] received_refl)
next
  case (Cons x ins)
  obtain src b0 now where x: "x = ((src, b0), now)" by (metis prod.exhaust)
  have "dgram_ok L2 m b0" using Cons.prems(2) i(2) x by (auto simp: from_peer_def)
  then obtain h d where d: "take MAX_PACKET_SIZE b0 = b0" "HDR_SIZE \<le> length b0" "hdr_deserialize b0 HDR_SIZE = Some h"
    "drop HDR_SIZE b0 = d" "pkt_ok L2 m h d" by (rule dgram_parse)
  have src: "set_raw_storage addr_default (fst src) (snd src) = peer" using Cons.prems(2) x by (simp add: from_peer_def)
  obtain n1 u1 where p: "process_packet os now u peer h d = Inr u1" "received peer L L2 m n u n1 u1"
    using process_packet_ok [OF a Cons.prems(1) d(5) b(1,2) Cons.prems(3) b(4)] by blast
  let ?u1 = "u1\<lparr>packets_received := packets_received u1 + 1\<rparr>"
  have r1: "received peer L L2 m n u n1 ?u1" using p(2) by (simp add: received_def side_ok_def wire_ok_def keys_def)
  have ok1: "side_ok peer L n1 ?u1" "n1 \<le> length L2" using r1 by (simp_all add: received_def)
  have ins: "\<forall>a\<in>set ins. from_peer peer W a" using Cons.prems(2) by simp
  obtain n2 u2 where r2: "poll_receive os ins ?u1 = Inr u2" "received peer L L2 m n1 ?u1 n2 u2"
    using Cons.IH [OF ok1(1) ins ok1(2)] by blast
  have "poll_receive os (x # ins) u = Inr u2"
    unfolding x using d p(1) src r2(1) by (simp add: Let_def)
  then show ?case using received_trans [OF r1 r2(2)] by blast
qed

lemma poll_connections_ok:
  assumes s: "side_ok peer L n u" and r: "poll_connections os t [0..<length (connections u)] u = u'"
  shows "side_ok peer L n u' \<and> keys u' = keys u \<and> receive_queue u' = receive_queue u
    \<and> receive_read_idx u' = receive_read_idx u \<and> socket_open u' = socket_open u"
proof (cases "connections u")
  case Nil
  then show ?thesis using s r by auto
next
  case (Cons c cs)
  then have c: "connections u = [c]" "conn_ok peer L n c" "wire_ok L n u" using s by (auto simp: side_ok_def)
  show ?thesis
  proof (cases "c_state c = Connected")
    case False
    then show ?thesis using s r c by (auto simp: upt_rec)
  next
    case True
    obtain c1 u1 where rp: "resend_pending os t c u t = (c1, u1)" by fastforce
    note k1 = resend_pending_keeps [OF c(2) rp]
    obtain c2 u2 where k: "(if f64 (1/10) < f64 (t - last_send_time c1)
        then (c1\<lparr>last_send_time := t\<rparr>, send_keepalive os u1 c1) else (c1, u1)) = (c2, u2)" by fastforce
    have "keeps peer L n c1 u1 c2 u2"
      using k send_keepalive_keeps [of "c1\<lparr>last_send_time := t\<rparr>" c1] keeps_core [of c1 c1] by (auto split: if_splits)
    then have kk: "keeps peer L n c u c2 u2" by (rule keeps_trans [OF k1])
    have "u' = u2\<lparr>connections := (connections u2)[0 := c2]\<rparr>"
      using r c(1) True rp k by (simp add: upt_rec Let_def)
    then show ?thesis using kk c unfolding keeps_def side_ok_def keys_def
      by (auto simp: udp_frame_def wire_ok_def)
  qed
qed

lemma cleanup_ok:
  assumes "side_ok peer L n u" "connections (cleanup_connections (cleanup_fragments u t) t) \<noteq> []"
  shows "connections (cleanup_connections (cleanup_fragments u t) t) = connections u"
  using assms by (auto simp: side_ok_def cleanup_connections_def cleanup_fragments_def split: if_splits)

lemma udp_poll_ok:
  assumes a: "addr_ok peer" and s: "side_ok peer L n u"
    and i: "\<forall>a\<in>set ins. from_peer peer W a" "\<forall>w\<in>set W. dgram_ok L2 m (snd w)"
    and b: "m \<le> length L" "length L \<le> 65535" "n \<le> length L2" "length L2 \<le> 65535"
  shows "\<exists>u'. udp_poll os t ins u = Inr u' \<and> (connections u' \<noteq> [] \<longrightarrow> (\<exists>n'. received peer L L2 m n u n' u'))"
proof (cases "socket_open u")
  case False
  then show ?thesis using received_refl [OF s b(3)] by (auto simp: udp_poll_def)
next
  case True
  obtain n' u1 where r: "poll_receive os ins u = Inr u1" "received peer L L2 m n u n' u1"
    using poll_receive_ok [OF a s i b] by blast
  define u2 where "u2 = poll_connections os t [0..<length (connections u1)] u1"
  define u3 where "u3 = cleanup_connections (cleanup_fragments u2 t) t"
  have s1: "side_ok peer L n' u1" using r(2) by (simp add: received_def)
  note pc = poll_connections_ok [OF s1 u2_def [symmetric]]
  have "udp_poll os t ins u = Inr u3" using True r(1) by (simp add: udp_poll_def u2_def u3_def)
  moreover have "received peer L L2 m n u n' u3" if "connections u3 \<noteq> []"
  proof -
    have "connections u3 = connections u2" using cleanup_ok [of peer L n' u2 t] pc that by (simp add: u3_def)
    moreover have "wire u3 = wire u2" "receive_queue u3 = receive_queue u2" "receive_read_idx u3 = receive_read_idx u2"
      "socket_open u3 = socket_open u2" by (simp_all add: u3_def cleanup_connections_def cleanup_fragments_def)
    ultimately show ?thesis using r(2) pc unfolding received_def side_ok_def keys_def wire_ok_def by simp
  qed
  ultimately show ?thesis by blast
qed

lemma udp_send_to_ok:
  assumes a: "addr_ok peer" and s: "side_ok peer L n u" and l: "length d \<le> MAX_PAYLOAD_SIZE"
    and f: "find_connection u peer = Some i" "c_state (connections u ! i) \<noteq> Disconnecting"
    and r: "udp_send_to os now u peer d ReliableOrdered = (ok, u')"
  shows "side_ok peer (L @ [d]) n u' \<and> keys u' = insert (of_nat (length L)) (keys u)
    \<and> receive_queue u' = receive_queue u \<and> receive_read_idx u' = receive_read_idx u \<and> socket_open u' = socket_open u"
proof -
  obtain c where c: "connections u = [c]" "conn_ok peer L n c" "wire_ok L n u"
    using s f(1) by (auto simp: side_ok_def find_connection_def)
  have "addr_eq (c_address c) peer" using a c(2) by (simp add: conn_ok_def)
  then have i: "i = 0" using f(1) c(1) by (simp add: find_connection_def)
  obtain ok1 c1 u1 where st: "send_to_connection os now c u d ReliableOrdered 0 = (ok1, c1, u1)" by (metis prod_cases3)
  have nd: "c_state c \<noteq> Disconnecting" using f(2) i c(1) by simp
  note so = send_ordered [OF c(2,3) l nd st]
  have "u' = u1\<lparr>connections := (connections u1)[0 := c1]\<rparr>"
    using r f(1) i c(1) st by (simp add: udp_send_to_def send_at_def)
  then show ?thesis using so c by (auto simp: side_ok_def keys_def udp_frame_def wire_ok_def)
qed

subsection \<open>The link\<close>

text \<open>An endpoint: the transport, the messages its application has sent on the channel, and the messages
  its application has popped.\<close>

record endpoint =
  ep :: udp
  sent_log :: "bytes list"
  got :: "bytes list"

definition delivered :: "endpoint \<Rightarrow> bytes list" where
  "delivered x = got x @ map snd (drop (receive_read_idx (ep x)) (receive_queue (ep x)))"

text \<open>What one side can do; \<open>W\<close> is everything the peer ever put on the wire. A \<open>poll\<close> that loses the
  connection ends the run.\<close>

inductive ep_step :: "address \<Rightarrow> (address \<times> bytes) list \<Rightarrow> endpoint \<Rightarrow> endpoint \<Rightarrow> bool" for peer W where
  ep_send: "length d \<le> MAX_PAYLOAD_SIZE \<Longrightarrow> length (sent_log x) < 65535 \<Longrightarrow>
    find_connection (ep x) peer = Some i \<Longrightarrow> c_state (connections (ep x) ! i) \<noteq> Disconnecting \<Longrightarrow>
    udp_send_to os now (ep x) peer d ReliableOrdered = (ok, u') \<Longrightarrow>
    ep_step peer W x (x\<lparr>ep := u', sent_log := sent_log x @ [d]\<rparr>)"
| ep_poll: "\<forall>a\<in>set ins. from_peer peer W a \<Longrightarrow> udp_poll os t ins (ep x) = Inr u' \<Longrightarrow> connections u' \<noteq> [] \<Longrightarrow>
    ep_step peer W x (x\<lparr>ep := u'\<rparr>)"
| ep_pop: "udp_pop_receive (ep x) max_length = (Some (d, sender), u') \<Longrightarrow> MAX_PAYLOAD_SIZE \<le> max_length \<Longrightarrow>
    ep_step peer W x (x\<lparr>ep := u', got := got x @ [d]\<rparr>)"
| ep_pop_empty: "udp_pop_receive (ep x) max_length = (None, u') \<Longrightarrow> ep_step peer W x (x\<lparr>ep := u'\<rparr>)"

inductive_cases ep_stepE: "ep_step peer W x x'"

inductive link_reach :: "address \<Rightarrow> address \<Rightarrow> endpoint \<Rightarrow> endpoint \<Rightarrow> bool" for a b where
  link_init: "udp_connect os True True now b new_udp = (True, u) \<Longrightarrow> udp_bind os' True True la new_udp = (True, v) \<Longrightarrow>
    link_reach a b \<lparr>ep = u, sent_log = [], got = []\<rparr> \<lparr>ep = v, sent_log = [], got = []\<rparr>"
| link_left: "link_reach a b x y \<Longrightarrow> ep_step b (wire (ep y)) x x' \<Longrightarrow> link_reach a b x' y"
| link_right: "link_reach a b x y \<Longrightarrow> ep_step a (wire (ep x)) y y' \<Longrightarrow> link_reach a b x y'"

text \<open>\<open>a\<close> is the client's address as the server sees it, \<open>b\<close> the server's as the client sees it.\<close>

definition end_ok :: "address \<Rightarrow> endpoint \<Rightarrow> bool" where
  "end_ok peer x \<longleftrightarrow> side_ok peer (sent_log x) (length (delivered x)) (ep x) \<and> length (sent_log x) \<le> 65535 \<and> socket_open (ep x)
     \<and> receive_read_idx (ep x) \<le> length (receive_queue (ep x))
     \<and> (\<forall>d\<in>set (sent_log x). length d \<le> MAX_PAYLOAD_SIZE)
     \<and> (\<forall>m\<in>set (receive_queue (ep x)). length (snd m) \<le> MAX_PAYLOAD_SIZE)"

definition flow_ok :: "endpoint \<Rightarrow> endpoint \<Rightarrow> bool" where
  "flow_ok x y \<longleftrightarrow> prefix (delivered y) (sent_log x)
     \<and> (\<forall>k<length (sent_log x). length (delivered y) \<le> k \<longrightarrow> of_nat k \<in> keys (ep x))"

lemma step_poll:
  assumes a: "addr_ok peer" and x: "end_ok peer x" and y: "end_ok p2 y" and f: "flow_ok x y" "flow_ok y x"
    and i: "\<forall>a\<in>set ins. from_peer peer (wire (ep y)) a" "udp_poll os t ins (ep x) = Inr u'" "connections u' \<noteq> []"
  shows "end_ok peer (x\<lparr>ep := u'\<rparr>) \<and> flow_ok (x\<lparr>ep := u'\<rparr>) y \<and> flow_ok y (x\<lparr>ep := u'\<rparr>)"
proof -
  let ?n = "length (delivered x)" and ?m = "length (delivered y)" and ?L = "sent_log x" and ?L2 = "sent_log y"
  have s: "side_ok peer ?L ?n (ep x)" and lb: "length ?L \<le> 65535" "length ?L2 \<le> 65535" using x y by (simp_all add: end_ok_def)
  have pre: "prefix (delivered x) ?L2" using f(2) by (simp add: flow_ok_def)
  have nm: "?m \<le> length ?L" "?n \<le> length ?L2" using f by (auto simp: flow_ok_def prefix_length_le)
  have w: "\<forall>w\<in>set (wire (ep y)). dgram_ok ?L2 ?m (snd w)" using y by (simp add: end_ok_def side_ok_def wire_ok_def)
  obtain n' where r: "received peer ?L ?L2 ?m ?n (ep x) n' u'"
    using udp_poll_ok [OF a s i(1) w nm(1) lb(1) nm(2) lb(2), of os t] i(2,3) by auto
  have idx: "receive_read_idx (ep x) \<le> length (receive_queue (ep x))" using x by (simp add: end_ok_def)
  have "delivered (x\<lparr>ep := u'\<rparr>) = delivered x @ drop ?n (take n' ?L2)"
    using r idx by (simp add: delivered_def received_def comp_def)
  moreover have "delivered x = take ?n (take n' ?L2)" 
  proof -
    have "take ?n (take n' ?L2) = take ?n ?L2" using r by (simp add: received_def min_def)
    also have "\<dots> = delivered x" using pre by (metis append_eq_conv_conj prefix_def)
    finally show ?thesis by (rule sym)
  qed
  ultimately have d: "delivered (x\<lparr>ep := u'\<rparr>) = take n' ?L2" by (metis append_take_drop_id)
  have ln: "length (delivered (x\<lparr>ep := u'\<rparr>)) = n'" using r by (simp add: d received_def)
  have len: "\<forall>d\<in>set ?L2. length d \<le> MAX_PAYLOAD_SIZE" using y by (simp add: end_ok_def)
  have "\<forall>m\<in>set (receive_queue u'). length (snd m) \<le> MAX_PAYLOAD_SIZE"
  proof -
    have "set (drop ?n (take n' ?L2)) \<subseteq> set ?L2" by (meson order_trans set_drop_subset set_take_subset)
    moreover have "receive_queue u' = receive_queue (ep x) @ map (Pair peer) (drop ?n (take n' ?L2))"
      using r by (simp add: received_def)
    ultimately show ?thesis using x len unfolding end_ok_def by auto
  qed
  moreover have "receive_read_idx u' \<le> length (receive_queue u')"
  proof -
    have "receive_read_idx u' = receive_read_idx (ep x)" "length (receive_queue (ep x)) \<le> length (receive_queue u')"
      using r unfolding received_def by (metis, metis length_append le_add1)
    then show ?thesis using idx by simp
  qed
  ultimately have "end_ok peer (x\<lparr>ep := u'\<rparr>)"
    using x r ln by (simp add: end_ok_def received_def)
  moreover have "flow_ok (x\<lparr>ep := u'\<rparr>) y" using f(1) r unfolding flow_ok_def received_def by simp
  moreover have "flow_ok y (x\<lparr>ep := u'\<rparr>)"
    using f(2) r unfolding flow_ok_def ln by (simp add: d received_def take_is_prefix)
  ultimately show ?thesis by blast
qed

lemma step_send:
  assumes a: "addr_ok peer" and x: "end_ok peer x" and f: "flow_ok x y" "flow_ok y x"
    and l: "length d \<le> MAX_PAYLOAD_SIZE" "length (sent_log x) < 65535"
    and c: "find_connection (ep x) peer = Some i" "c_state (connections (ep x) ! i) \<noteq> Disconnecting"
    and r: "udp_send_to os now (ep x) peer d ReliableOrdered = (ok, u')"
  shows "end_ok peer (x\<lparr>ep := u', sent_log := sent_log x @ [d]\<rparr>)
    \<and> flow_ok (x\<lparr>ep := u', sent_log := sent_log x @ [d]\<rparr>) y \<and> flow_ok y (x\<lparr>ep := u', sent_log := sent_log x @ [d]\<rparr>)"
proof -
  let ?x = "x\<lparr>ep := u', sent_log := sent_log x @ [d]\<rparr>"
  have s: "side_ok peer (sent_log x) (length (delivered x)) (ep x)" using x by (simp add: end_ok_def)
  note so = udp_send_to_ok [OF a s l(1) c r]
  have d: "delivered ?x = delivered x" using so by (simp add: delivered_def)
  have "end_ok peer ?x" using x so l unfolding end_ok_def d by auto
  moreover have "flow_ok ?x y" using f(1) so unfolding flow_ok_def by (auto simp: less_Suc_eq)
  moreover have "flow_ok y ?x" using f(2) unfolding flow_ok_def d by simp
  ultimately show ?thesis by blast
qed

lemma step_pop:
  assumes x: "end_ok peer x" and f: "flow_ok x y" "flow_ok y x"
    and r: "udp_pop_receive (ep x) max_length = (Some (d, sender), u')" "MAX_PAYLOAD_SIZE \<le> max_length"
  shows "end_ok peer (x\<lparr>ep := u', got := got x @ [d]\<rparr>)
    \<and> flow_ok (x\<lparr>ep := u', got := got x @ [d]\<rparr>) y \<and> flow_ok y (x\<lparr>ep := u', got := got x @ [d]\<rparr>)"
proof -
  let ?q = "receive_queue (ep x)" and ?i = "receive_read_idx (ep x)" and ?x = "x\<lparr>ep := u', got := got x @ [d]\<rparr>"
  obtain e where q: "?i < length ?q" "?q ! ?i = (sender, e)" "d = take (min max_length (length e)) e"
    and u': "u' = (ep x)\<lparr>receive_read_idx := ?i + 1\<rparr>"
    using r(1) by (auto simp: udp_pop_receive_def split: if_splits prod.splits)
  have "length e \<le> MAX_PAYLOAD_SIZE" using x q(1,2) nth_mem [OF q(1)] by (auto simp: end_ok_def)
  then have "d = e" using q(3) r(2) by simp
  moreover have "drop ?i ?q = (sender, e) # drop (?i + 1) ?q"
    using Cons_nth_drop_Suc [OF q(1)] q(2) by (simp add: Suc_eq_plus1)
  ultimately have d: "delivered ?x = delivered x" by (simp add: delivered_def u')
  have "end_ok peer ?x" using x q(1) unfolding end_ok_def d by (simp add: u' side_ok_def wire_ok_def)
  then show ?thesis using f unfolding flow_ok_def d by (simp add: u' keys_def)
qed

lemma step_pop_empty:
  assumes x: "end_ok peer x" and f: "flow_ok x y" "flow_ok y x"
    and r: "udp_pop_receive (ep x) max_length = (None, u')"
  shows "end_ok peer (x\<lparr>ep := u'\<rparr>) \<and> flow_ok (x\<lparr>ep := u'\<rparr>) y \<and> flow_ok y (x\<lparr>ep := u'\<rparr>)"
proof -
  have q: "length (receive_queue (ep x)) \<le> receive_read_idx (ep x)"
    and u': "u' = (ep x)\<lparr>receive_queue := [], receive_read_idx := 0\<rparr>"
    using r by (auto simp: udp_pop_receive_def split: if_splits prod.splits)
  have d: "delivered (x\<lparr>ep := u'\<rparr>) = delivered x" using q by (simp add: delivered_def u')
  have "end_ok peer (x\<lparr>ep := u'\<rparr>)" using x unfolding end_ok_def d by (simp add: u' side_ok_def wire_ok_def)
  then show ?thesis using f unfolding flow_ok_def d by (simp add: u' keys_def)
qed

lemma ep_step_ok:
  assumes "ep_step peer (wire (ep y)) x x'" "addr_ok peer" "end_ok peer x" "end_ok p2 y" "flow_ok x y" "flow_ok y x"
  shows "end_ok peer x' \<and> flow_ok x' y \<and> flow_ok y x'"
  using assms(1)
proof (cases rule: ep_step.cases)
  case ep_send
  then show ?thesis using step_send [OF assms(2,3,5,6)] by blast
next
  case ep_poll
  then show ?thesis using step_poll [OF assms(2-6)] by blast
next
  case ep_pop
  then show ?thesis using step_pop [OF assms(3,5,6)] by blast
next
  case ep_pop_empty
  then show ?thesis using step_pop_empty [OF assms(3,5,6)] by blast
qed

lemma link_init_ok:
  assumes "udp_connect os True True now b new_udp = (True, u)" "udp_bind os' True True la new_udp = (True, v)"
  shows "end_ok b \<lparr>ep = u, sent_log = [], got = []\<rparr>" "end_ok a \<lparr>ep = v, sent_log = [], got = []\<rparr>"
    "delivered \<lparr>ep = u, sent_log = [], got = []\<rparr> = []" "delivered \<lparr>ep = v, sent_log = [], got = []\<rparr> = []"
proof -
  let ?u = "new_udp\<lparr>socket_open := True, mode := ModeClient, server_address := b, connections := [new_connection b now]\<rparr>"
  have u: "u = send_handshake os ?u b" using assms(1) by (simp add: udp_connect_def udp_disconnect_def new_udp_def)
  have v: "v = new_udp\<lparr>socket_open := True, mode := ModeServer, bound_address := la\<rparr>"
    using assms(2) by (simp add: udp_bind_def udp_disconnect_def new_udp_def)
  have "wire_ok [] 0 ?u" by (simp add: wire_ok_def new_udp_def)
  then have "wire_ok [] 0 u \<and> udp_frame ?u u"
    using send_handshake_keeps [of "new_connection b now" "new_connection b now" b "[]" 0 ?u os b] new_connection_ok
    by (auto simp: keeps_def u)
  then show "end_ok b \<lparr>ep = u, sent_log = [], got = []\<rparr>"
    using new_connection_ok by (simp add: end_ok_def delivered_def side_ok_def udp_frame_def new_udp_def)
  show "delivered \<lparr>ep = u, sent_log = [], got = []\<rparr> = []"
    using \<open>wire_ok [] 0 u \<and> udp_frame ?u u\<close> by (simp add: delivered_def udp_frame_def new_udp_def)
  show "delivered \<lparr>ep = v, sent_log = [], got = []\<rparr> = []" by (simp add: v delivered_def new_udp_def)
  show "end_ok a \<lparr>ep = v, sent_log = [], got = []\<rparr>"
    by (simp add: v end_ok_def delivered_def side_ok_def wire_ok_def new_udp_def)
qed

lemma link_reach_ok:
  assumes "link_reach a b x y" "addr_ok a" "addr_ok b"
  shows "end_ok b x \<and> end_ok a y \<and> flow_ok x y \<and> flow_ok y x"
  using assms(1)
proof (induction rule: link_reach.induct)
  case (link_init os now u os' la v)
  show ?case using link_init_ok [OF link_init] by (simp add: flow_ok_def)
next
  case (link_left x y x')
  then show ?case using ep_step_ok [OF link_left(2)] assms(2,3) by blast
next
  case (link_right x y y')
  then show ?case using ep_step_ok [OF link_right(2)] assms(2,3) by blast
qed

subsection \<open>Properties of the channel\<close>

text \<open>Message \<open>k\<close>, with contents \<open>d\<close>, waits in the retransmission list.\<close>

definition retained :: "udp \<Rightarrow> nat \<Rightarrow> bytes \<Rightarrow> bool" where
  "retained u k d \<longleftrightarrow> (\<exists>c p. connections u = [c] \<and> p \<in> set (pendings (channels c ! 1))
     \<and> p_sequence p = of_nat k \<and> p_data p = d)"

lemma keys_retained:
  assumes "side_ok peer L n u" "length L \<le> 65535" "k < length L" "of_nat k \<in> keys u"
  shows "retained u k (L ! k)"
proof -
  obtain c p where c: "connections u = [c]" "conn_ok peer L n c" "p \<in> set (pendings (channels c ! 1))" "p_sequence p = of_nat k"
    using assms(1,4) by (auto simp: side_ok_def keys_def pend_keys_def)
  then obtain j where j: "j < length L" "p_sequence p = of_nat j" "p_data p = L ! j" by (auto simp: conn_ok_def pend_ok_def)
  have "(of_nat j :: u16) = of_nat k \<longleftrightarrow> j = k" using j(1) assms(2,3) by (intro of_nat_eq_small) simp_all
  then show ?thesis using c j by (auto simp: retained_def)
qed

text \<open>C1: the ReliableOrdered channel delivers in order, exactly once and without loss. Two transports run
  over a network that loses, duplicates, delays and reorders datagrams; in every state reachable while
  the connection stands, with fewer than 65536 unfragmented messages per direction, the messages the
  receiving application has popped and those queued for it are together a prefix of the messages sent,
  and every message beyond that prefix is still, unchanged, in the sender's retransmission list: no
  acknowledgement ever drops a message that was not delivered.\<close>
theorem reliable_ordered_delivery:
  assumes "addr_ok a" "addr_ok b" "link_reach a b x y"
  shows "prefix (got y) (delivered y) \<and> prefix (delivered y) (sent_log x)
    \<and> (\<forall>k<length (sent_log x). length (delivered y) \<le> k \<longrightarrow> retained (ep x) k (sent_log x ! k))
    \<and> prefix (got x) (delivered x) \<and> prefix (delivered x) (sent_log y)
    \<and> (\<forall>k<length (sent_log y). length (delivered x) \<le> k \<longrightarrow> retained (ep y) k (sent_log y ! k))"
proof -
  have i: "end_ok b x" "end_ok a y" "flow_ok x y" "flow_ok y x" using link_reach_ok [OF assms(3,1,2)] by simp_all
  then have s: "side_ok b (sent_log x) (length (delivered x)) (ep x)" "length (sent_log x) \<le> 65535"
    "side_ok a (sent_log y) (length (delivered y)) (ep y)" "length (sent_log y) \<le> 65535" by (simp_all add: end_ok_def)
  have "prefix (got z) (delivered z)" for z by (simp add: delivered_def)
  then show ?thesis using i(3,4) keys_retained [OF s(1,2)] keys_retained [OF s(3,4)] by (simp add: flow_ok_def)
qed

text \<open>C2: the ReliableOrdered channel makes progress: whatever happened before, when a datagram the sender
  put on the wire for the first undelivered message arrives, the receiver's \<open>poll\<close> processes it without
  a fault and, if it keeps the connection, queues exactly that message for the application.\<close>
theorem reliable_ordered_progress:
  assumes "addr_ok a" "addr_ok b" "link_reach a b x y" "length (delivered y) < length (sent_log x)"
    and "(to, d) \<in> set (wire (ep x))" "hdr_deserialize d HDR_SIZE = Some h" "packet_type h = pt_code PtUser"
      "sequence h = of_nat (length (delivered y))"
    and "set_raw_storage addr_default sa len = a"
  shows "\<exists>u'. udp_poll os t [(((sa, len), d), now)] (ep y) = Inr u'
    \<and> (connections u' \<noteq> [] \<longrightarrow> delivered (y\<lparr>ep := u'\<rparr>) = delivered y @ [sent_log x ! length (delivered y)])"
proof -
  let ?n = "length (delivered y)"
  have i: "end_ok b x" "end_ok a y" "flow_ok x y" "flow_ok y x" using link_reach_ok [OF assms(3,1,2)] by simp_all
  have s: "side_ok a (sent_log y) ?n (ep y)" "length (sent_log y) \<le> 65535" "length (sent_log x) \<le> 65535" "socket_open (ep y)"
    using i by (simp_all add: end_ok_def)
  have nm: "length (delivered x) \<le> length (sent_log y)" "?n \<le> length (sent_log x)" using i by (auto simp: flow_ok_def prefix_length_le)
  have "dgram_ok (sent_log x) (length (delivered x)) d" using i(1) assms(5) by (auto simp: end_ok_def side_ok_def wire_ok_def)
  then obtain h' e where d: "take MAX_PACKET_SIZE d = d" "HDR_SIZE \<le> length d" "hdr_deserialize d HDR_SIZE = Some h'"
    "drop HDR_SIZE d = e" "pkt_ok (sent_log x) (length (delivered x)) h' e" by (rule dgram_parse)
  have h: "h' = h" using d(3) assms(6) by simp
  obtain u1 where p: "process_packet os now (ep y) a h e = Inr u1"
    "received a (sent_log y) (sent_log x) (length (delivered x)) ?n (ep y) (?n + 1) u1"
    using process_packet_ok [OF assms(1) s(1) d(5) nm(1) s(2) nm(2) s(3), of os now] assms(7,8) h by auto
  define u2 where "u2 = poll_connections os t [0..<length (connections u1)] (u1\<lparr>packets_received := packets_received u1 + 1\<rparr>)"
  have "side_ok a (sent_log y) (?n + 1) (u1\<lparr>packets_received := packets_received u1 + 1\<rparr>)"
    using p(2) by (simp add: received_def side_ok_def wire_ok_def)
  from poll_connections_ok [OF this, of os t u2] have q: "receive_queue u2 = receive_queue u1" "receive_read_idx u2 = receive_read_idx u1"
    by (simp_all add: u2_def)
  have "udp_poll os t [(((sa, len), d), now)] (ep y) = Inr (cleanup_connections (cleanup_fragments u2 t) t)"
    using s(4) d p(1) h assms(9) by (simp add: udp_poll_def u2_def Let_def)
  moreover have "drop ?n (take (?n + 1) (sent_log x)) = [sent_log x ! ?n]"
    using take_Suc_conv_app_nth [OF assms(4)] assms(4) by (simp add: Suc_eq_plus1)
  then have "delivered (y\<lparr>ep := cleanup_connections (cleanup_fragments u2 t) t\<rparr>) = delivered y @ [sent_log x ! ?n]"
    using p(2) q i(2) by (simp add: delivered_def received_def end_ok_def cleanup_connections_def cleanup_fragments_def)
  ultimately show ?thesis by blast
qed

subsection \<open>A run of the link\<close>

text \<open>The states of a short run on which the two properties are instantiated: the client connects, the
  server answers its handshake, the client sends one message, the server receives it and its
  application pops it.\<close>

definition run_addr :: "u16 \<Rightarrow> address" where
  "run_addr k = \<lparr>valid = True, storage = SaV6 k 0 (replicate 16 1) 0, storage_len = 28\<rparr>"

definition run_os :: "address \<Rightarrow> bytes \<Rightarrow> bool" where "run_os to d = True"

definition run_arrival :: "u16 \<Rightarrow> bytes \<Rightarrow> arrival" where
  "run_arrival k d = (((SaV6 k 0 (replicate 16 1) 0, 28), d), 0)"

definition run_handshake :: bytes where "run_handshake = [0xCA, 0x17, 1, 0, 0, 0, 0, 0, 0, 0, 0, 0, 0, 0, 0, 0]"
definition run_message :: bytes where
  "run_message = [0xCA, 0x17, 0, 5, 0, 0, 0xFF, 0xFF, 0, 0, 0, 0, 0, 2, 0, 0, 104, 105]"

definition run_c0 :: udp where
  "run_c0 = new_udp\<lparr>socket_open := True, mode := ModeClient, server_address := run_addr 2,
     connections := [new_connection (run_addr 2) 0], packets_sent := 1, wire := [(run_addr 2, run_handshake)]\<rparr>"

definition run_s0 :: udp where
  "run_s0 = new_udp\<lparr>socket_open := True, mode := ModeServer, bound_address := run_addr 2\<rparr>"

definition run_s1 :: udp where
  "run_s1 = run_s0\<lparr>connections := [(new_connection (run_addr 1) 0)\<lparr>c_state := Connected\<rparr>],
     packets_sent := 1, packets_received := 1, wire := [(run_addr 1, run_handshake)]\<rparr>"

definition run_c1 :: udp where
  "run_c1 = snd (udp_send_to run_os 0 run_c0 (run_addr 2) [104, 105] ReliableOrdered)"

definition run_s2 :: udp where
  "run_s2 = run_s1\<lparr>connections := [upd_channel 1 (\<lambda>k. k\<lparr>remote_seq := 0, ch_ack_bits := 1\<rparr>)
       ((new_connection (run_addr 1) 0)\<lparr>c_state := Connected\<rparr>)],
     packets_received := 2, receive_queue := [(run_addr 1, [104, 105])]\<rparr>"
lemma run_addr_ok: "addr_ok (run_addr k)"
  by (simp add: run_addr_def addr_ok_def)


lemma run_steps:
  "udp_connect run_os True True 0 (run_addr 2) new_udp = (True, run_c0)"
  "udp_bind run_os True True (run_addr 2) new_udp = (True, run_s0)"
  "udp_poll run_os 0 [run_arrival 1 run_handshake] run_s0 = Inr run_s1"
  "find_connection run_c0 (run_addr 2) = Some 0" "c_state (connections run_c0 ! 0) = Connecting"
  "wire run_c1 = [(run_addr 2, run_handshake), (run_addr 2, run_message)]"
  "udp_poll run_os 0 [run_arrival 1 run_message] run_s1 = Inr run_s2"
  by code_simp+

lemma run_connections: "connections run_s1 \<noteq> []" "connections run_s2 \<noteq> []"
  by (simp_all add: run_s1_def run_s2_def)

lemma run_from_peer: "d \<in> snd ` set W \<Longrightarrow> \<forall>a\<in>set [run_arrival k d]. from_peer (run_addr k) W a"
  by (simp add: from_peer_def run_arrival_def run_addr_def set_raw_storage_def)

text \<open>The run up to the arrival of the message, and with the message queued at the server.\<close>

lemma run_reach:
  "link_reach (run_addr 1) (run_addr 2) \<lparr>ep = run_c1, sent_log = [[104, 105]], got = []\<rparr> \<lparr>ep = run_s1, sent_log = [], got = []\<rparr>"
  "link_reach (run_addr 1) (run_addr 2) \<lparr>ep = run_c1, sent_log = [[104, 105]], got = []\<rparr> \<lparr>ep = run_s2, sent_log = [], got = []\<rparr>"
proof -
  let ?x0 = "\<lparr>ep = run_c0, sent_log = [], got = []\<rparr>" and ?y0 = "\<lparr>ep = run_s0, sent_log = [], got = []\<rparr>"
  have 0: "link_reach (run_addr 1) (run_addr 2) ?x0 ?y0" by (rule link_init [OF run_steps(1,2)])
  have w: "run_handshake \<in> snd ` set (wire run_c0)" by (simp add: run_c0_def)
  have "ep_step (run_addr 1) (wire (ep ?x0)) ?y0 (?y0\<lparr>ep := run_s1\<rparr>)"
    by (rule ep_poll [OF run_from_peer]) (use run_steps(3) run_connections(1) w in simp_all)
  from link_right [OF 0 this]
  have 1: "link_reach (run_addr 1) (run_addr 2) ?x0 (?y0\<lparr>ep := run_s1\<rparr>)" .
  have "ep_step (run_addr 2) (wire run_s1) ?x0 (?x0\<lparr>ep := run_c1, sent_log := sent_log ?x0 @ [[104, 105]]\<rparr>)"
    by (rule ep_send [where i = 0 and now = 0 and os = run_os and ok = "fst (udp_send_to run_os 0 run_c0 (run_addr 2) [104, 105] ReliableOrdered)"])
      (use run_steps(4,5) in \<open>simp_all add: MAX_PAYLOAD_SIZE_def MAX_PACKET_SIZE_def HDR_SIZE_def run_c1_def\<close>)
  with 1 have "link_reach (run_addr 1) (run_addr 2) (?x0\<lparr>ep := run_c1, sent_log := sent_log ?x0 @ [[104, 105]]\<rparr>) (?y0\<lparr>ep := run_s1\<rparr>)"
    by (intro link_left [OF 1]) simp
  then show 2: "link_reach (run_addr 1) (run_addr 2) \<lparr>ep = run_c1, sent_log = [[104, 105]], got = []\<rparr> \<lparr>ep = run_s1, sent_log = [], got = []\<rparr>"
    by simp
  have "ep_step (run_addr 1) (wire run_c1) \<lparr>ep = run_s1, sent_log = [], got = []\<rparr> (\<lparr>ep = run_s1, sent_log = [], got = []\<rparr>\<lparr>ep := run_s2\<rparr>)"
    by (rule ep_poll [OF run_from_peer]) (use run_steps(6,7) run_connections(2) in simp_all)
  then show "link_reach (run_addr 1) (run_addr 2) \<lparr>ep = run_c1, sent_log = [[104, 105]], got = []\<rparr> \<lparr>ep = run_s2, sent_log = [], got = []\<rparr>"
    using link_right [OF 2] by simp
qed

lemma reliable_ordered_delivery_witness:
  "prefix [[104, 105]] [[104, 105 :: u8]] \<and> retained run_c1 0 [104, 105]"
  using reliable_ordered_delivery [OF run_addr_ok run_addr_ok run_reach(1)] reliable_ordered_delivery [OF run_addr_ok run_addr_ok run_reach(2)]
  by (simp add: delivered_def run_s1_def run_s2_def run_s0_def new_udp_def)

lemma reliable_ordered_progress_witness:
  "\<exists>u'. udp_poll run_os 0 [(((SaV6 1 0 (replicate 16 1) 0, 28), run_message), 0)] run_s1 = Inr u'
     \<and> (connections u' \<noteq> [] \<longrightarrow> delivered \<lparr>ep = u', sent_log = [], got = []\<rparr> = [[104, 105]])"
proof -
  let ?h = "default_header\<lparr>flags := 5, ack := 0xFFFF, payload_len := 2\<rparr>"
  have h: "hdr_deserialize run_message HDR_SIZE = Some ?h" by code_simp
  have d: "delivered \<lparr>ep = run_s1, sent_log = [], got = []\<rparr> = []"
    by (simp add: delivered_def run_s1_def run_s0_def new_udp_def)
  have a: "set_raw_storage addr_default (SaV6 1 0 (replicate 16 1) 0) 28 = run_addr 1"
    by (simp add: set_raw_storage_def run_addr_def)
  show ?thesis
    using reliable_ordered_progress [OF run_addr_ok run_addr_ok run_reach(1), of "run_addr 2" run_message ?h
        "SaV6 1 0 (replicate 16 1) 0" 28 run_os 0 0] h d a run_steps(6)
    by (simp add: default_header_def)
qed

end
