(* ===== verification/UdpLaws.thy ===== *)
theory UdpLaws
  imports UdpReliable
begin

text \<open>
  Properties of the UDP transport beyond the ordered channel: bandwidth limits, fragmentation and
  reassembly, the limits of the other channels, and what \<open>poll\<close> cleans up.
\<close>

unbundle bit_operations_syntax

subsection \<open>Bandwidth\<close>

text \<open>A sequence of requests \<open>(now, channel, size)\<close> to one connection: the sizes granted.\<close>

fun consume_all :: "(time \<times> nat \<times> nat) list \<Rightarrow> connection \<Rightarrow> nat list \<times> connection" where
  "consume_all [] c = ([], c)"
| "consume_all ((now, ch, sz) # rs) c =
     (let (ok, c1) = check_and_consume_bandwidth now c ch sz; (gs, c2) = consume_all rs c1
      in (if ok then sz # gs else gs, c2))"

lemma unat_u32_less: "unat (w :: u32) < 2 ^ 32"
  by (rule order_less_le_trans [OF unsigned_less]) simp

lemma consume_limit:
  assumes "check_and_consume_bandwidth now c ch sz = (ok, c')" "\<not> 1 \<le> f64 (now - last_bandwidth_reset c)"
    "0 < global_bandwidth_limit c" "unat (c_bytes_sent c) \<le> unat (global_bandwidth_limit c)"
  shows "global_bandwidth_limit c' = global_bandwidth_limit c \<and> last_bandwidth_reset c' = last_bandwidth_reset c
    \<and> unat (c_bytes_sent c') = unat (c_bytes_sent c) + (if ok then sz else 0)
    \<and> unat (c_bytes_sent c') \<le> unat (global_bandwidth_limit c)"
proof -
  have r: "reset_bandwidth_counters c now = c" using assms(2) by (simp add: reset_bandwidth_counters_def)
  have nw: "unat (c_bytes_sent c + of_nat sz) = unat (c_bytes_sent c) + sz"
    if "unat (c_bytes_sent c) + sz \<le> unat (global_bandwidth_limit c)"
  proof -
    have "unat (c_bytes_sent c) + sz < 2 ^ 32" using that unat_u32_less [of "global_bandwidth_limit c"] by linarith
    then have "sz < 2 ^ 32" "unat (c_bytes_sent c) + unat (of_nat sz :: u32) < 2 ^ 32" by (simp_all add: unat_of_nat_small)
    then show ?thesis by (simp add: unat_word_ariths unat_of_nat_small)
  qed
  show ?thesis
    using assms(1,3,4) nw unfolding check_and_consume_bandwidth_def r Let_def
    by (auto simp: upd_channel_def split: if_splits)
qed

text \<open>C33: the connection's bandwidth limit holds over a one-second window: starting from a counter within
  the limit, whatever is asked of \<open>check_and_consume_bandwidth\<close> on any channels before the window is
  reset, the bytes granted never take the counter past \<open>global_bandwidth_limit\<close>; the 32-bit counter
  does not wrap.\<close>
theorem bandwidth_window_bound:
  assumes "0 < global_bandwidth_limit c" "unat (c_bytes_sent c) \<le> unat (global_bandwidth_limit c)"
    and "\<forall>r\<in>set rs. \<not> 1 \<le> f64 (fst r - last_bandwidth_reset c)"
  shows "unat (c_bytes_sent c) + sum_list (fst (consume_all rs c)) \<le> unat (global_bandwidth_limit c)
    \<and> unat (c_bytes_sent (snd (consume_all rs c))) = unat (c_bytes_sent c) + sum_list (fst (consume_all rs c))"
  using assms
proof (induction rs arbitrary: c)
  case (Cons r rs)
  obtain now ch sz where r: "r = (now, ch, sz)" by (metis prod_cases3)
  obtain ok c1 where k: "check_and_consume_bandwidth now c ch sz = (ok, c1)" by fastforce
  have n: "\<not> 1 \<le> f64 (now - last_bandwidth_reset c)" using Cons.prems(3) r by auto
  note l = consume_limit [OF k n Cons.prems(1,2)]
  have rs: "\<forall>r\<in>set rs. \<not> 1 \<le> f64 (fst r - last_bandwidth_reset c1)" using Cons.prems(3) l by auto
  obtain gs c2 where g: "consume_all rs c1 = (gs, c2)" by fastforce
  have "unat (c_bytes_sent c1) + sum_list gs \<le> unat (global_bandwidth_limit c1)
    \<and> unat (c_bytes_sent c2) = unat (c_bytes_sent c1) + sum_list gs"
    using Cons.IH [of c1] l rs Cons.prems(1) g by simp
  then show ?case using l by (cases ok) (simp_all add: r k g)
qed simp

lemma bandwidth_window_bound_witness:
  "sum_list (fst (consume_all [(1/2, 0, 700), (1/2, 0, 700), (3/4, 3, 200)]
     ((new_connection addr_default 0)\<lparr>global_bandwidth_limit := 1000\<rparr>))) \<le> 1000"
proof -
  have f: "\<not> 1 \<le> f64 (1/2)" "\<not> 1 \<le> f64 (3/4)" by code_simp+
  show ?thesis
    using bandwidth_window_bound [of "(new_connection addr_default 0)\<lparr>global_bandwidth_limit := 1000\<rparr>"
        "[(1/2, 0, 700), (1/2, 0, 700), (3/4, 3, 200)]"] f
    by (simp add: new_connection_def)
qed

subsection \<open>Fragmentation\<close>

lemma fragments_nonempty:
  assumes "i < num_fragments (length d)" shows "fragment d i \<noteq> []" "length (fragment d i) \<le> MAX_PAYLOAD_SIZE"
proof -
  have "i * 1184 < length d" using assms by (simp add: num_fragments_def MAX_PAYLOAD_SIZE_def MAX_PACKET_SIZE_def HDR_SIZE_def)
  then show "fragment d i \<noteq> []"
    by (simp add: fragment_def MAX_PAYLOAD_SIZE_def MAX_PACKET_SIZE_def HDR_SIZE_def)
  show "length (fragment d i) \<le> MAX_PAYLOAD_SIZE" by (simp add: fragment_def)
qed

lemma fragments_concat:
  "concat (map (fragment d) [0..<k]) = take (k * MAX_PAYLOAD_SIZE) d"
proof (induction k)
  case (Suc k)
  have "fragment d k = take MAX_PAYLOAD_SIZE (drop (k * MAX_PAYLOAD_SIZE) d)"
    by (simp add: fragment_def min_def)
  moreover have "take (Suc k * MAX_PAYLOAD_SIZE) d
      = take (k * MAX_PAYLOAD_SIZE) d @ take MAX_PAYLOAD_SIZE (drop (k * MAX_PAYLOAD_SIZE) d)"
    by (metis add.commute mult_Suc take_add)
  ultimately show ?case using Suc by simp
qed simp

lemma fragments_all: "concat (map (fragment d) [0..<num_fragments (length d)]) = d"
proof -
  have "length d \<le> num_fragments (length d) * MAX_PAYLOAD_SIZE"
    by (simp add: num_fragments_def MAX_PAYLOAD_SIZE_def MAX_PACKET_SIZE_def HDR_SIZE_def)
  then show ?thesis by (simp add: fragments_concat)
qed

text \<open>\<open>assembling addr sq n F old S u\<close>: of the message \<open>(addr, sq)\<close> of \<open>n\<close> fragments \<open>F 0\<close>, \<open>F 1\<close>, ... exactly
  those with an index in \<open>S\<close> have arrived; \<open>old\<close> are the assemblies of other messages.\<close>

definition assembly_ok :: "address \<Rightarrow> u16 \<Rightarrow> nat \<Rightarrow> (nat \<Rightarrow> bytes) \<Rightarrow> nat set \<Rightarrow> fragment_assembly \<Rightarrow> bool" where
  "assembly_ok addr sq n F S fa \<longleftrightarrow> fa_address fa = addr \<and> base_sequence fa = sq \<and> length (fragments fa) = n
     \<and> (\<forall>i<n. fragments fa ! i = (if i \<in> S then F i else [])) \<and> (\<forall>j<8. bit (received_mask fa) j \<longleftrightarrow> j \<in> S)"

definition assembling :: "address \<Rightarrow> u16 \<Rightarrow> nat \<Rightarrow> (nat \<Rightarrow> bytes) \<Rightarrow> fragment_assembly list \<Rightarrow> nat set \<Rightarrow> udp \<Rightarrow> bool" where
  "assembling addr sq n F old S u \<longleftrightarrow>
     (if S = {} then fragment_assemblies u = old
      else \<exists>fa. fragment_assemblies u = old @ [fa] \<and> assembly_ok addr sq n F S fa)"

definition is_fragment :: "u16 \<Rightarrow> nat \<Rightarrow> nat \<Rightarrow> packet_header \<Rightarrow> bool" where
  "is_fragment sq n i h \<longleftrightarrow> sequence h = sq \<and> frag_count h = of_nat n \<and> frag_index h = of_nat (i + 1)"

lemma fa_index_append:
  "\<forall>fa\<in>set old. \<not> fa_matches addr sq fa \<Longrightarrow>
     fa_index addr sq (old @ fas) = map_option (\<lambda>i. length old + i) (fa_index addr sq fas)"
  by (cases "fa_index addr sq fas"; induction old) simp_all

lemma find_assembly:
  assumes "assembling addr sq n F old S u" "\<forall>fa\<in>set old. \<not> fa_matches addr sq fa" "addr_ok addr" "n < 256"
  obtains fa u1 where "find_or_create_fragment_assembly now u addr sq (of_nat n) = (length old, u1)"
    "fragment_assemblies u1 = old @ [fa]" "assembly_ok addr sq n F S fa" "receive_queue u1 = receive_queue u"
proof (cases "S = {}")
  case True
  then have "fragment_assemblies u = old" using assms(1) by (simp add: assembling_def)
  moreover have "fa_index addr sq old = None" using fa_index_append [OF assms(2), of "[]"] by simp
  moreover have "unat (of_nat n :: u8) = n" using assms(4) by (simp add: unat_of_nat_small)
  then have "assembly_ok addr sq n F {} (new_assembly now addr sq (of_nat n))"
    by (simp add: assembly_ok_def new_assembly_def)
  ultimately show ?thesis using that True by (simp add: find_or_create_fragment_assembly_def)
next
  case False
  then obtain fa where fa: "fragment_assemblies u = old @ [fa]" "assembly_ok addr sq n F S fa"
    using assms(1) by (auto simp: assembling_def)
  then have "fa_matches addr sq fa" using assms(3) by (simp add: assembly_ok_def fa_matches_def)
  then have "find_or_create_fragment_assembly now u addr sq (of_nat n) = (length old, u)"
    using fa_index_append [OF assms(2), of "[fa]"] fa(1) by (simp add: find_or_create_fragment_assembly_def)
  then show ?thesis using that fa by simp
qed

lemma mask_complete:
  assumes "n \<le> 8" "\<forall>j<8. bit (m :: u8) j \<longleftrightarrow> j \<in> S" "S \<subseteq> {..<n}"
  shows "(ucast m :: u32) = push_bit n 1 - 1 \<longleftrightarrow> S = {..<n}"
proof -
  have "(ucast m :: u32) = mask n \<longleftrightarrow> (\<forall>j<8. j \<in> S \<longleftrightarrow> j < n)"
  proof
    assume e: "(ucast m :: u32) = mask n"
    show "\<forall>j<8. j \<in> S \<longleftrightarrow> j < n"
    proof (intro allI impI)
      fix j :: nat assume j: "j < 8"
      have "bit (ucast m :: u32) j = bit (mask n :: u32) j" using e by simp
      then show "j \<in> S \<longleftrightarrow> j < n" using j assms(1,2) by (simp add: bit_simps)
    qed
  next
    assume s: "\<forall>j<8. j \<in> S \<longleftrightarrow> j < n"
    show "(ucast m :: u32) = mask n"
    proof (rule bit_word_eqI)
      fix j assume "j < LENGTH(32)"
      then show "bit (ucast m :: u32) j = bit (mask n :: u32) j"
        using s assms(1,2) by (cases "j < 8") (auto simp: bit_simps dest: bit_imp_le_length)
    qed
  qed
  moreover have "(push_bit n 1 - 1 :: u32) = mask n" by (simp add: mask_eq_exp_minus_1 push_bit_eq_mult)
  moreover have "(\<forall>j<8. j \<in> S \<longleftrightarrow> j < n) \<longleftrightarrow> S = {..<n}"
    using assms(1,3) by (auto dest: order.strict_trans2)
  ultimately show ?thesis by simp
qed

lemma process_fragment:
  assumes ok: "addr_ok addr" "c_address c = addr" "2 \<le> n" "n \<le> 8" "\<forall>fa\<in>set old. \<not> fa_matches addr sq fa"
    and s: "assembling addr sq n F old S u" "i \<notin> S" "i < n" "S \<subseteq> {..<n}" "F i \<noteq> []"
    and h: "is_fragment sq n i h"
  shows "\<exists>u'. process_payload now c u h (F i) = Inr u' \<and>
    (if insert i S = {..<n}
     then receive_queue u' = receive_queue u @ [(addr, concat (map F [0..<n]))] \<and> fragment_assemblies u' = old
     else receive_queue u' = receive_queue u \<and> assembling addr sq n F old (insert i S) u')"
proof -
  have n256: "n < 256" using ok(4) by simp
  obtain fa u1 where f: "find_or_create_fragment_assembly now u addr sq (of_nat n) = (length old, u1)"
    "fragment_assemblies u1 = old @ [fa]" "assembly_ok addr sq n F S fa" "receive_queue u1 = receive_queue u"
    by (rule find_assembly [OF s(1) ok(5,1) n256])
  have nn: "unat (of_nat n :: u8) = n" "unat (of_nat (i + 1) :: u8) = i + 1"
    using ok(4) s(3) by (intro unat_of_nat_small; simp)+
  have c1: "1 < (of_nat n :: u8)" using nn(1) ok(3) by (simp add: word_less_nat_alt)
  have nz: "(of_nat (i + 1) :: u8) \<noteq> 0" using nn(2) by (metis add_is_0 unat_0 zero_neq_one)
  define fa1 where "fa1 = fa\<lparr>fragments := (fragments fa)[i := F i], received_mask := received_mask fa OR push_bit i 1\<rparr>"
  have ok1: "assembly_ok addr sq n F (insert i S) fa1"
    using f(3) s(3) by (auto simp: assembly_ok_def fa1_def nth_list_update bit_simps)
  have comp: "(ucast (received_mask fa1) :: u32) = push_bit n 1 - 1 \<longleftrightarrow> insert i S = {..<n}"
    using mask_complete [OF ok(4), of "received_mask fa1" "insert i S"] ok1 s(3,4) by (simp add: assembly_ok_def)
  have body: "process_payload now c u h (F i) =
    (let u2 = u1\<lparr>fragment_assemblies := old @ [fa1]\<rparr>
     in if (ucast (received_mask fa1) :: u32) = push_bit n 1 - 1
        then Inr (remove_fragment_assembly (push_receive u2 addr (concat (fragments fa1))) addr sq) else Inr u2)"
    using h f ok s nn c1 nz unfolding process_payload_def is_fragment_def
    by (simp add: assembly_ok_def fa1_def Let_def nth_append list_update_append)
  show ?thesis
  proof (cases "insert i S = {..<n}")
    case True
    have "fragments fa1 = map F [0..<n]"
      using ok1 True by (intro nth_equalityI) (auto simp: assembly_ok_def)
    moreover have "filter (\<lambda>fa. \<not> fa_matches addr sq fa) (old @ [fa1]) = old"
      using ok(1,5) ok1 by (auto simp: fa_matches_def assembly_ok_def filter_id_conv)
    ultimately show ?thesis
      using body comp True f(4) by (simp add: remove_fragment_assembly_def push_receive_def Let_def)
  next
    case False
    then show ?thesis using body comp ok1 f(4) by (auto simp: assembling_def Let_def)
  qed
qed

subsection \<open>A message on its connection\<close>

lemma acks_frame:
  assumes "process_acks now c u ch a bits = (c', u')"
  shows "map remote_seq (channels c') = map remote_seq (channels c)" "c_address c' = c_address c"
    "receive_queue u' = receive_queue u" "fragment_assemblies u' = fragment_assemblies u"
proof -
  have core: "map remote_seq (channels c1) = map remote_seq (channels c)" if "conn_core c1 = conn_core c" for c1 c
    using conn_coreD [OF that] by (intro nth_equalityI) (simp_all add: chan_core_def)
  obtain qs c1 n1 where l: "ack_loop now a bits (pendings (channels c ! ch)) c (packets_acked u) = (qs, c1, n1)"
    by (metis prod_cases3)
  have cc: "conn_core c1 = conn_core c" using ack_loop_eq [OF l] by simp
  have "map remote_seq (channels (upd_channel ch (\<lambda>k. k\<lparr>pendings := qs\<rparr>) c1)) = map remote_seq (channels c1)"
    by (simp add: upd_channel_def map_update_same)
  then show "map remote_seq (channels c') = map remote_seq (channels c)" "c_address c' = c_address c"
    "receive_queue u' = receive_queue u" "fragment_assemblies u' = fragment_assemblies u"
    using assms l core [OF cc] conn_coreD(1) [OF cc]
    by (auto simp: process_acks_def upd_channel_def split: if_splits)
qed

lemma remote_seq_map:
  assumes "map remote_seq (channels c') = map remote_seq (channels c)" "ch < length (channels c)"
  shows "remote_seq (channels c' ! ch) = remote_seq (channels c ! ch)" "length (channels c') = length (channels c)"
proof -
  show l: "length (channels c') = length (channels c)" using arg_cong [OF assms(1), of length] by simp
  show "remote_seq (channels c' ! ch) = remote_seq (channels c ! ch)" using assms l by (metis nth_map)
qed

fun process_all :: "(address \<Rightarrow> bytes \<Rightarrow> bool) \<Rightarrow> time \<Rightarrow> address \<Rightarrow> (packet_header \<times> bytes) list \<Rightarrow> connection \<Rightarrow> udp \<Rightarrow>
    udp_fault + (connection \<times> udp)" where
  "process_all os now from [] c u = Inr (c, u)"
| "process_all os now from (x # xs) c u =
     (case process_on_connection os now from (fst x) (snd x) c u of
        Inl e \<Rightarrow> Inl e
      | Inr (c1, u1) \<Rightarrow> process_all os now from xs c1 u1)"

lemma process_fragment_again:
  assumes ok: "addr_ok addr" "c_address c = addr" "2 \<le> n" "n \<le> 8" "\<forall>fa\<in>set old. \<not> fa_matches addr sq fa"
    and s: "assembling addr sq n F old S u" "i \<in> S" "i < n" "F i \<noteq> []" and h: "is_fragment sq n i h"
  shows "\<exists>u'. process_payload now c u h (F i) = Inr u' \<and> receive_queue u' = receive_queue u \<and> assembling addr sq n F old S u'"
proof -
  have n256: "n < 256" using ok(4) by simp
  obtain fa u1 where f: "find_or_create_fragment_assembly now u addr sq (of_nat n) = (length old, u1)"
    "fragment_assemblies u1 = old @ [fa]" "assembly_ok addr sq n F S fa" "receive_queue u1 = receive_queue u"
    by (rule find_assembly [OF s(1) ok(5,1) n256])
  have nn: "unat (of_nat n :: u8) = n" "unat (of_nat (i + 1) :: u8) = i + 1"
    using ok(4) s(3) by (intro unat_of_nat_small; simp)+
  have c1: "1 < (of_nat n :: u8)" using nn(1) ok(3) by (simp add: word_less_nat_alt)
  have nz: "(of_nat (i + 1) :: u8) \<noteq> 0" using nn(2) by (metis add_is_0 unat_0 zero_neq_one)
  have "process_payload now c u h (F i) = Inr u1"
    using h f ok s nn c1 nz unfolding process_payload_def is_fragment_def by (simp add: assembly_ok_def Let_def nth_append)
  then show ?thesis using f s(2) by (auto simp: assembling_def)
qed

text \<open>On the two channels without an order, \<open>process_on_connection\<close> hands every fragment to \<open>process_payload\<close>.\<close>

lemma unordered_fragment:
  assumes "hdr_reliability h \<in> {Unreliable, ReliableUnordered}" "packet_type h = pt_code PtFragment"
    "unat (hdr_channel h) < length (channels c)"
  obtains c2 u1 where "process_on_connection os now from h d c u = lift_conn c2 (process_payload now c2 u1 h d)"
    "c_address c2 = c_address c" "length (channels c2) = length (channels c)"
    "receive_queue u1 = receive_queue u" "fragment_assemblies u1 = fragment_assemblies u"
proof -
  let ?c0 = "c\<lparr>last_recv_time := now\<rparr>" and ?ch = "unat (hdr_channel h)"
  obtain c1 u1 where a: "process_acks now ?c0 u ?ch (ack h) (ack_bits h) = (c1, u1)" by fastforce
  note f = acks_frame [OF a]
  have len: "length (channels c1) = length (channels c)" using arg_cong [OF f(1), of length] by simp
  define c2 where "c2 = (if hdr_reliability h = Unreliable then c1
    else upd_channel ?ch (\<lambda>k. k\<lparr>remote_seq := sequence h, ch_ack_bits := push_bit 1 (ch_ack_bits k) OR 1\<rparr>) c1)"
  have "process_on_connection os now from h d c u = lift_conn c2 (process_payload now c2 u1 h d)"
    using assms by (auto simp: process_on_connection_def Let_def a c2_def)
  moreover have "c_address c2 = c_address c" "length (channels c2) = length (channels c)"
    using f(2) len by (simp_all add: c2_def upd_channel_def)
  ultimately show thesis using that f by simp
qed

lemma assembling_cong:
  "fragment_assemblies u' = fragment_assemblies u \<Longrightarrow> assembling addr sq n F old S u' = assembling addr sq n F old S u"
  by (simp add: assembling_def)

lemma process_fragments:
  assumes ok: "addr_ok addr" "2 \<le> n" "n \<le> 8" "\<forall>fa\<in>set old. \<not> fa_matches addr sq fa"
    and F: "\<forall>i<n. F i \<noteq> []" and h: "\<forall>i<n. is_fragment sq n i (H i) \<and> hdr_reliability (H i) \<in> {Unreliable, ReliableUnordered} \<and>
      packet_type (H i) = pt_code PtFragment \<and> unat (hdr_channel (H i)) = ch"
    and s: "c_address c = addr" "ch < length (channels c)" "assembling addr sq n F old S u" "S \<subseteq> {..<n}"
      "S \<union> set js = {..<n}" "js \<noteq> []" "last js \<notin> S \<union> set (butlast js)"
  shows "\<exists>c' u'. process_all os now from (map (\<lambda>i. (H i, F i)) js) c u = Inr (c', u')
    \<and> receive_queue u' = receive_queue u @ [(addr, concat (map F [0..<n]))] \<and> fragment_assemblies u' = old"
  using s
proof (induction js arbitrary: S c u)
  case (Cons i js)
  have i: "i < n" using Cons.prems(5) by auto
  have hi: "is_fragment sq n i (H i)" "hdr_reliability (H i) \<in> {Unreliable, ReliableUnordered}" "packet_type (H i) = pt_code PtFragment"
    "unat (hdr_channel (H i)) < length (channels c)" "F i \<noteq> []"
    using mp [OF spec [OF h] i] mp [OF spec [OF F] i] Cons.prems(2) by (simp_all only: simp_thms)
  obtain c2 u1 where p: "process_on_connection os now from (H i) (F i) c u = lift_conn c2 (process_payload now c2 u1 (H i) (F i))"
    "c_address c2 = c_address c" "length (channels c2) = length (channels c)"
    "receive_queue u1 = receive_queue u" "fragment_assemblies u1 = fragment_assemblies u"
    by (rule unordered_fragment [OF hi(2-4)])
  have addr: "c_address c2 = addr" and s1: "assembling addr sq n F old S u1"
    using p(2) assembling_cong [OF p(5)] Cons.prems(1,3) by simp_all
  have "\<exists>u2. process_payload now c2 u1 (H i) (F i) = Inr u2 \<and> (if insert i S = {..<n}
     then (if i \<in> S then assembling addr sq n F old S u2 \<and> receive_queue u2 = receive_queue u
       else receive_queue u2 = receive_queue u @ [(addr, concat (map F [0..<n]))] \<and> fragment_assemblies u2 = old)
     else receive_queue u2 = receive_queue u \<and> assembling addr sq n F old (insert i S) u2)"
  proof (cases "i \<in> S")
    case True
    then show ?thesis
      using process_fragment_again [OF ok(1) addr ok(2-4) s1 True i hi(5,1), of now] p(4) by (auto simp: insert_absorb)
  next
    case False
    then show ?thesis
      using process_fragment [OF ok(1) addr ok(2-4) s1 False i Cons.prems(4) hi(5,1), of now] unfolding p(4) by (simp only: if_False)
  qed
  then obtain u2 where u2: "process_on_connection os now from (H i) (F i) c u = Inr (c2, u2)"
    "if insert i S = {..<n}
     then (if i \<in> S then assembling addr sq n F old S u2 \<and> receive_queue u2 = receive_queue u
       else receive_queue u2 = receive_queue u @ [(addr, concat (map F [0..<n]))] \<and> fragment_assemblies u2 = old)
     else receive_queue u2 = receive_queue u \<and> assembling addr sq n F old (insert i S) u2"
    using p(1) by (auto simp: lift_conn_def)
  show ?case
  proof (cases "js = []")
    case True
    then have "insert i S = {..<n}" "i \<notin> S" using Cons.prems(5,7) by auto
    then show ?thesis using u2 True by simp
  next
    case False
    have l: "last js \<notin> insert i S \<union> set (butlast js)" using Cons.prems(7) False by auto
    have "last js \<in> {..<n}" using Cons.prems(5) last_in_set [OF False] by auto
    then have ne: "insert i S \<noteq> {..<n}" using l by blast
    have s2: "receive_queue u2 = receive_queue u" "assembling addr sq n F old (insert i S) u2" using u2(2) ne by simp_all
    have d: "ch < length (channels c2)" "insert i S \<subseteq> {..<n}" "insert i S \<union> set js = {..<n}"
      using Cons.prems(2,4,5) i p(3) by auto
    show ?thesis using Cons.IH [OF addr d(1) s2(2) d(2,3) False l] u2(1) s2(1) by simp
  qed
qed simp

text \<open>C20: On the channels without an order, Unreliable and ReliableUnordered, fragmentation loses nothing: a message longer than one
  packet that splits into at most eight fragments is queued exactly once, byte for byte, by the processing of its fragments on the
  connection, whatever the order in which they arrive and however often each arrives before the last one missing, next to any assemblies
  of other messages, and leaves no assembly behind.\<close>
theorem fragments_reassemble:
  assumes "ch = 0 \<or> ch = 2" "ch < length (channels c)" and "addr_ok (c_address c)"
    and "MAX_PAYLOAD_SIZE < length d" "num_fragments (length d) \<le> 8"
    and "\<forall>fa\<in>set (fragment_assemblies u). \<not> fa_matches (c_address c) sq fa"
    and "set js = {..<num_fragments (length d)}" "last js \<notin> set (butlast js)"
  shows "\<exists>c' u'. process_all os now from (map (\<lambda>i. (fragment_header ch k sq d i, fragment d i)) js) c u = Inr (c', u')
    \<and> receive_queue u' = receive_queue u @ [(c_address c, d)] \<and> fragment_assemblies u' = fragment_assemblies u"
proof -
  let ?n = "num_fragments (length d)"
  have two: "2 \<le> ?n" using assms(4) by (simp add: num_fragments_def MAX_PAYLOAD_SIZE_def MAX_PACKET_SIZE_def HDR_SIZE_def)
  have h: "\<forall>i<?n. is_fragment sq ?n i (fragment_header ch k sq d i) \<and> hdr_reliability (fragment_header ch k sq d i) \<in> {Unreliable, ReliableUnordered} \<and>
      packet_type (fragment_header ch k sq d i) = pt_code PtFragment \<and> unat (hdr_channel (fragment_header ch k sq d i)) = ch"
    using assms(1) by (auto simp: is_fragment_def fragment_header_def data_header_def rel_of_code_def)
  have s: "assembling (c_address c) sq ?n (fragment d) (fragment_assemblies u) {} u" by (simp add: assembling_def)
  have F: "\<forall>i<?n. fragment d i \<noteq> []" by (simp add: fragments_nonempty)
  have "0 \<in> set js" using two unfolding assms(7) by simp
  then have ne: "js \<noteq> []" by auto
  have j: "{} \<subseteq> {..<?n}" "{} \<union> set js = {..<?n}" "last js \<notin> {} \<union> set (butlast js)" using assms(7,8) by simp_all
  show ?thesis
    using process_fragments [OF assms(3) two assms(5,6) F h refl assms(2) s j(1,2) ne j(3), of os now "from"]
    unfolding fragments_all .
qed

lemma fragments_reassemble_witness:
  "\<exists>c' u'. process_all run_os 0 (run_addr 1)
       (map (\<lambda>i. (fragment_header 2 new_channel 7 (replicate 2000 9) i, fragment (replicate 2000 9) i)) [1, 1, 0])
       (new_connection (run_addr 1) 0) new_udp = Inr (c', u')
    \<and> receive_queue u' = [(run_addr 1, replicate 2000 9)] \<and> fragment_assemblies u' = []"
proof -
  let ?c = "new_connection (run_addr 1) 0"
  have c: "c_address ?c = run_addr 1" "fragment_assemblies new_udp = []" "receive_queue new_udp = []" "2 < length (channels ?c)"
    by (simp_all add: new_connection_def new_udp_def)
  have n: "num_fragments (length (replicate 2000 (9 :: u8))) = 2" "MAX_PAYLOAD_SIZE < length (replicate 2000 (9 :: u8))"
    by (simp_all add: num_fragments_def MAX_PAYLOAD_SIZE_def MAX_PACKET_SIZE_def HDR_SIZE_def)
  have s: "set [1, 1, 0] = {..<2 :: nat}" "last [1, 1, 0 :: nat] \<notin> set (butlast [1, 1, 0])" by auto
  show ?thesis
    using fragments_reassemble [of 2 ?c "replicate 2000 9" new_udp 7 "[1, 1, 0]" run_os 0 "run_addr 1" new_channel] n s c(4)
    unfolding c(1-3) by (simp add: run_addr_ok)
qed

text \<open>C37: a message of more than eight fragments is never delivered: \<open>received_mask\<close> has eight bits, so it
  cannot equal the completed mask of nine or more fragments; no fragment of such a message, whatever
  its index, contents and the assembly it meets, ever puts anything into the receive queue.\<close>
theorem long_message_never_delivered:
  assumes "8 < frag_count h" "process_payload now c u h d = Inr u'"
  shows "receive_queue u' = receive_queue u"
proof -
  have nc: "(ucast m :: u32) \<noteq> push_bit (unat (frag_count h)) 1 - 1" if "\<not> 32 \<le> unat (frag_count h)" for m :: u8
  proof
    have n: "8 < unat (frag_count h)" using assms(1) by (simp add: word_less_nat_alt)
    assume "(ucast m :: u32) = push_bit (unat (frag_count h)) 1 - 1"
    then have "(ucast m :: u32) = mask (unat (frag_count h))" by (simp add: mask_eq_exp_minus_1 push_bit_eq_mult)
    then have "bit (ucast m :: u32) 8 = bit (mask (unat (frag_count h)) :: u32) 8" by simp
    then show False using n by (auto simp: bit_simps dest: bit_imp_le_length)
  qed
  obtain i u1 where f: "find_or_create_fragment_assembly now u (c_address c) (sequence h) (frag_count h) = (i, u1)" by fastforce
  have q: "receive_queue u1 = receive_queue u"
    using f by (auto simp: find_or_create_fragment_assembly_def split: option.splits)
  have one: "1 < frag_count h" using assms(1) by (rule order.strict_trans [rotated]) simp
  show ?thesis
    using assms(2) nc one q unfolding process_payload_def f
    by (auto simp: Let_def remove_fragment_assembly_def split: if_splits)
qed

lemma long_message_never_delivered_witness:
  "receive_queue (projr (process_payload 0 (new_connection (run_addr 1) 0) new_udp
     (default_header\<lparr>frag_index := 1, frag_count := 9\<rparr>) [1])) = []"
proof -
  have "\<not> isl (process_payload 0 (new_connection (run_addr 1) 0) new_udp (default_header\<lparr>frag_index := 1, frag_count := 9\<rparr>) [1])"
    by code_simp
  from long_message_never_delivered [OF _ sum.collapse(2) [OF this, symmetric]]
  show ?thesis by (simp add: new_udp_def)
qed

subsection \<open>Channels that lose messages\<close>

text \<open>The part of \<open>process_on_connection\<close> that follows the acknowledgements, for a data packet.\<close>

lemma process_data:
  assumes "packet_type h \<in> {pt_code PtUser, pt_code PtFragment}" "unat (hdr_channel h) = ch" "ch < length (channels c)"
    "process_on_connection os now from h d c u = Inr (c', u')"
  obtains c1 u1 where "map remote_seq (channels c1) = map remote_seq (channels c)" "c_address c1 = c_address c"
    "receive_queue u1 = receive_queue u" "fragment_assemblies u1 = fragment_assemblies u"
    "hdr_reliability h = ReliableOrdered \<Longrightarrow> sequence h = remote_seq (channels c ! ch) \<Longrightarrow> 1 < frag_count h \<Longrightarrow> c' = c1 \<and> u' = u1"
    "hdr_reliability h = ReliableOrdered \<Longrightarrow> sequence h = remote_seq (channels c ! ch) + 1 \<Longrightarrow>
       c' = upd_channel ch (\<lambda>k. k\<lparr>remote_seq := sequence h, ch_ack_bits := push_bit 1 (ch_ack_bits k) OR 1\<rparr>) c1
       \<and> process_payload now c' u1 h d = Inr u'"
    "hdr_reliability h = UnreliableSequenced \<Longrightarrow> remote_seq (channels c ! ch) = 0xFFFF \<Longrightarrow> c' = c1 \<and> u' = u1"
proof -
  let ?c0 = "c\<lparr>last_recv_time := now\<rparr>"
  obtain c1 u1 where a: "process_acks now ?c0 u ch (ack h) (ack_bits h) = (c1, u1)" by fastforce
  note f = acks_frame [OF a]
  have f1: "map remote_seq (channels c1) = map remote_seq (channels c)" using f(1) by simp
  note r = remote_seq_map [OF f1 assms(3)]
  have pt: "packet_type h \<noteq> pt_code PtHandshake" "packet_type h \<noteq> pt_code PtDisconnect" "packet_type h \<noteq> pt_code PtAck"
    using assms(1) by auto
  have len: "(length (channels ?c0) \<le> ch) = False" using assms(3) by simp
  note main = assms(4) [unfolded process_on_connection_def Let_def assms(2) len if_False a prod.case]
  have seq: "w \<le> 0xFFFF" for w :: u16 unfolding u16_max by (rule word_n1_ge)
  show ?thesis
  proof (rule that [OF f1])
    show "c_address c1 = c_address c" "receive_queue u1 = receive_queue u" "fragment_assemblies u1 = fragment_assemblies u"
      using f by simp_all
  qed (use main pt r seq in \<open>auto simp: lift_conn_def split: if_splits sum.splits\<close>)
qed

lemma single_fragment_incomplete:
  assumes "1 < n" shows "(ucast (0 OR push_bit k 1 :: u8) :: u32) \<noteq> push_bit n 1 - 1"
proof
  assume "(ucast (0 OR push_bit k 1 :: u8) :: u32) = push_bit n 1 - 1"
  then have "(ucast (push_bit k 1 :: u8) :: u32) = mask n" by (simp add: mask_eq_exp_minus_1 push_bit_eq_mult)
  then have "bit (ucast (push_bit k 1 :: u8) :: u32) 0 = bit (mask n :: u32) 0"
    "bit (ucast (push_bit k 1 :: u8) :: u32) 1 = bit (mask n :: u32) 1" by simp_all
  then show False using assms by (auto simp: bit_simps)
qed

lemma first_fragment:
  assumes "process_payload now c u h d = Inr u'" "1 < frag_count h"
    "\<forall>fa\<in>set (fragment_assemblies u). \<not> fa_matches (c_address c) (sequence h) fa"
  shows "receive_queue u' = receive_queue u"
proof -
  have none: "fa_index (c_address c) (sequence h) (fragment_assemblies u) = None"
    using fa_index_append [OF assms(3), of "[]"] by simp
  have n: "1 < unat (frag_count h)" using assms(2) by (simp add: word_less_nat_alt)
  show ?thesis
    using assms(1,2) single_fragment_incomplete [OF n, of "unat (frag_index h) - 1"]
    unfolding process_payload_def find_or_create_fragment_assembly_def none
    by (auto simp: Let_def new_assembly_def split: if_splits)
qed

lemma ordered_rest_dropped:
  assumes "\<forall>x\<in>set xs. hdr_reliability (fst x) = ReliableOrdered \<and> packet_type (fst x) = pt_code PtFragment
      \<and> hdr_channel (fst x) = 1 \<and> sequence (fst x) = sq \<and> 1 < frag_count (fst x)"
    "1 < length (channels c)" "remote_seq (channels c ! 1) = sq" "process_all os now from xs c u = Inr (c', u')"
  shows "receive_queue u' = receive_queue u"
  using assms
proof (induction xs arbitrary: c u)
  case (Cons x xs)
  obtain c1 u1 where p: "process_on_connection os now from (fst x) (snd x) c u = Inr (c1, u1)"
    "process_all os now from xs c1 u1 = Inr (c', u')" using Cons.prems(4) by (auto split: sum.splits)
  have "map remote_seq (channels c1) = map remote_seq (channels c) \<and> receive_queue u1 = receive_queue u"
    by (rule process_data [OF _ _ Cons.prems(2) p(1)]) (use Cons.prems(1,3) in auto)
  then show ?case using Cons.IH [OF _ _ _ p(2)] Cons.prems remote_seq_map [of c1 c 1] by simp
qed simp

text \<open>a fragmented message on the ReliableOrdered channel is never delivered: all its fragments carry
  one sequence number, the first to arrive advances \<open>remote_seq\<close> past it, and every other is then taken
  for an old packet. Whatever fragments of it arrive, in any order and any number of times, the receive
  queue does not change.\<close>
theorem ordered_fragments_lost:
  assumes "1 < num_fragments (length d)" "num_fragments (length d) \<le> 255"
    and "1 < length (channels c)" "remote_seq (channels c ! 1) + 1 = sq"
    and "\<forall>fa\<in>set (fragment_assemblies u). \<not> fa_matches (c_address c) sq fa"
    and "process_all os now from (map (\<lambda>i. (fragment_header 1 k sq d i, fragment d i)) js) c u = Inr (c', u')"
  shows "receive_queue u' = receive_queue u"
proof (cases js)
  case Nil
  then show ?thesis using assms(6) by simp
next
  case (Cons j js')
  let ?f = "\<lambda>i. (fragment_header 1 k sq d i, fragment d i)"
  have "unat (of_nat (num_fragments (length d)) :: u8) = num_fragments (length d)"
    using assms(2) by (intro unat_of_nat_small) simp
  then have n: "1 < (of_nat (num_fragments (length d)) :: u8)" using assms(1) by (simp add: word_less_nat_alt)
  have rel: "rel_of_code 1 = ReliableOrdered" by (simp add: rel_of_code_def)
  have h: "hdr_reliability (fst (?f i)) = ReliableOrdered \<and> packet_type (fst (?f i)) = pt_code PtFragment
      \<and> hdr_channel (fst (?f i)) = 1 \<and> sequence (fst (?f i)) = sq \<and> 1 < frag_count (fst (?f i))" for i
    using n rel by (simp add: fragment_header_def data_header_def)
  obtain c1 u1 where p: "process_on_connection os now from (fst (?f j)) (snd (?f j)) c u = Inr (c1, u1)"
    "process_all os now from (map ?f js') c1 u1 = Inr (c', u')" using assms(6) Cons by (auto split: sum.splits)
  have a: "receive_queue u1 = receive_queue u \<and> remote_seq (channels c1 ! 1) = sq \<and> 1 < length (channels c1)"
  proof (rule process_data [OF _ _ assms(3) p(1)])
    fix c2 u2
    assume m: "map remote_seq (channels c2) = map remote_seq (channels c)" "c_address c2 = c_address c"
      "receive_queue u2 = receive_queue u" "fragment_assemblies u2 = fragment_assemblies u"
      and s: "hdr_reliability (fst (?f j)) = ReliableOrdered \<Longrightarrow> sequence (fst (?f j)) = remote_seq (channels c ! 1) + 1 \<Longrightarrow>
       c1 = upd_channel 1 (\<lambda>q. q\<lparr>remote_seq := sequence (fst (?f j)), ch_ack_bits := push_bit 1 (ch_ack_bits q) OR 1\<rparr>) c2
       \<and> process_payload now c1 u2 (fst (?f j)) (snd (?f j)) = Inr u1"
    have e: "sequence (fst (?f j)) = remote_seq (channels c ! 1) + 1" using h [of j] assms(4) by simp
    have q: "c1 = upd_channel 1 (\<lambda>q. q\<lparr>remote_seq := sequence (fst (?f j)), ch_ack_bits := push_bit 1 (ch_ack_bits q) OR 1\<rparr>) c2"
      "process_payload now c1 u2 (fst (?f j)) (snd (?f j)) = Inr u1"
      using s [OF conjunct1 [OF h [of j]] e] by blast+
    have "c_address c1 = c_address c" using q(1) m(2) by (simp add: upd_channel_def)
    then have "receive_queue u1 = receive_queue u2"
      using first_fragment [OF q(2)] h [of j] assms(5) m(4) by simp
    moreover have "sequence (fst (?f j)) = sq" using h [of j] by blast
    ultimately show ?thesis using q(1) m(3) remote_seq_map [OF m(1) assms(3)] assms(3) by (simp add: upd_channel_def)
  qed (use h [of j] in auto)
  have "receive_queue u' = receive_queue u1"
    by (rule ordered_rest_dropped [OF _ _ _ p(2), of sq]) (use a h in auto)
  then show ?thesis using a by simp
qed

text \<open>the UnreliableSequenced channel delivers nothing: \<open>remote_seq\<close> starts at 0xFFFF, every sequence
  number is at most that, and the channel drops whatever is not greater; on a new connection no list of
  sequenced packets changes the receive queue.\<close>
theorem unreliable_sequenced_never_delivers:
  assumes "\<forall>x\<in>set xs. hdr_reliability (fst x) = UnreliableSequenced \<and> hdr_channel (fst x) = 3
      \<and> packet_type (fst x) \<in> {pt_code PtUser, pt_code PtFragment}"
    and "process_all os now from xs (new_connection addr t) u = Inr (c', u')"
  shows "receive_queue u' = receive_queue u"
proof -
  have "receive_queue u' = receive_queue u"
    if "3 < length (channels c)" "remote_seq (channels c ! 3) = 0xFFFF" "process_all os now from xs c u = Inr (c', u')" for c
    using assms(1) that
  proof (induction xs arbitrary: c u)
    case (Cons x xs)
    obtain c1 u1 where p: "process_on_connection os now from (fst x) (snd x) c u = Inr (c1, u1)"
      "process_all os now from xs c1 u1 = Inr (c', u')" using Cons.prems(4) by (auto split: sum.splits)
    have "map remote_seq (channels c1) = map remote_seq (channels c) \<and> receive_queue u1 = receive_queue u"
      by (rule process_data [OF _ _ Cons.prems(2) p(1)]) (use Cons.prems(1,3) in auto)
    then show ?case using Cons.IH [OF _ _ _ p(2)] Cons.prems remote_seq_map [of c1 c 3] by simp
  qed simp
  from this [of "new_connection addr t"] show ?thesis using assms(2) by (simp add: new_connection_def new_channel_def numeral_eq_Suc)
qed


lemma ordered_fragments_lost_witness:
  "receive_queue (snd (projr (process_all run_os 0 (run_addr 1)
     (map (\<lambda>i. (fragment_header 1 new_channel 0 (replicate 1185 9) i, fragment (replicate 1185 9) i)) [1, 1])
     (new_connection (run_addr 1) 0) new_udp))) = []"
proof -
  let ?h = "(data_header PtFragment 1 new_channel 0 1)\<lparr>frag_index := 2, frag_count := 2\<rparr>"
  let ?xs = "map (\<lambda>i. (fragment_header 1 new_channel 0 (replicate 1185 9) i, fragment (replicate 1185 9) i)) [1, 1]"
  let ?r = "process_all run_os 0 (run_addr 1) ?xs (new_connection (run_addr 1) 0) new_udp"
  have n: "num_fragments 1185 = 2"
    by (simp add: num_fragments_def MAX_PAYLOAD_SIZE_def MAX_PACKET_SIZE_def HDR_SIZE_def)
  have f: "fragment (replicate 1185 (9 :: u8)) 1 = [9]"
    by (simp add: fragment_def MAX_PAYLOAD_SIZE_def MAX_PACKET_SIZE_def HDR_SIZE_def One_nat_def)
  have "?xs = [(?h, [9]), (?h, [9])]"
    by (simp add: f [unfolded One_nat_def] fragment_header_def n One_nat_def)
  moreover have "\<not> isl (process_all run_os 0 (run_addr 1) [(?h, [9]), (?h, [9])] (new_connection (run_addr 1) 0) new_udp)"
    by code_simp
  ultimately have "\<not> isl ?r" by simp
  then have r: "?r = Inr (fst (projr ?r), snd (projr ?r))" by simp
  have c: "1 < length (channels (new_connection (run_addr 1) 0))"
    "remote_seq (channels (new_connection (run_addr 1) 0) ! 1) + 1 = 0"
    using new_connection_ok [of "run_addr 1" 0] by (simp_all add: conn_ok_def)
  have e: "\<forall>fa\<in>set (fragment_assemblies new_udp). \<not> fa_matches (c_address (new_connection (run_addr 1) 0)) 0 fa"
    by (simp add: new_udp_def)
  have l: "1 < num_fragments (length (replicate 1185 (9 :: u8)))" "num_fragments (length (replicate 1185 (9 :: u8))) \<le> 255"
    by (simp_all add: n)
  show ?thesis
    using ordered_fragments_lost [OF l c e r] by (simp add: new_udp_def)
qed

lemma unreliable_sequenced_never_delivers_witness:
  "receive_queue (snd (projr (process_all run_os 0 (run_addr 1)
     [(data_header PtUser 3 new_channel 0 1, [9]), (data_header PtUser 3 new_channel 1 1, [9])]
     (new_connection (run_addr 1) 0) new_udp))) = []"
proof -
  let ?xs = "[(data_header PtUser 3 new_channel 0 1, [9]), (data_header PtUser 3 new_channel 1 1, [9])]"
  let ?r = "process_all run_os 0 (run_addr 1) ?xs (new_connection (run_addr 1) 0) new_udp"
  have "\<not> isl ?r" by code_simp
  then have r: "?r = Inr (fst (projr ?r), snd (projr ?r))" by simp
  have h: "\<forall>x\<in>set ?xs. hdr_reliability (fst x) = UnreliableSequenced \<and> hdr_channel (fst x) = 3
      \<and> packet_type (fst x) \<in> {pt_code PtUser, pt_code PtFragment}"
    by (simp add: data_header_def rel_of_code_def)
  show ?thesis using unreliable_sequenced_never_delivers [OF h r] by (simp add: new_udp_def)
qed

text \<open>A ReliableUnordered exchange: the client sends two messages, the first is lost, the server receives
  the second and answers on the same channel, and the client polls the answer.\<close>

definition unordered_c1 :: udp where
  "unordered_c1 = snd (udp_send_to run_os 0 run_c0 (run_addr 2) [1] ReliableUnordered)"

definition unordered_c2 :: udp where
  "unordered_c2 = snd (udp_send_to run_os 0 unordered_c1 (run_addr 2) [2] ReliableUnordered)"

definition unordered_s :: udp where
  "unordered_s = snd (udp_send_to run_os 0 (projr (udp_poll run_os 0 [run_arrival 1 (snd (wire unordered_c2 ! 2))] run_s1))
     (run_addr 1) [3] ReliableUnordered)"

text \<open>the ReliableUnordered channel loses messages: \<open>ack_bits\<close> is shifted by one for every packet
  received, whatever its sequence number, so a receiver that got only message 1 acknowledges 0 and 1.
  In this run the client sends messages 0 and 1 of which only 1 arrives, polls one answer of the server,
  and has then dropped both from its retransmission list; message 0 is never delivered.\<close>
theorem reliable_unordered_loses:
  "map p_sequence (pendings (channels (connections unordered_c2 ! 0) ! 2)) = [0, 1]
   \<and> map snd (receive_queue unordered_s) = [[2]]
   \<and> map p_sequence (pendings (channels (connections
        (projr (udp_poll run_os 0 [run_arrival 2 (snd (last (wire unordered_s)))] unordered_c2)) ! 0) ! 2)) = []"
  by code_simp

end
