(* ===== verification/ByteStore.thy ===== *)
theory ByteStore
  imports Prelude
begin

text \<open>
  The little-endian loads and stores through a byte pointer that the token, the cipher and the
  encrypted transport define for themselves (\<open>store16le\<close>, \<open>store32le\<close>, \<open>store64le\<close>, \<open>load16le\<close>,
  \<open>load32le\<close>, \<open>load64le\<close>), and the branch-free comparison loop of two byte strings.
  A store \<open>store32le (p + off) v\<close> is an update of the array \<open>p\<close> points to, at \<open>off\<close>.
\<close>

unbundle bit_operations_syntax

definition store16le :: "nat \<Rightarrow> u16 \<Rightarrow> bytes \<Rightarrow> bytes" where
  "store16le off v p = p[off := ucast v, off + 1 := ucast (drop_bit 8 v)]"

definition store32le :: "nat \<Rightarrow> u32 \<Rightarrow> bytes \<Rightarrow> bytes" where
  "store32le off v p =
     p[off := ucast v, off + 1 := ucast (drop_bit 8 v), off + 2 := ucast (drop_bit 16 v),
       off + 3 := ucast (drop_bit 24 v)]"

definition store64le :: "nat \<Rightarrow> u64 \<Rightarrow> bytes \<Rightarrow> bytes" where
  "store64le off v p =
     p[off := ucast v, off + 1 := ucast (drop_bit 8 v), off + 2 := ucast (drop_bit 16 v),
       off + 3 := ucast (drop_bit 24 v), off + 4 := ucast (drop_bit 32 v), off + 5 := ucast (drop_bit 40 v),
       off + 6 := ucast (drop_bit 48 v), off + 7 := ucast (drop_bit 56 v)]"

definition load16le :: "nat \<Rightarrow> bytes \<Rightarrow> u16" where
  "load16le off p = ucast (p ! off) OR push_bit 8 (ucast (p ! (off + 1)))"

definition load32le :: "nat \<Rightarrow> bytes \<Rightarrow> u32" where
  "load32le off p =
     ucast (p ! off) OR push_bit 8 (ucast (p ! (off + 1))) OR push_bit 16 (ucast (p ! (off + 2))) OR
     push_bit 24 (ucast (p ! (off + 3)))"

definition load64le :: "nat \<Rightarrow> bytes \<Rightarrow> u64" where
  "load64le off p =
     ucast (p ! off) OR push_bit 8 (ucast (p ! (off + 1))) OR push_bit 16 (ucast (p ! (off + 2))) OR
     push_bit 24 (ucast (p ! (off + 3))) OR push_bit 32 (ucast (p ! (off + 4))) OR
     push_bit 40 (ucast (p ! (off + 5))) OR push_bit 48 (ucast (p ! (off + 6))) OR
     push_bit 56 (ucast (p ! (off + 7)))"

text \<open>\<open>for (i = 0; i < n; ++i) diff |= a[i] ^ b[i]\<close>.\<close>

definition ct_diff :: "nat \<Rightarrow> bytes \<Rightarrow> bytes \<Rightarrow> u32" where
  "ct_diff n a b = fold (\<lambda>i diff. diff OR ucast (a ! i XOR b ! i)) [0..<n] 0"

subsection \<open>Stores overwrite a slice with the little-endian bytes\<close>

definition overwrite :: "nat \<Rightarrow> bytes \<Rightarrow> bytes \<Rightarrow> bytes" where
  "overwrite off bs p = take off p @ bs @ drop (off + length bs) p"

lemma length_overwrite [simp]: "off + length bs \<le> length p \<Longrightarrow> length (overwrite off bs p) = length p"
  by (simp add: overwrite_def)

lemma overwrite_step:
  "off + length bs < length p \<Longrightarrow> (overwrite off bs p)[off + length bs := b] = overwrite off (bs @ [b]) p"
  by (simp add: overwrite_def list_update_append upd_conv_take_nth_drop)

lemma overwrite_Nil [simp]: "overwrite off [] p = p"
  by (simp add: overwrite_def)

lemma overwrite_1: "off < length p \<Longrightarrow> p[off := b] = overwrite off [b] p"
  using overwrite_step [of off "[]" p b] by simp

lemma overwrite_2: "off + 1 < length p \<Longrightarrow> p[off := a, off + 1 := b] = overwrite off [a, b] p"
  using overwrite_step [of off "[a]" p b] by (simp add: overwrite_1)

lemma overwrite_4:
  "off + 3 < length p \<Longrightarrow> p[off := a, off + 1 := b, off + 2 := c, off + 3 := d] = overwrite off [a, b, c, d] p"
  using overwrite_step [of off "[a, b]" p c] overwrite_step [of off "[a, b, c]" p d]
  by (simp only: overwrite_2 list.size) (simp add: overwrite_2 [simplified] numeral_eq_Suc)

lemma le_bytes_2: "le_bytes 2 v = [ucast v, ucast (drop_bit 8 v)]"
  by (simp add: le_bytes_def be_bytes_2)

lemma le_bytes_4: "le_bytes 4 v = [ucast v, ucast (drop_bit 8 v), ucast (drop_bit 16 v), ucast (drop_bit 24 v)]"
  by (simp add: le_bytes_def be_bytes_4)

lemma le_bytes_8:
  "le_bytes 8 v = [ucast v, ucast (drop_bit 8 v), ucast (drop_bit 16 v), ucast (drop_bit 24 v),
     ucast (drop_bit 32 v), ucast (drop_bit 40 v), ucast (drop_bit 48 v), ucast (drop_bit 56 v)]"
  by (simp add: le_bytes_def numeral_eq_Suc)

lemma store16le_eq: "off + 2 \<le> length p \<Longrightarrow> store16le off v p = overwrite off (le_bytes 2 v) p"
  by (simp add: store16le_def le_bytes_2 overwrite_2 [simplified])

lemma store32le_eq: "off + 4 \<le> length p \<Longrightarrow> store32le off v p = overwrite off (le_bytes 4 v) p"
  using overwrite_4 [of off p] by (simp add: store32le_def le_bytes_4)

lemma overwrite_twice:
  "off + length a + length b \<le> length p \<Longrightarrow>
   overwrite (off + length a) b (overwrite off a p) = overwrite off (a @ b) p"
  by (simp add: overwrite_def ac_simps)

lemma store64le_eq:
  assumes "off + 8 \<le> length p"
  shows "store64le off v p = overwrite off (le_bytes 8 v) p"
proof -
  let ?lo = "[ucast v, ucast (drop_bit 8 v), ucast (drop_bit 16 v), ucast (drop_bit 24 v)] :: bytes"
  let ?hi = "[ucast (drop_bit 32 v), ucast (drop_bit 40 v), ucast (drop_bit 48 v), ucast (drop_bit 56 v)] :: bytes"
  have "store64le off v p = overwrite (off + 4) ?hi (overwrite off ?lo p)"
    using assms overwrite_4 [of off p] overwrite_4 [of "off + 4" "overwrite off ?lo p"]
    by (simp add: store64le_def ac_simps)
  also have "\<dots> = overwrite off (?lo @ ?hi) p"
    using overwrite_twice [of off ?lo ?hi p] assms by (simp add: eval_nat_numeral)
  finally show ?thesis by (simp add: le_bytes_8)
qed

subsection \<open>Loads read a slice\<close>

lemma of_le_Cons: "(of_le (b # bs) :: 'a::len word) = push_bit 8 (of_le bs) OR ucast b"
  by (simp add: of_le_def of_be_snoc)

lemma of_le_Nil [simp]: "of_le [] = 0"
  by (simp add: of_le_def)

lemma slice_nth: "off + n \<le> length p \<Longrightarrow> take n (drop off p) = map (\<lambda>i. p ! (off + i)) [0..<n]"
  by (auto intro: nth_equalityI)

lemma upt_bytes: "[0..<2] = [0, 1]" "[0..<4] = [0, 1, 2, 3]" "[0..<8] = [0, 1, 2, 3, 4, 5, 6, 7]"
  by (simp_all add: upt_rec)

lemma load16le_eq: "off + 2 \<le> length p \<Longrightarrow> load16le off p = of_le (take 2 (drop off p))"
  by (simp add: slice_nth upt_bytes load16le_def of_le_Cons ac_simps)

lemma load32le_eq: "off + 4 \<le> length p \<Longrightarrow> load32le off p = of_le (take 4 (drop off p))"
  by (simp add: slice_nth upt_bytes load32le_def of_le_Cons push_bit_or ac_simps)

lemma load64le_eq: "off + 8 \<le> length p \<Longrightarrow> load64le off p = of_le (take 8 (drop off p))"
  by (simp add: slice_nth upt_bytes load64le_def of_le_Cons push_bit_or ac_simps)

lemma xor_eq_0: "a XOR b = 0 \<longleftrightarrow> a = (b :: 'a::len word)"
proof
  assume "a XOR b = 0"
  then have "(a XOR b) XOR b = b" by simp
  then show "a = b" by (simp add: xor.assoc)
qed simp

lemma ucast_up_eq_0: "(ucast x :: u32) = 0 \<longleftrightarrow> x = (0 :: u8)"
proof
  assume 0: "(ucast x :: u32) = 0"
  have "\<not> bit x n" if "n < 8" for n
    using arg_cong [OF 0, of "\<lambda>w. bit w n"] that by (simp add: bit_simps)
  then show "x = 0" by (simp add: bit_eq_iff)
qed simp

lemma or_eq_0: "a OR b = 0 \<longleftrightarrow> a = 0 \<and> b = (0 :: 'a::len word)"
  by (auto simp: bit_eq_iff bit_simps)

lemma ct_diff_eq:
  assumes "length a = n" "length b = n"
  shows "ct_diff n a b = 0 \<longleftrightarrow> a = b"
proof -
  have "k \<le> n \<Longrightarrow> fold (\<lambda>i diff. diff OR ucast (a ! i XOR b ! i)) [0..<k] (0::u32) = 0 \<longleftrightarrow> (\<forall>i<k. a ! i = b ! i)" for k
  proof (induction k)
    case (Suc k)
    then show ?case by (auto simp: or_eq_0 ucast_up_eq_0 xor_eq_0 less_Suc_eq)
  qed simp
  from this [of n] show ?thesis using assms by (auto simp: ct_diff_def intro: nth_equalityI)
qed

end
