(* ===== verification/Sha256.thy ===== *)
theory Sha256
  imports Prelude
begin

text \<open>
  SHA-256 and HMAC-SHA256 (\<open>src/src/crypto/hmac_sha256.cpp\<close>).

  The streaming state \<open>Sha256State\<close> is a record; its \<open>data\<close> array is not initialised by the
  C++ constructor, so its initial contents are a parameter of the model and the theorems hold
  whatever they are. The code is proved equal to the standard's definition, which pads the
  whole message at once and folds the compression function over its 64-byte blocks; HMAC is
  proved equal to the two nested hashes of RFC 2104.
\<close>

unbundle bit_operations_syntax

subsection \<open>The round functions\<close>

definition rotr :: "u32 \<Rightarrow> nat \<Rightarrow> u32" where
  "rotr x n = drop_bit n x OR push_bit (32 - n) x"

definition sha_ch :: "u32 \<Rightarrow> u32 \<Rightarrow> u32 \<Rightarrow> u32" where
  "sha_ch x y z = (x AND y) XOR (NOT x AND z)"

definition maj :: "u32 \<Rightarrow> u32 \<Rightarrow> u32 \<Rightarrow> u32" where
  "maj x y z = (x AND y) XOR (x AND z) XOR (y AND z)"

definition ep0 :: "u32 \<Rightarrow> u32" where
  "ep0 x = rotr x 2 XOR rotr x 13 XOR rotr x 22"

definition ep1 :: "u32 \<Rightarrow> u32" where
  "ep1 x = rotr x 6 XOR rotr x 11 XOR rotr x 25"

definition sig0 :: "u32 \<Rightarrow> u32" where
  "sig0 x = rotr x 7 XOR rotr x 18 XOR drop_bit 3 x"

definition sig1 :: "u32 \<Rightarrow> u32" where
  "sig1 x = rotr x 17 XOR rotr x 19 XOR drop_bit 10 x"

text \<open>The table \<open>K\<close> of the source, its constants in decimal (the first is \<open>0x428a2f98\<close>).\<close>

definition K :: "u32 list" where
  "K = [
    1116352408, 1899447441, 3049323471, 3921009573, 961987163, 1508970993, 2453635748, 2870763221,
    3624381080, 310598401, 607225278, 1426881987, 1925078388, 2162078206, 2614888103, 3248222580,
    3835390401, 4022224774, 264347078, 604807628, 770255983, 1249150122, 1555081692, 1996064986,
    2554220882, 2821834349, 2952996808, 3210313671, 3336571891, 3584528711, 113926993, 338241895,
    666307205, 773529912, 1294757372, 1396182291, 1695183700, 1986661051, 2177026350, 2456956037,
    2730485921, 2820302411, 3259730800, 3345764771, 3516065817, 3600352804, 4094571909, 275423344,
    430227734, 506948616, 659060556, 883997877, 958139571, 1322822218, 1537002063, 1747873779,
    1955562222, 2024104815, 2227730452, 2361852424, 2428436474, 2756734187, 3204031479, 3329325298]"

subsection \<open>The streaming state\<close>

record sha256_state =
  sh_data :: bytes
  sh_datalen :: u32
  sh_bitlen :: u64
  sh_state :: "u32 list"

definition H0 :: "u32 list" where
  "H0 = [0x6a09e667, 0xbb67ae85, 0x3c6ef372, 0xa54ff53a, 0x510e527f, 0x9b05688c, 0x1f83d9ab, 0x5be0cd19]"

text \<open>The constructor; \<open>raw\<close> is what the uninitialised \<open>data[64]\<close> happens to hold.\<close>

definition new_sha256 :: "bytes \<Rightarrow> sha256_state" where
  "new_sha256 raw = \<lparr>sh_data = raw, sh_datalen = 0, sh_bitlen = 0, sh_state = H0\<rparr>"

text \<open>The message schedule: sixteen big-endian words, then forty-eight derived ones.\<close>

definition schedule :: "bytes \<Rightarrow> u32 list" where
  "schedule d =
     fold (\<lambda>i m. m @ [sig1 (m ! (i - 2)) + m ! (i - 7) + sig0 (m ! (i - 15)) + m ! (i - 16)]) [16..<64]
       (map (\<lambda>i. push_bit 24 (ucast (d ! (4 * i))) OR push_bit 16 (ucast (d ! (4 * i + 1))) OR
                 push_bit 8 (ucast (d ! (4 * i + 2))) OR ucast (d ! (4 * i + 3))) [0..<16])"

type_synonym working = "u32 \<times> u32 \<times> u32 \<times> u32 \<times> u32 \<times> u32 \<times> u32 \<times> u32"

fun sha_round :: "u32 list \<Rightarrow> nat \<Rightarrow> working \<Rightarrow> working" where
  "sha_round m i (a, b, c, d, e, f, g, h) =
     (let t1 = h + ep1 e + sha_ch e f g + K ! i + m ! i;
          t2 = ep0 a + maj a b c
      in (t1 + t2, a, b, c, d + t1, e, f, g))"

definition compress :: "u32 list \<Rightarrow> bytes \<Rightarrow> u32 list" where
  "compress st d =
     (let m = schedule d;
          (a, b, c, d', e, f, g, h) = fold (sha_round m) [0..<64]
             (st ! 0, st ! 1, st ! 2, st ! 3, st ! 4, st ! 5, st ! 6, st ! 7)
      in [st ! 0 + a, st ! 1 + b, st ! 2 + c, st ! 3 + d', st ! 4 + e, st ! 5 + f, st ! 6 + g, st ! 7 + h])"

definition sha256_transform :: "sha256_state \<Rightarrow> bytes \<Rightarrow> sha256_state" where
  "sha256_transform ctx d = ctx\<lparr>sh_state := compress (sh_state ctx) d\<rparr>"

definition sha256_update_byte :: "sha256_state \<Rightarrow> u8 \<Rightarrow> sha256_state" where
  "sha256_update_byte ctx b =
     (let ctx = ctx\<lparr>sh_data := (sh_data ctx)[unat (sh_datalen ctx) := b], sh_datalen := sh_datalen ctx + 1\<rparr>
      in if sh_datalen ctx = 64
         then let ctx = sha256_transform ctx (sh_data ctx)
              in ctx\<lparr>sh_bitlen := sh_bitlen ctx + 512, sh_datalen := 0\<rparr>
         else ctx)"

definition sha256_update :: "sha256_state \<Rightarrow> bytes \<Rightarrow> sha256_state" where
  "sha256_update ctx d = foldl sha256_update_byte ctx d"

text \<open>The loop \<open>while (i < n) ctx.data[i++] = 0x00\<close>, and \<open>memset\<close> of a prefix.\<close>

definition zero_from :: "nat \<Rightarrow> nat \<Rightarrow> bytes \<Rightarrow> bytes" where
  "zero_from i n d = fold (\<lambda>j d. d[j := 0]) [i..<n] d"

definition sha256_pad :: "sha256_state \<Rightarrow> sha256_state" where
  "sha256_pad ctx =
     (let i = unat (sh_datalen ctx)
      in if sh_datalen ctx < 56
         then ctx\<lparr>sh_data := zero_from (i + 1) 56 ((sh_data ctx)[i := 0x80])\<rparr>
         else let ctx = ctx\<lparr>sh_data := zero_from (i + 1) 64 ((sh_data ctx)[i := 0x80])\<rparr>;
                  ctx = sha256_transform ctx (sh_data ctx)
              in ctx\<lparr>sh_data := zero_from 0 56 (sh_data ctx)\<rparr>)"

definition store_bitlen :: "u64 \<Rightarrow> bytes \<Rightarrow> bytes" where
  "store_bitlen n d =
     d[63 := ucast n, 62 := ucast (drop_bit 8 n), 61 := ucast (drop_bit 16 n), 60 := ucast (drop_bit 24 n),
       59 := ucast (drop_bit 32 n), 58 := ucast (drop_bit 40 n), 57 := ucast (drop_bit 48 n),
       56 := ucast (drop_bit 56 n)]"

definition digest_bytes :: "u32 list \<Rightarrow> bytes" where
  "digest_bytes st = fold (\<lambda>i hash. fold (\<lambda>k hash.
       hash[i + 4 * k := ucast (drop_bit (24 - i * 8) (st ! k) AND 0xff)]) [0..<8] hash) [0..<4] (replicate 32 0)"

definition sha256_final :: "sha256_state \<Rightarrow> bytes" where
  "sha256_final ctx =
     (let bitlen = sh_bitlen ctx + ucast (sh_datalen ctx * 8);
          ctx = sha256_pad ctx;
          ctx = ctx\<lparr>sh_bitlen := bitlen, sh_data := store_bitlen bitlen (sh_data ctx)\<rparr>;
          ctx = sha256_transform ctx (sh_data ctx)
      in digest_bytes (sh_state ctx))"

definition sha256 :: "bytes \<Rightarrow> bytes \<Rightarrow> bytes" where
  "sha256 raw d = sha256_final (sha256_update (new_sha256 raw) d)"

text \<open>The key pad of HMAC: 64 bytes of \<open>c\<close> into which the key is xored.\<close>

definition xor_key :: "u8 \<Rightarrow> bytes \<Rightarrow> bytes" where
  "xor_key c key = fold (\<lambda>i p. p[i := p ! i XOR key ! i]) [0..<length key] (replicate 64 c)"

definition hmac_sha256 :: "bytes \<Rightarrow> bytes \<Rightarrow> bytes \<Rightarrow> bytes" where
  "hmac_sha256 raw key message =
     (let key = (if 64 < length key then sha256 raw key else key);
          inner = sha256_update (new_sha256 raw) (xor_key 0x36 key);
          inner = sha256_update inner message;
          inner_hash = sha256_final inner;
          outer = sha256_update (new_sha256 raw) (xor_key 0x5c key);
          outer = sha256_update outer inner_hash
      in sha256_final outer)"

subsection \<open>The standard's definition\<close>

text \<open>
  \<open>compress_all\<close> folds the compression function over the complete 64-byte blocks of a string;
  \<open>pad\<close> is the padding of FIPS 180-4: a 1 bit, zeros up to 8 bytes short of a block boundary,
  and the length of the message in bits.
\<close>

function compress_all :: "u32 list \<Rightarrow> bytes \<Rightarrow> u32 list" where
  "compress_all st d = (if length d < 64 then st else compress_all (compress st (take 64 d)) (drop 64 d))"
  by pat_completeness auto

termination by (relation "measure (\<lambda>(st, d). length d)") auto

declare compress_all.simps [simp del]

definition pad_zeros :: "nat \<Rightarrow> nat" where
  "pad_zeros n = (119 - n mod 64) mod 64"

definition pad :: "bytes \<Rightarrow> bytes" where
  "pad d = d @ 0x80 # replicate (pad_zeros (length d)) 0 @ be_bytes 8 (of_nat (8 * length d) :: u64)"

definition sha256_spec :: "bytes \<Rightarrow> bytes" where
  "sha256_spec d = concat (map (be_bytes 4) (compress_all H0 (pad d)))"

definition hmac_key :: "bytes \<Rightarrow> bytes" where
  "hmac_key key = (let k = if 64 < length key then sha256_spec key else key in k @ replicate (64 - length k) 0)"

definition hmac_spec :: "bytes \<Rightarrow> bytes \<Rightarrow> bytes" where
  "hmac_spec key message =
     sha256_spec (map (\<lambda>b. b XOR 0x5c) (hmac_key key) @
       sha256_spec (map (\<lambda>b. b XOR 0x36) (hmac_key key) @ message))"

subsection \<open>Blocks\<close>

lemma length_compress [simp]: "length (compress st d) = 8"
  by (simp add: compress_def Let_def split: prod.splits)

lemma compress_all_short [simp]: "length d < 64 \<Longrightarrow> compress_all st d = st"
  by (simp add: compress_all.simps)

lemma compress_all_block: "length b = 64 \<Longrightarrow> compress_all st (b @ d) = compress_all (compress st b) d"
  by (subst compress_all.simps) simp

lemma compress_all_one: "length b = 64 \<Longrightarrow> compress_all st b = compress st b"
  using compress_all_block [of b st "[]"] by simp

lemma compress_all_append:
  "64 dvd length p \<Longrightarrow> compress_all st (p @ d) = compress_all (compress_all st p) d"
proof (induction st p rule: compress_all.induct)
  case (1 st p)
  show ?case
  proof (cases "length p < 64")
    case True
    then have "p = []" using 1 by (auto dest: dvd_imp_le)
    then show ?thesis by simp
  next
    case False
    have dvd: "64 dvd length (drop 64 p)" using 1 False by (simp add: dvd_minus_self)
    have len: "length (take 64 p) = 64" using False by simp
    have "compress_all st (p @ d) = compress_all st (take 64 p @ (drop 64 p @ d))"
      by (metis append.assoc append_take_drop_id)
    also have "\<dots> = compress_all (compress st (take 64 p)) (drop 64 p @ d)"
      by (rule compress_all_block [OF len])
    also have "\<dots> = compress_all (compress_all (compress st (take 64 p)) (drop 64 p)) d"
      by (rule 1(1) [OF False dvd])
    also have "compress_all (compress st (take 64 p)) (drop 64 p) = compress_all st p"
      using False by (subst (2) compress_all.simps) simp
    finally show ?thesis .
  qed
qed

lemma length_compress_all: "length st = 8 \<Longrightarrow> length (compress_all st d) = 8"
  by (induction st d rule: compress_all.induct) (subst compress_all.simps, simp)

subsection \<open>The invariant of the streaming state\<close>

text \<open>The bytes fed so far are some whole blocks \<open>p\<close>, already compressed, and a rest \<open>t\<close> kept
  in the buffer.\<close>

definition sha_inv :: "sha256_state \<Rightarrow> bytes \<Rightarrow> bytes \<Rightarrow> bool" where
  "sha_inv s p t \<longleftrightarrow> 64 dvd length p \<and> length t < 64 \<and> length (sh_data s) = 64 \<and>
     sh_datalen s = of_nat (length t) \<and> take (length t) (sh_data s) = t \<and>
     sh_bitlen s = of_nat (8 * length p) \<and> sh_state s = compress_all H0 p"

lemma length_H0 [simp]: "length H0 = 8"
  by (simp add: H0_def)

lemma sha_inv_new: "length raw = 64 \<Longrightarrow> sha_inv (new_sha256 raw) [] []"
  by (simp add: sha_inv_def new_sha256_def)

lemma sha_inv_update_byte:
  assumes inv: "sha_inv s p t"
  shows "\<exists>p' t'. sha_inv (sha256_update_byte s b) p' t' \<and> p' @ t' = p @ t @ [b]"
proof -
  from inv have dvd: "64 dvd length p" and t: "length t < 64" and len: "length (sh_data s) = 64"
    and dl: "sh_datalen s = of_nat (length t)" and tk: "take (length t) (sh_data s) = t"
    and bl: "sh_bitlen s = of_nat (8 * length p)" and st: "sh_state s = compress_all H0 p"
    by (simp_all add: sha_inv_def)
  define d where "d = (sh_data s)[length t := b]"
  have ix: "unat (sh_datalen s) = length t" using t by (simp add: dl unat_of_nat_small)
  have d: "length d = 64" "take (length t + 1) d = t @ [b]"
    using t len tk by (simp_all add: d_def take_Suc_conv_app_nth)
  have next_dl: "sh_datalen s + 1 = of_nat (length t + 1)" by (simp add: dl)
  have full: "sh_datalen s + 1 = 64 \<longleftrightarrow> length t + 1 = 64"
    using t of_nat_eq_small [of "length t + 1" 64, where 'a = 32] by (simp add: next_dl)
  show ?thesis
  proof (cases "length t + 1 = 64")
    case True
    then have whole: "d = t @ [b]" using d by simp
    have "sha256_update_byte s b = s\<lparr>sh_data := d, sh_datalen := 0,
        sh_bitlen := sh_bitlen s + 512, sh_state := compress (sh_state s) d\<rparr>"
      using True full ix by (simp add: sha256_update_byte_def sha256_transform_def d_def)
    moreover have "compress (compress_all H0 p) d = compress_all H0 (p @ d)"
      using d by (simp add: compress_all_append [OF dvd] compress_all_one)
    ultimately have "sha_inv (sha256_update_byte s b) (p @ d) []"
      using d dvd by (simp add: sha_inv_def bl st dvd_add)
    then show ?thesis using whole by (metis append_Nil2)
  next
    case False
    then have "sha256_update_byte s b = s\<lparr>sh_data := d, sh_datalen := sh_datalen s + 1\<rparr>"
      using full ix by (simp add: sha256_update_byte_def d_def)
    then have "sha_inv (sha256_update_byte s b) p (t @ [b])"
      using d dvd t False next_dl by (simp add: sha_inv_def bl st)
    then show ?thesis by blast
  qed
qed

lemma sha_inv_update:
  "sha_inv s p t \<Longrightarrow> \<exists>p' t'. sha_inv (sha256_update s d) p' t' \<and> p' @ t' = p @ t @ d"
proof (induction d arbitrary: s p t)
  case (Cons b d)
  obtain p1 t1 where 1: "sha_inv (sha256_update_byte s b) p1 t1" "p1 @ t1 = p @ t @ [b]"
    using sha_inv_update_byte [OF Cons.prems] by blast
  obtain p2 t2 where "sha_inv (sha256_update (sha256_update_byte s b) d) p2 t2" "p2 @ t2 = p1 @ t1 @ d"
    using Cons.IH [OF 1(1)] by blast
  then show ?case using 1(2) by (simp add: sha256_update_def) (metis append.assoc append_Cons append_Nil)
qed (auto simp: sha256_update_def)

text \<open>Feeding a string in two pieces is feeding it whole.\<close>

lemma sha256_update_append: "sha256_update s (a @ b) = sha256_update (sha256_update s a) b"
  by (simp add: sha256_update_def)

subsection \<open>The final block\<close>

lemma zero_from_eq:
  "i \<le> n \<Longrightarrow> n \<le> length d \<Longrightarrow> zero_from i n d = take i d @ replicate (n - i) 0 @ drop n d"
proof (induction n)
  case (Suc n)
  show ?case
  proof (cases "i \<le> n")
    case True
    then have "zero_from i (Suc n) d = (zero_from i n d)[n := 0]" by (simp add: zero_from_def)
    also have "\<dots> = (take i d @ replicate (n - i) 0 @ drop n d)[n := 0]" using Suc True by simp
    also have "drop n d = d ! n # drop (Suc n) d" using Suc.prems by (simp add: Cons_nth_drop_Suc)
    also have "(take i d @ replicate (n - i) 0 @ d ! n # drop (Suc n) d)[n := 0] =
        take i d @ replicate (n - i) 0 @ 0 # drop (Suc n) d"
      using True Suc.prems by (simp add: list_update_append)
    also have "replicate (n - i) 0 @ 0 # drop (Suc n) d = replicate (Suc n - i) (0::u8) @ drop (Suc n) d"
      using True by (simp add: Suc_diff_le replicate_append_same [symmetric])
    finally show ?thesis .
  next
    case False
    then have "i = Suc n" using Suc.prems by simp
    then show ?thesis by (simp add: zero_from_def)
  qed
qed (simp add: zero_from_def)

lemma length_8_list: "length xs = 8 \<Longrightarrow> \<exists>a b c d e f g h. xs = [a, b, c, d, e, f, g, h]"
  by (auto simp: numeral_eq_Suc length_Suc_conv)

lemma be_bytes_8:
  "be_bytes 8 n = [ucast (drop_bit 56 n), ucast (drop_bit 48 n), ucast (drop_bit 40 n), ucast (drop_bit 32 n),
     ucast (drop_bit 24 n), ucast (drop_bit 16 n), ucast (drop_bit 8 n), ucast n]"
  by (simp add: numeral_eq_Suc)

lemma store_bitlen_eq:
  assumes "length d = 64"
  shows "store_bitlen n d = take 56 d @ be_bytes 8 n"
proof -
  have "length (drop 56 d) = 8" using assms by simp
  then obtain a b c e f g h i where tl: "drop 56 d = [a, b, c, e, f, g, h, i]"
    using length_8_list by blast
  define x where "x = take 56 d"
  have d: "d = x @ [a, b, c, e, f, g, h, i]" by (metis tl append_take_drop_id x_def)
  have x: "length x = 56" using assms by (simp add: x_def)
  have up: "(x @ ys)[56 + k := v] = x @ ys[k := v]" for ys k v using x by (simp add: list_update_append)
  show ?thesis
    using up [of _ 0] up [of _ 1] up [of _ 2] up [of _ 3] up [of _ 4] up [of _ 5] up [of _ 6] up [of _ 7]
    by (simp add: store_bitlen_def be_bytes_8 d x)
qed

lemma upt_4_8: "[0..<4] = [0, 1, 2, 3]" "[0..<8] = [0, 1, 2, 3, 4, 5, 6, 7]"
  by (simp_all add: upt_rec)

lemma digest_bytes_eq: "length st = 8 \<Longrightarrow> digest_bytes st = concat (map (be_bytes 4) st)"
proof -
  assume "length st = 8"
  then obtain a b c d e f g h where st: "st = [a, b, c, d, e, f, g, h]" using length_8_list by blast
  show ?thesis
    unfolding st digest_bytes_def upt_4_8
    by (simp add: be_bytes_4 list_update_numeral replicate_numeral ucast_and_255 [simplified])
qed

subsection \<open>The code computes the standard's hash\<close>

lemma sha256_final_state:
  assumes inv: "sha_inv s p t"
  shows "sha256_final s = concat (map (be_bytes 4) (compress_all H0 (pad (p @ t))))"
proof -
  from inv have dvd: "64 dvd length p" and t: "length t < 64" and len: "length (sh_data s) = 64"
    and dl: "sh_datalen s = of_nat (length t)" and tk: "take (length t) (sh_data s) = t"
    and bl: "sh_bitlen s = of_nat (8 * length p)" and st: "sh_state s = compress_all H0 p"
    by (simp_all add: sha_inv_def)
  define n where "n = (of_nat (8 * length (p @ t)) :: u64)"
  define d where "d = (sh_data s)[length t := 0x80]"
  have ix: "unat (sh_datalen s) = length t" using t by (simp add: dl unat_of_nat_small)
  have d: "length d = 64" "take (length t + 1) d = t @ [0x80]"
    using t len tk by (simp_all add: d_def take_Suc_conv_app_nth)
  have n: "sh_bitlen s + ucast (sh_datalen s * 8) = n"
  proof -
    have "sh_datalen s * 8 = of_nat (length t * 8)" by (simp add: dl)
    then have "ucast (sh_datalen s * 8) = (of_nat (length t * 8) :: u64)"
      using t by (simp add: unsigned_of_nat take_bit_nat_eq_self del: of_nat_mult)
    then show ?thesis by (simp add: bl n_def algebra_simps)
  qed
  have md: "length (p @ t) mod 64 = length t" using dvd t by (auto elim!: dvdE)
  have small: "sh_datalen s < 56 \<longleftrightarrow> length t < 56"
    using ix by (simp add: word_less_nat_alt)
  have pd: "pad (p @ t) = p @ t @ 0x80 # replicate (pad_zeros (length (p @ t))) 0 @ be_bytes 8 n"
    unfolding pad_def n_def append_assoc by (rule refl)
  have fin: "sha256_final s = digest_bytes (compress (sh_state (sha256_pad s)) (store_bitlen n (sh_data (sha256_pad s))))"
    by (simp add: sha256_final_def sha256_transform_def n Let_def)
  have "compress (sh_state (sha256_pad s)) (store_bitlen n (sh_data (sha256_pad s))) = compress_all H0 (pad (p @ t))"
  proof (cases "length t < 56")
    case True
    have z: "pad_zeros (length (p @ t)) = 55 - length t" using True md by (simp add: pad_zeros_def mod_if)
    have "sh_data (sha256_pad s) = zero_from (length t + 1) 56 d" "sh_state (sha256_pad s) = compress_all H0 p"
      using True small ix st by (simp_all add: sha256_pad_def d_def Let_def)
    moreover have "store_bitlen n (zero_from (length t + 1) 56 d) = t @ 0x80 # replicate (55 - length t) 0 @ be_bytes 8 n"
    proof -
      have "zero_from (length t + 1) 56 d = (t @ 0x80 # replicate (55 - length t) 0) @ drop 56 d"
        using True d by (simp add: zero_from_eq)
      moreover have "length (t @ 0x80 # replicate (55 - length t) (0::u8)) = 56" using True by simp
      ultimately show ?thesis using d by (simp add: store_bitlen_eq del: append.simps append_assoc)
    qed
    moreover have "length (t @ 0x80 # replicate (55 - length t) 0 @ be_bytes 8 n) = 64"
      using True by simp
    ultimately show ?thesis
      by (simp only: pd z compress_all_append [OF dvd] compress_all_one)
  next
    case False
    define b1 where "b1 = t @ 0x80 # replicate (63 - length t) 0"
    define b2 where "b2 = replicate 56 0 @ be_bytes 8 n"
    have b: "length b1 = 64" "length b2 = 64" using False t by (simp_all add: b1_def b2_def)
    have z: "pad_zeros (length (p @ t)) = (63 - length t) + 56"
      using False t md by (simp add: pad_zeros_def)
    have "zero_from (length t + 1) 64 d = b1" using t d by (simp add: zero_from_eq b1_def)
    then have "sh_data (sha256_pad s) = zero_from 0 56 b1"
      "sh_state (sha256_pad s) = compress (compress_all H0 p) b1"
      using False small ix st by (simp_all add: sha256_pad_def sha256_transform_def d_def Let_def)
    moreover have "store_bitlen n (zero_from 0 56 b1) = b2"
      using b by (simp add: zero_from_eq store_bitlen_eq b2_def)
    moreover have "pad (p @ t) = p @ (b1 @ b2)"
      by (simp add: pd z b1_def b2_def replicate_add del: length_append)
    ultimately show ?thesis
      using b by (simp add: compress_all_append [OF dvd] compress_all_block compress_all_one)
  qed
  then show ?thesis by (simp add: fin digest_bytes_eq length_compress_all)
qed

lemma sha256_pieces:
  assumes raw: "length raw = 64"
  shows "sha256_final (sha256_update (new_sha256 raw) d) = sha256_spec d"
proof -
  obtain p t where "sha_inv (sha256_update (new_sha256 raw) d) p t" "p @ t = d"
    using sha_inv_update [OF sha_inv_new [OF raw], of d] by auto
  then show ?thesis using sha256_final_state by (simp add: sha256_spec_def)
qed

text \<open>The test vector "abc" of the standard: its one padded block, the schedule, the two
  halves of the rounds.\<close>

definition abc_block :: bytes where
  "abc_block = [0x61, 0x62, 0x63, 0x80] @ replicate 59 0 @ [24]"

definition abc_schedule :: "u32 list" where
  "abc_schedule = [
     0x61626380, 0x0, 0x0, 0x0, 0x0, 0x0, 0x0, 0x0,
     0x0, 0x0, 0x0, 0x0, 0x0, 0x0, 0x0, 0x18,
     0x61626380, 0xf0000, 0x7da86405, 0x600003c6, 0x3e9d7b78, 0x183fc00, 0x12dcbfdb, 0xe2e2c38e,
     0xc8215c1a, 0xb73679a2, 0xe5bc3909, 0x32663c5b, 0x9d209d67, 0xec8726cb, 0x702138a4, 0xd3b7973b,
     0x93f5997f, 0x3b68ba73, 0xaff4ffc1, 0xf10a5c62, 0xa8b3996, 0x72af830a, 0x9409e33e, 0x24641522,
     0x9f47bf94, 0xf0a64f5a, 0x3e246a79, 0x27333ba3, 0xc4763f2, 0x840abf27, 0x7a290d5d, 0x65c43da,
     0xfb3e89cb, 0xcc7617db, 0xb9e66c34, 0xa9993667, 0x84badedd, 0xc21462bc, 0x1487472c, 0xb20f7a99,
     0xef57b9cd, 0xebe6b238, 0x9fe3095e, 0x78bc8d4b, 0xa43fcf15, 0x668b2ff8, 0xeeaba2cc, 0x12b1edeb]"

lemma pad_abc: "pad [0x61, 0x62, 0x63] = abc_block"
  by code_simp

lemma schedule_abc: "schedule abc_block = abc_schedule"
  by code_simp

lemma rounds_abc_1:
  "fold (sha_round abc_schedule) [0..<32]
     (0x6a09e667, 0xbb67ae85, 0x3c6ef372, 0xa54ff53a, 0x510e527f, 0x9b05688c, 0x1f83d9ab, 0x5be0cd19) =
     (0x73b33bf5, 0xea992a22, 0xa0060b30, 0x363482c9, 0xba591112, 0x109ab3a, 0xade79437, 0x6112a3b7)"
  by code_simp

lemma rounds_abc_2:
  "fold (sha_round abc_schedule) [32..<64]
     (0x73b33bf5, 0xea992a22, 0xa0060b30, 0x363482c9, 0xba591112, 0x109ab3a, 0xade79437, 0x6112a3b7) =
     (0x506e3058, 0xd39a2165, 0x4d24d6c, 0xb85e2ce9, 0x5ef50f24, 0xfb121210, 0x948d25b6, 0x961f4894)"
  by code_simp

lemma rounds_abc:
  "fold (sha_round abc_schedule) [0..<64]
     (H0 ! 0, H0 ! 1, H0 ! 2, H0 ! 3, H0 ! 4, H0 ! 5, H0 ! 6, H0 ! 7) =
     (0x506e3058, 0xd39a2165, 0x4d24d6c, 0xb85e2ce9, 0x5ef50f24, 0xfb121210, 0x948d25b6, 0x961f4894)"
proof -
  have init: "(H0 ! 0, H0 ! 1, H0 ! 2, H0 ! 3, H0 ! 4, H0 ! 5, H0 ! 6, H0 ! 7) =
     (0x6a09e667, 0xbb67ae85, 0x3c6ef372, 0xa54ff53a, 0x510e527f, 0x9b05688c, 0x1f83d9ab, 0x5be0cd19)"
    by (simp add: H0_def)
  have "[0..<64] = [0..<32] @ [32..<64]" using upt_add_eq_append [of 0 32 32] by simp
  then show ?thesis by (simp only: init fold_append comp_def rounds_abc_1 rounds_abc_2)
qed

lemma compress_abc:
  "compress H0 abc_block =
    [0xba7816bf, 0x8f01cfea, 0x414140de, 0x5dae2223, 0xb00361a3, 0x96177a9c, 0xb410ff61, 0xf20015ad]"
  unfolding compress_def schedule_abc Let_def rounds_abc prod.case by (simp add: H0_def)

lemma sha256_spec_abc:
  "sha256_spec [0x61, 0x62, 0x63] =
    [0xba, 0x78, 0x16, 0xbf, 0x8f, 0x01, 0xcf, 0xea, 0x41, 0x41, 0x40, 0xde, 0x5d, 0xae, 0x22, 0x23,
     0xb0, 0x03, 0x61, 0xa3, 0x96, 0x17, 0x7a, 0x9c, 0xb4, 0x10, 0xff, 0x61, 0xf2, 0x00, 0x15, 0xad]"
proof -
  have "length abc_block = 64" by (simp add: abc_block_def)
  then show ?thesis by (simp add: sha256_spec_def pad_abc compress_all_one compress_abc be_bytes_4)
qed

text \<open>C11: The digest is the one of FIPS 180-4: feeding any message byte by byte into the
  64-byte buffer and finishing gives the fold of the compression function over the blocks of
  the padded message, whatever the uninitialised buffer held, on both paths of the final
  padding (one or two last blocks).\<close>

theorem sha256_correct: "length raw = 64 \<Longrightarrow> sha256 raw d = sha256_spec d"
  by (simp add: sha256_def sha256_pieces)

lemma sha256_correct_witness:
  "sha256 (replicate 64 0xCC) [0x61, 0x62, 0x63] =
    [0xba, 0x78, 0x16, 0xbf, 0x8f, 0x01, 0xcf, 0xea, 0x41, 0x41, 0x40, 0xde, 0x5d, 0xae, 0x22, 0x23,
     0xb0, 0x03, 0x61, 0xa3, 0x96, 0x17, 0x7a, 0x9c, 0xb4, 0x10, 0xff, 0x61, 0xf2, 0x00, 0x15, 0xad]"
  using sha256_correct [of "replicate 64 0xCC" "[0x61, 0x62, 0x63]"] by (simp add: sha256_spec_abc)

lemma length_sha256_spec [simp]: "length (sha256_spec d) = 32"
proof -
  have "length (compress_all H0 (pad d)) = 8" by (simp add: length_compress_all)
  then show ?thesis using length_8_list by (fastforce simp: sha256_spec_def)
qed

lemma xor_key_eq:
  assumes "length key \<le> 64"
  shows "xor_key c key = map (\<lambda>b. b XOR c) (key @ replicate (64 - length key) 0)"
proof -
  have "n \<le> length key \<Longrightarrow> fold (\<lambda>i p. p[i := p ! i XOR key ! i]) [0..<n] (replicate 64 c) =
      map (\<lambda>b. b XOR c) (take n key @ replicate (64 - n) 0)" for n
  proof (induction n)
    case (Suc n)
    have r: "replicate (64 - n) c = c # replicate (64 - Suc n) c"
      using Suc.prems assms by (metis Suc_diff_Suc Suc_le_lessD le_trans replicate_Suc)
    have "map (\<lambda>b. b XOR c) (take n key @ replicate (64 - n) 0) = map (\<lambda>b. b XOR c) (take n key) @ c # replicate (64 - Suc n) c"
      by (simp add: r)
    then show ?case
      using Suc assms by (simp add: nth_append list_update_append take_Suc_conv_app_nth xor.commute)
  qed simp
  from this [of "length key"] show ?thesis by (simp add: xor_key_def)
qed

lemma length_hmac_key: "length (hmac_key key) = 64"
  by (simp add: hmac_key_def Let_def)

lemma hmac_sha256_spec: "length raw = 64 \<Longrightarrow> hmac_sha256 raw key message = hmac_spec key message"
proof -
  assume raw: "length raw = 64"
  define k where "k = (if 64 < length key then sha256 raw key else key)"
  have k: "k = (if 64 < length key then sha256_spec key else key)"
    using raw by (simp add: k_def sha256_def sha256_pieces)
  then have len: "length k \<le> 64" by simp
  have pad: "xor_key c k = map (\<lambda>b. b XOR c) (hmac_key key)" for c
    by (simp only: xor_key_eq [OF len]) (simp add: hmac_key_def k [symmetric] Let_def)
  show ?thesis
    unfolding hmac_sha256_def k_def [symmetric] Let_def
    by (simp add: sha256_update_append [symmetric] sha256_pieces [OF raw] pad hmac_spec_def)
qed

text \<open>C12: HMAC-SHA256 is RFC 2104's nested hash with the key hashed first when it is longer than
  a block and zero-padded to a block otherwise, for keys and messages of every length.\<close>

theorem hmac_sha256_correct: "length raw = 64 \<Longrightarrow> hmac_sha256 raw key message = hmac_spec key message"
  by (rule hmac_sha256_spec)

lemma hmac_sha256_correct_witness:
  "hmac_sha256 (replicate 64 0xCC) [0x4B] [1, 2] = hmac_spec [0x4B] [1, 2]"
  by (rule hmac_sha256_correct) simp

lemma length_hmac_spec [simp]: "length (hmac_spec key message) = 32"
  by (simp add: hmac_spec_def)

end
