(* ===== verification/ConnectionToken.thy ===== *)
theory ConnectionToken
  imports ByteStore Sha256
begin

text \<open>
  Time-limited connection tokens (\<open>src/src/connection_token.cpp\<close>): 64 bytes of timestamp,
  validity, reserved client id, nonce, two zero bytes, and the HMAC of these 32 bytes.
  \<open>generate\<close> returns \<open>None\<close> where the C++ returns \<open>false\<close> (and leaves the output buffer alone);
  \<open>raw\<close> is the uninitialised stack buffer of the hash state, on which nothing depends.
\<close>

unbundle bit_operations_syntax

definition TOKEN_SIZE :: nat where
  "TOKEN_SIZE = 64"

text \<open>One round of the xorshift that fills the last word of the nonce.\<close>

definition xorshift :: "u32 \<Rightarrow> u32" where
  "xorshift x =
     (let x = x XOR push_bit 13 x;
          x = x XOR drop_bit 17 x
      in x XOR push_bit 5 x)"

text \<open>The nonce starts at byte \<open>off\<close> of the array; its last word is stored in each of the four
  rounds, over the tail of the reserved id.\<close>

definition fill_nonce :: "nat \<Rightarrow> u32 \<Rightarrow> u16 \<Rightarrow> u64 \<Rightarrow> bytes \<Rightarrow> bytes" where
  "fill_nonce off time expiry reserved p =
     (let p = store32le (off + 0) time p;
          p = store16le (off + 4) expiry p;
          p = store64le (off + 6) reserved p;
          x = time XOR 0x12345678
      in snd (fold (\<lambda>i (x, p). let x = xorshift x in (x, store32le (off + 12) x p)) [0..<(4::nat)] (x, p)))"

definition token_generate :: "bytes \<Rightarrow> bytes \<Rightarrow> u32 \<Rightarrow> u64 \<Rightarrow> u32 \<Rightarrow> bytes option" where
  "token_generate raw secret expiry_seconds reserved_client_id current_time_unix =
     (if expiry_seconds = 0 \<or> expiry_seconds > 86400 then None
      else
        let out = replicate TOKEN_SIZE 0;
            out = store32le 0 current_time_unix out;
            out = store16le 4 (ucast expiry_seconds) out;
            out = store64le 6 reserved_client_id out;
            out = fill_nonce 14 current_time_unix (ucast expiry_seconds) reserved_client_id out;
            out = out[30 := 0];
            out = out[31 := 0]
        in Some (overwrite 32 (hmac_sha256 raw secret (take 32 out)) out))"

definition token_validate :: "bytes \<Rightarrow> bytes \<Rightarrow> bytes \<Rightarrow> u32 \<Rightarrow> bool" where
  "token_validate raw token secret current_time_unix =
     (if token ! 30 \<noteq> 0 \<or> token ! 31 \<noteq> 0 then False
      else
        let computed = hmac_sha256 raw secret (take 32 token)
        in if ct_diff 32 computed (drop 32 token) \<noteq> 0 then False
           else
             let issued = load32le 0 token;
                 expiry = load16le 4 token
             in \<not> (current_time_unix < issued \<or> current_time_unix > issued + ucast expiry))"

definition token_reserved_client_id :: "bytes \<Rightarrow> u64" where
  "token_reserved_client_id token = load64le 6 token"

subsection \<open>The layout of a generated token\<close>

definition nonce_bytes :: "u32 \<Rightarrow> u16 \<Rightarrow> u64 \<Rightarrow> bytes" where
  "nonce_bytes time expiry reserved =
     le_bytes 4 time @ le_bytes 2 expiry @ take 6 (le_bytes 8 reserved) @
     le_bytes 4 (xorshift (xorshift (xorshift (xorshift (time XOR 0x12345678)))))"

lemma overwrite_at_end:
  "length a = off \<Longrightarrow> length bs = n \<Longrightarrow> overwrite off bs (a @ replicate (n + k) z) = (a @ bs) @ replicate k z"
  by (simp add: overwrite_def)

lemma overwrite_again: "length bs = length cs \<Longrightarrow> off + length cs \<le> length p \<Longrightarrow>
    overwrite off cs (overwrite off bs p) = overwrite off cs p"
  by (simp add: overwrite_def)

lemma fill_nonce_eq:
  assumes "off + 16 \<le> length p"
  shows "fill_nonce off time expiry reserved p = overwrite off (nonce_bytes time expiry reserved) p"
proof -
  have split8: "le_bytes 8 reserved = take 6 (le_bytes 8 reserved) @ drop 6 (le_bytes 8 reserved)" by simp
  have "fill_nonce off time expiry reserved p =
      overwrite (off + 12) (le_bytes 4 (xorshift (xorshift (xorshift (xorshift (time XOR 0x12345678))))))
        (overwrite (off + 6) (le_bytes 8 reserved) (overwrite (off + 4) (le_bytes 2 expiry) (overwrite off (le_bytes 4 time) p)))"
    using assms by (simp add: fill_nonce_def Let_def store32le_eq store16le_eq store64le_eq upt_bytes overwrite_again)
  also have "\<dots> = overwrite off (nonce_bytes time expiry reserved) p"
    using assms by (simp add: overwrite_def nonce_bytes_def min_def add.commute)
  finally show ?thesis .
qed

lemma length_nonce_bytes [simp]: "length (nonce_bytes t e r) = 16"
  by (simp add: nonce_bytes_def)

definition token_body :: "u32 \<Rightarrow> u16 \<Rightarrow> u64 \<Rightarrow> bytes" where
  "token_body time expiry reserved =
     le_bytes 4 time @ le_bytes 2 expiry @ le_bytes 8 reserved @ nonce_bytes time expiry reserved @ [0, 0]"

lemma length_token_body [simp]: "length (token_body t e r) = 32"
  by (simp add: token_body_def)

lemma token_generate_eq:
  assumes raw: "length raw = 64" and e: "0 < e" "e \<le> 86400"
  shows "token_generate raw secret e rid t =
     Some (token_body t (ucast e) rid @ hmac_spec secret (token_body t (ucast e) rid))"
proof -
  let ?e = "ucast e :: u16"
  let ?p = "le_bytes 4 t @ le_bytes 2 ?e @ le_bytes 8 rid @ replicate 50 0"
  have p: "store64le 6 rid (store16le 4 ?e (store32le 0 t (replicate TOKEN_SIZE 0))) = ?p"
    by (simp add: TOKEN_SIZE_def store32le_eq store16le_eq store64le_eq) (simp add: overwrite_def)
  have f: "(fill_nonce 14 t ?e rid ?p)[30 := 0, 31 := 0] =
      token_body t ?e rid @ replicate 32 0"
    by (simp add: fill_nonce_eq overwrite_def token_body_def list_update_append replicate_numeral
        del: replicate.simps)
  have "length (fill_nonce 14 t ?e rid ?p) = 64" by (simp add: fill_nonce_eq)
  moreover have "e \<noteq> 0" "\<not> 86400 < e" using e by auto
  ultimately show ?thesis
    by (simp add: token_generate_def Let_def p f hmac_sha256_spec [OF raw] overwrite_def)
qed

lemma token_validate_iff:
  assumes raw: "length raw = 64" and len: "length token = 64"
  shows "token_validate raw token secret now \<longleftrightarrow>
     token ! 30 = 0 \<and> token ! 31 = 0 \<and> drop 32 token = hmac_spec secret (take 32 token) \<and>
     of_le (take 4 token) \<le> now \<and> now \<le> of_le (take 4 token) + ucast (of_le (take 2 (drop 4 token)) :: u16)"
proof -
  have "ct_diff 32 (hmac_spec secret (take 32 token)) (drop 32 token) = 0 \<longleftrightarrow>
      hmac_spec secret (take 32 token) = drop 32 token"
    using len by (intro ct_diff_eq) simp_all
  then show ?thesis
    using len by (auto simp: token_validate_def Let_def hmac_sha256_spec [OF raw] load32le_eq load16le_eq not_less)
qed

text \<open>A generated token, read back: only the window test is left.\<close>

lemma validate_generated:
  assumes raw: "length raw = 64" and e: "0 < e" "e \<le> 86400"
    and gen: "token_generate raw' secret e rid t = Some token" "length raw' = 64"
  shows "token_validate raw token secret now \<longleftrightarrow> t \<le> now \<and> now \<le> t + ucast (ucast e :: u16)"
    and "token_reserved_client_id token = rid"
    and "length token = 64"
proof -
  let ?b = "token_body t (ucast e) rid"
  have tok: "token = ?b @ hmac_spec secret ?b" using token_generate_eq [OF gen(2) e] gen(1) by simp
  show len: "length token = 64" by (simp add: tok)
  have zeros: "token ! 30 = 0" "token ! 31 = 0" by (simp_all add: tok nth_append) (simp_all add: token_body_def nth_append)
  have t4: "take 4 token = le_bytes 4 t" "take 2 (drop 4 token) = le_bytes 2 (ucast e :: u16)"
    "take 8 (drop 6 token) = le_bytes 8 rid"
    by (simp_all add: tok) (simp_all add: token_body_def)
  show "token_validate raw token secret now \<longleftrightarrow> t \<le> now \<and> now \<le> t + ucast (ucast e :: u16)"
    unfolding token_validate_iff [OF raw len] zeros t4
    by (simp add: of_le_le_bytes_full) (simp add: tok)
  show "token_reserved_client_id token = rid"
    using len by (simp add: token_reserved_client_id_def load64le_eq t4 of_le_le_bytes_full)
qed

subsection \<open>What a token promises\<close>

lemma window_iff:
  assumes "unat e < 65536" "unat (t :: u32) + unat e < 2 ^ 32"
  shows "(now :: u32) \<le> t + ucast (ucast e :: u16) \<longleftrightarrow> unat now \<le> unat t + unat (e :: u32)"
proof -
  have "unat (ucast (ucast e :: u16) :: u32) = unat e" using assms by (simp add: unat_ucast_mod)
  then show ?thesis using assms by (simp add: word_le_nat_alt unat_word_ariths)
qed

text \<open>A token generated with a validity of at most 65535 seconds is accepted with the same
  secret exactly from the second it was issued until its validity has passed, whatever the two
  hash states' buffers held, and carries the reserved client id it was generated with.\<close>

theorem token_roundtrip:
  assumes "length raw = 64" "length raw' = 64" "0 < e" "unat e < 65536" "unat t + unat e < 2 ^ 32"
    and "token_generate raw' secret e rid t = Some token"
  shows "(token_validate raw token secret now \<longleftrightarrow> unat t \<le> unat now \<and> unat now \<le> unat t + unat e) \<and>
    token_reserved_client_id token = rid \<and> length token = TOKEN_SIZE"
proof -
  have "e \<le> 86400" using assms(4) by (simp add: word_le_nat_alt)
  note v = validate_generated [OF assms(1) assms(3) this assms(6) assms(2)]
  show ?thesis using v window_iff [OF assms(4,5)] by (simp add: TOKEN_SIZE_def word_le_nat_alt)
qed

text \<open>C30: Integrity: a 64-byte string is accepted exactly when its last 32 bytes are the HMAC of
  its first 32 under the secret, its two reserved bytes are zero, and the time lies in the window
  the signed fields give (the end of the window computed modulo 2^32).\<close>

theorem token_accepted_iff_signed:
  assumes "length raw = 64" "length token = TOKEN_SIZE"
  shows "token_validate raw token secret now \<longleftrightarrow>
     token ! 30 = 0 \<and> token ! 31 = 0 \<and> drop 32 token = hmac_spec secret (take 32 token) \<and>
     of_le (take 4 token) \<le> now \<and> now \<le> of_le (take 4 token) + ucast (of_le (take 2 (drop 4 token)) :: u16)"
  using assms by (intro token_validate_iff) (simp_all add: TOKEN_SIZE_def)

text \<open>The validity field has 16 bits: a token asked to live between 65536 and 86400 seconds,
  which \<open>generate\<close> accepts, is refused 65536 seconds early (one asked for 65536 seconds is refused
  after the second it was issued).\<close>

theorem long_expiry_truncated:
  assumes "length raw = 64" "length raw' = 64" "65536 \<le> unat e" "unat e \<le> 86400"
    and "unat t + unat e < 2 ^ 32" "unat t + (unat e - 65536) < unat now"
    and "token_generate raw' secret e rid t = Some token"
  shows "\<not> token_validate raw token secret now"
proof -
  have e: "0 < e" "e \<le> 86400" using assms(3,4) by (simp_all add: word_le_nat_alt word_less_nat_alt)
  have "unat (ucast (ucast e :: u16) :: u32) = unat e - 65536"
    using assms(3,4) by (simp add: unat_ucast_mod mod_if)
  then have "unat (t + ucast (ucast e :: u16)) = unat t + (unat e - 65536)"
    using assms(5) by (simp add: unat_word_ariths)
  then have "\<not> now \<le> t + ucast (ucast e :: u16)" using assms(6) by (simp add: word_le_nat_alt)
  then show ?thesis using validate_generated(1) [OF assms(1) e assms(7,2)] by simp
qed

subsection \<open>Witnesses\<close>

definition w_secret :: bytes where "w_secret = replicate 32 7"

lemma token_roundtrip_witness:
  "\<exists>token. token_generate (replicate 64 0) w_secret 60 5 1000 = Some token \<and>
     token_validate (replicate 64 9) token w_secret 1060 \<and> \<not> token_validate (replicate 64 9) token w_secret 1061 \<and>
     token_reserved_client_id token = 5"
proof -
  obtain token where "token_generate (replicate 64 0) w_secret 60 5 1000 = Some token"
    using token_generate_eq [of "replicate 64 0" 60 w_secret 5 1000] by auto
  then show ?thesis
    using token_roundtrip [of "replicate 64 9" "replicate 64 0" 60 1000 w_secret 5 token 1060]
      token_roundtrip [of "replicate 64 9" "replicate 64 0" 60 1000 w_secret 5 token 1061] by simp
qed

lemma token_accepted_iff_signed_witness:
  "\<not> token_validate (replicate 64 0) (replicate 30 0 @ [1] @ replicate 33 0) w_secret 0"
  using token_accepted_iff_signed [of "replicate 64 0" "replicate 30 0 @ [1] @ replicate 33 0" w_secret 0]
  by (simp add: TOKEN_SIZE_def nth_append)

lemma long_expiry_truncated_witness:
  "\<exists>token. token_generate (replicate 64 0) w_secret 65536 5 1000 = Some token \<and>
     \<not> token_validate (replicate 64 9) token w_secret 1001"
proof -
  obtain token where "token_generate (replicate 64 0) w_secret 65536 5 1000 = Some token"
    using token_generate_eq [of "replicate 64 0" 65536 w_secret 5 1000] by auto
  then show ?thesis
    using long_expiry_truncated [of "replicate 64 9" "replicate 64 0" 65536 1000 1001 w_secret 5 token] by auto
qed

end
