(* ===== verification/Transport.thy ===== *)
theory Transport
  imports Packet Address Floats
begin

text \<open>
  The interface \<open>ITransport\<close> (\<open>src/include/campello_net/transport/i_transport.hpp\<close>): the record of its
  virtual functions over the state of an implementation, and the contract of the receive queue that
  its clients (the encrypting and the simulating decorators, the connection manager) rely on.

  Polling is \<open>None\<close> where the implementation runs into undefined behaviour.
  The components that wrap another transport take the record as a parameter. \<open>drain\<close> is the loop
  \<open>while (transport->pop_receive(..))\<close> of these clients.
\<close>

record 's transport =
  t_bind :: "address \<Rightarrow> 's \<Rightarrow> bool \<times> 's"
  t_connect :: "address \<Rightarrow> 's \<Rightarrow> bool \<times> 's"
  t_disconnect :: "'s \<Rightarrow> 's"
  t_is_connected :: "'s \<Rightarrow> bool"
  t_send :: "bytes \<Rightarrow> reliability \<Rightarrow> 's \<Rightarrow> bool \<times> 's"
  t_send_to :: "address \<Rightarrow> bytes \<Rightarrow> reliability \<Rightarrow> 's \<Rightarrow> bool \<times> 's"
  t_poll :: "'s \<Rightarrow> 's option"
  t_pop_receive :: "nat \<Rightarrow> 's \<Rightarrow> (bytes \<times> address) option \<times> 's"
  t_rtt :: "'s \<Rightarrow> rat"
  t_packet_loss :: "'s \<Rightarrow> rat"
  t_connection_rtt :: "address \<Rightarrow> 's \<Rightarrow> rat"
  t_connection_packet_loss :: "address \<Rightarrow> 's \<Rightarrow> rat"

partial_function (option) drain ::
  "(nat \<Rightarrow> 's \<Rightarrow> (bytes \<times> 'a) option \<times> 's) \<Rightarrow> nat \<Rightarrow> 's \<Rightarrow> ((bytes \<times> 'a) list \<times> 's) option" where
  "drain pop n s =
     (case pop n s of
        (None, s') \<Rightarrow> Some ([], s')
      | (Some m, s') \<Rightarrow> Option.bind (drain pop n s') (\<lambda>(ms, s''). Some (m # ms, s'')))"

text \<open>
  The contract of \<open>pop_receive\<close>, for the addresses of either build: the messages waiting are a list; popping returns the first one, cut to
  the caller's buffer, and leaves the rest; \<open>false\<close> means that there is none.
\<close>

locale receive_queue =
  fixes pop :: "nat \<Rightarrow> 's \<Rightarrow> (bytes \<times> 'a) option \<times> 's"
    and waiting :: "'s \<Rightarrow> (bytes \<times> 'a) list"
  assumes pop_none: "waiting s = [] \<Longrightarrow> fst (pop n s) = None \<and> waiting (snd (pop n s)) = []"
    and pop_some: "waiting s = (d, a) # q \<Longrightarrow> fst (pop n s) = Some (take n d, a) \<and> waiting (snd (pop n s)) = q"
begin

lemma false_iff_empty: "fst (pop n s) = None \<longleftrightarrow> waiting s = []"
  using pop_none pop_some by (metis list.exhaust option.distinct(1) surj_pair)

text \<open>The client's loop ends, and sees every waiting message once, in order.\<close>

lemma drain_returns:
  "\<exists>s'. drain pop n s = Some (map (\<lambda>(d, a). (take n d, a)) (waiting s), s') \<and> waiting s' = []"
proof (induction "waiting s" arbitrary: s)
  case Nil
  then obtain s' where "pop n s = (None, s')" "waiting s' = []" using pop_none [of s n] by (metis prod.collapse)
  then show ?case using Nil by (simp add: drain.simps)
next
  case (Cons m q)
  obtain d a where m: "m = (d, a)" by (rule prod.exhaust)
  obtain s1 where s1: "pop n s = (Some (take n d, a), s1)" "waiting s1 = q"
    using pop_some [of s d a q n] Cons(2) m by (metis prod.collapse)
  obtain s2 where "drain pop n s1 = Some (map (\<lambda>(d, a). (take n d, a)) q, s2)" "waiting s2 = []"
    using Cons(1) [OF s1(2) [symmetric]] s1(2) by auto
  then show ?case using s1 Cons(2) [symmetric] m by (subst drain.simps) simp
qed

end

end
