(* ===== verification/UdpInterface.thy ===== *)
theory UdpInterface
  imports Transport UdpTransport
begin

text \<open>
  \<open>UdpTransport\<close> as an \<open>ITransport\<close>: its virtual functions, with the operating system's answers
  (sockets, clock, datagrams) as parameters, and the receive-queue contract for it.
\<close>

definition udp_transport :: "(address \<Rightarrow> bytes \<Rightarrow> bool) \<Rightarrow> bool \<Rightarrow> bool \<Rightarrow> time \<Rightarrow> arrival list \<Rightarrow> udp transport" where
  "udp_transport os sock_ok bind_ok now ins =
     \<lparr>t_bind = udp_bind os sock_ok bind_ok, t_connect = udp_connect os sock_ok bind_ok now,
      t_disconnect = udp_disconnect os, t_is_connected = udp_is_connected,
      t_send = (\<lambda>d r u. udp_send os now u d r), t_send_to = (\<lambda>a d r u. udp_send_to os now u a d r),
      t_poll = (\<lambda>u. case udp_poll os now ins u of Inl _ \<Rightarrow> None | Inr u' \<Rightarrow> Some u'),
      t_pop_receive = (\<lambda>n u. udp_pop_receive u n), t_rtt = udp_rtt, t_packet_loss = udp_packet_loss,
      t_connection_rtt = (\<lambda>a u. udp_connection_rtt u a),
      t_connection_packet_loss = (\<lambda>a u. udp_connection_packet_loss u a)\<rparr>"

definition udp_waiting :: "udp \<Rightarrow> (bytes \<times> address) list" where
  "udp_waiting u = map (\<lambda>(a, d). (d, a)) (drop (receive_read_idx u) (receive_queue u))"

lemma udp_pop_none: "udp_waiting u = [] \<Longrightarrow> fst (udp_pop_receive u n) = None \<and> udp_waiting (snd (udp_pop_receive u n)) = []"
  by (auto simp: udp_waiting_def udp_pop_receive_def)

lemma udp_pop_some:
  "udp_waiting u = (d, a) # q \<Longrightarrow> fst (udp_pop_receive u n) = Some (take n d, a) \<and> udp_waiting (snd (udp_pop_receive u n)) = q"
proof -
  assume w: "udp_waiting u = (d, a) # q"
  then have ix: "receive_read_idx u < length (receive_queue u)"
    by (metis drop_all linorder_not_le list.distinct(1) list.simps(8) udp_waiting_def)
  have "drop (receive_read_idx u) (receive_queue u) =
      receive_queue u ! receive_read_idx u # drop (Suc (receive_read_idx u)) (receive_queue u)"
    using ix by (rule Cons_nth_drop_Suc [symmetric])
  with w have nth: "receive_queue u ! receive_read_idx u = (a, d)"
    and q: "map (\<lambda>(a, d). (d, a)) (drop (Suc (receive_read_idx u)) (receive_queue u)) = q"
    by (auto simp: udp_waiting_def split: prod.splits)
  have "take (min n (length d)) d = take n d" by (cases "n \<le> length d") (simp_all add: min_def)
  then show ?thesis using ix nth q by (simp add: udp_pop_receive_def udp_waiting_def)
qed

interpretation udpq: receive_queue "\<lambda>n u. udp_pop_receive u n" udp_waiting
  by unfold_locales (auto dest: udp_pop_none udp_pop_some)

text \<open>The receive loop of a client of the UDP transport ends, and hands over every queued message
  exactly once, in arrival order, each cut to the client's buffer; the queue is empty afterwards.\<close>

theorem udp_drain:
  "\<exists>u'. drain (\<lambda>n u. udp_pop_receive u n) n u =
     Some (map (\<lambda>(d, a). (take n d, a)) (udp_waiting u), u') \<and> udp_waiting u' = []"
  by (rule udpq.drain_returns)

end
