(* ===== verification/ChaCha20.thy ===== *)
theory ChaCha20
  imports ByteStore
begin

text \<open>
  The ChaCha20 stream cipher (\<open>src/src/crypto/chachapoly.cpp\<close>, first half): the quarter round on
  the sixteen-word state, the block function, and the encryption of a buffer in place.
\<close>

unbundle bit_operations_syntax

definition rotl :: "u32 \<Rightarrow> nat \<Rightarrow> u32" where
  "rotl x n = push_bit n x OR drop_bit (32 - n) x"

definition qr :: "nat \<Rightarrow> nat \<Rightarrow> nat \<Rightarrow> nat \<Rightarrow> u32 list \<Rightarrow> u32 list" where
  "qr a b c d x =
     (let x = x[a := x ! a + x ! b];
          x = x[d := x ! d XOR x ! a];
          x = x[d := rotl (x ! d) 16];
          x = x[c := x ! c + x ! d];
          x = x[b := x ! b XOR x ! c];
          x = x[b := rotl (x ! b) 12];
          x = x[a := x ! a + x ! b];
          x = x[d := x ! d XOR x ! a];
          x = x[d := rotl (x ! d) 8];
          x = x[c := x ! c + x ! d];
          x = x[b := x ! b XOR x ! c]
      in x[b := rotl (x ! b) 7])"

definition chacha20_state :: "bytes \<Rightarrow> u32 \<Rightarrow> bytes \<Rightarrow> u32 list" where
  "chacha20_state key counter nonce =
     [0x61707865, 0x3320646e, 0x79622d32, 0x6b206574,
      load32le 0 key, load32le 4 key, load32le 8 key, load32le 12 key,
      load32le 16 key, load32le 20 key, load32le 24 key, load32le 28 key,
      counter, load32le 0 nonce, load32le 4 nonce, load32le 8 nonce]"

definition double_round :: "u32 list \<Rightarrow> u32 list" where
  "double_round w =
     (let w = qr 0 4 8 12 w;
          w = qr 1 5 9 13 w;
          w = qr 2 6 10 14 w;
          w = qr 3 7 11 15 w;
          w = qr 0 5 10 15 w;
          w = qr 1 6 11 12 w;
          w = qr 2 7 8 13 w
      in qr 3 4 9 14 w)"

definition chacha20_block :: "bytes \<Rightarrow> u32 \<Rightarrow> bytes \<Rightarrow> bytes" where
  "chacha20_block key counter nonce =
     (let state = chacha20_state key counter nonce;
          working = (double_round ^^ 10) state;
          working = fold (\<lambda>i w. w[i := w ! i + state ! i]) [0..<16] working
      in fold (\<lambda>i out. store32le (i * 4) (working ! i) out) [0..<16] (replicate 64 0))"

text \<open>The loop of \<open>chacha20_crypt\<close> on the part of the buffer from \<open>offset\<close> on; the counter is a
  32-bit word and wraps.\<close>

function chacha20_crypt :: "bytes \<Rightarrow> bytes \<Rightarrow> u32 \<Rightarrow> bytes \<Rightarrow> bytes" where
  "chacha20_crypt key nonce counter d =
     (if length d > 0
      then let block = chacha20_block key counter nonce;
               chunk = (if length d < 64 then length d else 64)
           in map2 (XOR) (take chunk d) (take chunk block) @
              chacha20_crypt key nonce (counter + 1) (drop chunk d)
      else [])"
  by pat_completeness auto

termination by (relation "measure (\<lambda>(_, _, _, d). length d)") auto

declare chacha20_crypt.simps [simp del]

subsection \<open>Lengths\<close>

lemma length_store32le [simp]: "length (store32le off v p) = length p"
  by (simp add: store32le_def)

lemma length_fold_update:
  "(\<And>x i. length (f i x) = length x) \<Longrightarrow> length (fold f is x) = length x"
  by (induction "is" arbitrary: x) auto

lemma length_chacha20_block [simp]: "length (chacha20_block key counter nonce) = 64"
  by (simp add: chacha20_block_def Let_def length_fold_update)

subsection \<open>Decryption is encryption\<close>

lemma map2_xor_twice:
  "length a = length b \<Longrightarrow> map2 (XOR) (map2 (XOR) a b) b = (a :: bytes)"
  by (induction a b rule: list_induct2) (simp_all add: xor.assoc)

lemma chacha20_crypt_Nil [simp]: "chacha20_crypt key nonce counter [] = []"
  by (simp add: chacha20_crypt.simps)

lemma chacha20_crypt_step:
  "d \<noteq> [] \<Longrightarrow> n = min 64 (length d) \<Longrightarrow> chacha20_crypt key nonce counter d =
     map2 (XOR) (take n d) (take n (chacha20_block key counter nonce)) @
     chacha20_crypt key nonce (counter + 1) (drop n d)"
  by (subst chacha20_crypt.simps) (auto simp: Let_def min_def)

lemma length_chacha20_crypt [simp]: "length (chacha20_crypt key nonce counter d) = length d"
proof (induction "length d" arbitrary: counter d rule: less_induct)
  case less
  show ?case
  proof (cases "d = []")
    case False
    define n where "n = min 64 (length d)"
    have n: "0 < n" "n \<le> length d" "n \<le> 64" using False by (simp_all add: n_def)
    have "length (chacha20_crypt key nonce (counter + 1) (drop n d)) = length d - n"
      using less [of "drop n d" "counter + 1"] n by simp
    then show ?thesis using n by (simp add: chacha20_crypt_step [OF False n_def])
  qed simp
qed

lemma crypt_involution: "chacha20_crypt key nonce counter (chacha20_crypt key nonce counter d) = d"
proof (induction "length d" arbitrary: counter d rule: less_induct)
  case less
  show ?case
  proof (cases "d = []")
    case False
    define n where "n = min 64 (length d)"
    have n: "0 < n" "n \<le> length d" "n \<le> 64" using False by (simp_all add: n_def)
    let ?k = "take n (chacha20_block key counter nonce)"
    let ?rest = "chacha20_crypt key nonce (counter + 1) (drop n d)"
    let ?c = "chacha20_crypt key nonce counter d"
    have c: "?c = map2 (XOR) (take n d) ?k @ ?rest" by (rule chacha20_crypt_step [OF False n_def])
    have len: "length (map2 (XOR) (take n d) ?k) = n" using n by simp
    have cl: "length ?c = length d" by (rule length_chacha20_crypt)
    then have "?c \<noteq> []" using False by (metis length_0_conv)
    moreover have "n = min 64 (length ?c)" by (simp only: cl n_def)
    ultimately have "chacha20_crypt key nonce counter ?c =
        map2 (XOR) (take n ?c) ?k @ chacha20_crypt key nonce (counter + 1) (drop n ?c)"
      by (rule chacha20_crypt_step)
    also have "take n ?c = map2 (XOR) (take n d) ?k" using len by (simp add: c)
    also have "drop n ?c = ?rest" using len by (simp add: c)
    also have "chacha20_crypt key nonce (counter + 1) ?rest = drop n d" using less n by simp
    finally show ?thesis using n by (simp add: map2_xor_twice)
  qed simp
qed

text \<open>ChaCha20 decrypts what it encrypted: for every key, nonce, start counter (including one
  that wraps) and buffer of any length, applying the cipher twice gives the buffer back.\<close>

theorem chacha20_involution: "chacha20_crypt key nonce counter (chacha20_crypt key nonce counter d) = d"
  by (rule crypt_involution)

text \<open>The quarter-round test vector of RFC 8439, section 2.1.1.\<close>

lemma qr_rfc:
  "qr 0 1 2 3 [0x11111111, 0x01020304, 0x9b8d6f43, 0x01234567] = [0xea2a92f4, 0xcb1cf8ce, 0x4581472e, 0x5881c4bb]"
  by code_simp

subsection \<open>One keystream, two messages\<close>

lemma map2_append: "length a = length b \<Longrightarrow> map2 f (a @ c) (b @ d) = map2 f a b @ map2 f c d"
  by simp

lemma xor_cancel_pad: "length a = length k \<Longrightarrow> length b = length k \<Longrightarrow>
   map2 (XOR) (map2 (XOR) a k) (map2 (XOR) b k) = map2 (XOR) a (b :: bytes)"
proof (induction k arbitrary: a b)
  case (Cons x k)
  obtain y a' z b' where "a = y # a'" "b = z # b'" using Cons.prems by (cases a; cases b) auto
  moreover have "(y XOR x) XOR (z XOR x) = y XOR z" for x y z :: u8
    by (metis xor.assoc xor.commute xor_self_eq xor.left_neutral)
  ultimately show ?case using Cons by simp
qed simp

lemma crypt_xor:
  "length p = length q \<Longrightarrow>
   map2 (XOR) (chacha20_crypt key nonce counter p) (chacha20_crypt key nonce counter q) = map2 (XOR) p q"
proof (induction "length p" arbitrary: counter p q rule: less_induct)
  case less
  show ?case
  proof (cases "p = []")
    case False
    then have q: "q \<noteq> []" using less.prems by (cases q) simp_all
    define n where "n = min 64 (length p)"
    have n: "0 < n" "n \<le> length p" "n \<le> length q" "n \<le> 64" "n = min 64 (length q)"
      using False q less.prems by (simp_all add: n_def)
    let ?k = "take n (chacha20_block key counter nonce)"
    have ih: "map2 (XOR) (chacha20_crypt key nonce (counter + 1) (drop n p)) (chacha20_crypt key nonce (counter + 1) (drop n q)) =
        map2 (XOR) (drop n p) (drop n q)"
      using less n by simp
    have "map2 (XOR) (map2 (XOR) (take n p) ?k) (map2 (XOR) (take n q) ?k) = map2 (XOR) (take n p) (take n q)"
      using n by (intro xor_cancel_pad) simp_all
    then have "map2 (XOR) (chacha20_crypt key nonce counter p) (chacha20_crypt key nonce counter q) =
        map2 (XOR) (take n p) (take n q) @ map2 (XOR) (drop n p) (drop n q)"
      unfolding chacha20_crypt_step [OF False n_def] chacha20_crypt_step [OF q n(5)]
      using n ih by (simp add: map2_append)
    also have "\<dots> = map2 (XOR) p q"
      using n map2_append [of "take n p" "take n q" "(XOR)" "drop n p" "drop n q"] by simp
    finally show ?thesis .
  qed simp
qed

end
