(* ===== verification/Poly1305.thy ===== *)
theory Poly1305
  imports ByteStore
begin

text \<open>
  The Poly1305 authenticator of \<open>src/src/crypto/chachapoly.cpp\<close>, on five 26-bit limbs with 32-bit
  words and 64-bit products. The definitions are the code's; what they have to do with RFC 8439, whose key
  and last reduction differ from the code's, is in \<open>Poly1305Laws\<close>.
\<close>

unbundle bit_operations_syntax

record poly1305_state =
  ps_r :: "u32 list"
  ps_h :: "u32 list"
  ps_pad :: "u32 list"
  ps_leftover :: nat
  ps_buffer :: bytes

text \<open>Four little-endian words cut into 26-bit limbs; the top limb is what is left of the last.\<close>

definition limbs26 :: "u32 \<Rightarrow> u32 \<Rightarrow> u32 \<Rightarrow> u32 \<Rightarrow> u32 list" where
  "limbs26 t0 t1 t2 t3 =
     [t0 AND 0x3ffffff,
      (drop_bit 26 t0 OR push_bit 6 t1) AND 0x3ffffff,
      (drop_bit 20 t1 OR push_bit 12 t2) AND 0x3ffffff,
      (drop_bit 14 t2 OR push_bit 18 t3) AND 0x3ffffff,
      drop_bit 8 t3]"

definition clamp :: "bytes \<Rightarrow> bytes" where
  "clamp k =
     (let c = take 16 k;
          c = c[3 := c ! 3 AND 0x0f];
          c = c[7 := c ! 7 AND 0x0f];
          c = c[11 := c ! 11 AND 0x0f];
          c = c[15 := c ! 15 AND 0x0f];
          c = c[4 := c ! 4 AND 0xfe];
          c = c[8 := c ! 8 AND 0xfe]
      in c[12 := c ! 12 AND 0xfe])"

definition poly1305_init :: "bytes \<Rightarrow> poly1305_state" where
  "poly1305_init key =
     (let c = clamp key;
          t = limbs26 (load32le 0 c) (load32le 4 c) (load32le 8 c) (load32le 12 c)
      in \<lparr>ps_r = t[4 := t ! 4 AND 0x3ffffff], ps_h = replicate 5 0,
          ps_pad = [load32le 16 key, load32le 20 key, load32le 24 key, load32le 28 key],
          ps_leftover = 0, ps_buffer = replicate 16 0\<rparr>)"

text \<open>\<open>h += m\<close>: the block's limbs, the marker bit \<open>hibit\<close> in the top one.\<close>

definition add_block :: "bytes \<Rightarrow> u32 \<Rightarrow> u32 list \<Rightarrow> u32 list" where
  "add_block m hibit h =
     (let b = limbs26 (load32le 0 m) (load32le 4 m) (load32le 8 m) (load32le 12 m)
      in [h ! 0 + b ! 0, h ! 1 + b ! 1, h ! 2 + b ! 2, h ! 3 + b ! 3, h ! 4 + (b ! 4 OR hibit)])"

text \<open>A 32-bit by 32-bit product in 64 bits.\<close>

definition wide :: "u32 \<Rightarrow> u32 \<Rightarrow> u64" where
  "wide x y = ucast x * ucast y"

text \<open>\<open>h *= r\<close>: schoolbook products with the wrapped limbs times five, then the carry chain and the
  partial reduction of the top carry.\<close>

definition products :: "u32 list \<Rightarrow> u32 list \<Rightarrow> u64 list" where
  "products r h =
     (let s1 = r ! 1 * 5; s2 = r ! 2 * 5; s3 = r ! 3 * 5; s4 = r ! 4 * 5
      in [wide (h ! 0) (r ! 0) + wide (h ! 1) s4 + wide (h ! 2) s3 + wide (h ! 3) s2 + wide (h ! 4) s1,
          wide (h ! 0) (r ! 1) + wide (h ! 1) (r ! 0) + wide (h ! 2) s4 + wide (h ! 3) s3 + wide (h ! 4) s2,
          wide (h ! 0) (r ! 2) + wide (h ! 1) (r ! 1) + wide (h ! 2) (r ! 0) + wide (h ! 3) s4 + wide (h ! 4) s3,
          wide (h ! 0) (r ! 3) + wide (h ! 1) (r ! 2) + wide (h ! 2) (r ! 1) + wide (h ! 3) (r ! 0) + wide (h ! 4) s4,
          wide (h ! 0) (r ! 4) + wide (h ! 1) (r ! 3) + wide (h ! 2) (r ! 2) + wide (h ! 3) (r ! 1) + wide (h ! 4) (r ! 0)])"

definition carry_reduce :: "u64 list \<Rightarrow> u32 list" where
  "carry_reduce d =
     (let d0 = d ! 0;
          c = (ucast (drop_bit 26 d0) :: u32); h0 = (ucast d0 :: u32) AND 0x3ffffff;
          d1 = d ! 1 + ucast c; c = (ucast (drop_bit 26 d1) :: u32); h1 = (ucast d1 :: u32) AND 0x3ffffff;
          d2 = d ! 2 + ucast c; c = (ucast (drop_bit 26 d2) :: u32); h2 = (ucast d2 :: u32) AND 0x3ffffff;
          d3 = d ! 3 + ucast c; c = (ucast (drop_bit 26 d3) :: u32); h3 = (ucast d3 :: u32) AND 0x3ffffff;
          d4 = d ! 4 + ucast c; c = (ucast (drop_bit 26 d4) :: u32); h4 = (ucast d4 :: u32) AND 0x3ffffff;
          h0 = h0 + c * 5;
          c = drop_bit 26 h0;
          h0 = h0 AND 0x03ffffff;
          h1 = h1 + c
      in [h0, h1, h2, h3, h4])"

definition mul_reduce :: "u32 list \<Rightarrow> u32 list \<Rightarrow> u32 list" where
  "mul_reduce r h = carry_reduce (products r h)"

function poly1305_blocks :: "bytes \<Rightarrow> u32 \<Rightarrow> poly1305_state \<Rightarrow> poly1305_state" where
  "poly1305_blocks m hibit st =
     (if 16 \<le> length m
      then poly1305_blocks (drop 16 m) hibit (st\<lparr>ps_h := mul_reduce (ps_r st) (add_block m hibit (ps_h st))\<rparr>)
      else st)"
  by pat_completeness auto

termination by (relation "measure (\<lambda>(m, _). length m)") auto

declare poly1305_blocks.simps [simp del]

definition HIBIT :: u32 where
  "HIBIT = push_bit 24 1"

text \<open>The last part of \<open>poly1305_update\<close>: whole blocks straight from the input, the rest buffered.\<close>

definition update_tail :: "bytes \<Rightarrow> poly1305_state \<Rightarrow> poly1305_state" where
  "update_tail m st =
     (let n = length m div 16 * 16;
          st = (if 16 \<le> length m then poly1305_blocks (take n m) HIBIT st else st);
          m = (if 16 \<le> length m then drop n m else m)
      in if m \<noteq> []
         then st\<lparr>ps_buffer := overwrite (ps_leftover st) m (ps_buffer st),
                 ps_leftover := ps_leftover st + length m\<rparr>
         else st)"

definition poly1305_update :: "bytes \<Rightarrow> poly1305_state \<Rightarrow> poly1305_state" where
  "poly1305_update m st =
     (if ps_leftover st \<noteq> 0
      then let want = min (16 - ps_leftover st) (length m);
               st = st\<lparr>ps_buffer := overwrite (ps_leftover st) (take want m) (ps_buffer st),
                       ps_leftover := ps_leftover st + want\<rparr>;
               m = drop want m
           in if ps_leftover st < 16 then st
              else update_tail m ((poly1305_blocks (ps_buffer st) HIBIT st)\<lparr>ps_leftover := 0\<rparr>)
      else update_tail m st)"

text \<open>The last, partial block: a 1 byte and zeros after it, no marker bit.\<close>

definition finish_partial :: "poly1305_state \<Rightarrow> u32 list" where
  "finish_partial st =
     (if ps_leftover st \<noteq> 0
      then let padded = overwrite 0 (take (ps_leftover st) (ps_buffer st)) (replicate 16 0);
               padded = padded[ps_leftover st := 1]
           in mul_reduce (ps_r st) (add_block padded 0 (ps_h st))
      else ps_h st)"

definition pack_h :: "u32 list \<Rightarrow> bytes" where
  "pack_h h =
     (let p = replicate 16 0;
          p = store32le 0 (h ! 0 OR push_bit 26 (h ! 1)) p;
          p = store32le 4 (drop_bit 6 (h ! 1) OR push_bit 20 (h ! 2)) p;
          p = store32le 8 (drop_bit 12 (h ! 2) OR push_bit 14 (h ! 3)) p
      in store32le 12 (drop_bit 18 (h ! 3) OR push_bit 8 (h ! 4 AND 0x00ffffff)) p)"

text \<open>\<open>tag = h + s\<close> on four words with a 64-bit carry.\<close>

definition add_pad :: "u32 list \<Rightarrow> bytes \<Rightarrow> bytes" where
  "add_pad pad packed =
     snd (fold (\<lambda>i (u :: u64, mac).
        let word = load32le (4 * i) packed;
            u = u + (ucast word + ucast (pad ! i));
            mac = store32le (4 * i) (ucast u) mac
        in (drop_bit 32 u, mac)) [0..<4] (0, replicate 16 0))"

definition poly1305_finish :: "poly1305_state \<Rightarrow> bytes" where
  "poly1305_finish st = add_pad (ps_pad st) (pack_h (finish_partial st))"

text \<open>The input of the authenticator: the associated data and the ciphertext, each zero-padded to
  a multiple of sixteen bytes, and a block with their lengths.\<close>

definition pad_update :: "bytes \<Rightarrow> poly1305_state \<Rightarrow> poly1305_state" where
  "pad_update d st =
     (if length d > 0
      then let st = poly1305_update d st;
               pad = 16 - length d mod 16
           in if pad < 16 then poly1305_update (replicate pad 0) st else st
      else st)"

definition aead_mac_state :: "bytes \<Rightarrow> bytes \<Rightarrow> bytes \<Rightarrow> poly1305_state" where
  "aead_mac_state poly_key aad ciphertext =
     (let st = poly1305_init poly_key;
          st = pad_update aad st;
          st = pad_update ciphertext st;
          len_block = store64le 8 (of_nat (length ciphertext)) (store64le 0 (of_nat (length aad)) (replicate 16 0))
      in poly1305_update len_block st)"

definition aead_compute_tag :: "bytes \<Rightarrow> bytes \<Rightarrow> bytes \<Rightarrow> bytes" where
  "aead_compute_tag poly_key aad ciphertext = poly1305_finish (aead_mac_state poly_key aad ciphertext)"

subsection \<open>Limbs as numbers\<close>

definition limbs_val :: "u32 list \<Rightarrow> nat" where
  "limbs_val h = unat (h ! 0) + 2 ^ 26 * unat (h ! 1) + 2 ^ 52 * unat (h ! 2) + 2 ^ 78 * unat (h ! 3) +
     2 ^ 104 * unat (h ! 4)"

definition P1305 :: nat where
  "P1305 = 2 ^ 130 - 5"

lemma mask26: "(w :: u32) AND 0x3ffffff = take_bit 26 w"
  by (simp add: take_bit_eq_mask mask_eq_exp_minus_1)

lemma unat_mask26: "unat ((w :: u32) AND 0x3ffffff) = unat w mod 2 ^ 26"
  by (simp only: mask26 unsigned_take_bit_eq) (rule take_bit_eq_mod)

lemma unat_drop_bit: "unat (drop_bit n (w :: 'a::len word)) = unat w div 2 ^ n"
  by (simp only: unat_drop_bit_eq) (rule drop_bit_eq_div)

text \<open>Two bit fields side by side.\<close>

lemma unat_or_shift:
  fixes a b :: "'a::len word"
  assumes "unat a < 2 ^ n" "n \<le> LENGTH('a)"
  shows "unat (a OR push_bit n b) = unat a + (unat b * 2 ^ n) mod 2 ^ LENGTH('a)"
proof -
  have "unat (take_bit n a) = unat a" using assms by (simp only: unsigned_take_bit_eq take_bit_nat_eq_self)
  then have a: "a = take_bit n a" by (metis unsigned_word_eqI)
  have "\<not> bit a k \<or> \<not> bit (push_bit n b) k" for k
    using arg_cong [OF a, of "\<lambda>w. bit w k"] by (auto simp: bit_simps)
  then have "a OR push_bit n b = a + push_bit n b" by (simp add: disjunctive_add)
  moreover have "unat (push_bit n b) = (unat b * 2 ^ n) mod 2 ^ LENGTH('a)"
    by (simp only: unsigned_push_bit_eq) (simp only: push_bit_eq_mult take_bit_eq_mod)
  moreover have "unat a + (unat b * 2 ^ n) mod 2 ^ LENGTH('a) < 2 ^ LENGTH('a)"
  proof -
    define q where "q = LENGTH('a) - n"
    have q: "LENGTH('a) = n + q" using assms(2) by (simp add: q_def)
    have pq: "(2 ^ LENGTH('a) :: nat) = 2 ^ n * 2 ^ q" unfolding q by (rule power_add)
    have "(unat b * 2 ^ n) mod 2 ^ LENGTH('a) = 2 ^ n * (unat b mod 2 ^ q)"
      unfolding pq mult_mod_right by (simp only: mult.commute)
    moreover have "unat b mod 2 ^ q < 2 ^ q" by simp
    then have "unat b mod 2 ^ q \<le> 2 ^ q - 1" by linarith
    then have "2 ^ n * (unat b mod 2 ^ q) \<le> 2 ^ n * (2 ^ q - 1)" by simp
    moreover have "2 ^ n * (2 ^ q - 1) + 2 ^ n = (2 ^ LENGTH('a) :: nat)"
      unfolding pq diff_mult_distrib2 by simp
    ultimately show ?thesis using assms(1) by linarith
  qed
  ultimately show ?thesis by (simp add: unat_word_ariths)
qed

lemma unat_field:
  fixes a b :: u32
  assumes "k \<le> 26"
  shows "unat ((drop_bit (32 - k) a OR push_bit k b) AND 0x3ffffff) =
    unat a div 2 ^ (32 - k) + 2 ^ k * (unat b mod 2 ^ (26 - k))"
proof -
  have lt: "unat a div 2 ^ (32 - k) < 2 ^ k"
  proof -
    have "unat a < 2 ^ LENGTH(32)" by (rule unsigned_less)
    then show ?thesis using assms by (simp add: less_mult_imp_div_less power_add [symmetric])
  qed
  have "unat (drop_bit (32 - k) a OR push_bit k b) = unat a div 2 ^ (32 - k) + (unat b * 2 ^ k) mod 2 ^ 32"
    using unat_or_shift [of "drop_bit (32 - k) a" k b] lt assms by (simp add: unat_drop_bit)
  then have "unat ((drop_bit (32 - k) a OR push_bit k b) AND 0x3ffffff) =
      (unat a div 2 ^ (32 - k) + (unat b * 2 ^ k) mod 2 ^ 32) mod 2 ^ 26"
    by (simp only: unat_mask26)
  also have "\<dots> = (unat a div 2 ^ (32 - k) + (unat b * 2 ^ k) mod 2 ^ 26) mod 2 ^ 26"
  proof -
    have "(unat b * 2 ^ k) mod 2 ^ 32 mod 2 ^ 26 = (unat b * 2 ^ k) mod 2 ^ 26" by (rule mod_mod_cancel) simp
    then show ?thesis by (metis mod_add_right_eq)
  qed
  also have "(unat b * 2 ^ k) mod 2 ^ 26 = 2 ^ k * (unat b mod 2 ^ (26 - k))"
    using assms by (metis mult.commute mult_mod_right power_add le_add_diff_inverse)
  also have "(unat a div 2 ^ (32 - k) + 2 ^ k * (unat b mod 2 ^ (26 - k))) mod 2 ^ 26 =
      unat a div 2 ^ (32 - k) + 2 ^ k * (unat b mod 2 ^ (26 - k))"
  proof (rule mod_less)
    have "unat b mod 2 ^ (26 - k) + 1 \<le> 2 ^ (26 - k)" by (simp add: Suc_leI)
    then have "2 ^ k * (unat b mod 2 ^ (26 - k) + 1) \<le> 2 ^ k * 2 ^ (26 - k)" by (rule mult_le_mono2)
    then show "unat a div 2 ^ (32 - k) + 2 ^ k * (unat b mod 2 ^ (26 - k)) < 2 ^ 26"
      using lt assms by (simp add: power_add [symmetric])
  qed
  finally show ?thesis .
qed

lemma regroup:
  fixes a0 b0 :: nat
  assumes "x0 = a0 + 2 ^ 26 * b0" "x1 = a1 + 2 ^ 20 * b1" "x2 = a2 + 2 ^ 14 * b2" "x3 = a3 + 2 ^ 8 * b3"
  shows "a0 + 2 ^ 26 * (b0 + 2 ^ 6 * a1) + 2 ^ 52 * (b1 + 2 ^ 12 * a2) + 2 ^ 78 * (b2 + 2 ^ 18 * a3) + 2 ^ 104 * b3 =
    x0 + 2 ^ 32 * x1 + 2 ^ 64 * x2 + 2 ^ 96 * x3"
  using assms by simp

lemma limbs_val_limbs26:
  "limbs_val (limbs26 t0 t1 t2 t3) = unat t0 + 2 ^ 32 * unat t1 + 2 ^ 64 * unat t2 + 2 ^ 96 * unat t3"
proof -
  have l: "unat (limbs26 t0 t1 t2 t3 ! 0) = unat t0 mod 2 ^ 26"
    "unat (limbs26 t0 t1 t2 t3 ! 1) = unat t0 div 2 ^ 26 + 2 ^ 6 * (unat t1 mod 2 ^ 20)"
    "unat (limbs26 t0 t1 t2 t3 ! 2) = unat t1 div 2 ^ 20 + 2 ^ 12 * (unat t2 mod 2 ^ 14)"
    "unat (limbs26 t0 t1 t2 t3 ! 3) = unat t2 div 2 ^ 14 + 2 ^ 18 * (unat t3 mod 2 ^ 8)"
    "unat (limbs26 t0 t1 t2 t3 ! 4) = unat t3 div 2 ^ 8"
    using unat_mask26 [of t0] unat_field [of 6 t0 t1] unat_field [of 12 t1 t2] unat_field [of 18 t2 t3] unat_drop_bit [of 8 t3]
    by (simp_all add: limbs26_def)
  show ?thesis
    unfolding limbs_val_def l by (rule regroup) simp_all
qed

subsection \<open>One multiplication is exact modulo the prime\<close>

definition limbs_ok :: "u32 list \<Rightarrow> bool" where
  "limbs_ok h \<longleftrightarrow> length h = 5 \<and> unat (h ! 0) < 2 ^ 26 \<and> unat (h ! 1) < 2 ^ 26 + 64 \<and> unat (h ! 2) < 2 ^ 26 \<and>
     unat (h ! 3) < 2 ^ 26 \<and> unat (h ! 4) < 2 ^ 26"

text \<open>The polynomial identity behind the wrapped products, over naturals.\<close>

lemma wrapped_product:
  fixes a0 :: nat
  assumes "s1 = r1 * 5" "s2 = r2 * 5" "s3 = r3 * 5" "s4 = r4 * 5"
  shows "(a0 + 2 ^ 26 * a1 + 2 ^ 52 * a2 + 2 ^ 78 * a3 + 2 ^ 104 * a4) * (r0 + 2 ^ 26 * r1 + 2 ^ 52 * r2 + 2 ^ 78 * r3 + 2 ^ 104 * r4) =
    ((a0 * r0 + a1 * s4 + a2 * s3 + a3 * s2 + a4 * s1) +
     2 ^ 26 * (a0 * r1 + a1 * r0 + a2 * s4 + a3 * s3 + a4 * s2) +
     2 ^ 52 * (a0 * r2 + a1 * r1 + a2 * r0 + a3 * s4 + a4 * s3) +
     2 ^ 78 * (a0 * r3 + a1 * r2 + a2 * r1 + a3 * r0 + a4 * s4) +
     2 ^ 104 * (a0 * r4 + a1 * r3 + a2 * r2 + a3 * r1 + a4 * r0)) +
    P1305 * ((a1 * r4 + a2 * r3 + a3 * r2 + a4 * r1) + 2 ^ 26 * (a2 * r4 + a3 * r3 + a4 * r2) +
      2 ^ 52 * (a3 * r4 + a4 * r3) + 2 ^ 78 * (a4 * r4))"
  unfolding assms P1305_def by (simp add: algebra_simps)

lemma carry_linear:
  fixes d0 :: nat
  assumes "d0 = r0 + 2 ^ 26 * q0" "d1 + q0 = r1 + 2 ^ 26 * q1" "d2 + q1 = r2 + 2 ^ 26 * q2"
    "d3 + q2 = r3 + 2 ^ 26 * q3" "d4 + q3 = r4 + 2 ^ 26 * q4" "r0 + q4 * 5 = r + 2 ^ 26 * q"
  shows "d0 + 2 ^ 26 * d1 + 2 ^ 52 * d2 + 2 ^ 78 * d3 + 2 ^ 104 * d4 =
    (r + 2 ^ 26 * (r1 + q) + 2 ^ 52 * r2 + 2 ^ 78 * r3 + 2 ^ 104 * r4) + P1305 * q4"
proof -
  have P: "P1305 = 1361129467683753853853498429727072845819" by (simp add: P1305_def)
  show ?thesis unfolding P using assms by simp
qed

lemma carry_chain:
  fixes d0 :: nat
  assumes "e1 = d1 + d0 div 2 ^ 26" "e2 = d2 + e1 div 2 ^ 26" "e3 = d3 + e2 div 2 ^ 26" "e4 = d4 + e3 div 2 ^ 26"
    and "f0 = d0 mod 2 ^ 26 + e4 div 2 ^ 26 * 5"
  shows "d0 + 2 ^ 26 * d1 + 2 ^ 52 * d2 + 2 ^ 78 * d3 + 2 ^ 104 * d4 =
    (f0 mod 2 ^ 26 + 2 ^ 26 * (e1 mod 2 ^ 26 + f0 div 2 ^ 26) + 2 ^ 52 * (e2 mod 2 ^ 26) + 2 ^ 78 * (e3 mod 2 ^ 26) +
     2 ^ 104 * (e4 mod 2 ^ 26)) + P1305 * (e4 div 2 ^ 26)"
  by (rule carry_linear [of _ "d0 mod 2 ^ 26"]) (simp_all add: assms)

lemma wide_of_nat: "wide x y = of_nat (unat x * unat y)"
  by (simp add: wide_def)

lemma unat_wide5:
  "unat a0 * unat b0 + unat a1 * unat b1 + unat a2 * unat b2 + unat a3 * unat b3 + unat a4 * unat b4 < 2 ^ 64 \<Longrightarrow>
   unat (wide a0 b0 + wide a1 b1 + wide a2 b2 + wide a3 b3 + wide a4 b4) =
   unat a0 * unat b0 + unat a1 * unat b1 + unat a2 * unat b2 + unat a3 * unat b3 + unat a4 * unat b4"
  unfolding wide_of_nat of_nat_add [symmetric] by (rule unat_of_nat_small) simp

lemma carry_word:
  fixes d :: u64
  assumes "unat d < 2 ^ 58"
  shows "unat (ucast (drop_bit 26 d) :: u32) = unat d div 2 ^ 26"
    and "unat ((ucast d :: u32) AND 0x3ffffff) = unat d mod 2 ^ 26"
proof -
  show "unat (ucast (drop_bit 26 d) :: u32) = unat d div 2 ^ 26"
    using assms by (simp add: unat_ucast_mod unat_drop_bit less_mult_imp_div_less)
  have "unat d mod 2 ^ 32 mod 2 ^ 26 = unat d mod 2 ^ 26" by (rule mod_mod_cancel) simp
  then show "unat ((ucast d :: u32) AND 0x3ffffff) = unat d mod 2 ^ 26"
    by (simp only: unat_mask26) (simp add: unat_ucast_mod)
qed

lemma unat_add_carry: "unat d < 2 ^ 58 \<Longrightarrow> unat (d + ucast (c :: u32) :: u64) = unat d + unat c"
proof -
  assume "unat d < 2 ^ 58"
  moreover have "unat c < 2 ^ LENGTH(32)" by (rule unsigned_less)
  ultimately show ?thesis by (simp add: unat_word_ariths unat_ucast_up)
qed

lemma unat_times5: "unat (r :: u32) < 2 ^ 26 \<Longrightarrow> unat (r * 5) = unat r * 5"
  by (simp add: unat_word_ariths)

lemma product_bound: "a \<le> 2 ^ 27 + 63 \<Longrightarrow> b \<le> 5 * 2 ^ 26 \<Longrightarrow> a * b \<le> (2 ^ 27 + 63) * (5 * 2 ^ 26 :: nat)"
  by (rule mult_le_mono)

lemma product_bound1: "a \<le> 2 ^ 27 + 63 \<Longrightarrow> b < 2 ^ 26 \<Longrightarrow> a * b \<le> (2 ^ 27 + 63) * (2 ^ 26 :: nat)"
  by (rule mult_le_mono) simp_all

definition limbs_small :: "u32 list \<Rightarrow> bool" where
  "limbs_small r \<longleftrightarrow> length r = 5 \<and> (\<forall>i<5. unat (r ! i) < 2 ^ 26)"

definition limbs_added :: "u32 list \<Rightarrow> bool" where
  "limbs_added a \<longleftrightarrow> length a = 5 \<and> (\<forall>i<5. unat (a ! i) \<le> 2 ^ 27 + 63)"

text \<open>The five products as numbers, and a bound under which they and their carries fit.\<close>

definition value5 :: "u64 list \<Rightarrow> nat" where
  "value5 d = unat (d ! 0) + 2 ^ 26 * unat (d ! 1) + 2 ^ 52 * unat (d ! 2) + 2 ^ 78 * unat (d ! 3) + 2 ^ 104 * unat (d ! 4)"

definition products_ok :: "u64 list \<Rightarrow> bool" where
  "products_ok d \<longleftrightarrow> (\<forall>i<4. unat (d ! i) \<le> (2 ^ 27 + 63) * 2 ^ 26 * 21) \<and> unat (d ! 4) \<le> (2 ^ 27 + 63) * 2 ^ 26 * 5"

lemma less_4_all: "(\<forall>i<4. P i) \<longleftrightarrow> P 0 \<and> P 1 \<and> P 2 \<and> P (3 :: nat)"
  by (auto simp: numeral_eq_Suc less_Suc_eq)

lemma products_correct:
  assumes r: "limbs_small r" and a: "limbs_added a"
  shows "products_ok (products r a)"
    and "limbs_val a * limbs_val r mod P1305 = value5 (products r a) mod P1305"
proof -
  define s1 s2 s3 s4 where s: "s1 = r ! 1 * 5" "s2 = r ! 2 * 5" "s3 = r ! 3 * 5" "s4 = r ! 4 * 5"
  have rb: "unat (r ! 0) < 2 ^ 26" "unat (r ! 1) < 2 ^ 26" "unat (r ! 2) < 2 ^ 26" "unat (r ! 3) < 2 ^ 26" "unat (r ! 4) < 2 ^ 26"
    using r by (simp_all add: limbs_small_def)
  have ab: "unat (a ! 0) \<le> 2 ^ 27 + 63" "unat (a ! 1) \<le> 2 ^ 27 + 63" "unat (a ! 2) \<le> 2 ^ 27 + 63" "unat (a ! 3) \<le> 2 ^ 27 + 63"
    "unat (a ! 4) \<le> 2 ^ 27 + 63"
    using a by (simp_all add: limbs_added_def)
  have us: "unat s1 = unat (r ! 1) * 5" "unat s2 = unat (r ! 2) * 5" "unat s3 = unat (r ! 3) * 5" "unat s4 = unat (r ! 4) * 5"
    using rb by (simp_all only: s unat_times5)
  have sb: "unat s1 \<le> 5 * 2 ^ 26" "unat s2 \<le> 5 * 2 ^ 26" "unat s3 \<le> 5 * 2 ^ 26" "unat s4 \<le> 5 * 2 ^ 26"
    using rb by (simp_all add: us)
  define d0 where "d0 = wide (a ! 0) (r ! 0) + wide (a ! 1) s4 + wide (a ! 2) s3 + wide (a ! 3) s2 + wide (a ! 4) s1"
  define d1 where "d1 = wide (a ! 0) (r ! 1) + wide (a ! 1) (r ! 0) + wide (a ! 2) s4 + wide (a ! 3) s3 + wide (a ! 4) s2"
  define d2 where "d2 = wide (a ! 0) (r ! 2) + wide (a ! 1) (r ! 1) + wide (a ! 2) (r ! 0) + wide (a ! 3) s4 + wide (a ! 4) s3"
  define d3 where "d3 = wide (a ! 0) (r ! 3) + wide (a ! 1) (r ! 2) + wide (a ! 2) (r ! 1) + wide (a ! 3) (r ! 0) + wide (a ! 4) s4"
  define d4 where "d4 = wide (a ! 0) (r ! 4) + wide (a ! 1) (r ! 3) + wide (a ! 2) (r ! 2) + wide (a ! 3) (r ! 1) + wide (a ! 4) (r ! 0)"
  note pb = ab [THEN product_bound] and pb1 = ab [THEN product_bound1]
  have D0: "unat d0 = unat (a ! 0) * unat (r ! 0) + unat (a ! 1) * unat s4 + unat (a ! 2) * unat s3 + unat (a ! 3) * unat s2 + unat (a ! 4) * unat s1"
    "unat d0 \<le> (2 ^ 27 + 63) * 2 ^ 26 * 21"
    using pb1(1) [OF rb(1)] pb(2) [OF sb(4)] pb(3) [OF sb(3)] pb(4) [OF sb(2)] pb(5) [OF sb(1)]
    by (simp_all add: d0_def unat_wide5)
  have D1: "unat d1 = unat (a ! 0) * unat (r ! 1) + unat (a ! 1) * unat (r ! 0) + unat (a ! 2) * unat s4 + unat (a ! 3) * unat s3 + unat (a ! 4) * unat s2"
    "unat d1 \<le> (2 ^ 27 + 63) * 2 ^ 26 * 21"
    using pb1(1) [OF rb(2)] pb1(2) [OF rb(1)] pb(3) [OF sb(4)] pb(4) [OF sb(3)] pb(5) [OF sb(2)]
    by (simp_all add: d1_def unat_wide5)
  have D2: "unat d2 = unat (a ! 0) * unat (r ! 2) + unat (a ! 1) * unat (r ! 1) + unat (a ! 2) * unat (r ! 0) + unat (a ! 3) * unat s4 + unat (a ! 4) * unat s3"
    "unat d2 \<le> (2 ^ 27 + 63) * 2 ^ 26 * 21"
    using pb1(1) [OF rb(3)] pb1(2) [OF rb(2)] pb1(3) [OF rb(1)] pb(4) [OF sb(4)] pb(5) [OF sb(3)]
    by (simp_all add: d2_def unat_wide5)
  have D3: "unat d3 = unat (a ! 0) * unat (r ! 3) + unat (a ! 1) * unat (r ! 2) + unat (a ! 2) * unat (r ! 1) + unat (a ! 3) * unat (r ! 0) + unat (a ! 4) * unat s4"
    "unat d3 \<le> (2 ^ 27 + 63) * 2 ^ 26 * 21"
    using pb1(1) [OF rb(4)] pb1(2) [OF rb(3)] pb1(3) [OF rb(2)] pb1(4) [OF rb(1)] pb(5) [OF sb(4)]
    by (simp_all add: d3_def unat_wide5)
  have D4: "unat d4 = unat (a ! 0) * unat (r ! 4) + unat (a ! 1) * unat (r ! 3) + unat (a ! 2) * unat (r ! 2) + unat (a ! 3) * unat (r ! 1) + unat (a ! 4) * unat (r ! 0)"
    "unat d4 \<le> (2 ^ 27 + 63) * 2 ^ 26 * 5"
    using pb1(1) [OF rb(5)] pb1(2) [OF rb(4)] pb1(3) [OF rb(3)] pb1(4) [OF rb(2)] pb1(5) [OF rb(1)]
    by (simp_all add: d4_def unat_wide5)
  have ds: "products r a = [d0, d1, d2, d3, d4]"
    by (simp add: products_def Let_def s d0_def d1_def d2_def d3_def d4_def)
  show "products_ok (products r a)"
    using D0(2) D1(2) D2(2) D3(2) D4(2) by (simp add: products_ok_def ds less_4_all)
  have v: "value5 (products r a) = unat d0 + 2 ^ 26 * unat d1 + 2 ^ 52 * unat d2 + 2 ^ 78 * unat d3 + 2 ^ 104 * unat d4"
    by (simp add: value5_def ds)
  have "\<exists>k. limbs_val a * limbs_val r = value5 (products r a) + P1305 * k"
    unfolding v D0(1) D1(1) D2(1) D3(1) D4(1) limbs_val_def by (rule exI) (rule wrapped_product [OF us])
  then show "limbs_val a * limbs_val r mod P1305 = value5 (products r a) mod P1305" by auto
qed

lemma carry_reduce_correct:
  assumes ok: "products_ok d"
  shows "limbs_ok (carry_reduce d)" and "limbs_val (carry_reduce d) mod P1305 = value5 d mod P1305"
proof -
  have db: "unat (d ! 0) \<le> (2 ^ 27 + 63) * 2 ^ 26 * 21" "unat (d ! 1) \<le> (2 ^ 27 + 63) * 2 ^ 26 * 21"
    "unat (d ! 2) \<le> (2 ^ 27 + 63) * 2 ^ 26 * 21" "unat (d ! 3) \<le> (2 ^ 27 + 63) * 2 ^ 26 * 21"
    "unat (d ! 4) \<le> (2 ^ 27 + 63) * 2 ^ 26 * 5"
    using ok by (simp_all add: products_ok_def less_4_all)
  define c0 where "c0 = (ucast (drop_bit 26 (d ! 0)) :: u32)"
  define e1 where "e1 = d ! 1 + ucast c0"
  define c1 where "c1 = (ucast (drop_bit 26 e1) :: u32)"
  define e2 where "e2 = d ! 2 + ucast c1"
  define c2 where "c2 = (ucast (drop_bit 26 e2) :: u32)"
  define e3 where "e3 = d ! 3 + ucast c2"
  define c3 where "c3 = (ucast (drop_bit 26 e3) :: u32)"
  define e4 where "e4 = d ! 4 + ucast c3"
  define c4 where "c4 = (ucast (drop_bit 26 e4) :: u32)"
  define f0 where "f0 = ((ucast (d ! 0) :: u32) AND 0x3ffffff) + c4 * 5"
  define lo where "lo w = (ucast (w :: u64) :: u32) AND 0x3ffffff" for w
  have eq: "carry_reduce d = [f0 AND 0x3ffffff, lo e1 + drop_bit 26 f0, lo e2, lo e3, lo e4]"
    by (simp add: carry_reduce_def Let_def lo_def f0_def c4_def e4_def c3_def e3_def c2_def e2_def c1_def e1_def c0_def)
  have c32: "unat c < 2 ^ 32" for c :: u32 using unsigned_less [of c] by simp
  have E0: "unat c0 = unat (d ! 0) div 2 ^ 26" using db carry_word(1) by (simp add: c0_def)
  have E1: "unat e1 = unat (d ! 1) + unat (d ! 0) div 2 ^ 26" "unat e1 < 2 ^ 58"
    using db unat_add_carry [of "d ! 1" c0] c32 [of c0] by (simp_all add: e1_def E0)
  have E2: "unat e2 = unat (d ! 2) + unat e1 div 2 ^ 26" "unat e2 < 2 ^ 58"
    using db unat_add_carry [of "d ! 2" c1] c32 [of c1] carry_word(1) [OF E1(2)] by (simp_all add: e2_def c1_def)
  have E3: "unat e3 = unat (d ! 3) + unat e2 div 2 ^ 26" "unat e3 < 2 ^ 58"
    using db unat_add_carry [of "d ! 3" c2] c32 [of c2] carry_word(1) [OF E2(2)] by (simp_all add: e3_def c2_def)
  have E4: "unat e4 = unat (d ! 4) + unat e3 div 2 ^ 26" "unat e4 \<le> (2 ^ 27 + 63) * 2 ^ 26 * 5 + 2 ^ 32"
    using db unat_add_carry [of "d ! 4" c3] c32 [of c3] carry_word(1) [OF E3(2)] by (simp_all add: e4_def c3_def)
  have E4': "unat e4 < 2 ^ 58" using E4(2) by simp
  have C4: "unat c4 = unat e4 div 2 ^ 26" using carry_word(1) [OF E4'] by (simp add: c4_def)
  have "unat e4 div 2 ^ 26 \<le> ((2 ^ 27 + 63) * 2 ^ 26 * 5 + 2 ^ 32) div 2 ^ 26" using E4(2) by (rule div_le_mono)
  then have c4b: "unat e4 div 2 ^ 26 \<le> 671089019" by simp
  have d0: "unat ((ucast (d ! 0) :: u32) AND 0x3ffffff) = unat (d ! 0) mod 2 ^ 26" using db carry_word(2) by simp
  have F0: "unat f0 = unat (d ! 0) mod 2 ^ 26 + unat e4 div 2 ^ 26 * 5"
    using c4b C4 d0 by (simp add: f0_def unat_word_ariths)
  have lo: "unat (lo e1) = unat e1 mod 2 ^ 26" "unat (lo e2) = unat e2 mod 2 ^ 26" "unat (lo e3) = unat e3 mod 2 ^ 26"
    "unat (lo e4) = unat e4 mod 2 ^ 26"
    using carry_word(2) [OF E1(2)] carry_word(2) [OF E2(2)] carry_word(2) [OF E3(2)] carry_word(2) [OF E4'] by (simp_all add: lo_def)
  have f0b: "unat f0 div 2 ^ 26 < 64" using c32 [of f0] by (simp add: less_mult_imp_div_less)
  have h1: "unat (lo e1 + drop_bit 26 f0) = unat e1 mod 2 ^ 26 + unat f0 div 2 ^ 26"
    "unat (lo e1 + drop_bit 26 f0) < 2 ^ 26 + 64"
    using f0b mod_less_divisor [of "2 ^ 26" "unat e1"] by (simp_all add: unat_word_ariths lo unat_drop_bit)
  show "limbs_ok (carry_reduce d)" using h1(2) by (simp add: limbs_ok_def eq lo unat_mask26)
  have "value5 d = limbs_val (carry_reduce d) + P1305 * (unat e4 div 2 ^ 26)"
    using carry_chain [OF E1(1) E2(1) E3(1) E4(1) F0]
    unfolding eq limbs_val_def value5_def by (simp add: lo h1(1) unat_mask26)
  then show "limbs_val (carry_reduce d) mod P1305 = value5 d mod P1305" by simp
qed

lemma mul_reduce_correct:
  assumes "limbs_small r" "limbs_added a"
  shows "limbs_ok (mul_reduce r a)"
    and "limbs_val (mul_reduce r a) mod P1305 = limbs_val a * limbs_val r mod P1305"
  using products_correct [OF assms] carry_reduce_correct by (simp_all add: mul_reduce_def)

end
