(* ===== verification/Poly1305Laws.thy ===== *)
theory Poly1305Laws
  imports Poly1305
begin

text \<open>
  Poly1305 against RFC 8439: the accumulator as a recursion over naturals, the standard's key and tag, stated without
  the code's definitions, and the invariant relating the streaming state to the accumulator. The code clamps the key less
  than the standard and neither passes on the last carry nor reduces the accumulator in the end; the theorems say exactly
  when and by how much the results differ.
\<close>

unbundle bit_operations_syntax

subsection \<open>The standard\<close>

fun le_num :: "bytes \<Rightarrow> nat" where
  "le_num [] = 0"
| "le_num (b # bs) = unat b + 256 * le_num bs"

function horner :: "nat \<Rightarrow> nat \<Rightarrow> bytes \<Rightarrow> nat" where
  "horner r acc m =
     (if m = [] then acc
      else horner r ((acc + le_num (take 16 m) + 256 ^ length (take 16 m)) * r mod P1305) (drop 16 m))"
  by pat_completeness auto

termination by (relation "measure (\<lambda>(_, _, m). length m)") auto

declare horner.simps [simp del]

text \<open>
  The key of RFC 8439 (section 2.5): bytes 3, 7, 11 and 15 have their top four bits clear, bytes 4, 8 and 12 their bottom
  \<^emph>\<open>two\<close>. The code's \<open>clamp\<close> clears only the bottom one of these: \<open>clamp_excess\<close> is what that leaves in the key.
\<close>

definition rfc_clamp :: "bytes \<Rightarrow> bytes" where
  "rfc_clamp key = map (\<lambda>i. if i \<in> {3, 7, 11, 15} then key ! i AND 0x0f else if i \<in> {4, 8, 12} then key ! i AND 0xfc else key ! i) [0..<16]"

definition rfc_tag :: "bytes \<Rightarrow> bytes \<Rightarrow> nat" where
  "rfc_tag key m = (horner (le_num (rfc_clamp key)) 0 m + le_num (take 16 (drop 16 key))) mod 2 ^ 128"

definition clamp_excess :: "bytes \<Rightarrow> nat" where
  "clamp_excess key = 2 ^ 33 * of_bool (bit (key ! 4) 1) + 2 ^ 65 * of_bool (bit (key ! 8) 1) + 2 ^ 97 * of_bool (bit (key ! 12) 1)"

text \<open>What the code means to compute, with the key that it takes from its clamp.\<close>

definition code_tag :: "bytes \<Rightarrow> bytes \<Rightarrow> nat" where
  "code_tag key m = (horner (le_num (clamp key)) 0 m + le_num (take 16 (drop 16 key))) mod 2 ^ 128"

lemma horner_Nil [simp]: "horner r acc [] = acc"
  by (simp add: horner.simps)

lemma horner_block:
  "length b = 16 \<Longrightarrow> horner r acc (b @ m) = horner r ((acc + le_num b + 2 ^ 128) * r mod P1305) m"
proof -
  assume b: "length b = 16"
  then have "b \<noteq> []" by auto
  moreover have "(256 :: nat) ^ 16 = 2 ^ 128" by simp
  ultimately show ?thesis using b by (subst horner.simps) (simp del: power_numeral)
qed

lemma horner_append: "16 dvd length p \<Longrightarrow> horner r acc (p @ m) = horner r (horner r acc p) m"
proof (induction "length p" arbitrary: acc p rule: less_induct)
  case less
  show ?case
  proof (cases "p = []")
    case False
    then have "16 \<le> length p" using less.prems by (auto dest: dvd_imp_le)
    then have tk: "length (take 16 p) = 16" and dr: "length (drop 16 p) < length p" "16 dvd length (drop 16 p)"
      using less.prems by (simp_all add: dvd_minus_self)
    let ?acc = "(acc + le_num (take 16 p) + 2 ^ 128) * r mod P1305"
    have "horner r acc (p @ m) = horner r acc (take 16 p @ drop 16 p @ m)"
      by (metis append.assoc append_take_drop_id)
    also have "\<dots> = horner r (horner r ?acc (drop 16 p)) m" using less(1) [OF dr] by (simp only: horner_block [OF tk])
    also have "horner r ?acc (drop 16 p) = horner r acc p"
      using horner_block [OF tk, of r acc "drop 16 p"] by simp
    finally show ?thesis .
  qed simp
qed

lemma horner_bound: "acc < P1305 \<Longrightarrow> horner r acc m < P1305"
  by (induction r acc m rule: horner.induct) (subst horner.simps, simp add: P1305_def)

lemma mod_absorb: "((acc mod p + x + y) * r) mod p = ((acc + x + y) * r) mod (p :: nat)"
  by (metis add.assoc mod_add_left_eq mod_mult_left_eq)

lemma horner_mod: "m \<noteq> [] \<Longrightarrow> horner r (acc mod P1305) m = horner r acc m"
  unfolding horner.simps [of r _ m] by (simp only: mod_absorb if_False)

subsection \<open>Words of a block\<close>

lemma le_num_append: "le_num (a @ b) = le_num a + 256 ^ length a * le_num b"
  by (induction a) (simp_all add: algebra_simps)

lemma le_num_bound: "le_num a < 256 ^ length a"
proof (induction a)
  case (Cons b a)
  have "unat b < 2 ^ LENGTH(8)" by (rule unsigned_less)
  then show ?case using Cons by simp
qed simp

lemma unat_of_le: "8 * length bs \<le> LENGTH('a) \<Longrightarrow> unat (of_le bs :: 'a::len word) = le_num bs"
proof (induction bs)
  case (Cons b bs)
  have b: "unat (ucast b :: 'a word) < 2 ^ 8" using Cons.prems unsigned_less [of b] by (simp add: unat_ucast_up)
  have "push_bit 8 (of_le bs) OR ucast b = (ucast b OR push_bit 8 (of_le bs) :: 'a word)" by (rule or.commute)
  then have "unat (of_le (b # bs) :: 'a word) = unat (ucast b :: 'a word) + (unat (of_le bs :: 'a word) * 2 ^ 8) mod 2 ^ LENGTH('a)"
    using unat_or_shift [OF b] Cons.prems by (simp add: of_le_Cons)
  also have "(unat (of_le bs :: 'a word) * 2 ^ 8) mod 2 ^ LENGTH('a) = le_num bs * 2 ^ 8"
  proof (rule trans)
    show "(unat (of_le bs :: 'a word) * 2 ^ 8) mod 2 ^ LENGTH('a) = (le_num bs * 2 ^ 8) mod 2 ^ LENGTH('a)" using Cons by simp
    have "le_num bs * 2 ^ 8 < 2 ^ (8 * length bs + 8)"
      using le_num_bound [of bs] by (simp add: power_add power_mult)
    also have "(2::nat) ^ (8 * length bs + 8) \<le> 2 ^ LENGTH('a)" using Cons.prems by (intro power_increasing) simp_all
    finally show "(le_num bs * 2 ^ 8) mod 2 ^ LENGTH('a) = le_num bs * 2 ^ 8" by simp
  qed
  also have "unat (ucast b :: 'a word) = unat b" using Cons.prems by (simp add: unat_ucast_up)
  finally show ?case by simp
qed simp

lemma load32le_num: "off + 4 \<le> length p \<Longrightarrow> unat (load32le off p) = le_num (take 4 (drop off p))"
  by (simp add: load32le_eq unat_of_le)

definition words4 :: "bytes \<Rightarrow> nat" where
  "words4 p = unat (load32le 0 p) + 2 ^ 32 * unat (load32le 4 p) + 2 ^ 64 * unat (load32le 8 p) + 2 ^ 96 * unat (load32le 12 p)"

lemma words4_eq:
  assumes "16 \<le> length p"
  shows "words4 p = le_num (take 16 p)"
proof -
  have "take 16 p = take 4 p @ take 4 (drop 4 p) @ take 4 (drop 8 p) @ take 4 (drop 12 p)"
    using take_add [of 4 4 p] take_add [of 8 4 p] take_add [of 12 4 p] by simp
  then show ?thesis using assms by (simp add: words4_def load32le_num le_num_append)
qed

subsection \<open>Adding a block\<close>

lemma limbs26_bounds:
  "unat (limbs26 t0 t1 t2 t3 ! 0) < 2 ^ 26" "unat (limbs26 t0 t1 t2 t3 ! 1) < 2 ^ 26"
  "unat (limbs26 t0 t1 t2 t3 ! 2) < 2 ^ 26" "unat (limbs26 t0 t1 t2 t3 ! 3) < 2 ^ 26"
  "unat (limbs26 t0 t1 t2 t3 ! 4) < 2 ^ 24"
proof -
  have "unat (w AND 0x3ffffff) < 2 ^ 26" for w :: u32 unfolding unat_mask26 by simp
  then show "unat (limbs26 t0 t1 t2 t3 ! 0) < 2 ^ 26" "unat (limbs26 t0 t1 t2 t3 ! 1) < 2 ^ 26"
    "unat (limbs26 t0 t1 t2 t3 ! 2) < 2 ^ 26" "unat (limbs26 t0 t1 t2 t3 ! 3) < 2 ^ 26"
    by (simp_all add: limbs26_def)
  have "unat t3 < 2 ^ LENGTH(32)" by (rule unsigned_less)
  then show "unat (limbs26 t0 t1 t2 t3 ! 4) < 2 ^ 24"
    by (simp add: limbs26_def unat_drop_bit less_mult_imp_div_less)
qed

text \<open>A number of marker bits: 1 for a full block, 0 for the last, partial one.\<close>

lemma marker_or:
  assumes "unat w < 2 ^ 24"
  shows "unat (w OR HIBIT) = unat w + 2 ^ 24" "unat (w OR 0) = unat w"
  using unat_or_shift [OF assms, of 1] by (simp_all add: HIBIT_def)

lemma add_block_correct:
  assumes h: "limbs_ok h" and m: "16 \<le> length m" and hib: "hibit = HIBIT \<and> mk = 1 \<or> hibit = 0 \<and> mk = 0"
  shows "limbs_added (add_block m hibit h)"
    and "limbs_val (add_block m hibit h) = limbs_val h + le_num (take 16 m) + mk * 2 ^ 128"
proof -
  define b where "b = limbs26 (load32le 0 m) (load32le 4 m) (load32le 8 m) (load32le 12 m)"
  have bb: "unat (b ! 0) < 2 ^ 26" "unat (b ! 1) < 2 ^ 26" "unat (b ! 2) < 2 ^ 26" "unat (b ! 3) < 2 ^ 26" "unat (b ! 4) < 2 ^ 24"
    by (simp_all only: b_def limbs26_bounds)
  have b4: "unat (b ! 4 OR hibit) = unat (b ! 4) + mk * 2 ^ 24" using hib marker_or [OF bb(5)] by auto
  have mk: "mk \<le> 1" using hib by auto
  have hb: "unat (h ! 0) < 2 ^ 26" "unat (h ! 1) < 2 ^ 26 + 64" "unat (h ! 2) < 2 ^ 26" "unat (h ! 3) < 2 ^ 26" "unat (h ! 4) < 2 ^ 26"
    using h by (simp_all add: limbs_ok_def)
  have eq: "add_block m hibit h = [h ! 0 + b ! 0, h ! 1 + b ! 1, h ! 2 + b ! 2, h ! 3 + b ! 3, h ! 4 + (b ! 4 OR hibit)]"
    by (simp add: add_block_def Let_def b_def)
  have sum: "unat (x + y) = unat x + unat y" if "unat x + unat y < 2 ^ 32" for x y :: u32
    using that by (simp add: unat_word_ariths)
  have s: "unat (h ! 0 + b ! 0) = unat (h ! 0) + unat (b ! 0)" "unat (h ! 1 + b ! 1) = unat (h ! 1) + unat (b ! 1)"
    "unat (h ! 2 + b ! 2) = unat (h ! 2) + unat (b ! 2)" "unat (h ! 3 + b ! 3) = unat (h ! 3) + unat (b ! 3)"
    "unat (h ! 4 + (b ! 4 OR hibit)) = unat (h ! 4) + (unat (b ! 4) + mk * 2 ^ 24)"
    using hb bb mk b4 by (simp_all add: sum)
  have less5: "(\<forall>i<5. P i) \<longleftrightarrow> P 0 \<and> P 1 \<and> P 2 \<and> P 3 \<and> P (4 :: nat)" for P
    by (auto simp: numeral_eq_Suc less_Suc_eq)
  show "limbs_added (add_block m hibit h)"
    unfolding limbs_added_def eq less5 using hb bb mk by (simp add: s del: One_nat_def)
  have "limbs_val b = le_num (take 16 m)"
    using words4_eq [OF m] by (simp only: b_def limbs_val_limbs26 words4_def)
  then show "limbs_val (add_block m hibit h) = limbs_val h + le_num (take 16 m) + mk * 2 ^ 128"
    unfolding eq limbs_val_def by (simp add: s distrib_left del: One_nat_def)
qed

lemma block_step:
  assumes "limbs_ok h" "limbs_small r" "16 \<le> length m" "hibit = HIBIT \<and> mk = 1 \<or> hibit = 0 \<and> mk = 0"
  shows "limbs_ok (mul_reduce r (add_block m hibit h))"
    and "limbs_val (mul_reduce r (add_block m hibit h)) mod P1305 =
      (limbs_val h mod P1305 + le_num (take 16 m) + mk * 2 ^ 128) * limbs_val r mod P1305"
  using mul_reduce_correct [OF assms(2) add_block_correct(1) [OF assms(1,3,4)]]
  by (simp_all only: add_block_correct(2) [OF assms(1,3,4)] mod_absorb)

subsection \<open>The streaming invariant\<close>

text \<open>The bytes fed so far are whole blocks \<open>p\<close>, accumulated, and a rest \<open>t\<close> in the buffer.\<close>

definition poly_inv :: "bytes \<Rightarrow> poly1305_state \<Rightarrow> bytes \<Rightarrow> bytes \<Rightarrow> bool" where
  "poly_inv key st p t \<longleftrightarrow> 16 dvd length p \<and> length t < 16 \<and> length (ps_buffer st) = 16 \<and>
     ps_leftover st = length t \<and> take (length t) (ps_buffer st) = t \<and>
     ps_r st = ps_r (poly1305_init key) \<and> ps_pad st = ps_pad (poly1305_init key) \<and> limbs_ok (ps_h st) \<and>
     limbs_val (ps_h st) mod P1305 = horner (limbs_val (ps_r st)) 0 p"

lemma less_5_all: "(\<forall>i<5. P i) \<longleftrightarrow> P 0 \<and> P 1 \<and> P 2 \<and> P 3 \<and> P (4 :: nat)"
  by (auto simp: numeral_eq_Suc less_Suc_eq)

lemma init_r:
  assumes "16 \<le> length key"
  shows "limbs_small (ps_r (poly1305_init key))" "limbs_val (ps_r (poly1305_init key)) = le_num (clamp key)"
proof -
  let ?c = "clamp key"
  define t where "t = limbs26 (load32le 0 ?c) (load32le 4 ?c) (load32le 8 ?c) (load32le 12 ?c)"
  have tb: "unat (t ! 0) < 2 ^ 26" "unat (t ! 1) < 2 ^ 26" "unat (t ! 2) < 2 ^ 26" "unat (t ! 3) < 2 ^ 26" "unat (t ! 4) < 2 ^ 24"
    by (simp_all only: t_def limbs26_bounds)
  have len: "length t = 5" by (simp add: t_def limbs26_def)
  have "unat (t ! 4 AND 0x3ffffff) = unat (t ! 4)" unfolding unat_mask26 using tb(5) by simp
  then have "t ! 4 AND 0x3ffffff = t ! 4" by (metis unsigned_word_eqI)
  then have r: "ps_r (poly1305_init key) = t" by (simp add: poly1305_init_def Let_def t_def [symmetric])
  show "limbs_small (ps_r (poly1305_init key))" using tb len by (simp add: r limbs_small_def less_5_all)
  have lc: "length ?c = 16" using assms by (simp add: clamp_def Let_def)
  then have "words4 ?c = le_num ?c" using words4_eq [of ?c] by simp
  then show "limbs_val (ps_r (poly1305_init key)) = le_num ?c"
    by (simp only: r t_def limbs_val_limbs26 words4_def)
qed

lemma poly_inv_init: "poly_inv key (poly1305_init key) [] []"
  by (simp add: poly_inv_def poly1305_init_def Let_def limbs_ok_def limbs_val_def)

lemma blocks_frame:
  "ps_r (poly1305_blocks m hb st) = ps_r st \<and> ps_pad (poly1305_blocks m hb st) = ps_pad st \<and>
   ps_leftover (poly1305_blocks m hb st) = ps_leftover st \<and> ps_buffer (poly1305_blocks m hb st) = ps_buffer st"
  by (induction m hb st rule: poly1305_blocks.induct) (subst (1 2 3 4) poly1305_blocks.simps, auto)

lemma blocks_correct:
  "16 dvd length m \<Longrightarrow> limbs_ok (ps_h st) \<Longrightarrow> limbs_small (ps_r st) \<Longrightarrow>
   limbs_ok (ps_h (poly1305_blocks m HIBIT st)) \<and>
   limbs_val (ps_h (poly1305_blocks m HIBIT st)) mod P1305 = horner (limbs_val (ps_r st)) (limbs_val (ps_h st) mod P1305) m"
proof (induction m "HIBIT" st rule: poly1305_blocks.induct)
  case (1 m st)
  show ?case
  proof (cases "16 \<le> length m")
    case True
    let ?st = "st\<lparr>ps_h := mul_reduce (ps_r st) (add_block m HIBIT (ps_h st))\<rparr>"
    have b: "poly1305_blocks m HIBIT st = poly1305_blocks (drop 16 m) HIBIT ?st"
      using True by (subst poly1305_blocks.simps) simp
    note step = block_step [OF 1(3,4) True, of HIBIT 1, simplified]
    have dvd: "16 dvd length (drop 16 m)" using 1(2) True by (simp add: dvd_minus_self)
    have tk: "length (take 16 m) = 16" using True by simp
    show ?thesis
      using 1(1) [OF True dvd] step 1(4) horner_block [OF tk, of "limbs_val (ps_r st)" "limbs_val (ps_h st) mod P1305" "drop 16 m"]
      by (simp add: b)
  next
    case False
    then have "m = []" using 1(2) by (auto dest: dvd_imp_le)
    then show ?thesis using 1 by (simp add: poly1305_blocks.simps)
  qed
qed

subsection \<open>Feeding a message\<close>

lemma take_overwrite:
  "off + length b \<le> length p \<Longrightarrow> take (off + length b) (overwrite off b p) = take off p @ b"
  by (simp add: overwrite_def)

lemma blocks_inv:
  assumes inv: "poly_inv key st p []" and key: "16 \<le> length key" and m: "16 dvd length m"
  shows "poly_inv key (poly1305_blocks m HIBIT st) (p @ m) []"
proof -
  have small: "limbs_small (ps_r st)" using inv init_r(1) [OF key] by (simp add: poly_inv_def)
  have "horner (limbs_val (ps_r st)) (limbs_val (ps_h st) mod P1305) m = horner (limbs_val (ps_r st)) 0 (p @ m)"
    using inv by (simp add: poly_inv_def horner_append)
  then show ?thesis
    using inv blocks_correct [OF m _ small] m by (simp add: poly_inv_def blocks_frame)
qed

lemma buffer_rest:
  assumes inv: "poly_inv key st p []" and m: "length m < 16"
  shows "poly_inv key (st\<lparr>ps_buffer := overwrite (ps_leftover st) m (ps_buffer st), ps_leftover := ps_leftover st + length m\<rparr>) p m"
  using inv m take_overwrite [of 0 m "ps_buffer st"] by (simp add: poly_inv_def)

lemma update_tail_inv:
  assumes inv: "poly_inv key st p []" and key: "16 \<le> length key"
  shows "\<exists>p' t'. poly_inv key (update_tail m st) p' t' \<and> p' @ t' = p @ m"
proof -
  define n where "n = length m div 16 * 16"
  define st1 where "st1 = (if 16 \<le> length m then poly1305_blocks (take n m) HIBIT st else st)"
  define rest where "rest = (if 16 \<le> length m then drop n m else m)"
  have n: "n \<le> length m" by (simp add: n_def)
  have dvd: "16 dvd length (take n m)" using n by (simp add: n_def)
  obtain p1 where inv1: "poly_inv key st1 p1 []" and p1: "p1 @ rest = p @ m"
    using blocks_inv [OF inv key dvd] inv by (cases "16 \<le> length m") (auto simp: st1_def rest_def)
  have "length m - n < 16" by (simp add: n_def minus_div_mult_eq_mod)
  then have rest: "length rest < 16" by (simp add: rest_def)
  have "update_tail m st = (if rest \<noteq> [] then st1\<lparr>ps_buffer := overwrite (ps_leftover st1) rest (ps_buffer st1),
      ps_leftover := ps_leftover st1 + length rest\<rparr> else st1)"
    by (simp add: update_tail_def Let_def n_def [symmetric] st1_def [symmetric] rest_def [symmetric])
  then show ?thesis using buffer_rest [OF inv1 rest] inv1 p1 by (cases "rest = []") auto
qed

lemma update_commute: "st\<lparr>ps_h := h, ps_leftover := x\<rparr> = st\<lparr>ps_leftover := x, ps_h := h\<rparr>"
  by (cases st) simp

lemma blocks_leftover:
  "(poly1305_blocks m hb st)\<lparr>ps_leftover := x\<rparr> = poly1305_blocks m hb (st\<lparr>ps_leftover := x\<rparr>)"
  by (induction m hb st rule: poly1305_blocks.induct) (subst (1 2) poly1305_blocks.simps, simp add: update_commute)

lemma poly1305_update_inv:
  assumes inv: "poly_inv key st p t" and key: "16 \<le> length key"
  shows "\<exists>p' t'. poly_inv key (poly1305_update m st) p' t' \<and> p' @ t' = p @ t @ m"
proof (cases "t = []")
  case True
  then show ?thesis using update_tail_inv [of key st p m] inv key by (simp add: poly1305_update_def poly_inv_def)
next
  case False
  define w where "w = min (16 - length t) (length m)"
  define st1 where "st1 = st\<lparr>ps_buffer := overwrite (length t) (take w m) (ps_buffer st), ps_leftover := length t + w\<rparr>"
  have t: "length t < 16" "ps_leftover st = length t" "length (ps_buffer st) = 16" "take (length t) (ps_buffer st) = t"
    using inv by (simp_all add: poly_inv_def)
  have w: "w \<le> length m" "length t + w \<le> 16" using t by (simp_all add: w_def)
  have upd: "poly1305_update m st = (if length t + w < 16 then st1
      else update_tail (drop w m) ((poly1305_blocks (ps_buffer st1) HIBIT st1)\<lparr>ps_leftover := 0\<rparr>))"
    using False by (simp add: poly1305_update_def t Let_def w_def [symmetric] st1_def)
  have lw: "length (take w m) = w" using w by simp
  have buf: "take (length t + w) (ps_buffer st1) = t @ take w m" "length (ps_buffer st1) = 16"
    using take_overwrite [of "length t" "take w m" "ps_buffer st"] t w(2) unfolding lw by (simp_all add: st1_def lw del: length_take)
  show ?thesis
  proof (cases "length t + w < 16")
    case True
    then have "take w m = m" using w t by (simp add: w_def min_def split: if_splits)
    moreover have "poly_inv key st1 p (t @ take w m)"
      using inv buf True by (simp add: poly_inv_def st1_def lw del: length_take)
    ultimately show ?thesis using True by (auto simp: upd)
  next
    case False
    then have sum: "length t + w = 16" using w by simp
    then have full: "ps_buffer st1 = t @ take w m" using buf by simp
    have "poly_inv key (st1\<lparr>ps_leftover := 0\<rparr>) p []" using inv buf(2) by (simp add: poly_inv_def st1_def)
    then have "poly_inv key ((poly1305_blocks (ps_buffer st1) HIBIT st1)\<lparr>ps_leftover := 0\<rparr>) (p @ ps_buffer st1) []"
      unfolding blocks_leftover using buf(2) by (intro blocks_inv key) simp_all
    from update_tail_inv [OF this key, of "drop w m"] show ?thesis
      using sum by (simp add: upd full)
  qed
qed

subsection \<open>The key\<close>

lemma unat_and_fe: "unat ((b :: u8) AND 0xfe) = unat (b AND 0xfc) + 2 * of_bool (bit b 1)"
proof -
  have two: "b AND 2 = of_bool (bit b 1) * 2" by (rule bit_word_eqI) (auto simp: bit_simps numeral_eq_Suc less_Suc_eq)
  define x where "x = push_bit 2 (drop_bit 2 b)"
  have x: "bit x n \<longleftrightarrow> 2 \<le> n \<and> bit b n" for n
  proof -
    have "2 \<le> n \<Longrightarrow> Suc (Suc (n - 2)) = n" by simp
    then show ?thesis unfolding x_def bit_push_bit_iff bit_drop_bit_eq by (auto dest: bit_imp_le_length)
  qed
  have c: "b AND 0xfc = 0 OR x" and e: "b AND 0xfe = (b AND 2) OR x"
    by (rule bit_word_eqI, auto simp: bit_simps x numeral_eq_Suc less_Suc_eq)+
  have "unat (b AND 2) < 2 ^ 2" by (simp add: two)
  from unat_or_shift [OF this, of "drop_bit 2 b"] unat_or_shift [of "0 :: u8" 2 "drop_bit 2 b"]
  show ?thesis unfolding c e x_def by (simp add: two)
qed

lemma clamp_bytes: "16 \<le> length key \<Longrightarrow> le_num (clamp key) = le_num (rfc_clamp key) + clamp_excess key"
proof -
  assume k: "16 \<le> length key"
  have u: "[0..<16] = [0, 1, 2, 3, 4, 5, 6, 7, 8, 9, 10, 11, 12, 13, 14, 15 :: nat]" by (simp add: upt_rec)
  have t: "take 16 key = map ((!) key) [0..<16]" using k by (intro nth_equalityI) simp_all
  show ?thesis
    by (simp add: clamp_def rfc_clamp_def clamp_excess_def Let_def t u unat_and_fe list_update_numeral distrib_left)
qed

text \<open>Two keys that differ by the bits left over give different accumulators on the message of one zero byte.\<close>

lemma horner_zero_byte: "horner r 0 [0] = 256 * r mod P1305"
  by (simp add: horner.simps [of r 0 "[0]"])

lemma clamp_excess_zero: "clamp_excess key = 0 \<longleftrightarrow> \<not> bit (key ! 4) 1 \<and> \<not> bit (key ! 8) 1 \<and> \<not> bit (key ! 12) 1"
  by (auto simp: clamp_excess_def)

lemma clamp_excess_matters:
  assumes "16 \<le> length key" "horner (le_num (clamp key)) 0 [0] = horner (le_num (rfc_clamp key)) 0 [0]"
  shows "clamp_excess key = 0"
proof -
  let ?x = "256 * clamp_excess key"
  have "(256 * le_num (rfc_clamp key) + ?x) mod P1305 = 256 * le_num (rfc_clamp key) mod P1305"
    using assms(2) by (simp add: horner_zero_byte clamp_bytes [OF assms(1)] distrib_left)
  then have "P1305 dvd ?x" by (metis add_diff_cancel_left' le_add1 mod_eq_dvd_iff_nat)
  moreover have "?x < P1305" by (simp add: clamp_excess_def P1305_def)
  ultimately show ?thesis by (auto dest: dvd_imp_le)
qed

subsection \<open>The tag\<close>

lemma length_fold_store: "length (snd (fold (\<lambda>i (u, mac). (f i u, store32le (g i) (h i u) mac)) is (u, mac))) = length mac"
  by (induction "is" arbitrary: u mac) (simp_all add: store32le_def)

text \<open>Finishing accumulates the last, partial block.\<close>

lemma finish_partial_correct:
  assumes inv: "poly_inv key st p t" and key: "16 \<le> length key"
  shows "limbs_ok (finish_partial st)"
    and "limbs_val (finish_partial st) mod P1305 = horner (le_num (clamp key)) 0 (p @ t)"
proof -
  have small: "limbs_small (ps_r st)" and r: "limbs_val (ps_r st) = le_num (clamp key)"
    using inv init_r [OF key] by (simp_all add: poly_inv_def)
  have h: "limbs_ok (ps_h st)" "limbs_val (ps_h st) mod P1305 = horner (limbs_val (ps_r st)) 0 p" "16 dvd length p"
    "length t < 16" "ps_leftover st = length t" "take (length t) (ps_buffer st) = t"
    using inv by (simp_all add: poly_inv_def)
  have "limbs_ok (finish_partial st) \<and> limbs_val (finish_partial st) mod P1305 = horner (limbs_val (ps_r st)) 0 (p @ t)"
  proof (cases "t = []")
    case True
    then show ?thesis using h by (simp add: finish_partial_def)
  next
    case False
    define pd where "pd = t @ 1 # replicate (15 - length t) (0 :: u8)"
    have zeros: "le_num (replicate n 0) = 0" for n by (induction n) simp_all
    have "(overwrite 0 t (replicate 16 0))[length t := 1] = pd"
    proof -
      have "16 - length t = Suc (15 - length t)" using h(4) by simp
      then have "replicate (16 - length t) (0 :: u8) = 0 # replicate (15 - length t) 0" by simp
      then show ?thesis by (simp add: overwrite_def pd_def list_update_append)
    qed
    then have fin: "finish_partial st = mul_reduce (ps_r st) (add_block pd 0 (ps_h st))"
      using False by (simp add: finish_partial_def h)
    have pd: "length pd = 16" "take 16 pd = pd" using h(4) by (simp_all add: pd_def)
    have num: "le_num pd = le_num t + 256 ^ length t" by (simp add: pd_def le_num_append zeros)
    have "horner (limbs_val (ps_r st)) 0 (p @ t) = horner (limbs_val (ps_r st)) (limbs_val (ps_h st) mod P1305) t"
      by (simp add: horner_append [OF h(3)] h(2))
    also have "\<dots> = (limbs_val (ps_h st) mod P1305 + le_num t + 256 ^ length t) * limbs_val (ps_r st) mod P1305"
      using False h(4) by (subst horner.simps) simp
    finally show ?thesis
      using block_step [OF h(1) small, of pd 0 0] by (simp add: fin pd num add.assoc)
  qed
  then show "limbs_ok (finish_partial st)"
    "limbs_val (finish_partial st) mod P1305 = horner (le_num (clamp key)) 0 (p @ t)" by (simp_all add: r)
qed

lemma regroup_words:
  fixes h0 :: nat
  assumes "h1 = a1 + 2 ^ 6 * b1" "h2 = a2 + 2 ^ 12 * b2" "h3 = a3 + 2 ^ 18 * b3" "h4 = a4 + 2 ^ 24 * b4"
  shows "(h0 + 2 ^ 26 * a1) + 2 ^ 32 * (b1 + 2 ^ 20 * a2) + 2 ^ 64 * (b2 + 2 ^ 14 * a3) + 2 ^ 96 * (b3 + 2 ^ 8 * a4) + 2 ^ 128 * b4 =
    h0 + 2 ^ 26 * h1 + 2 ^ 52 * h2 + 2 ^ 78 * h3 + 2 ^ 104 * h4"
  using assms by simp

text \<open>Two limbs packed into a word.\<close>

lemma unat_pack:
  fixes a b :: u32
  assumes "unat a < 2 ^ 26" "k \<le> 26"
  shows "unat (drop_bit (26 - k) a OR push_bit k b) = unat a div 2 ^ (26 - k) + 2 ^ k * (unat b mod 2 ^ (32 - k))"
proof -
  have "unat (drop_bit (26 - k) a) < 2 ^ k"
    using assms by (simp add: unat_drop_bit less_mult_imp_div_less power_add [symmetric])
  then have "unat (drop_bit (26 - k) a OR push_bit k b) = unat a div 2 ^ (26 - k) + (unat b * 2 ^ k) mod 2 ^ 32"
    using assms(2) by (simp add: unat_or_shift unat_drop_bit)
  also have "(unat b * 2 ^ k) mod 2 ^ 32 = 2 ^ k * (unat b mod 2 ^ (32 - k))"
  proof -
    have pq: "(2 :: nat) ^ 32 = 2 ^ k * 2 ^ (32 - k)" using assms(2) by (simp add: power_add [symmetric])
    show ?thesis unfolding pq mult_mod_right by (simp only: mult.commute)
  qed
  finally show ?thesis .
qed

lemma words4_stores:
  assumes "p = store32le 12 w3 (store32le 8 w2 (store32le 4 w1 (store32le 0 w0 (replicate 16 0))))"
  shows "length p = 16" "words4 p = unat w0 + 2 ^ 32 * unat w1 + 2 ^ 64 * unat w2 + 2 ^ 96 * unat w3"
proof -
  have p: "p = le_bytes 4 w0 @ le_bytes 4 w1 @ le_bytes 4 w2 @ le_bytes 4 w3"
    unfolding assms by (simp add: store32le_eq overwrite_def)
  then show "length p = 16" by simp
  have "load32le 0 p = w0" "load32le 4 p = w1" "load32le 8 p = w2" "load32le 12 p = w3"
    unfolding p by (simp_all add: load32le_eq of_le_le_bytes_full)
  then show "words4 p = unat w0 + 2 ^ 32 * unat w1 + 2 ^ 64 * unat w2 + 2 ^ 96 * unat w3"
    by (simp add: words4_def)
qed

lemma pack_h_correct:
  assumes ok: "limbs_ok h" and h1: "unat (h ! 1) < 2 ^ 26"
  shows "length (pack_h h) = 16" "words4 (pack_h h) = limbs_val h mod 2 ^ 128"
proof -
  let ?w0 = "h ! 0 OR push_bit 26 (h ! 1)" and ?w1 = "drop_bit 6 (h ! 1) OR push_bit 20 (h ! 2)"
  let ?w2 = "drop_bit 12 (h ! 2) OR push_bit 14 (h ! 3)" and ?w3 = "drop_bit 18 (h ! 3) OR push_bit 8 (h ! 4 AND 0x00ffffff)"
  have p: "pack_h h = store32le 12 ?w3 (store32le 8 ?w2 (store32le 4 ?w1 (store32le 0 ?w0 (replicate 16 0))))"
    by (simp add: pack_h_def Let_def)
  note st = words4_stores [OF p]
  show "length (pack_h h) = 16" by (rule st)
  have hb: "unat (h ! 0) < 2 ^ 26" "unat (h ! 2) < 2 ^ 26" "unat (h ! 3) < 2 ^ 26" "unat (h ! 4) < 2 ^ 26"
    using ok by (simp_all add: limbs_ok_def)
  have m24: "unat (h ! 4 AND 0x00ffffff) = unat (h ! 4) mod 2 ^ 24"
  proof -
    have "h ! 4 AND 0x00ffffff = take_bit 24 (h ! 4)" by (simp add: take_bit_eq_mask mask_eq_exp_minus_1)
    then show ?thesis by (simp only: unsigned_take_bit_eq) (rule take_bit_eq_mod)
  qed
  have w: "unat ?w0 = unat (h ! 0) + 2 ^ 26 * (unat (h ! 1) mod 2 ^ 6)"
    "unat ?w1 = unat (h ! 1) div 2 ^ 6 + 2 ^ 20 * (unat (h ! 2) mod 2 ^ 12)"
    "unat ?w2 = unat (h ! 2) div 2 ^ 12 + 2 ^ 14 * (unat (h ! 3) mod 2 ^ 18)"
    "unat ?w3 = unat (h ! 3) div 2 ^ 18 + 2 ^ 8 * (unat (h ! 4) mod 2 ^ 24)"
    using unat_pack [OF hb(1), of 26 "h ! 1"] unat_pack [OF h1, of 20 "h ! 2"] unat_pack [OF hb(2), of 14 "h ! 3"]
      unat_pack [OF hb(3), of 8 "h ! 4 AND 0x00ffffff"] by (simp_all add: m24)
  let ?W = "unat ?w0 + 2 ^ 32 * unat ?w1 + 2 ^ 64 * unat ?w2 + 2 ^ 96 * unat ?w3"
  have "?W + 2 ^ 128 * (unat (h ! 4) div 2 ^ 24) = limbs_val h"
    unfolding w limbs_val_def by (rule regroup_words) simp_all
  moreover have "?W < 2 ^ 128"
  proof -
    have "unat w < 2 ^ 32" for w :: u32 using unsigned_less [of w] by simp
    from this [of ?w0] this [of ?w1] this [of ?w2] this [of ?w3] show ?thesis by simp
  qed
  ultimately have "limbs_val h mod 2 ^ 128 = ?W" by (metis mod_less mod_mult_self2)
  then show "words4 (pack_h h) = limbs_val h mod 2 ^ 128" by (simp only: st)
qed

text \<open>
  The second limb may hold one carry too many, which the code does not pass on: packing then ors it to the lowest bit of the third
  limb, where it is lost if that is set already.
\<close>

definition lost_carry :: "u32 list \<Rightarrow> nat" where
  "lost_carry h = (if 2 ^ 26 \<le> unat (h ! 1) \<and> odd (unat (h ! 2)) then 2 ^ 52 else 0)"

lemma pack_h_carry:
  assumes h1: "\<And>j. 26 \<le> j \<Longrightarrow> bit (h ! 1) j \<longleftrightarrow> j = 26"
  shows "pack_h h = pack_h [h ! 0, take_bit 26 (h ! 1), h ! 2 OR 1, h ! 3, h ! 4]"
proof -
  have "h ! 0 OR push_bit 26 (h ! 1) = h ! 0 OR push_bit 26 (take_bit 26 (h ! 1))"
    by (rule bit_word_eqI) (auto simp: bit_simps)
  moreover define y where "y = h ! 2 OR 1"
  have y: "bit y n \<longleftrightarrow> bit (h ! 2) n \<or> n = 0" for n unfolding y_def by (simp add: bit_simps)
  have "drop_bit 6 (h ! 1) OR push_bit 20 (h ! 2) = drop_bit 6 (take_bit 26 (h ! 1)) OR push_bit 20 y"
    using h1 by (intro bit_word_eqI) (auto simp: bit_simps y)
  moreover have "drop_bit 12 (h ! 2) OR push_bit 14 (h ! 3) = drop_bit 12 y OR push_bit 14 (h ! 3)"
    by (rule bit_word_eqI) (auto simp: bit_simps y)
  ultimately show ?thesis unfolding y_def [symmetric] by (simp add: pack_h_def)
qed

lemma unat_or_one: "unat (w OR 1 :: u32) = unat w + of_bool (even (unat w))"
proof -
  have "bit (unat w) 0 \<longleftrightarrow> bit w 0" by (simp add: bit_unsigned_iff)
  then have e: "even w \<longleftrightarrow> even (unat w)" by (simp add: bit_0)
  have "unat w < 2 ^ LENGTH(32)" by (rule unsigned_less)
  then have "unat (w + of_bool (even w)) = unat w + of_bool (even (unat w))"
    by (cases "even (unat w)") (auto simp: e unat_word_ariths elim!: evenE)
  then show ?thesis by (simp add: or_one_eq)
qed

lemma pack_h_value:
  assumes ok: "limbs_ok h"
  shows "length (pack_h h) = 16" "(words4 (pack_h h) + lost_carry h) mod 2 ^ 128 = limbs_val h mod 2 ^ 128"
proof -
  have "length (pack_h h) = 16 \<and> (words4 (pack_h h) + lost_carry h) mod 2 ^ 128 = limbs_val h mod 2 ^ 128"
  proof (cases "unat (h ! 1) < 2 ^ 26")
    case True
    then show ?thesis using pack_h_correct [OF ok True] by (simp add: lost_carry_def)
  next
    case False
    let ?h = "[h ! 0, take_bit 26 (h ! 1), h ! 2 OR 1, h ! 3, h ! 4]"
    have h1: "unat (h ! 1) div 2 ^ 26 = 1" using False ok by (intro div_nat_eqI) (simp_all add: limbs_ok_def)
    then have "drop_bit 26 (h ! 1) = 1" by (metis unat_drop_bit unat_1 unsigned_word_eqI)
    then have "bit (h ! 1) (26 + n) \<longleftrightarrow> n = 0" for n by (metis bit_1_iff bit_drop_bit_eq comp_apply)
    then have pk: "pack_h h = pack_h ?h" by (intro pack_h_carry) (metis add_cancel_left_right le_iff_add)
    have t: "unat (take_bit 26 (h ! 1)) = unat (h ! 1) mod 2 ^ 26" by (simp only: unsigned_take_bit_eq) (rule take_bit_eq_mod)
    have v: "unat (h ! 1) = 2 ^ 26 + unat (take_bit 26 (h ! 1))" unfolding t using h1 div_mult_mod_eq [of "unat (h ! 1)" "2 ^ 26"] by simp
    have "unat (h ! 2 OR 1) < 2 ^ 26" using ok by (cases "even (unat (h ! 2))") (auto simp: limbs_ok_def unat_or_one elim!: evenE)
    moreover have "unat (take_bit 26 (h ! 1)) < 2 ^ 26" unfolding t by simp
    ultimately have ok': "limbs_ok ?h" "unat (?h ! 1) < 2 ^ 26" using ok by (simp_all add: limbs_ok_def)
    have "limbs_val ?h + lost_carry h = limbs_val h"
      using False unat_or_one [of "h ! 2"] v by (cases "even (unat (h ! 2))") (simp_all add: limbs_val_def lost_carry_def)
    moreover note pack_h_correct [OF ok', folded pk]
    ultimately show ?thesis by (simp only: mod_add_left_eq simp_thms)
  qed
  then show "length (pack_h h) = 16" "(words4 (pack_h h) + lost_carry h) mod 2 ^ 128 = limbs_val h mod 2 ^ 128" by simp_all
qed

lemma carry4:
  fixes v0 :: nat
  assumes "v1 = x1 + v0 div 2 ^ 32" "v2 = x2 + v1 div 2 ^ 32" "v3 = x3 + v2 div 2 ^ 32"
  shows "v0 mod 2 ^ 32 + 2 ^ 32 * (v1 mod 2 ^ 32) + 2 ^ 64 * (v2 mod 2 ^ 32) + 2 ^ 96 * (v3 mod 2 ^ 32) + 2 ^ 128 * (v3 div 2 ^ 32) =
    v0 + 2 ^ 32 * x1 + 2 ^ 64 * x2 + 2 ^ 96 * x3"
proof -
  define q0 r0 q1 r1 q2 r2 where qr: "q0 = v0 div 2 ^ 32" "r0 = v0 mod 2 ^ 32" "q1 = v1 div 2 ^ 32" "r1 = v1 mod 2 ^ 32"
    "q2 = v2 div 2 ^ 32" "r2 = v2 mod 2 ^ 32"
  define q3 r3 where qr3: "q3 = v3 div 2 ^ 32" "r3 = v3 mod 2 ^ 32"
  have "v0 = r0 + 2 ^ 32 * q0" "x1 + q0 = r1 + 2 ^ 32 * q1" "x2 + q1 = r2 + 2 ^ 32 * q2" "x3 + q2 = r3 + 2 ^ 32 * q3"
    using assms by (simp_all add: qr qr3)
  then show ?thesis unfolding qr [symmetric] qr3 [symmetric] by simp
qed

lemma add_pad_correct:
  assumes "length pad = 4"
  shows "length (add_pad pad packed) = 16"
    and "le_num (add_pad pad packed) = (words4 packed + (unat (pad ! 0) + 2 ^ 32 * unat (pad ! 1) + 2 ^ 64 * unat (pad ! 2) +
      2 ^ 96 * unat (pad ! 3))) mod 2 ^ 128"
proof -
  define u0 where "u0 = (ucast (load32le 0 packed) + ucast (pad ! 0) :: u64)"
  define u1 where "u1 = drop_bit 32 u0 + (ucast (load32le 4 packed) + ucast (pad ! 1))"
  define u2 where "u2 = drop_bit 32 u1 + (ucast (load32le 8 packed) + ucast (pad ! 2))"
  define u3 where "u3 = drop_bit 32 u2 + (ucast (load32le 12 packed) + ucast (pad ! 3))"
  have mac: "add_pad pad packed =
      store32le 12 (ucast u3) (store32le 8 (ucast u2) (store32le 4 (ucast u1) (store32le 0 (ucast u0) (replicate 16 0))))"
    by (simp add: add_pad_def upt_bytes u0_def u1_def u2_def u3_def Let_def)
  note st = words4_stores [OF mac]
  show len: "length (add_pad pad packed) = 16" by (rule st)
  have c32: "unat w < 2 ^ 32" for w :: u32 using unsigned_less [of w] by simp
  have sum: "unat (u + (ucast a + ucast b) :: u64) = unat u + (unat a + unat b)" if "unat u < 2 ^ 33" for u and a b :: u32
    using that c32 [of a] c32 [of b] by (simp add: unat_word_ariths unat_ucast_up)
  have hi: "unat (drop_bit 32 u) = unat u div 2 ^ 32" "unat (drop_bit 32 u) < 2 ^ 33" for u :: u64
  proof -
    have "unat u < 2 ^ LENGTH(64)" by (rule unsigned_less)
    then show "unat (drop_bit 32 u) = unat u div 2 ^ 32" "unat (drop_bit 32 u) < 2 ^ 33"
      by (simp_all add: unat_drop_bit less_mult_imp_div_less)
  qed
  have v0: "unat u0 = unat (load32le 0 packed) + unat (pad ! 0)" using sum [of 0] by (simp add: u0_def)
  have v1: "unat u1 = (unat (load32le 4 packed) + unat (pad ! 1)) + unat u0 div 2 ^ 32"
    unfolding u1_def sum [OF hi(2)] hi(1) by simp
  have v2: "unat u2 = (unat (load32le 8 packed) + unat (pad ! 2)) + unat u1 div 2 ^ 32"
    unfolding u2_def sum [OF hi(2)] hi(1) by simp
  have v3: "unat u3 = (unat (load32le 12 packed) + unat (pad ! 3)) + unat u2 div 2 ^ 32"
    unfolding u3_def sum [OF hi(2)] hi(1) by simp
  have lo: "unat (ucast u :: u32) = unat u mod 2 ^ 32" for u :: u64 by (simp add: unat_ucast_mod)
  let ?W = "words4 (add_pad pad packed)"
  have total: "?W + 2 ^ 128 * (unat u3 div 2 ^ 32) = words4 packed + (unat (pad ! 0) + 2 ^ 32 * unat (pad ! 1) +
      2 ^ 64 * unat (pad ! 2) + 2 ^ 96 * unat (pad ! 3))"
    unfolding st(2) lo using carry4 [OF v1 v2 v3] by (simp add: v0 words4_def)
  have "?W < 2 ^ 128"
    using c32 [of "ucast u0"] c32 [of "ucast u1"] c32 [of "ucast u2"] c32 [of "ucast u3"] unfolding st(2) by simp
  then have "?W = (?W + 2 ^ 128 * (unat u3 div 2 ^ 32)) mod 2 ^ 128" by simp
  moreover have "le_num (add_pad pad packed) = ?W" using words4_eq [of "add_pad pad packed"] len by simp
  ultimately show "le_num (add_pad pad packed) = (words4 packed + (unat (pad ! 0) + 2 ^ 32 * unat (pad ! 1) + 2 ^ 64 * unat (pad ! 2) +
      2 ^ 96 * unat (pad ! 3))) mod 2 ^ 128" by (simp only: total)
qed

text \<open>What the tag lacks: 5 when the accumulator is not reduced, and the carry that packing loses.\<close>

definition tag_error :: "u32 list \<Rightarrow> nat" where
  "tag_error h = (if P1305 \<le> limbs_val h then 5 else 0) + lost_carry h"

lemma reduce_once:
  assumes "limbs_ok h"
  shows "(limbs_val h + (if P1305 \<le> limbs_val h then 5 else 0)) mod 2 ^ 128 = limbs_val h mod P1305 mod 2 ^ 128"
proof (cases "P1305 \<le> limbs_val h")
  case True
  have "limbs_val h < 2 * P1305" using assms by (simp add: limbs_ok_def limbs_val_def P1305_def)
  then have "limbs_val h mod P1305 = limbs_val h - P1305" using True by (simp add: mod_if)
  moreover have "limbs_val h + 5 = (limbs_val h - P1305) + 4 * 2 ^ 128" using True by (simp add: P1305_def)
  ultimately show ?thesis using True by (simp only: if_True mod_mult_self1)
qed simp

lemma poly1305_finish_value:
  assumes inv: "poly_inv key st p t" and key: "32 \<le> length key"
  shows "length (poly1305_finish st) = 16"
    "(le_num (poly1305_finish st) + tag_error (finish_partial st)) mod 2 ^ 128 = code_tag key (p @ t)"
proof -
  let ?h = "finish_partial st" and ?M = "2 ^ 128 :: nat"
  have k16: "16 \<le> length key" using key by simp
  note fin = finish_partial_correct [OF inv k16]
  note pk = pack_h_value [OF fin(1)]
  have pad: "ps_pad st = [load32le 16 key, load32le 20 key, load32le 24 key, load32le 28 key]"
    using inv by (simp add: poly_inv_def poly1305_init_def Let_def)
  define s where "s = le_num (take 16 (drop 16 key))"
  have s: "unat (ps_pad st ! 0) + 2 ^ 32 * unat (ps_pad st ! 1) + 2 ^ 64 * unat (ps_pad st ! 2) + 2 ^ 96 * unat (ps_pad st ! 3) = s"
  proof -
    have "words4 (drop 16 key) = s" unfolding s_def using key by (intro words4_eq) simp
    moreover have "load32le i (drop 16 key) = load32le (16 + i) key" if "i + 16 + 4 \<le> length key" for i
      using that by (simp add: load32le_def add.assoc)
    ultimately show ?thesis using key by (simp add: pad words4_def)
  qed
  have four: "length (ps_pad st) = 4" by (simp add: pad)
  show "length (poly1305_finish st) = 16" unfolding poly1305_finish_def by (rule add_pad_correct [OF four])
  define e where "e = (if P1305 \<le> limbs_val ?h then 5 else 0 :: nat)"
  have "le_num (poly1305_finish st) = (words4 (pack_h ?h) + s) mod ?M"
    unfolding poly1305_finish_def add_pad_correct(2) [OF four] s by (rule refl)
  then have "(le_num (poly1305_finish st) + tag_error ?h) mod ?M = (words4 (pack_h ?h) + s + (e + lost_carry ?h)) mod ?M"
    by (simp only: tag_error_def e_def mod_add_left_eq)
  also have "\<dots> = ((words4 (pack_h ?h) + lost_carry ?h) mod ?M + (s + e)) mod ?M" by (simp only: mod_add_left_eq) (simp only: ac_simps)
  also have "\<dots> = ((limbs_val ?h + e) mod ?M + s) mod ?M" unfolding pk(2) by (simp only: mod_add_left_eq) (simp only: ac_simps)
  also have "\<dots> = (horner (le_num (clamp key)) 0 (p @ t) + s) mod ?M"
    unfolding e_def reduce_once [OF fin(1)] fin(2) by (simp only: mod_add_left_eq)
  finally show "(le_num (poly1305_finish st) + tag_error ?h) mod ?M = code_tag key (p @ t)" by (simp only: code_tag_def s_def)
qed

subsection \<open>Any way of feeding the message\<close>

lemma poly_inv_fold:
  "poly_inv key st p t \<Longrightarrow> 16 \<le> length key \<Longrightarrow>
   \<exists>p' t'. poly_inv key (fold poly1305_update ms st) p' t' \<and> p' @ t' = p @ t @ concat ms"
proof (induction ms arbitrary: st p t)
  case (Cons m ms)
  obtain p1 t1 where 1: "poly_inv key (poly1305_update m st) p1 t1" "p1 @ t1 = p @ t @ m"
    using poly1305_update_inv [OF Cons.prems] by blast
  obtain p2 t2 where "poly_inv key (fold poly1305_update ms (poly1305_update m st)) p2 t2" "p2 @ t2 = p1 @ t1 @ concat ms"
    using Cons.IH [OF 1(1) Cons.prems(2)] by blast
  then show ?case using 1(2) by (simp, metis append.assoc)
qed auto

lemma poly_inv_pieces:
  "16 \<le> length key \<Longrightarrow>
   \<exists>p t. poly_inv key (fold poly1305_update ms (poly1305_init key)) p t \<and> p @ t = concat ms"
  using poly_inv_fold [OF poly_inv_init, of key ms] by simp

text \<open>C10: Limb arithmetic is exact: however a message is cut into pieces, after feeding them to the streaming authenticator the
  five 26-bit limbs denote the accumulator of the whole message modulo 2^130 - 5 under the key that the code's clamp
  leaves, and stay within bounds under which none of the 32-bit sums, 64-bit products and carries wraps. This is the
  accumulator of RFC 8439, for all messages, if and only if bit 1 of the key bytes 4, 8 and 12 is clear, because the code's clamp
  does not clear it.\<close>

theorem poly1305_refines:
  assumes "32 \<le> length key"
  shows "(\<forall>ms. let h = finish_partial (fold poly1305_update ms (poly1305_init key))
      in limbs_ok h \<and> limbs_val h mod P1305 = horner (le_num (clamp key)) 0 (concat ms)) \<and>
    ((\<forall>ms. limbs_val (finish_partial (fold poly1305_update ms (poly1305_init key))) mod P1305 =
        horner (le_num (rfc_clamp key)) 0 (concat ms)) \<longleftrightarrow>
      \<not> bit (key ! 4) 1 \<and> \<not> bit (key ! 8) 1 \<and> \<not> bit (key ! 12) 1)"
proof -
  have key: "16 \<le> length key" using assms by simp
  have limbs: "limbs_ok (finish_partial (fold poly1305_update ms (poly1305_init key)))"
    "limbs_val (finish_partial (fold poly1305_update ms (poly1305_init key))) mod P1305 = horner (le_num (clamp key)) 0 (concat ms)" for ms
    using poly_inv_pieces [OF key, of ms] finish_partial_correct [OF _ key] by metis+
  have "(\<forall>ms. horner (le_num (clamp key)) 0 (concat ms) = horner (le_num (rfc_clamp key)) 0 (concat ms)) \<longleftrightarrow> clamp_excess key = 0"
    using clamp_excess_matters [OF key] clamp_bytes [OF key] by (auto dest: spec [of _ "[[0]]"])
  then show ?thesis unfolding clamp_excess_zero [symmetric] by (simp add: limbs Let_def)
qed

definition rfc_poly_key :: bytes where
  "rfc_poly_key = 2 # replicate 31 0"

definition rfc_poly_msg :: bytes where
  "rfc_poly_msg = replicate 16 0xff"

lemma poly1305_refines_witness:
  "limbs_val (finish_partial (fold poly1305_update [[1, 2], [3]] (poly1305_init rfc_poly_key))) mod P1305 = 2 * 0x1030201"
proof -
  have "horner (le_num (clamp rfc_poly_key)) 0 [1, 2, 3] = 2 * 0x1030201"
    by (simp add: horner.simps rfc_poly_key_def clamp_def Let_def P1305_def replicate_numeral list_update_numeral)
  then show ?thesis
    using poly1305_refines [of rfc_poly_key] by (auto simp: rfc_poly_key_def Let_def dest: spec [of _ "[[1, 2], [3]]"])
qed

text \<open>C35: The tag, exactly. For every key and every way of feeding a message, the tag has 16 bytes, and it is the one of the
  accumulator under the code's key up to \<open>tag_error\<close>: it is 5 too small, modulo 2^128, when the limbs denote 2^130 - 5 or more,
  since the code leaves out the last reduction, and 2^52 too small when the second limb holds a carry and the third is
  odd, since the code leaves out the last carry. So it is the tag of RFC 8439 when neither is the case and bit 1 of the
  key bytes 4, 8 and 12 is clear.\<close>

theorem poly1305_tag_exact:
  assumes "32 \<le> length key"
  shows "let st = fold poly1305_update ms (poly1305_init key); h = finish_partial st; tag = poly1305_finish st
    in length tag = 16 \<and> (le_num tag + tag_error h) mod 2 ^ 128 = code_tag key (concat ms) \<and>
      (tag_error h = 0 \<and> \<not> bit (key ! 4) 1 \<and> \<not> bit (key ! 8) 1 \<and> \<not> bit (key ! 12) 1 \<longrightarrow> le_num tag = rfc_tag key (concat ms))"
proof -
  have key: "16 \<le> length key" using assms by simp
  let ?st = "fold poly1305_update ms (poly1305_init key)"
  obtain p t where inv: "poly_inv key ?st p t" "p @ t = concat ms" using poly_inv_pieces [OF key] by blast
  note v = poly1305_finish_value [OF inv(1) assms, unfolded inv(2)]
  have "le_num (poly1305_finish ?st) < 2 ^ 128" using le_num_bound [of "poly1305_finish ?st"] v(1) by simp
  moreover have "clamp_excess key = 0 \<Longrightarrow> code_tag key (concat ms) = rfc_tag key (concat ms)"
    using clamp_bytes [OF key] by (simp add: code_tag_def rfc_tag_def)
  ultimately show ?thesis using v by (auto simp: Let_def clamp_excess_zero)
qed

text \<open>The key and the message of the standard's test vector 7: the accumulator is 2^130 - 2, the standard's tag 3, the code's -2.\<close>

lemma rfc_vector_7:
  "poly1305_finish (poly1305_update rfc_poly_msg (poly1305_init rfc_poly_key)) = 0xFE # replicate 15 0xFF"
  "finish_partial (poly1305_update rfc_poly_msg (poly1305_init rfc_poly_key)) = [0x3FFFFFE, 0x3FFFFFF, 0x3FFFFFF, 0x3FFFFFF, 0x3FFFFFF]"
  by code_simp+

lemma poly1305_tag_exact_witness: "rfc_tag rfc_poly_key rfc_poly_msg = 3"
proof -
  have "tag_error [0x3FFFFFE, 0x3FFFFFF, 0x3FFFFFF, 0x3FFFFFF, 0x3FFFFFF] = 5"
    by (simp add: tag_error_def lost_carry_def limbs_val_def P1305_def)
  moreover have "le_num (0xFE # replicate 15 0xFF) = 2 ^ 128 - 2" by (simp add: replicate_numeral)
  moreover have "rfc_clamp rfc_poly_key = clamp rfc_poly_key" by code_simp
  then have "code_tag rfc_poly_key rfc_poly_msg = rfc_tag rfc_poly_key rfc_poly_msg" by (simp add: code_tag_def rfc_tag_def)
  ultimately show ?thesis
    using poly1305_tag_exact [of rfc_poly_key "[rfc_poly_msg]"] rfc_vector_7 by (simp add: rfc_poly_key_def Let_def)
qed

text \<open>On the key and the message of the example in section 2.5.2 of the RFC, whose key byte 4 is \<open>57\<close>, the code's tag differs from the
  standard's, \<open>a8:06:1d:c1:30:51:36:c6:c2:2b:8b:af:0c:01:27:a9\<close>.\<close>

definition rfc_example_key :: bytes where
  "rfc_example_key = [0x85, 0xd6, 0xbe, 0x78, 0x57, 0x55, 0x6d, 0x33, 0x7f, 0x44, 0x52, 0xfe, 0x42, 0xd5, 0x06, 0xa8,
     0x01, 0x03, 0x80, 0x8a, 0xfb, 0x0d, 0xb2, 0xfd, 0x4a, 0xbf, 0xf6, 0xaf, 0x41, 0x49, 0xf5, 0x1b]"

definition rfc_example_msg :: bytes where
  "rfc_example_msg = map (of_nat \<circ> of_char) ''Cryptographic Forum Research Group''"

definition rfc_example_tag :: bytes where
  "rfc_example_tag = [0xa8, 0x06, 0x1d, 0xc1, 0x30, 0x51, 0x36, 0xc6, 0xc2, 0x2b, 0x8b, 0xaf, 0x0c, 0x01, 0x27, 0xa9]"

theorem rfc_example_tag_wrong:
  "rfc_tag rfc_example_key rfc_example_msg = le_num rfc_example_tag \<and>
   poly1305_finish (poly1305_update rfc_example_msg (poly1305_init rfc_example_key)) \<noteq> rfc_example_tag"
proof
  show "poly1305_finish (poly1305_update rfc_example_msg (poly1305_init rfc_example_key)) \<noteq> rfc_example_tag"
    by code_simp
  have m: "rfc_example_msg = [0x43, 0x72, 0x79, 0x70, 0x74, 0x6f, 0x67, 0x72, 0x61, 0x70, 0x68, 0x69, 0x63, 0x20, 0x46, 0x6f, 0x72,
      0x75, 0x6d, 0x20, 0x52, 0x65, 0x73, 0x65, 0x61, 0x72, 0x63, 0x68, 0x20, 0x47, 0x72, 0x6f, 0x75, 0x70]"
    by code_simp
  have c: "rfc_clamp rfc_example_key = [0x85, 0xd6, 0xbe, 0x08, 0x54, 0x55, 0x6d, 0x03, 0x7c, 0x44, 0x52, 0x0e, 0x40, 0xd5, 0x06, 0x08]"
    by code_simp
  show "rfc_tag rfc_example_key rfc_example_msg = le_num rfc_example_tag"
    unfolding rfc_tag_def c m by (simp add: horner.simps P1305_def rfc_example_key_def rfc_example_tag_def)
qed

end
