(* ===== verification/ChaChaPoly.thy ===== *)
theory ChaChaPoly
  imports ChaCha20 Poly1305Laws
begin

text \<open>
  The AEAD of \<open>src/include/campello_net/crypto/chachapoly.hpp\<close>: \<open>seal\<close>, \<open>open\<close> and
  \<open>derive_keys\<close> over the cipher and the authenticator. \<open>None\<close> is the return value \<open>false\<close>; on
  success the bytes written to the output buffer are returned.
\<close>

definition KEY_SIZE :: nat where "KEY_SIZE = 32"
definition NONCE_SIZE :: nat where "NONCE_SIZE = 12"
definition TAG_SIZE :: nat where "TAG_SIZE = 16"

definition aead_seal :: "bytes \<Rightarrow> bytes \<Rightarrow> bytes \<Rightarrow> bytes \<Rightarrow> nat \<Rightarrow> bytes option" where
  "aead_seal key nonce aad plaintext out_len =
     (if out_len < length plaintext + TAG_SIZE then None
      else
        let poly_key = chacha20_block key 0 nonce;
            out = chacha20_crypt key nonce 1 plaintext
        in Some (out @ aead_compute_tag poly_key aad out))"

definition aead_open :: "bytes \<Rightarrow> bytes \<Rightarrow> bytes \<Rightarrow> bytes \<Rightarrow> nat \<Rightarrow> bytes option" where
  "aead_open key nonce aad ciphertext out_len =
     (if length ciphertext < TAG_SIZE then None
      else if out_len < length ciphertext - TAG_SIZE then None
      else
        let encrypted_len = length ciphertext - TAG_SIZE;
            tag = drop encrypted_len ciphertext;
            poly_key = chacha20_block key 0 nonce;
            computed_tag = aead_compute_tag poly_key aad (take encrypted_len ciphertext)
        in if ct_diff 16 computed_tag tag \<noteq> 0 then None
           else Some (chacha20_crypt key nonce 1 (take encrypted_len ciphertext)))"

text \<open>The pair (client to server, server to client).\<close>

definition derive_keys :: "bytes \<Rightarrow> bytes \<times> bytes" where
  "derive_keys master_key =
     (let block = chacha20_block master_key 0 (replicate NONCE_SIZE 0)
      in (take KEY_SIZE block, drop KEY_SIZE block))"

subsection \<open>The authenticated bytes\<close>

definition pad16 :: "bytes \<Rightarrow> bytes" where
  "pad16 d = d @ replicate ((16 - length d mod 16) mod 16) 0"

definition mac_data :: "bytes \<Rightarrow> bytes \<Rightarrow> bytes" where
  "mac_data aad ct = pad16 aad @ pad16 ct @
     le_bytes 8 (of_nat (length aad) :: u64) @ le_bytes 8 (of_nat (length ct) :: u64)"

definition pad_pieces :: "bytes \<Rightarrow> bytes list" where
  "pad_pieces d = (if d = [] then [] else if length d mod 16 = 0 then [d] else [d, replicate (16 - length d mod 16) 0])"

lemma concat_pad_pieces: "concat (pad_pieces d) = pad16 d"
  by (auto simp: pad_pieces_def pad16_def)

lemma pad_update_pieces: "pad_update d st = fold poly1305_update (pad_pieces d) st"
  by (simp add: pad_update_def pad_pieces_def Let_def)

lemma mac_state_pieces:
  "aead_mac_state k aad ct = fold poly1305_update
     (pad_pieces aad @ pad_pieces ct @ [le_bytes 8 (of_nat (length aad) :: u64) @ le_bytes 8 (of_nat (length ct) :: u64)])
     (poly1305_init k)"
proof -
  have "store64le 8 (of_nat (length ct)) (store64le 0 (of_nat (length aad)) (replicate 16 0)) =
      le_bytes 8 (of_nat (length aad) :: u64) @ le_bytes 8 (of_nat (length ct) :: u64)"
    by (simp add: store64le_eq overwrite_def)
  then show ?thesis by (simp add: aead_mac_state_def Let_def pad_update_pieces)
qed

lemma mac_state_inv:
  assumes "16 \<le> length k"
  obtains p t where "poly_inv k (aead_mac_state k aad ct) p t" "p @ t = mac_data aad ct"
  using poly_inv_pieces [OF assms, of "pad_pieces aad @ pad_pieces ct @
      [le_bytes 8 (of_nat (length aad) :: u64) @ le_bytes 8 (of_nat (length ct) :: u64)]"]
  by (auto simp: mac_state_pieces mac_data_def concat_pad_pieces)

lemma length_tag:
  assumes "16 \<le> length k"
  shows "length (aead_compute_tag k aad ct) = 16"
proof -
  obtain p t where "poly_inv k (aead_mac_state k aad ct) p t" using mac_state_inv [OF assms] by blast
  then have "length (ps_pad (aead_mac_state k aad ct)) = 4" by (simp add: poly_inv_def poly1305_init_def Let_def)
  then show ?thesis unfolding aead_compute_tag_def poly1305_finish_def by (rule add_pad_correct(1))
qed

text \<open>The AEAD tag is, up to \<open>tag_error\<close>, the tag under the one-time key of the associated data and the ciphertext, each zero-padded to
  16 bytes, followed by their lengths.\<close>

theorem aead_tag_value:
  assumes "32 \<le> length k"
  shows "length (aead_compute_tag k aad ct) = TAG_SIZE \<and>
    (le_num (aead_compute_tag k aad ct) + tag_error (finish_partial (aead_mac_state k aad ct))) mod 2 ^ 128 = code_tag k (mac_data aad ct)"
proof -
  have "16 \<le> length k" using assms by simp
  then obtain p t where "poly_inv k (aead_mac_state k aad ct) p t" "p @ t = mac_data aad ct" using mac_state_inv by blast
  then show ?thesis using poly1305_finish_value [OF _ assms] by (simp add: aead_compute_tag_def TAG_SIZE_def)
qed

lemma aead_tag_value_witness:
  "le_num (aead_compute_tag rfc_poly_key [] [1]) mod 2 ^ 128 = code_tag rfc_poly_key (mac_data [] [1])"
proof -
  have "finish_partial (aead_mac_state rfc_poly_key [] [1]) = [9, 0, 0x2000, 0, 0x2000000]"
    by code_simp
  then have "tag_error (finish_partial (aead_mac_state rfc_poly_key [] [1])) = 0"
    by (simp add: tag_error_def lost_carry_def limbs_val_def P1305_def)
  then show ?thesis using aead_tag_value [of rfc_poly_key "[]" "[1]"] by (simp add: rfc_poly_key_def)
qed

subsection \<open>Opening inverts sealing\<close>

lemma open_iff_seal_fact:
  "aead_open key nonce aad c out_len = Some pt \<longleftrightarrow>
   length pt \<le> out_len \<and> aead_seal key nonce aad pt (length pt + TAG_SIZE) = Some c"
proof -
  let ?k = "chacha20_block key 0 nonce"
  have tag: "length (aead_compute_tag ?k aad x) = 16" for x by (rule length_tag) simp
  have eq: "ct_diff 16 (aead_compute_tag ?k aad x) y = 0 \<longleftrightarrow> aead_compute_tag ?k aad x = y" if "length y = 16" for x y
    using tag that by (rule ct_diff_eq)
  show ?thesis
  proof
    assume "aead_open key nonce aad c out_len = Some pt"
    then have len: "16 \<le> length c" "length c - 16 \<le> out_len"
      and t: "aead_compute_tag ?k aad (take (length c - 16) c) = drop (length c - 16) c"
      and pt: "pt = chacha20_crypt key nonce 1 (take (length c - 16) c)"
      by (auto simp: aead_open_def TAG_SIZE_def Let_def eq split: if_splits)
    have "length pt \<le> out_len" using pt len by simp
    moreover have "chacha20_crypt key nonce 1 pt = take (length c - 16) c" by (simp add: pt crypt_involution)
    ultimately show "length pt \<le> out_len \<and> aead_seal key nonce aad pt (length pt + TAG_SIZE) = Some c"
      using t by (simp add: aead_seal_def TAG_SIZE_def Let_def)
  next
    assume r: "length pt \<le> out_len \<and> aead_seal key nonce aad pt (length pt + TAG_SIZE) = Some c"
    let ?e = "chacha20_crypt key nonce 1 pt"
    have c: "c = ?e @ aead_compute_tag ?k aad ?e" using r by (simp add: aead_seal_def Let_def)
    then have "length c = length pt + 16" by (simp add: tag)
    then show "aead_open key nonce aad c out_len = Some pt"
      using r by (simp add: aead_open_def TAG_SIZE_def Let_def c eq tag crypt_involution)
  qed
qed

text \<open>C9: \<open>open\<close> accepts exactly what \<open>seal\<close> produced: it returns a plaintext for a ciphertext, nonce
  and associated data if and only if the output buffer holds the plaintext and sealing that
  plaintext under the same key, nonce and associated data gives the ciphertext. So sealed messages
  open to themselves, and a string that is not the sealing of something is refused.\<close>

theorem open_iff_seal:
  "aead_open key nonce aad c out_len = Some pt \<longleftrightarrow>
   length pt \<le> out_len \<and> aead_seal key nonce aad pt (length pt + TAG_SIZE) = Some c"
  by (rule open_iff_seal_fact)

text \<open>The corollaries its users rest on.\<close>

lemma length_seal: "aead_seal key nonce aad pt n = Some c \<Longrightarrow> length c = length pt + TAG_SIZE"
  using length_tag [of "chacha20_block key 0 nonce"] by (auto simp: aead_seal_def TAG_SIZE_def Let_def split: if_splits)

lemma length_open: "aead_open key nonce aad c n = Some pt \<Longrightarrow> length pt = length c - TAG_SIZE \<and> TAG_SIZE \<le> length c"
  by (auto simp: aead_open_def Let_def split: if_splits)

lemma open_sealed:
  assumes "length d \<le> n"
  shows "aead_open key nonce aad (the (aead_seal key nonce aad d (length d + TAG_SIZE))) n = Some d"
  unfolding open_iff_seal_fact using assms by (simp add: aead_seal_def Let_def)

end
