(* ===== verification/EncryptedTransport.thy ===== *)
theory EncryptedTransport
  imports UdpInterface ChaChaPoly
begin

text \<open>
  The encrypting decorator (\<open>src/src/transport/encrypted_transport.cpp\<close>) over any inner transport:
  counters, nonces, the replay window, and the sealed payloads. The bytes of a socket address in
  memory, over which the code computes a hash, are the parameter \<open>storage_bytes\<close>; the table
  \<open>per_address\<close> is total because \<open>operator[]\<close> inserts a fresh entry.
\<close>

unbundle bit_operations_syntax

definition OVERHEAD :: nat where "OVERHEAD = NONCE_SIZE + TAG_SIZE"
definition REPLAY_WINDOW :: u64 where "REPLAY_WINDOW = 64"
definition DIR_CLIENT_TO_SERVER :: u8 where "DIR_CLIENT_TO_SERVER = 0x00"
definition DIR_SERVER_TO_CLIENT :: u8 where "DIR_SERVER_TO_CLIENT = 0x01"

record counter_state =
  outbound :: u64
  highest_inbound :: u64
  seen_bitmap :: u64

definition new_counter :: counter_state where
  "new_counter = \<lparr>outbound = 0, highest_inbound = 0, seen_bitmap = 0\<rparr>"

record 's encrypted =
  en_inner :: "'s"
  client_to_server_key :: bytes
  server_to_client_key :: bytes
  per_address :: "u64 \<Rightarrow> counter_state"
  client_state :: counter_state
  recv_scratch :: nat
  send_scratch :: nat

text \<open>The scratch vectors are modelled by their sizes. A key that is too short is zero-padded.\<close>

definition new_encrypted :: "'s \<Rightarrow> bytes \<Rightarrow> 's encrypted" where
  "new_encrypted inner key =
     (let to_copy = (if length key < KEY_SIZE then length key else KEY_SIZE);
          master = overwrite 0 (take to_copy key) (replicate KEY_SIZE 0);
          (c2s, s2c) = derive_keys master
      in \<lparr>en_inner = inner, client_to_server_key = c2s, server_to_client_key = s2c,
          per_address = (\<lambda>_. new_counter), client_state = new_counter, recv_scratch = 0, send_scratch = 0\<rparr>)"

definition store_bytes_hash :: "bytes \<Rightarrow> u64" where
  "store_bytes_hash raw = foldl (\<lambda>h b. h * 31 + ucast b) 0 raw"

definition address_hash :: "(address \<Rightarrow> bytes) \<Rightarrow> address \<Rightarrow> u64" where
  "address_hash storage_bytes addr = store_bytes_hash (storage_bytes addr)"

definition counter_nonce :: "u8 \<Rightarrow> u64 \<Rightarrow> bytes" where
  "counter_nonce dir counter = store64le 4 counter ((replicate NONCE_SIZE 0)[0 := dir])"

text \<open>\<open>send\<close>: the counter is used up whether or not sealing or the inner transport succeeds.\<close>

definition enc_send :: "'s transport \<Rightarrow> bytes \<Rightarrow> reliability \<Rightarrow> 's encrypted \<Rightarrow> bool \<times> 's encrypted" where
  "enc_send T d r e =
     (let counter = outbound (client_state e);
          e = e\<lparr>client_state := (client_state e)\<lparr>outbound := counter + 1\<rparr>\<rparr>;
          nonce = counter_nonce DIR_CLIENT_TO_SERVER counter;
          e = e\<lparr>send_scratch := max (send_scratch e) (length d + OVERHEAD)\<rparr>
      in case aead_seal (client_to_server_key e) nonce [] d (length d + TAG_SIZE) of
           None \<Rightarrow> (False, e)
         | Some c \<Rightarrow> (let (ok, i) = t_send T (nonce @ c) r (en_inner e) in (ok, e\<lparr>en_inner := i\<rparr>)))"

definition enc_send_to ::
    "(address \<Rightarrow> bytes) \<Rightarrow> 's transport \<Rightarrow> address \<Rightarrow> bytes \<Rightarrow> reliability \<Rightarrow> 's encrypted \<Rightarrow> bool \<times> 's encrypted" where
  "enc_send_to raw T addr d r e =
     (let h = address_hash raw addr;
          counter = outbound (per_address e h);
          e = e\<lparr>per_address := (per_address e)(h := (per_address e h)\<lparr>outbound := counter + 1\<rparr>)\<rparr>;
          nonce = counter_nonce DIR_SERVER_TO_CLIENT counter;
          e = e\<lparr>send_scratch := max (send_scratch e) (length d + OVERHEAD)\<rparr>
      in case aead_seal (server_to_client_key e) nonce [] d (length d + TAG_SIZE) of
           None \<Rightarrow> (False, e)
         | Some c \<Rightarrow> (let (ok, i) = t_send_to T addr (nonce @ c) r (en_inner e) in (ok, e\<lparr>en_inner := i\<rparr>)))"

text \<open>The replay check: whether the counter passes, and the updated state, which the code keeps even
  when the packet fails to authenticate afterwards.\<close>

definition replay_check :: "u64 \<Rightarrow> counter_state \<Rightarrow> bool \<times> counter_state" where
  "replay_check counter st =
     (if counter + REPLAY_WINDOW \<le> highest_inbound st then (False, st)
      else
        let st = (if counter > highest_inbound st
                  then let shift = counter - highest_inbound st
                       in st\<lparr>seen_bitmap := (if shift \<ge> 64 then 0 else push_bit (unat shift) (seen_bitmap st)),
                             highest_inbound := counter\<rparr>
                  else st);
            diff = highest_inbound st - counter
        in if diff < 64
           then let bit = push_bit (unat diff) 1
                in if seen_bitmap st AND bit \<noteq> 0 then (False, st)
                   else (True, st\<lparr>seen_bitmap := seen_bitmap st OR bit\<rparr>)
           else (True, st))"

text \<open>\<open>pop_receive\<close>: \<open>None\<close> is the return value \<open>false\<close>.\<close>

definition enc_pop_receive ::
    "(address \<Rightarrow> bytes) \<Rightarrow> 's transport \<Rightarrow> nat \<Rightarrow> 's encrypted \<Rightarrow> (bytes \<times> address) option \<times> 's encrypted" where
  "enc_pop_receive raw T max_length e =
     (let e = e\<lparr>recv_scratch := max (recv_scratch e) (max_length + OVERHEAD)\<rparr>;
          (got, i) = t_pop_receive T (recv_scratch e) (en_inner e);
          e = e\<lparr>en_inner := i\<rparr>
      in case got of
           None \<Rightarrow> (None, e)
         | Some (received, sender) \<Rightarrow>
             (if length received < OVERHEAD then (None, e)
              else
                let nonce = take NONCE_SIZE received;
                    ciphertext = drop NONCE_SIZE received;
                    plaintext_len = length ciphertext - TAG_SIZE
                in if plaintext_len > max_length then (None, e)
                   else
                     let counter = load64le 4 nonce;
                         h = address_hash raw sender
                     in if nonce ! 0 = DIR_CLIENT_TO_SERVER then
                          (let (ok, st) = replay_check counter (per_address e h);
                               e = e\<lparr>per_address := (per_address e)(h := st)\<rparr>
                           in if \<not> ok then (None, e)
                              else case aead_open (client_to_server_key e) nonce [] ciphertext max_length of
                                     None \<Rightarrow> (None, e) | Some pt \<Rightarrow> (Some (pt, sender), e))
                        else if nonce ! 0 = DIR_SERVER_TO_CLIENT then
                          (let (ok, st) = replay_check counter (client_state e);
                               e = e\<lparr>client_state := st\<rparr>
                           in if \<not> ok then (None, e)
                              else case aead_open (server_to_client_key e) nonce [] ciphertext max_length of
                                     None \<Rightarrow> (None, e) | Some pt \<Rightarrow> (Some (pt, sender), e))
                        else (None, e)))"

text \<open>The other virtual functions forward to the inner transport.\<close>

definition enc_transport :: "(address \<Rightarrow> bytes) \<Rightarrow> 's transport \<Rightarrow> 's encrypted transport" where
  "enc_transport raw T =
     (let lift = (\<lambda>f e. let (ok, i) = f (en_inner e) in (ok :: bool, e\<lparr>en_inner := i\<rparr>))
      in \<lparr>t_bind = (\<lambda>a. lift (t_bind T a)), t_connect = (\<lambda>a. lift (t_connect T a)),
          t_disconnect = (\<lambda>e. e\<lparr>en_inner := t_disconnect T (en_inner e)\<rparr>),
          t_is_connected = (\<lambda>e. t_is_connected T (en_inner e)),
          t_send = enc_send T, t_send_to = enc_send_to raw T,
          t_poll = (\<lambda>e. map_option (\<lambda>i. e\<lparr>en_inner := i\<rparr>) (t_poll T (en_inner e))),
          t_pop_receive = enc_pop_receive raw T,
          t_rtt = (\<lambda>e. t_rtt T (en_inner e)), t_packet_loss = (\<lambda>e. t_packet_loss T (en_inner e)),
          t_connection_rtt = (\<lambda>a e. t_connection_rtt T a (en_inner e)),
          t_connection_packet_loss = (\<lambda>a e. t_connection_packet_loss T a (en_inner e))\<rparr>)"

subsection \<open>The replay window\<close>

text \<open>The counters that pass, of a sequence of received ones.\<close>

fun replay_run :: "counter_state \<Rightarrow> u64 list \<Rightarrow> u64 list" where
  "replay_run st [] = []"
| "replay_run st (c # cs) =
     (let (ok, st') = replay_check c st in (if ok then c # replay_run st' cs else replay_run st' cs))"

text \<open>The window as a specification: a counter passes when it is less than 64 below the highest one
  checked so far and has not passed before.\<close>

fun window_run :: "nat \<Rightarrow> nat set \<Rightarrow> nat list \<Rightarrow> nat list" where
  "window_run high seen [] = []"
| "window_run high seen (c # cs) =
     (if high < c + 64 \<and> c \<notin> seen then c # window_run (max high c) (insert c seen) cs
      else window_run (max high c) seen cs)"

definition replay_inv :: "counter_state \<Rightarrow> u64 set \<Rightarrow> bool" where
  "replay_inv st A \<longleftrightarrow> (\<forall>a\<in>A. unat a \<le> unat (highest_inbound st)) \<and>
     (\<forall>i<64. bit (seen_bitmap st) i \<longleftrightarrow>
        i \<le> unat (highest_inbound st) \<and> of_nat (unat (highest_inbound st) - i) \<in> A)"

lemma replay_inv_new: "replay_inv new_counter {}"
  by (simp add: replay_inv_def new_counter_def)

lemma test_bit_and: "n < 64 \<Longrightarrow> (w AND push_bit n 1 \<noteq> (0 :: u64)) = bit w n"
  by (simp add: bit_iff_and_push_bit_not_eq_0)

lemma window_diff:
  fixes c h :: u64
  assumes "\<not> c + 64 \<le> h" "c \<le> h"
  shows "unat (h - c) = unat h - unat c" "unat h - unat c < 64"
proof -
  show d: "unat (h - c) = unat h - unat c" using assms(2) by (simp add: unat_sub)
  have "unat h < 2 ^ LENGTH(64)" by (rule unsigned_less)
  show "unat h - unat c < 64"
  proof (cases "unat c + 64 < 2 ^ 64")
    case True
    then have "unat (c + 64) = unat c + 64" by (simp add: unat_word_ariths)
    then show ?thesis using assms by (simp add: word_le_nat_alt)
  next
    case False
    then show ?thesis using \<open>unat h < 2 ^ LENGTH(64)\<close> by simp
  qed
qed

text \<open>A counter above the highest one moves the window.\<close>

lemma replay_advance:
  assumes inv: "replay_inv st A" and new: "highest_inbound st < c" "\<not> c + 64 \<le> highest_inbound st"
  shows "fst (replay_check c st)" "replay_inv (snd (replay_check c st)) (insert c A)"
    "highest_inbound (snd (replay_check c st)) = c" "c \<notin> A"
proof -
  define H where "H = unat (highest_inbound st)"
  define S where "S = unat (c - highest_inbound st)"
  define bm where "bm = (if 64 \<le> S then 0 else push_bit S (seen_bitmap st))"
  have Hc: "H < unat c" "S = unat c - H" using new(1) less_imp_le [OF new(1)] by (simp_all add: H_def S_def word_less_nat_alt unat_sub)
  have old: "\<And>a. a \<in> A \<Longrightarrow> unat a \<le> H" "\<And>i. i < 64 \<Longrightarrow> bit (seen_bitmap st) i \<longleftrightarrow> i \<le> H \<and> of_nat (H - i) \<in> A"
    using inv by (simp_all add: replay_inv_def H_def)
  have b0: "\<not> bit bm 0" using Hc by (auto simp: bm_def bit_simps)
  have b0': "\<not> bit (push_bit (unat (c - highest_inbound st)) (seen_bitmap st)) 0"
    using Hc by (auto simp: bit_simps S_def)
  have shift: "64 \<le> c - highest_inbound st \<longleftrightarrow> 64 \<le> S" by (simp add: S_def word_le_nat_alt)
  have upd: "replay_check c st = (True, st\<lparr>seen_bitmap := bm OR 1, highest_inbound := c\<rparr>)"
    using new b0' shift by (simp add: replay_check_def REPLAY_WINDOW_def Let_def bm_def S_def test_bit_and [of 0, simplified])
  then show "fst (replay_check c st)" "highest_inbound (snd (replay_check c st)) = c" by simp_all
  show "c \<notin> A" using old(1) [of c] Hc by auto
  have "bit (bm OR 1) i \<longleftrightarrow> i \<le> unat c \<and> of_nat (unat c - i) \<in> insert c A" if i: "i < 64" for i
  proof (cases "i = 0")
    case False
    have "unat c < 2 ^ LENGTH(64)" by (rule unsigned_less)
    then have rt: "unat (of_nat (unat c - i) :: u64) = unat c - i" by (simp add: unat_of_nat_small)
    have "bit (bm OR 1) i \<longleftrightarrow> S \<le> i \<and> i - S \<le> H \<and> of_nat (H - (i - S)) \<in> A"
      using False i old(2) [of "i - S"] by (auto simp: bm_def bit_simps)
    also have "\<dots> \<longleftrightarrow> i \<le> unat c \<and> of_nat (unat c - i) \<in> A"
    proof (cases "S \<le> i")
      case True
      then show ?thesis using Hc by (auto simp: le_diff_conv)
    next
      case False
      then have "H < unat c - i" using Hc by simp
      then have "of_nat (unat c - i) \<notin> A" using old(1) rt by fastforce
      then show ?thesis using False by simp
    qed
    also have "\<dots> \<longleftrightarrow> i \<le> unat c \<and> of_nat (unat c - i) \<in> insert c A"
      using False rt by (auto dest: arg_cong [of _ _ unat])
    finally show ?thesis .
  qed (simp add: bit_simps)
  moreover have "unat a \<le> unat c" if "a \<in> insert c A" for a using old(1) [of a] that Hc by auto
  ultimately show "replay_inv (snd (replay_check c st)) (insert c A)"
    using upd by (simp add: replay_inv_def)
qed

text \<open>A counter at or below it passes when it is inside the window and its bit is clear.\<close>

lemma replay_window:
  assumes inv: "replay_inv st A" and c: "c \<le> highest_inbound st" "\<not> c + 64 \<le> highest_inbound st"
  shows "fst (replay_check c st) \<longleftrightarrow> c \<notin> A"
    "replay_inv (snd (replay_check c st)) (if c \<in> A then A else insert c A)"
    "highest_inbound (snd (replay_check c st)) = highest_inbound st"
proof -
  let ?H = "highest_inbound st"
  define D where "D = unat (?H - c)"
  have D: "D = unat ?H - unat c" "D < 64" using window_diff [OF c(2,1)] by (simp_all add: D_def)
  have cH: "unat c \<le> unat ?H" using c(1) by (simp add: word_le_nat_alt)
  have mem: "bit (seen_bitmap st) D \<longleftrightarrow> c \<in> A"
    using inv D cH by (simp add: replay_inv_def)
  have lt: "?H - c < 64" using D by (simp add: D_def word_less_nat_alt)
  have eq: "replay_check c st = (if c \<in> A then (False, st) else (True, st\<lparr>seen_bitmap := seen_bitmap st OR push_bit D 1\<rparr>))"
    using c not_less [THEN iffD2, OF c(1)] lt mem test_bit_and [OF D(2)] by (simp add: replay_check_def REPLAY_WINDOW_def Let_def D_def)
  show "fst (replay_check c st) \<longleftrightarrow> c \<notin> A" "highest_inbound (snd (replay_check c st)) = ?H" by (simp_all add: eq)
  have key: "of_nat (unat ?H - i) = c \<longleftrightarrow> i = D" if "i \<le> unat ?H" for i
  proof -
    have "unat ?H < 2 ^ LENGTH(64)" by (rule unsigned_less)
    then have "unat (of_nat (unat ?H - i) :: u64) = unat ?H - i" by (simp add: unat_of_nat_small)
    then show ?thesis using that cH D by (auto dest: arg_cong [of _ _ unat])
  qed
  have "bit (seen_bitmap st OR push_bit D 1) i \<longleftrightarrow> i \<le> unat ?H \<and> of_nat (unat ?H - i) \<in> insert c A" if "i < 64" for i
  proof -
    have "bit (seen_bitmap st OR push_bit D 1) i \<longleftrightarrow> i \<le> unat ?H \<and> of_nat (unat ?H - i) \<in> A \<or> i = D"
      using inv that by (auto simp: replay_inv_def bit_simps simp del: of_nat_diff)
    also have "\<dots> \<longleftrightarrow> i \<le> unat ?H \<and> of_nat (unat ?H - i) \<in> insert c A"
      using key [of i] D cH by (auto simp del: of_nat_diff)
    finally show ?thesis .
  qed
  then have "replay_inv (st\<lparr>seen_bitmap := seen_bitmap st OR push_bit D 1\<rparr>) (insert c A)"
    using inv cH by (simp add: replay_inv_def del: of_nat_diff)
  then show "replay_inv (snd (replay_check c st)) (if c \<in> A then A else insert c A)" using inv by (simp add: eq)
qed

lemma replay_step:
  assumes inv: "replay_inv st A"
  shows "replay_inv (snd (replay_check c st)) (if fst (replay_check c st) then insert c A else A)"
    and "fst (replay_check c st) \<Longrightarrow> c \<notin> A"
    and "unat c < 2 ^ 64 - 64 \<Longrightarrow> unat (highest_inbound (snd (replay_check c st))) = max (unat (highest_inbound st)) (unat c)"
    and "unat c < 2 ^ 64 - 64 \<Longrightarrow> fst (replay_check c st) \<longleftrightarrow> unat (highest_inbound st) < unat c + 64 \<and> c \<notin> A"
proof -
  have "unat c < 2 ^ 64 - 64 \<Longrightarrow> unat (c + 64) = unat c + 64" by (simp add: unat_word_ariths)
  then have old: "unat c < 2 ^ 64 - 64 \<Longrightarrow> c + 64 \<le> highest_inbound st \<longleftrightarrow> unat c + 64 \<le> unat (highest_inbound st)"
    by (simp add: word_le_nat_alt)
  consider (old) "c + 64 \<le> highest_inbound st" | (new) "\<not> c + 64 \<le> highest_inbound st" "highest_inbound st < c"
    | (in_window) "\<not> c + 64 \<le> highest_inbound st" "c \<le> highest_inbound st" by fastforce
  then have "replay_inv (snd (replay_check c st)) (if fst (replay_check c st) then insert c A else A) \<and>
      (fst (replay_check c st) \<longrightarrow> c \<notin> A) \<and>
      (unat c < 2 ^ 64 - 64 \<longrightarrow> unat (highest_inbound (snd (replay_check c st))) = max (unat (highest_inbound st)) (unat c)) \<and>
      (unat c < 2 ^ 64 - 64 \<longrightarrow> fst (replay_check c st) = (unat (highest_inbound st) < unat c + 64 \<and> c \<notin> A))"
  proof cases
    case old
    then have "replay_check c st = (False, st)" by (simp add: replay_check_def REPLAY_WINDOW_def)
    then show ?thesis using inv old \<open>unat c < 2 ^ 64 - 64 \<Longrightarrow> c + 64 \<le> highest_inbound st \<longleftrightarrow> _\<close> by auto
  next
    case new
    then show ?thesis using replay_advance [OF inv new(2,1)] by (auto simp: word_less_nat_alt)
  next
    case in_window
    then show ?thesis
      using replay_window [OF inv in_window(2,1)] old by (auto simp: word_le_nat_alt)
  qed
  then show "replay_inv (snd (replay_check c st)) (if fst (replay_check c st) then insert c A else A)"
    "fst (replay_check c st) \<Longrightarrow> c \<notin> A"
    "unat c < 2 ^ 64 - 64 \<Longrightarrow> unat (highest_inbound (snd (replay_check c st))) = max (unat (highest_inbound st)) (unat c)"
    "unat c < 2 ^ 64 - 64 \<Longrightarrow> fst (replay_check c st) \<longleftrightarrow> unat (highest_inbound st) < unat c + 64 \<and> c \<notin> A"
    by auto
qed

lemma replay_run_distinct: "replay_inv st A \<Longrightarrow> distinct (replay_run st cs) \<and> set (replay_run st cs) \<inter> A = {}"
proof (induction cs arbitrary: st A)
  case (Cons c cs)
  show ?case
    using Cons.IH [OF replay_step(1) [OF Cons.prems, of c]] replay_step(2) [OF Cons.prems, of c]
    by (auto simp: case_prod_unfold Let_def)
qed simp

text \<open>No replays: whatever counters arrive, in whatever order, no counter passes the check twice,
  also when counters wrap at 2^64.\<close>

theorem replay_no_duplicates: "distinct (replay_run new_counter cs)"
  using replay_run_distinct [OF replay_inv_new] by blast

lemma replay_run_window:
  assumes "\<forall>c\<in>set cs. unat c < 2 ^ 64 - 64" "replay_inv st A"
  shows "map unat (replay_run st cs) = window_run (unat (highest_inbound st)) (unat ` A) (map unat cs)"
  using assms
proof (induction cs arbitrary: st A)
  case (Cons c cs)
  have c: "unat c < 2 ^ 64 - 64" using Cons.prems(1) by simp
  note step = replay_step [OF Cons.prems(2), of c]
  have "unat c \<in> unat ` A \<longleftrightarrow> c \<in> A" by (auto simp: image_iff dest: unat_eqD)
  moreover have "map unat (replay_run (snd (replay_check c st)) cs) =
      window_run (max (unat (highest_inbound st)) (unat c)) (unat ` (if fst (replay_check c st) then insert c A else A)) (map unat cs)"
    using Cons.IH [OF _ step(1)] Cons.prems(1) step(3) [OF c] by simp
  ultimately show ?case using step(4) [OF c] by (simp add: case_prod_unfold Let_def)
qed simp

text \<open>C16: The bitmap implements the window: for counters below 2^64 - 64 the check passes exactly
  those that are less than 64 below the highest counter checked so far and have not passed before;
  in particular every fresh counter inside the window passes, in any order of arrival.\<close>

theorem replay_refines_window:
  assumes "\<forall>c\<in>set cs. unat c < 2 ^ 64 - 64"
  shows "map unat (replay_run new_counter cs) = window_run 0 {} (map unat cs)"
  using replay_run_window [OF assms replay_inv_new] by (simp add: new_counter_def)

lemma replay_refines_window_witness:
  "map unat (replay_run new_counter [5, 3, 5, 70, 6, 7, 70]) = [5, 3, 70, 7]"
  using replay_refines_window [of "[5, 3, 5, 70, 6, 7, 70]"] by simp

subsection \<open>Packets\<close>

text \<open>What goes over the wire for a payload: the nonce, the ciphertext and the tag.\<close>

definition sealed_packet :: "bytes \<Rightarrow> u8 \<Rightarrow> u64 \<Rightarrow> bytes \<Rightarrow> bytes" where
  "sealed_packet key dir n d = counter_nonce dir n @ the (aead_seal key (counter_nonce dir n) [] d (length d + TAG_SIZE))"

lemma seal_some: "aead_seal key nonce aad d (length d + TAG_SIZE) = Some (the (aead_seal key nonce aad d (length d + TAG_SIZE)))"
  by (simp add: aead_seal_def Let_def)

lemma length_counter_nonce [simp]: "length (counter_nonce dir n) = 12"
  by (simp add: counter_nonce_def NONCE_SIZE_def store64le_eq)

lemma nonce_fields: "counter_nonce dir n ! 0 = dir" "load64le 4 (counter_nonce dir n) = n"
proof -
  have e: "counter_nonce dir n = (dir # replicate 3 0) @ le_bytes 8 n"
    by (simp add: counter_nonce_def NONCE_SIZE_def store64le_eq overwrite_def replicate_numeral)
  show "counter_nonce dir n ! 0 = dir" by (simp add: e)
  show "load64le 4 (counter_nonce dir n) = n"
    unfolding e by (simp add: load64le_eq of_le_le_bytes_full)
qed

lemma length_sealed_packet: "length (sealed_packet key dir n d) = length d + OVERHEAD"
  using length_seal [OF seal_some] by (simp add: sealed_packet_def OVERHEAD_def NONCE_SIZE_def)

lemma enc_send_to_packet:
  "en_inner (snd (enc_send_to raw T a d r e)) = snd (t_send_to T a (sealed_packet (server_to_client_key e) DIR_SERVER_TO_CLIENT
      (outbound (per_address e (address_hash raw a))) d) r (en_inner e))"
  by (simp add: enc_send_to_def Let_def sealed_packet_def case_prod_unfold) (subst seal_some, simp add: case_prod_unfold Let_def)

text \<open>Receiving, for each direction of a packet that is long enough and fits.\<close>

definition recv_cap :: "nat \<Rightarrow> 's encrypted \<Rightarrow> nat" where
  "recv_cap max_length e = max (recv_scratch e) (max_length + OVERHEAD)"

lemma pop_client_packet:
  assumes pop: "t_pop_receive T (recv_cap n e) (en_inner e) = (Some (p, a), i)"
    and len: "OVERHEAD \<le> length p" "length p - OVERHEAD \<le> n" and dir: "p ! 0 = DIR_CLIENT_TO_SERVER"
  shows "fst (enc_pop_receive raw T n e) =
     (if fst (replay_check (load64le 4 (take 12 p)) (per_address e (address_hash raw a)))
      then map_option (\<lambda>d. (d, a)) (aead_open (client_to_server_key e) (take 12 p) [] (drop 12 p) n) else None)"
    and "per_address (snd (enc_pop_receive raw T n e)) = (per_address e)(address_hash raw a :=
       snd (replay_check (load64le 4 (take 12 p)) (per_address e (address_hash raw a))))"
    and "client_to_server_key (snd (enc_pop_receive raw T n e)) = client_to_server_key e"
    and "en_inner (snd (enc_pop_receive raw T n e)) = i"
  using pop len dir
  by (auto simp: enc_pop_receive_def recv_cap_def Let_def NONCE_SIZE_def TAG_SIZE_def OVERHEAD_def case_prod_unfold
      split: option.splits)

lemma pop_server_packet:
  assumes pop: "t_pop_receive T (recv_cap n e) (en_inner e) = (Some (p, a), i)"
    and len: "OVERHEAD \<le> length p" "length p - OVERHEAD \<le> n" and dir: "p ! 0 = DIR_SERVER_TO_CLIENT"
  shows "fst (enc_pop_receive raw T n e) =
     (if fst (replay_check (load64le 4 (take 12 p)) (client_state e))
      then map_option (\<lambda>d. (d, a)) (aead_open (server_to_client_key e) (take 12 p) [] (drop 12 p) n) else None)"
  using pop len dir
  by (auto simp: enc_pop_receive_def recv_cap_def Let_def NONCE_SIZE_def TAG_SIZE_def OVERHEAD_def case_prod_unfold
      DIR_CLIENT_TO_SERVER_def DIR_SERVER_TO_CLIENT_def split: option.splits)

lemma sealed_packet_nonce [simp]:
  "take 12 (sealed_packet key dir m d) = counter_nonce dir m" "sealed_packet key dir m d ! 0 = dir"
  "load64le 4 (counter_nonce dir m) = m"
  using nonce_fields [of dir m] by (simp_all add: sealed_packet_def nth_append)

lemma open_sealed_packet:
  "length d \<le> n \<Longrightarrow> aead_open key (counter_nonce dir m) [] (drop 12 (sealed_packet key dir m d)) n = Some d"
  using open_sealed [of d n key "counter_nonce dir m" "[]"] by (simp add: sealed_packet_def)

subsection \<open>End to end\<close>

lemma enc_send_effect:
  "\<exists>e'. enc_send T d r e = (fst (t_send T (sealed_packet (client_to_server_key e) DIR_CLIENT_TO_SERVER (outbound (client_state e)) d) r (en_inner e)), e') \<and>
     en_inner e' = snd (t_send T (sealed_packet (client_to_server_key e) DIR_CLIENT_TO_SERVER (outbound (client_state e)) d) r (en_inner e)) \<and>
     outbound (client_state e') = outbound (client_state e) + 1"
proof -
  obtain x where "aead_seal (client_to_server_key e) (counter_nonce DIR_CLIENT_TO_SERVER (outbound (client_state e))) [] d
      (length d + TAG_SIZE) = Some x"
    using seal_some by blast
  then show ?thesis by (simp add: enc_send_def Let_def sealed_packet_def case_prod_unfold)
qed

text \<open>C17: A payload a client sends arrives. The client's \<open>send\<close> hands its inner transport one packet, 28 bytes longer than the payload,
  whatever that transport is, returns what that returns, and counts; and whenever the inner transport of a server with the
  same key delivers that packet from some address, whose window the client's counter passes, \<open>pop_receive\<close> with a buffer large enough
  returns exactly the payload and that address.\<close>

theorem encrypted_delivery:
  "\<exists>p. length p = length d + OVERHEAD \<and>
    (\<forall>T r. \<exists>c'. enc_send T d r c = (fst (t_send T p r (en_inner c)), c') \<and> en_inner c' = snd (t_send T p r (en_inner c)) \<and>
       outbound (client_state c') = outbound (client_state c) + 1) \<and>
    (\<forall>(T :: 't transport) n s a i. client_to_server_key s = client_to_server_key c \<and> length d \<le> n \<and>
       t_pop_receive T (recv_cap n s) (en_inner s) = (Some (p, a), i) \<and>
       fst (replay_check (outbound (client_state c)) (per_address s (address_hash raw a))) \<longrightarrow>
       fst (enc_pop_receive raw T n s) = Some (d, a))"
proof (intro exI [of _ "sealed_packet (client_to_server_key c) DIR_CLIENT_TO_SERVER (outbound (client_state c)) d"] conjI allI impI)
  let ?p = "sealed_packet (client_to_server_key c) DIR_CLIENT_TO_SERVER (outbound (client_state c)) d"
  fix T :: "'t transport" and n :: nat and s :: "'t encrypted" and a :: address and i :: 't
  assume a: "client_to_server_key s = client_to_server_key c \<and> length d \<le> n \<and>
       t_pop_receive T (recv_cap n s) (en_inner s) = (Some (?p, a), i) \<and>
       fst (replay_check (outbound (client_state c)) (per_address s (address_hash raw a)))"
  then have "t_pop_receive T (recv_cap n s) (en_inner s) = (Some (?p, a), i)" by blast
  from pop_client_packet(1) [OF this] show "fst (enc_pop_receive raw T n s) = Some (d, a)"
    using a open_sealed_packet [of d n] by (simp add: length_sealed_packet)
qed (rule length_sealed_packet enc_send_effect)+

text \<open>C7: Everything a client receives was sealed with a session key: a payload \<open>pop_receive\<close> returns
  is the plaintext of a packet of the inner transport that is the sealing, under the key of the
  direction its first byte names and its own nonce, of exactly that payload.\<close>

theorem encrypted_authentic:
  assumes "fst (enc_pop_receive raw T n e) = Some (d, a)"
  shows "\<exists>p i key. t_pop_receive T (recv_cap n e) (en_inner e) = (Some (p, a), i) \<and>
     (p ! 0 = DIR_CLIENT_TO_SERVER \<and> key = client_to_server_key e \<or> p ! 0 = DIR_SERVER_TO_CLIENT \<and> key = server_to_client_key e) \<and>
     aead_seal key (take NONCE_SIZE p) [] d (length d + TAG_SIZE) = Some (drop NONCE_SIZE p)"
proof -
  obtain got i where pop: "t_pop_receive T (recv_cap n e) (en_inner e) = (got, i)" by fastforce
  have popd: "t_pop_receive T (max (recv_scratch e) (n + OVERHEAD)) (en_inner e) = (got, i)" using pop by (simp add: recv_cap_def)
  have ov: "length p - 28 = length p - OVERHEAD" for p :: bytes by (simp add: OVERHEAD_def NONCE_SIZE_def TAG_SIZE_def)
  obtain p a' where got: "got = Some (p, a')" and len: "OVERHEAD \<le> length p" "length p - OVERHEAD \<le> n"
    and dir: "p ! 0 = DIR_CLIENT_TO_SERVER \<or> p ! 0 = DIR_SERVER_TO_CLIENT"
    using assms by (auto simp: enc_pop_receive_def Let_def popd NONCE_SIZE_def TAG_SIZE_def ov split: option.splits if_splits prod.splits)
  note pop' = pop [unfolded got]
  from dir show ?thesis
  proof
    assume d0: "p ! 0 = DIR_CLIENT_TO_SERVER"
    then have "a' = a" "aead_open (client_to_server_key e) (take 12 p) [] (drop 12 p) n = Some d"
      using assms pop_client_packet(1) [OF pop' len d0, of raw] by (auto split: if_splits)
    then show ?thesis using pop' d0 by (auto simp: open_iff_seal_fact NONCE_SIZE_def)
  next
    assume d1: "p ! 0 = DIR_SERVER_TO_CLIENT"
    then have "a' = a" "aead_open (server_to_client_key e) (take 12 p) [] (drop 12 p) n = Some d"
      using assms pop_server_packet [OF pop' len d1, of raw] by (auto split: if_splits)
    then show ?thesis using pop' d1 by (auto simp: open_iff_seal_fact NONCE_SIZE_def)
  qed
qed

text \<open>The endpoint does not check its own role: a packet a client sent, reflected to it from any
  address whose window its counter passes, is accepted by the client itself as a message from
  that address.\<close>

theorem reflected_packet_accepted:
  assumes "length d \<le> n"
    and "t_pop_receive T (recv_cap n e) (en_inner e) =
      (Some (sealed_packet (client_to_server_key e) DIR_CLIENT_TO_SERVER (outbound (client_state e)) d, a), i)"
    and "per_address e (address_hash raw a) = new_counter" "unat (outbound (client_state e)) < 2 ^ 64 - 64"
  shows "fst (enc_pop_receive raw T n e) = Some (d, a)"
proof -
  have "fst (replay_check (outbound (client_state e)) (per_address e (address_hash raw a)))"
    using replay_step(4) [OF replay_inv_new assms(4)] assms(3) by (simp add: new_counter_def)
  then show ?thesis
    using pop_client_packet(1) [OF assms(2)] assms(1) open_sealed_packet [OF assms(1)]
    by (simp add: length_sealed_packet)
qed

text \<open>The window moves before the packet is authenticated: after any packet from an address that
  is long enough and names the client-to-server direction, authentic or not, a genuine packet
  from that address whose counter is 64 or more below that packet's is refused.\<close>

theorem forged_counter_blocks:
  assumes "t_pop_receive T (recv_cap n e) (en_inner e) = (Some (p, a), i)"
    and "OVERHEAD \<le> length p" "length p - OVERHEAD \<le> n" "p ! 0 = DIR_CLIENT_TO_SERVER"
    and "unat (load64le 4 (take 12 p)) < 2 ^ 64 - 64"
    and "t_pop_receive T (recv_cap n (snd (enc_pop_receive raw T n e))) i = (Some (sealed_packet key DIR_CLIENT_TO_SERVER m d, a), j)"
    and "length d \<le> n" "unat m + 64 \<le> unat (load64le 4 (take 12 p))"
    and "replay_inv (per_address e (address_hash raw a)) A"
  shows "fst (enc_pop_receive raw T n (snd (enc_pop_receive raw T n e))) = None"
proof -
  let ?e = "snd (enc_pop_receive raw T n e)" and ?h = "address_hash raw a" and ?q = "sealed_packet key DIR_CLIENT_TO_SERVER m d"
  note pc = pop_client_packet [OF assms(1-4), of raw]
  have inv: "\<exists>B. replay_inv (per_address ?e ?h) B"
    using replay_step(1) [OF assms(9), of "load64le 4 (take 12 p)"] pc(2) by auto
  have "unat (load64le 4 (take 12 p)) \<le> unat (highest_inbound (per_address ?e ?h))"
    using replay_step(3) [OF assms(9,5)] pc(2) by simp
  then have "\<not> unat (highest_inbound (per_address ?e ?h)) < unat m + 64" using assms(8) by simp
  moreover have "unat m < 2 ^ 64 - 64" using assms(5,8) by simp
  ultimately have "\<not> fst (replay_check m (per_address ?e ?h))" using inv replay_step(4) by blast
  then show ?thesis
    using pop_client_packet(1) [of T n ?e ?q a j raw] assms(6,7) pc(4)
    by (simp add: length_sealed_packet)
qed

text \<open>The server seals for all its clients under one key with per-client counters that start at
  zero: the messages with equal counters to two clients are encrypted with the same keystream, so
  that the xor of the two ciphertexts on the wire is the xor of the plaintexts.\<close>

theorem server_keystream_reuse:
  assumes "length p = length q" "address_hash raw a \<noteq> address_hash raw b"
    and "outbound (per_address e (address_hash raw a)) = outbound (per_address e (address_hash raw b))"
    and "e1 = snd (enc_send_to raw T a p r e)"
  shows "\<exists>c1 c2. en_inner e1 = snd (t_send_to T a c1 r (en_inner e)) \<and>
     en_inner (snd (enc_send_to raw T b q r e1)) = snd (t_send_to T b c2 r (en_inner e1)) \<and>
     map2 (XOR) (take (length p) (drop NONCE_SIZE c1)) (take (length p) (drop NONCE_SIZE c2)) = map2 (XOR) p q"
proof -
  let ?m = "outbound (per_address e (address_hash raw a))"
  let ?k = "server_to_client_key e"
  let ?c1 = "sealed_packet ?k DIR_SERVER_TO_CLIENT ?m p" and ?c2 = "sealed_packet ?k DIR_SERVER_TO_CLIENT ?m q"
  have key: "server_to_client_key e1 = ?k" and ctr: "outbound (per_address e1 (address_hash raw b)) = ?m"
    using assms(2,3,4) by (auto simp: enc_send_to_def Let_def case_prod_unfold split: option.splits)
  have body: "take (length d) (drop 12 (sealed_packet ?k DIR_SERVER_TO_CLIENT ?m d)) =
      chacha20_crypt ?k (counter_nonce DIR_SERVER_TO_CLIENT ?m) 1 d" for d
    by (simp add: sealed_packet_def aead_seal_def Let_def)
  have "map2 (XOR) (take (length p) (drop 12 ?c1)) (take (length p) (drop 12 ?c2)) = map2 (XOR) p q"
    using body [of p] body [of q] assms(1) crypt_xor [OF assms(1)] by simp
  then show ?thesis
    using enc_send_to_packet [of raw T a p r e] enc_send_to_packet [of raw T b q r e1] assms(4) key ctr
    by (auto simp: NONCE_SIZE_def)
qed

text \<open>The per-client state is found by a hash of the socket address that adjacent bytes collide
  under: addresses whose bytes differ by 1 in one place and by 31 the other way in the next, such as
  192.168.1.32 and 192.168.2.1 with the same port, share one counter and one replay window.\<close>

theorem address_hash_collision:
  assumes "raw a = u @ [x, y + 31] @ v" "raw b = u @ [x + 1, y] @ v" "unat x < 255" "unat y + 31 < 256"
  shows "address_hash raw a = address_hash raw b"
proof -
  have "unat (x + 1) = unat x + 1" "unat (y + 31) = unat y + 31" using assms(3,4) by (simp_all add: unat_word_ariths)
  then have "(ucast (x + 1) :: u64) = ucast x + 1" "(ucast (y + 31) :: u64) = ucast y + 31"
    by (metis of_nat_1 of_nat_add of_nat_unat of_nat_numeral)+
  then have "(h * 31 + ucast x) * 31 + ucast (y + 31) = (h * 31 + ucast (x + 1)) * 31 + (ucast y :: u64)" for h
    by (simp add: algebra_simps)
  then show ?thesis
    unfolding address_hash_def store_bytes_hash_def assms(1,2) by (simp only: foldl_append foldl.simps)
qed

text \<open>\<open>false\<close> does not mean an empty queue: over UDP, a queued message too short to be sealed makes
  \<open>pop_receive\<close> return \<open>false\<close> while the messages behind it are still waiting, so a client's
  receive loop stops in front of them.\<close>

theorem encrypted_false_not_empty:
  assumes "udp_waiting (en_inner e) = (d, a) # q" "length d < OVERHEAD"
  shows "\<exists>e'. drain (enc_pop_receive raw (udp_transport os sok bok now ins)) n e = Some ([], e') \<and> udp_waiting (en_inner e') = q"
proof -
  let ?T = "udp_transport os sok bok now ins"
  have T: "t_pop_receive ?T = (\<lambda>n u. udp_pop_receive u n)" by (simp add: udp_transport_def)
  obtain u where u: "udp_pop_receive (en_inner e) (max (recv_scratch e) (n + OVERHEAD)) =
      (Some (take (max (recv_scratch e) (n + OVERHEAD)) d, a), u)" "udp_waiting u = q"
    using udpq.pop_some [OF assms(1)] by (metis prod.collapse)
  have "take (max (recv_scratch e) (n + OVERHEAD)) d = d" using assms(2) by simp
  then have "fst (enc_pop_receive raw ?T n e) = None" "en_inner (snd (enc_pop_receive raw ?T n e)) = u"
    using u(1) assms(2) by (simp_all add: enc_pop_receive_def Let_def T)
  then show ?thesis using u(2) by (subst drain.simps) (auto simp: case_prod_unfold split: option.splits)
qed

subsection \<open>Witnesses\<close>

text \<open>A UDP socket with one packet queued, under an endpoint with the all-zero key.\<close>

definition w_transport :: "udp transport" where
  "w_transport = udp_transport (\<lambda>_ _. True) True True 0 []"

definition w_endpoint :: "bytes list \<Rightarrow> udp encrypted" where
  "w_endpoint ps = new_encrypted (new_udp\<lparr>receive_queue := map (\<lambda>p. (addr_default, p)) ps\<rparr>) (replicate 32 0)"

definition w_raw :: "address \<Rightarrow> bytes" where
  "w_raw a = (case storage a of SaV4 p b \<Rightarrow> [2, 0] @ be_bytes 2 p @ b | _ \<Rightarrow> [])"

definition w_addr :: "bytes \<Rightarrow> address" where
  "w_addr b = \<lparr>valid = True, storage = SaV4 7777 b, storage_len = 16\<rparr>"

definition w_key :: bytes where
  "w_key = fst (derive_keys (replicate 32 0))"

lemma w_endpoint_fields:
  "client_to_server_key (w_endpoint ps) = w_key"
  "per_address (w_endpoint ps) h = new_counter" "client_state (w_endpoint ps) = new_counter"
  "recv_scratch (w_endpoint ps) = 0" "udp_waiting (en_inner (w_endpoint ps)) = map (\<lambda>p. (p, addr_default)) ps"
  by (simp_all add: w_endpoint_def new_encrypted_def Let_def case_prod_unfold udp_waiting_def new_udp_def
      w_key_def KEY_SIZE_def overwrite_def)

lemma w_pop:
  assumes "udp_waiting u = (d, a) # q" "length d \<le> n"
  shows "\<exists>u'. t_pop_receive w_transport n u = (Some (d, a), u') \<and> udp_waiting u' = q"
  using udpq.pop_some [OF assms(1), of n] assms(2)
  by (cases "udp_pop_receive u n") (simp add: w_transport_def udp_transport_def)

definition w_client_packet :: "u64 \<Rightarrow> bytes \<Rightarrow> bytes" where
  "w_client_packet m d = sealed_packet w_key DIR_CLIENT_TO_SERVER m d"

lemma w_fresh: "fst (replay_check 0 new_counter)"
  using replay_step(4) [OF replay_inv_new, of 0] by (simp add: new_counter_def)

lemma w_pop_client:
  assumes "length d \<le> 100"
  shows "\<exists>u'. t_pop_receive w_transport (recv_cap 100 (w_endpoint (w_client_packet m d # ps)))
     (en_inner (w_endpoint (w_client_packet m d # ps))) = (Some (w_client_packet m d, addr_default), u')"
proof -
  let ?e = "w_endpoint (w_client_packet m d # ps)"
  have "udp_waiting (en_inner ?e) = (w_client_packet m d, addr_default) # map (\<lambda>p. (p, addr_default)) ps"
    by (simp add: w_endpoint_fields)
  moreover have "length (w_client_packet m d) \<le> recv_cap 100 ?e"
    using assms by (simp add: recv_cap_def w_client_packet_def length_sealed_packet)
  ultimately show ?thesis using w_pop by blast
qed

lemma encrypted_delivery_witness:
  "\<exists>p. (\<exists>c'. enc_send w_transport [1, 2] ReliableOrdered (w_endpoint []) =
       (fst (t_send w_transport p ReliableOrdered (en_inner (w_endpoint []))), c')) \<and>
     fst (enc_pop_receive w_raw w_transport 100 (w_endpoint [p])) = Some ([1, 2], addr_default)"
proof -
  obtain p where p: "length p = 2 + OVERHEAD"
    "\<And>r. \<exists>c'. enc_send w_transport [1, 2] r (w_endpoint []) = (fst (t_send w_transport p r (en_inner (w_endpoint []))), c')"
    "\<And>n s a i. client_to_server_key s = client_to_server_key (w_endpoint []) \<and> 2 \<le> n \<and>
       t_pop_receive w_transport (recv_cap n s) (en_inner s) = (Some (p, a), i) \<and>
       fst (replay_check (outbound (client_state (w_endpoint []))) (per_address s (address_hash w_raw a))) \<Longrightarrow>
       fst (enc_pop_receive w_raw w_transport n s) = Some ([1, 2], a)"
    using encrypted_delivery [of "[1, 2]" "w_endpoint []" w_raw] by (auto simp: numeral_2_eq_2) blast
  let ?s = "w_endpoint [p]"
  have "length p \<le> recv_cap 100 ?s" by (simp add: recv_cap_def p(1))
  then obtain i where "t_pop_receive w_transport (recv_cap 100 ?s) (en_inner ?s) = (Some (p, addr_default), i)"
    using w_pop [of "en_inner ?s" p addr_default "[]"] by (auto simp: w_endpoint_fields)
  then have "fst (enc_pop_receive w_raw w_transport 100 ?s) = Some ([1, 2], addr_default)"
    using w_fresh by (intro p(3)) (simp_all add: w_endpoint_fields new_counter_def)
  then show ?thesis using p(2) by blast
qed

lemma encrypted_authentic_witness:
  "\<exists>key. aead_seal key (take NONCE_SIZE (w_client_packet 0 [1, 2])) [] [1, 2] 18 = Some (drop NONCE_SIZE (w_client_packet 0 [1, 2]))"
proof -
  let ?s = "w_endpoint [w_client_packet 0 [1, 2]]"
  obtain i where i: "t_pop_receive w_transport (recv_cap 100 ?s) (en_inner ?s) = (Some (w_client_packet 0 [1, 2], addr_default), i)"
    using w_pop_client [of "[1, 2]" 0 "[]"] by auto
  then have "fst (enc_pop_receive w_raw w_transport 100 ?s) = Some ([1, 2], addr_default)"
    using pop_client_packet(1) [OF i, of w_raw] w_fresh open_sealed_packet [of "[1, 2]" 100]
    by (simp add: w_endpoint_fields w_client_packet_def length_sealed_packet)
  from encrypted_authentic [OF this] show ?thesis using i by (auto simp: TAG_SIZE_def)
qed

lemma reflected_packet_accepted_witness:
  "fst (enc_pop_receive w_raw w_transport 100 (w_endpoint [w_client_packet 0 [9]])) = Some ([9], addr_default)"
proof -
  let ?s = "w_endpoint [w_client_packet 0 [9]]"
  obtain i where "t_pop_receive w_transport (recv_cap 100 ?s) (en_inner ?s) = (Some (w_client_packet 0 [9], addr_default), i)"
    using w_pop_client [of "[9]" 0 "[]"] by auto
  then show ?thesis
    using reflected_packet_accepted [of "[9]" 100 w_transport ?s addr_default i w_raw]
    by (simp add: w_endpoint_fields w_client_packet_def new_counter_def)
qed

definition w_forged :: bytes where
  "w_forged = counter_nonce DIR_CLIENT_TO_SERVER 1000 @ replicate 16 0"

lemma forged_counter_blocks_witness:
  "fst (enc_pop_receive w_raw w_transport 100 (snd (enc_pop_receive w_raw w_transport 100
      (w_endpoint [w_forged, w_client_packet 5 [1]])))) = None"
proof -
  let ?e = "w_endpoint [w_forged, w_client_packet 5 [1]]"
  have f: "length w_forged = 28" "w_forged ! 0 = DIR_CLIENT_TO_SERVER" "load64le 4 (take 12 w_forged) = 1000"
    using nonce_fields [of DIR_CLIENT_TO_SERVER 1000] by (simp_all add: w_forged_def nth_append)
  obtain i where i: "t_pop_receive w_transport (recv_cap 100 ?e) (en_inner ?e) = (Some (w_forged, addr_default), i)"
    and wi: "udp_waiting i = [(w_client_packet 5 [1], addr_default)]"
    using w_pop [of "en_inner ?e" w_forged addr_default _ "recv_cap 100 ?e"] by (auto simp: w_endpoint_fields recv_cap_def f)
  have "length (w_client_packet 5 [1]) \<le> recv_cap 100 e" for e :: "udp encrypted"
    by (simp add: recv_cap_def w_client_packet_def length_sealed_packet le_max_iff_disj)
  then obtain j where j: "t_pop_receive w_transport (recv_cap 100 (snd (enc_pop_receive w_raw w_transport 100 ?e))) i =
      (Some (w_client_packet 5 [1], addr_default), j)"
    using w_pop [OF wi] by blast
  show ?thesis
    using forged_counter_blocks [of w_transport 100 ?e w_forged addr_default i w_raw w_key 5 "[1]" j "{}"] replay_inv_new i j
    by (simp add: w_client_packet_def f w_endpoint_fields OVERHEAD_def NONCE_SIZE_def TAG_SIZE_def)
qed

lemma w_hashes_differ: "address_hash w_raw (w_addr [10, 0, 0, 1]) \<noteq> address_hash w_raw (w_addr [10, 0, 0, 2])"
  by code_simp

lemma server_keystream_reuse_witness:
  "\<exists>c1 c2. map2 (XOR) (take 2 (drop NONCE_SIZE c1)) (take 2 (drop NONCE_SIZE c2)) = [1 XOR 7, 2 XOR 9 :: u8]"
proof -
  have "length [1, 2 :: u8] = length [7, 9 :: u8]" by simp
  from server_keystream_reuse [OF this w_hashes_differ _ refl, of "w_endpoint []" w_transport ReliableOrdered]
  obtain c1 c2 where "map2 (XOR) (take (length [1, 2 :: u8]) (drop NONCE_SIZE c1)) (take (length [1, 2 :: u8]) (drop NONCE_SIZE c2)) =
      map2 (XOR) [1, 2] [7, 9 :: u8]"
    by (auto simp only: w_endpoint_fields)
  then have "map2 (XOR) (take 2 (drop NONCE_SIZE c1)) (take 2 (drop NONCE_SIZE c2)) = [1 XOR 7, 2 XOR 9 :: u8]"
    by (simp add: numeral_2_eq_2)
  then show ?thesis by (rule exI [of _ c1, OF exI [of _ c2]])
qed

lemma address_hash_collision_witness:
  "address_hash w_raw (w_addr [192, 168, 1, 32]) = address_hash w_raw (w_addr [192, 168, 2, 1])"
  using address_hash_collision [of w_raw "w_addr [192, 168, 1, 32]" "[2, 0] @ be_bytes 2 (7777 :: u16) @ [192, 168]" 1 1 "[]"
      "w_addr [192, 168, 2, 1]"]
  by (simp add: w_raw_def w_addr_def be_bytes_2)

lemma encrypted_false_not_empty_witness:
  "\<exists>e'. drain (enc_pop_receive w_raw w_transport) 100 (w_endpoint [[1, 2, 3], w_client_packet 0 [1]]) = Some ([], e') \<and>
     udp_waiting (en_inner e') = [(w_client_packet 0 [1], addr_default)]"
  unfolding w_transport_def
  by (rule encrypted_false_not_empty [where d = "[1, 2, 3]" and a = addr_default])
     (simp_all add: w_endpoint_fields OVERHEAD_def NONCE_SIZE_def TAG_SIZE_def)

end
