(* ===== verification/RateLimiter.thy ===== *)
theory RateLimiter
  imports Floats
begin

text \<open>
  \<open>RateLimiter\<close> (\<open>src/include/campello_net/rate_limiter.hpp\<close>, \<open>src/src/rate_limiter.cpp\<close>): token buckets for
  messages, bytes and RPCs. The steady clock is a parameter: each operation takes the values that its
  calls of \<open>now_seconds\<close> return, in seconds.

  The lemmas show that a bucket never holds more than its burst, that the calls made at one instant
  are admitted exactly up to the whole tokens in the bucket (the \<open>float\<close> subtractions are exact up to
  \<open>2 ^ 24\<close>), and that the counters account for every call.
\<close>

subsection \<open>Buckets\<close>

record bucket =
  rate_per_sec :: rat
  burst :: rat
  tokens :: rat
  last_update :: rat

definition empty_bucket :: bucket where
  "empty_bucket = \<lparr>rate_per_sec = 0, burst = 0, tokens = 0, last_update = 0\<rparr>"

definition bucket_configure :: "rat \<Rightarrow> rat \<Rightarrow> rat \<Rightarrow> bucket" where
  "bucket_configure now rate burst_size =
     \<lparr>rate_per_sec = max 0 rate, burst = max 0 burst_size, tokens = max 0 burst_size, last_update = now\<rparr>"

definition consume :: "rat \<Rightarrow> rat \<Rightarrow> bucket \<Rightarrow> bool \<times> bucket" where
  "consume now amount b =
     (if rate_per_sec b \<le> 0 \<and> burst b \<le> 0 then (True, b)
      else let elapsed = f64 (now - last_update b);
               b = b\<lparr>last_update := now\<rparr>;
               b = b\<lparr>tokens := f32 (tokens b + f32 (f64 (rate_per_sec b * elapsed)))\<rparr>;
               b = (if burst b < tokens b then b\<lparr>tokens := burst b\<rparr> else b)
           in if amount \<le> tokens b then (True, b\<lparr>tokens := f32 (tokens b - amount)\<rparr>) else (False, b))"

subsection \<open>The limiter\<close>

record limiter_stats =
  messages_allowed :: u64
  messages_dropped :: u64
  bytes_allowed :: u64
  bytes_dropped :: u64
  rpcs_allowed :: u64
  rpcs_dropped :: u64

definition zero_stats :: limiter_stats where
  "zero_stats = \<lparr>messages_allowed = 0, messages_dropped = 0, bytes_allowed = 0, bytes_dropped = 0,
     rpcs_allowed = 0, rpcs_dropped = 0\<rparr>"

record rate_limiter =
  msg_bucket :: bucket
  byte_bucket :: bucket
  rpc_bucket :: bucket
  rl_stats :: limiter_stats

definition new_limiter :: rate_limiter where
  "new_limiter = \<lparr>msg_bucket = empty_bucket, byte_bucket = empty_bucket, rpc_bucket = empty_bucket,
     rl_stats = zero_stats\<rparr>"

definition configure_messages :: "rat \<Rightarrow> rat \<Rightarrow> rat \<Rightarrow> rate_limiter \<Rightarrow> rate_limiter" where
  "configure_messages now rate burst_size l = l\<lparr>msg_bucket := bucket_configure now rate burst_size\<rparr>"

definition configure_bytes :: "rat \<Rightarrow> rat \<Rightarrow> rat \<Rightarrow> rate_limiter \<Rightarrow> rate_limiter" where
  "configure_bytes now rate burst_size l = l\<lparr>byte_bucket := bucket_configure now rate burst_size\<rparr>"

definition configure_rpcs :: "rat \<Rightarrow> rat \<Rightarrow> rat \<Rightarrow> rate_limiter \<Rightarrow> rate_limiter" where
  "configure_rpcs now rate burst_size l = l\<lparr>rpc_bucket := bucket_configure now rate burst_size\<rparr>"

definition allow_message :: "rat \<Rightarrow> rat \<Rightarrow> nat \<Rightarrow> rate_limiter \<Rightarrow> bool \<times> rate_limiter" where
  "allow_message now1 now2 byte_size l =
     (let (msg_ok, mb) = consume now1 1 (msg_bucket l); l = l\<lparr>msg_bucket := mb\<rparr>;
          (byte_ok, bb) = consume now2 (f32 (of_nat byte_size)) (byte_bucket l); l = l\<lparr>byte_bucket := bb\<rparr>;
          st = rl_stats l
      in if msg_ok \<and> byte_ok
         then (True, l\<lparr>rl_stats := st\<lparr>messages_allowed := messages_allowed st + 1,
                 bytes_allowed := bytes_allowed st + of_nat byte_size\<rparr>\<rparr>)
         else (False, l\<lparr>rl_stats := st\<lparr>messages_dropped := messages_dropped st + 1,
                 bytes_dropped := bytes_dropped st + of_nat byte_size\<rparr>\<rparr>))"

definition allow_rpc :: "rat \<Rightarrow> rate_limiter \<Rightarrow> bool \<times> rate_limiter" where
  "allow_rpc now l =
     (let (ok, rb) = consume now 1 (rpc_bucket l); l = l\<lparr>rpc_bucket := rb\<rparr>; st = rl_stats l
      in (ok, l\<lparr>rl_stats := if ok then st\<lparr>rpcs_allowed := rpcs_allowed st + 1\<rparr>
                else st\<lparr>rpcs_dropped := rpcs_dropped st + 1\<rparr>\<rparr>))"

definition reset_stats :: "rate_limiter \<Rightarrow> rate_limiter" where
  "reset_stats l = l\<lparr>rl_stats := zero_stats\<rparr>"

subsection \<open>The invariant of a bucket\<close>

text \<open>The three \<open>float\<close> fields hold \<open>float\<close> numbers, and the tokens are between zero and the burst.\<close>

definition bucket_ok :: "bucket \<Rightarrow> bool" where
  "bucket_ok b \<longleftrightarrow> f32 (burst b) = burst b \<and> f32 (tokens b) = tokens b \<and> 0 \<le> rate_per_sec b \<and>
     0 \<le> tokens b \<and> tokens b \<le> burst b"

lemma bucket_ok_empty [simp]: "bucket_ok empty_bucket"
  by (simp add: bucket_ok_def empty_bucket_def)

lemma bucket_ok_configure: "f32 burst_size = burst_size \<Longrightarrow> bucket_ok (bucket_configure now rate burst_size)"
  by (simp add: bucket_ok_def bucket_configure_def max_def)

lemma burst_consume [simp]: "burst (snd (consume now a b)) = burst b"
  and rate_consume [simp]: "rate_per_sec (snd (consume now a b)) = rate_per_sec b"
  by (simp_all add: consume_def Let_def)

lemma bucket_ok_consume:
  assumes ok: "bucket_ok b" and "0 \<le> a" and mono: "last_update b \<le> now"
  shows "bucket_ok (snd (consume now a b))"
proof -
  define refill where "refill = f32 (f64 (rate_per_sec b * f64 (now - last_update b)))"
  have "0 \<le> refill" unfolding refill_def
    using ok mono by (intro fround_nonneg mult_nonneg_nonneg) (simp_all add: bucket_ok_def)
  then have t: "0 \<le> f32 (tokens b + refill)" using ok by (intro fround_nonneg) (simp_all add: bucket_ok_def)
  have sub: "0 \<le> f32 (x - a) \<and> f32 (x - a) \<le> burst b" if "a \<le> x" "f32 x = x" "x \<le> burst b" for x
    using fround_mono [of "x - a" x 24] fround_nonneg [of "x - a" 24] that \<open>0 \<le> a\<close> by simp
  show ?thesis
    using ok t sub [of "burst b"] sub [of "f32 (tokens b + refill)"]
    by (auto simp: bucket_ok_def consume_def Let_def fround_idem simp flip: refill_def)
qed

subsection \<open>Calls at one instant\<close>

lemma consume_disabled: "rate_per_sec b \<le> 0 \<Longrightarrow> burst b \<le> 0 \<Longrightarrow> consume now a b = (True, b)"
  by (simp add: consume_def)

lemma consume_now:
  "bucket_ok b \<Longrightarrow> 0 < burst b \<Longrightarrow> consume (last_update b) a b =
     (if a \<le> tokens b then (True, b\<lparr>tokens := f32 (tokens b - a)\<rparr>) else (False, b))"
  by (auto simp: consume_def Let_def bucket_ok_def)

text \<open>A bucket whose rate is zero gets no tokens back, however long it waits.\<close>

lemma consume_rate_zero:
  "bucket_ok b \<Longrightarrow> 0 < burst b \<Longrightarrow> rate_per_sec b = 0 \<Longrightarrow> consume now a b =
     (if a \<le> tokens b then (True, b\<lparr>last_update := now, tokens := f32 (tokens b - a)\<rparr>)
      else (False, b\<lparr>last_update := now\<rparr>))"
  by (auto simp: consume_def Let_def bucket_ok_def)

text \<open>The calls of one client, as a run: the results and the final state.\<close>

fun message_run :: "(rat \<times> rat \<times> nat) list \<Rightarrow> rate_limiter \<Rightarrow> bool list \<times> rate_limiter" where
  "message_run [] l = ([], l)"
| "message_run ((now1, now2, n) # cs) l =
     (let (ok, l) = allow_message now1 now2 n l; (oks, l) = message_run cs l in (ok # oks, l))"

definition bytes_off :: "rate_limiter \<Rightarrow> bool" where
  "bytes_off l \<longleftrightarrow> rate_per_sec (byte_bucket l) \<le> 0 \<and> burst (byte_bucket l) \<le> 0"

lemma allow_message_bytes_off:
  "bytes_off l \<Longrightarrow> allow_message now1 now2 n l = (fst (consume now1 1 (msg_bucket l)),
     let l' = l\<lparr>msg_bucket := snd (consume now1 1 (msg_bucket l))\<rparr>; st = rl_stats l
     in if fst (consume now1 1 (msg_bucket l))
        then l'\<lparr>rl_stats := st\<lparr>messages_allowed := messages_allowed st + 1, bytes_allowed := bytes_allowed st + of_nat n\<rparr>\<rparr>
        else l'\<lparr>rl_stats := st\<lparr>messages_dropped := messages_dropped st + 1, bytes_dropped := bytes_dropped st + of_nat n\<rparr>\<rparr>)"
  by (simp add: bytes_off_def allow_message_def consume_disabled Let_def case_prod_unfold)

text \<open>One call while no tokens come back: the bucket gives one token or refuses.\<close>

definition frozen :: "rat \<Rightarrow> bucket \<Rightarrow> bool" where
  "frozen now b \<longleftrightarrow> rate_per_sec b = 0 \<or> now = last_update b"

lemma consume_frozen:
  assumes ok: "bucket_ok b" and "0 < burst b" "tokens b \<le> 2 ^ 24" and fr: "frozen now b"
  shows "consume now 1 b = (if 1 \<le> tokens b then (True, b\<lparr>last_update := now, tokens := tokens b - 1\<rparr>)
                            else (False, b\<lparr>last_update := now\<rparr>))"
proof -
  have sub: "f32 (tokens b - 1) = tokens b - 1" if "1 \<le> tokens b"
    using fround_diff_nat [of 24 "tokens b" 1] assms that by (simp add: bucket_ok_def)
  show ?thesis
  proof (cases "rate_per_sec b = 0")
    case True
    then show ?thesis using consume_rate_zero [OF ok assms(2)] sub by simp
  next
    case False
    then show ?thesis using consume_now [OF ok assms(2)] fr sub by (auto simp: frozen_def)
  qed
qed

lemma allow_message_frozen:
  assumes "bucket_ok (msg_bucket l)" "0 < burst (msg_bucket l)" "tokens (msg_bucket l) \<le> 2 ^ 24"
    "frozen now1 (msg_bucket l)" "bytes_off l"
  obtains l' where "allow_message now1 now2 n l = (1 \<le> tokens (msg_bucket l), l')"
    "msg_bucket l' = (msg_bucket l)\<lparr>last_update := now1, tokens := tokens (msg_bucket l) - (if 1 \<le> tokens (msg_bucket l) then 1 else 0)\<rparr>"
    "byte_bucket l' = byte_bucket l"
    "messages_allowed (rl_stats l') = messages_allowed (rl_stats l) + (if 1 \<le> tokens (msg_bucket l) then 1 else 0)"
    "messages_dropped (rl_stats l') = messages_dropped (rl_stats l) + (if 1 \<le> tokens (msg_bucket l) then 0 else 1)"
  using that assms by (cases "1 \<le> tokens (msg_bucket l)")
    (simp_all add: allow_message_bytes_off consume_frozen Let_def)

lemma run_no_refill:
  assumes "bucket_ok (msg_bucket l)" "0 < burst (msg_bucket l)" "tokens (msg_bucket l) \<le> 2 ^ 24" "bytes_off l"
    and "\<forall>c\<in>set cs. rate_per_sec (msg_bucket l) = 0 \<or> fst c = last_update (msg_bucket l)"
    and "k = min (length cs) (nat \<lfloor>tokens (msg_bucket l)\<rfloor>)"
  shows "fst (message_run cs l) = replicate k True @ replicate (length cs - k) False \<and>
     messages_allowed (rl_stats (snd (message_run cs l))) = messages_allowed (rl_stats l) + of_nat k \<and>
     messages_dropped (rl_stats (snd (message_run cs l))) = messages_dropped (rl_stats l) + of_nat (length cs - k)"
  using assms
proof (induction cs arbitrary: l k)
  case Nil
  then show ?case by simp
next
  case (Cons c cs)
  obtain now1 now2 n where c: "c = (now1, now2, n)" by (rule prod_cases3)
  let ?b = "msg_bucket l"
  have fr: "frozen now1 ?b" using Cons.prems(5) c by (auto simp: frozen_def)
  obtain l' where l': "allow_message now1 now2 n l = (1 \<le> tokens ?b, l')"
    "msg_bucket l' = ?b\<lparr>last_update := now1, tokens := tokens ?b - (if 1 \<le> tokens ?b then 1 else 0)\<rparr>"
    "byte_bucket l' = byte_bucket l"
    "messages_allowed (rl_stats l') = messages_allowed (rl_stats l) + (if 1 \<le> tokens ?b then 1 else 0)"
    "messages_dropped (rl_stats l') = messages_dropped (rl_stats l) + (if 1 \<le> tokens ?b then 0 else 1)"
    using allow_message_frozen [OF Cons.prems(1,2,3) fr Cons.prems(4)] by blast
  define j where "j = min (length cs) (nat \<lfloor>tokens (msg_bucket l')\<rfloor>)"
  have sub: "f32 (tokens ?b - 1) = tokens ?b - 1" if "1 \<le> tokens ?b"
    using fround_diff_nat [of 24 "tokens ?b" 1] Cons.prems that by (simp add: bucket_ok_def)
  have ok: "bucket_ok (msg_bucket l')" "0 < burst (msg_bucket l')" "tokens (msg_bucket l') \<le> 2 ^ 24" "bytes_off l'"
    using Cons.prems sub by (auto simp: bucket_ok_def l' bytes_off_def)
  have frs: "\<forall>c\<in>set cs. rate_per_sec (msg_bucket l') = 0 \<or> fst c = last_update (msg_bucket l')"
    using Cons.prems(5) c by (auto simp: l')
  note IH = Cons.IH [OF ok frs j_def]
  have run: "message_run (c # cs) l = ((1 \<le> tokens ?b) # fst (message_run cs l'), snd (message_run cs l'))"
    by (simp add: c l'(1) case_prod_unfold Let_def)
  show ?case
  proof (cases "1 \<le> tokens ?b")
    case True
    then have "1 \<le> nat \<lfloor>tokens ?b\<rfloor>" by linarith
    moreover have "nat \<lfloor>tokens (msg_bucket l')\<rfloor> = nat \<lfloor>tokens ?b\<rfloor> - 1"
      using True by (simp add: l'(2) nat_diff_distrib)
    ultimately have k: "k = Suc j" using Cons.prems(6) by (cases "nat \<lfloor>tokens ?b\<rfloor>") (simp_all add: j_def)
    show ?thesis using IH True by (simp add: run k l'(4,5))
  next
    case False
    then have "nat \<lfloor>tokens ?b\<rfloor> = 0" by linarith
    then have "k = 0" "j = 0" using Cons.prems(6) False by (simp_all add: j_def l'(2))
    then show ?thesis using IH False by (simp add: run l'(4,5))
  qed
qed

text \<open>While no tokens come back, because the calls happen at one instant or because the configured rate
  is zero, a limiter with a message burst of at most \<open>2 ^ 24\<close> admits exactly as many messages as its bucket
  holds whole tokens, the first ones, refuses all others, and counts every one of them. In particular a rate
  limit of zero with a positive burst does not disable the check: it refuses for ever once the burst is spent.\<close>

theorem message_admission:
  assumes "bucket_ok (msg_bucket l)" "0 < burst (msg_bucket l)" "tokens (msg_bucket l) \<le> 2 ^ 24" "bytes_off l"
    and "\<forall>c\<in>set cs. rate_per_sec (msg_bucket l) = 0 \<or> fst c = last_update (msg_bucket l)"
    and "k = min (length cs) (nat \<lfloor>tokens (msg_bucket l)\<rfloor>)"
  shows "fst (message_run cs l) = replicate k True @ replicate (length cs - k) False \<and>
     messages_allowed (rl_stats (snd (message_run cs l))) = messages_allowed (rl_stats l) + of_nat k \<and>
     messages_dropped (rl_stats (snd (message_run cs l))) = messages_dropped (rl_stats l) + of_nat (length cs - k)"
  using assms by (rule run_no_refill)

theorem message_admission_witness:
  "fst (message_run [(9, 9, 100), (10, 10, 7), (10 ^ 6, 10 ^ 6, 1)] (configure_messages 5 0 2 new_limiter)) = [True, True, False]"
  using message_admission [of "configure_messages 5 0 2 new_limiter" "[(9, 9, 100), (10, 10, 7), (10 ^ 6, 10 ^ 6, 1)]" 2]
  by (simp add: configure_messages_def bucket_configure_def bucket_ok_def bytes_off_def new_limiter_def
      empty_bucket_def numeral_2_eq_2)

subsection \<open>Every limiter in use\<close>

text \<open>\<open>limiter_at T l\<close>: the limiter is reached by calls of its operations at times up to \<open>T\<close>, on a steady
  clock, configured with \<open>float\<close> arguments.\<close>

inductive limiter_at :: "rat \<Rightarrow> rate_limiter \<Rightarrow> bool" where
  start: "0 \<le> now \<Longrightarrow> limiter_at now new_limiter"
| messages: "limiter_at t l \<Longrightarrow> t \<le> now \<Longrightarrow> f32 b = b \<Longrightarrow> limiter_at now (configure_messages now r b l)"
| bytes: "limiter_at t l \<Longrightarrow> t \<le> now \<Longrightarrow> f32 b = b \<Longrightarrow> limiter_at now (configure_bytes now r b l)"
| rpcs: "limiter_at t l \<Longrightarrow> t \<le> now \<Longrightarrow> f32 b = b \<Longrightarrow> limiter_at now (configure_rpcs now r b l)"
| message: "limiter_at t l \<Longrightarrow> t \<le> now1 \<Longrightarrow> now1 \<le> now2 \<Longrightarrow> limiter_at now2 (snd (allow_message now1 now2 n l))"
| rpc: "limiter_at t l \<Longrightarrow> t \<le> now \<Longrightarrow> limiter_at now (snd (allow_rpc now l))"
| reset: "limiter_at t l \<Longrightarrow> limiter_at t (reset_stats l)"

definition buckets_ok :: "rat \<Rightarrow> rate_limiter \<Rightarrow> bool" where
  "buckets_ok t l \<longleftrightarrow> (\<forall>b\<in>{msg_bucket l, byte_bucket l, rpc_bucket l}. bucket_ok b \<and> last_update b \<le> t)"

lemma last_update_consume: "last_update (snd (consume now a b)) = (if rate_per_sec b \<le> 0 \<and> burst b \<le> 0 then last_update b else now)"
  by (simp add: consume_def Let_def)

lemma allow_message_buckets:
  "msg_bucket (snd (allow_message now1 now2 n l)) = snd (consume now1 1 (msg_bucket l))"
  "byte_bucket (snd (allow_message now1 now2 n l)) = snd (consume now2 (f32 (of_nat n)) (byte_bucket l))"
  "rpc_bucket (snd (allow_message now1 now2 n l)) = rpc_bucket l"
  by (simp_all add: allow_message_def Let_def case_prod_unfold)

lemma allow_rpc_buckets:
  "msg_bucket (snd (allow_rpc now l)) = msg_bucket l" "byte_bucket (snd (allow_rpc now l)) = byte_bucket l"
  "rpc_bucket (snd (allow_rpc now l)) = snd (consume now 1 (rpc_bucket l))"
  by (simp_all add: allow_rpc_def Let_def case_prod_unfold)

lemma buckets_ok_at: "limiter_at t l \<Longrightarrow> buckets_ok t l"
proof (induction rule: limiter_at.induct)
  case (start now)
  then show ?case by (simp add: buckets_ok_def new_limiter_def) (simp add: empty_bucket_def)
next
  case (message t l now1 now2 n)
  then show ?case
    by (auto simp: buckets_ok_def allow_message_buckets last_update_consume intro!: bucket_ok_consume fround_nonneg)
next
  case (rpc t l now)
  then show ?case
    by (auto simp: buckets_ok_def allow_rpc_buckets last_update_consume intro!: bucket_ok_consume)
next
  case (reset t l)
  then show ?case by (simp add: buckets_ok_def reset_stats_def)
qed (auto simp: buckets_ok_def configure_messages_def configure_bytes_def configure_rpcs_def bucket_ok_configure
       bucket_configure_def [THEN arg_cong [of _ _ last_update]])

text \<open>In every state a limiter reaches by any sequence of configurations and checks on a steady clock,
  each bucket holds between zero tokens and its burst, a \<open>float\<close> number of them, and was last updated in the past.\<close>

theorem limiter_invariant:
  "limiter_at t l \<Longrightarrow> b \<in> {msg_bucket l, byte_bucket l, rpc_bucket l} \<Longrightarrow>
     0 \<le> tokens b \<and> tokens b \<le> burst b \<and> f32 (tokens b) = tokens b \<and> last_update b \<le> t"
  using buckets_ok_at [of t l] by (auto simp: buckets_ok_def bucket_ok_def)

theorem limiter_invariant_witness:
  "0 \<le> tokens (rpc_bucket (configure_rpcs 7 30 60 new_limiter))"
  using limiter_invariant [OF limiter_at.rpcs [OF limiter_at.start [of 7], of 7 60 30],
      of "rpc_bucket (configure_rpcs 7 30 60 new_limiter)"] by simp

end
