(* ===== verification/NetworkClock.thy ===== *)
theory NetworkClock
  imports Floats
begin

text \<open>
  \<open>NetworkTime\<close> (\<open>src/src/network_time.cpp\<close>), the smoothed clock offset and round-trip time of a client, and
  \<open>NetworkClock\<close> (\<open>src/src/network_clock.cpp\<close>), the simulation clock that turns frame times into ticks.

  Times are \<open>double\<close> numbers. The clock keeps a pointer to a \<open>NetworkTime\<close> that its owner goes on updating:
  the state records whether the pointer is set (\<open>has_net_time\<close>), and the operations that follow it take
  the pointed-to object's current value. The loop of \<open>advance\<close> is a \<open>partial_function\<close>, \<open>None\<close> when it
  does not end; the conversions of a \<open>double\<close> to \<open>NetTick\<close> that C++ leaves undefined are \<open>None\<close>, too.
\<close>

subsection \<open>NetworkTime\<close>

record network_time =
  smoothed_offset :: rat
  smoothed_rtt :: rat
  sample_count :: u32

definition new_network_time :: network_time where
  "new_network_time = \<lparr>smoothed_offset = 0, smoothed_rtt = 0, sample_count = 0\<rparr>"

definition ALPHA_OFFSET :: rat where "ALPHA_OFFSET = f64 (1 / 10)"

definition ALPHA_RTT :: rat where "ALPHA_RTT = f64 (1 / 5)"

definition raw_rtt :: "rat \<Rightarrow> rat \<Rightarrow> rat \<Rightarrow> rat \<Rightarrow> rat" where
  "raw_rtt t0 t1 t2 t3 = f64 (f64 (t3 - t0) - f64 (t2 - t1))"

definition raw_offset :: "rat \<Rightarrow> rat \<Rightarrow> rat \<Rightarrow> rat \<Rightarrow> rat" where
  "raw_offset t0 t1 t2 t3 = f64 (f64 (f64 (t1 - t0) + f64 (t2 - t3)) * (1 / 2))"

definition smooth :: "rat \<Rightarrow> rat \<Rightarrow> rat \<Rightarrow> rat" where
  "smooth alpha x raw = f64 (x + f64 (alpha * f64 (raw - x)))"

definition record_sample :: "rat \<Rightarrow> rat \<Rightarrow> rat \<Rightarrow> rat \<Rightarrow> network_time \<Rightarrow> network_time" where
  "record_sample t0 t1 t2 t3 nt =
     (let raw_r = raw_rtt t0 t1 t2 t3; raw_o = raw_offset t0 t1 t2 t3;
          nt = (if sample_count nt = 0 then nt\<lparr>smoothed_offset := raw_o, smoothed_rtt := raw_r\<rparr>
                else nt\<lparr>smoothed_offset := smooth ALPHA_OFFSET (smoothed_offset nt) raw_o,
                        smoothed_rtt := smooth ALPHA_RTT (smoothed_rtt nt) raw_r\<rparr>)
      in nt\<lparr>sample_count := sample_count nt + 1\<rparr>)"

definition local_to_remote :: "rat \<Rightarrow> network_time \<Rightarrow> rat" where
  "local_to_remote local_time nt = f64 (local_time + smoothed_offset nt)"

definition remote_to_local :: "rat \<Rightarrow> network_time \<Rightarrow> rat" where
  "remote_to_local remote_time nt = f64 (remote_time - smoothed_offset nt)"

definition nt_reset :: "network_time \<Rightarrow> network_time" where
  "nt_reset nt = nt\<lparr>smoothed_offset := 0, smoothed_rtt := 0, sample_count := 0\<rparr>"

subsection \<open>The smoothed values stay within the samples\<close>

lemma alpha_bounds: "0 \<le> ALPHA_OFFSET" "4 * ALPHA_OFFSET \<le> 1" "0 \<le> ALPHA_RTT" "4 * ALPHA_RTT \<le> 1"
proof -
  have q: "f64 (1 / 4) = 1 / 4" using fround_scaled [of 1 53 "- 2"] by simp
  show "0 \<le> ALPHA_OFFSET" "0 \<le> ALPHA_RTT" by (simp_all add: ALPHA_OFFSET_def ALPHA_RTT_def fround_nonneg)
  show "4 * ALPHA_OFFSET \<le> 1" "4 * ALPHA_RTT \<le> 1"
    using fround_mono [of "1 / 10" "1 / 4" 53] fround_mono [of "1 / 5" "1 / 4" 53] q
    by (simp_all add: ALPHA_OFFSET_def ALPHA_RTT_def)
qed

text \<open>Each of the two inner roundings at most doubles; a quarter of the distance leaves room for both.\<close>

lemma smooth_le:
  assumes "raw \<le> hi" "x \<le> hi" "f64 hi = hi" "0 \<le> alpha" "4 * alpha \<le> 1"
  shows "smooth alpha x raw \<le> hi"
proof -
  have "f64 (raw - x) \<le> 2 * (hi - x)"
    using fround_mono [of "raw - x" "hi - x" 53] fround_le_double [of "hi - x" 53] assms by simp
  then have "alpha * f64 (raw - x) \<le> alpha * (2 * (hi - x))" using assms by (intro mult_left_mono) simp_all
  then have "f64 (alpha * f64 (raw - x)) \<le> 2 * (alpha * (2 * (hi - x)))"
    using fround_mono [of "alpha * f64 (raw - x)" "alpha * (2 * (hi - x))" 53]
      fround_le_double [of "alpha * (2 * (hi - x))" 53] assms by simp
  also have "\<dots> = 4 * alpha * (hi - x)" by simp
  also have "\<dots> \<le> 1 * (hi - x)" using assms by (intro mult_right_mono) simp_all
  finally have "x + f64 (alpha * f64 (raw - x)) \<le> hi" by simp
  from fround_mono [OF this, of 53] show ?thesis using assms by (simp add: smooth_def)
qed

lemma smooth_uminus: "smooth alpha (- x) (- raw) = - smooth alpha x raw"
proof -
  have "- raw - - x = - (raw - x)" by simp
  then have "alpha * f64 (- raw - - x) = - (alpha * f64 (raw - x))" by (simp only: fround_uminus mult_minus_right)
  moreover have "- x + - y = - (x + y)" for y by simp
  ultimately show ?thesis unfolding smooth_def by (simp only: fround_uminus)
qed

lemma smooth_ge:
  assumes "lo \<le> raw" "lo \<le> x" "f64 lo = lo" "0 \<le> alpha" "4 * alpha \<le> 1"
  shows "lo \<le> smooth alpha x raw"
  using smooth_le [of "- raw" "- lo" "- x" alpha] assms by (simp add: smooth_uminus fround_uminus)

fun sync_run :: "(rat \<times> rat \<times> rat \<times> rat) list \<Rightarrow> network_time \<Rightarrow> network_time" where
  "sync_run [] nt = nt"
| "sync_run ((t0, t1, t2, t3) # ss) nt = sync_run ss (record_sample t0 t1 t2 t3 nt)"

definition offsets_in :: "rat \<Rightarrow> rat \<Rightarrow> (rat \<times> rat \<times> rat \<times> rat) list \<Rightarrow> bool" where
  "offsets_in lo hi ss \<longleftrightarrow> f64 lo = lo \<and> f64 hi = hi \<and>
     (\<forall>(t0, t1, t2, t3)\<in>set ss. lo \<le> raw_offset t0 t1 t2 t3 \<and> raw_offset t0 t1 t2 t3 \<le> hi)"

definition rtts_in :: "rat \<Rightarrow> rat \<Rightarrow> (rat \<times> rat \<times> rat \<times> rat) list \<Rightarrow> bool" where
  "rtts_in lo hi ss \<longleftrightarrow> f64 lo = lo \<and> f64 hi = hi \<and>
     (\<forall>(t0, t1, t2, t3)\<in>set ss. lo \<le> raw_rtt t0 t1 t2 t3 \<and> raw_rtt t0 t1 t2 t3 \<le> hi)"

lemma sync_run_offset:
  "offsets_in lo hi ss \<Longrightarrow> sample_count nt = 0 \<and> ss \<noteq> [] \<or> lo \<le> smoothed_offset nt \<and> smoothed_offset nt \<le> hi \<Longrightarrow>
     lo \<le> smoothed_offset (sync_run ss nt) \<and> smoothed_offset (sync_run ss nt) \<le> hi"
proof (induction ss nt rule: sync_run.induct)
  case (2 t0 t1 t2 t3 ss nt)
  have "lo \<le> smoothed_offset (record_sample t0 t1 t2 t3 nt) \<and> smoothed_offset (record_sample t0 t1 t2 t3 nt) \<le> hi"
    using "2.prems" alpha_bounds
    by (auto simp: record_sample_def Let_def offsets_in_def intro!: smooth_le smooth_ge)
  then show ?case using "2.IH" "2.prems"(1) by (simp add: offsets_in_def)
qed simp

lemma sync_run_rtt:
  "rtts_in lo hi ss \<Longrightarrow> sample_count nt = 0 \<and> ss \<noteq> [] \<or> lo \<le> smoothed_rtt nt \<and> smoothed_rtt nt \<le> hi \<Longrightarrow>
     lo \<le> smoothed_rtt (sync_run ss nt) \<and> smoothed_rtt (sync_run ss nt) \<le> hi"
proof (induction ss nt rule: sync_run.induct)
  case (2 t0 t1 t2 t3 ss nt)
  have "lo \<le> smoothed_rtt (record_sample t0 t1 t2 t3 nt) \<and> smoothed_rtt (record_sample t0 t1 t2 t3 nt) \<le> hi"
    using "2.prems" alpha_bounds
    by (auto simp: record_sample_def Let_def rtts_in_def intro!: smooth_le smooth_ge)
  then show ?case using "2.IH" "2.prems"(1) by (simp add: rtts_in_def)
qed simp

text \<open>After any number of synchronisation samples the smoothed offset lies between the least and the greatest
  offset the samples measured, and the smoothed round-trip time between the least and the greatest of theirs,
  with every floating-point rounding of the update included (and whenever the sample counter wraps).\<close>

theorem smoothing_within_samples:
  "ss \<noteq> [] \<Longrightarrow> offsets_in lo hi ss \<Longrightarrow> rtts_in rlo rhi ss \<Longrightarrow>
     lo \<le> smoothed_offset (sync_run ss new_network_time) \<and> smoothed_offset (sync_run ss new_network_time) \<le> hi \<and>
     rlo \<le> smoothed_rtt (sync_run ss new_network_time) \<and> smoothed_rtt (sync_run ss new_network_time) \<le> rhi"
  using sync_run_offset [of lo hi ss new_network_time] sync_run_rtt [of rlo rhi ss new_network_time]
  by (simp add: new_network_time_def)

theorem smoothing_within_samples_witness:
  "5 \<le> smoothed_offset (sync_run [(0, 6, 6, 2), (10, 18, 18, 12)] new_network_time) \<and>
   smoothed_offset (sync_run [(0, 6, 6, 2), (10, 18, 18, 12)] new_network_time) \<le> 7"
  using smoothing_within_samples [of "[(0, 6, 6, 2), (10, 18, 18, 12)]" 5 7 2 2]
  by (simp add: offsets_in_def rtts_in_def raw_offset_def raw_rtt_def)

subsection \<open>NetworkClock\<close>

record network_clock =
  tick_rate :: rat
  tick_interval :: rat
  accumulator :: rat
  clock_tick :: u32
  has_net_time :: bool

definition set_tick_rate :: "rat \<Rightarrow> network_clock \<Rightarrow> network_clock" where
  "set_tick_rate hz c = c\<lparr>tick_rate := hz, tick_interval := (if 0 < hz then f64 (1 / hz) else 0)\<rparr>"

definition new_network_clock :: "rat \<Rightarrow> network_clock" where
  "new_network_clock rate = set_tick_rate rate
     \<lparr>tick_rate = 30, tick_interval = f64 (1 / 30), accumulator = 0, clock_tick = 0, has_net_time = False\<rparr>"

definition set_network_time :: "bool \<Rightarrow> network_clock \<Rightarrow> network_clock" where
  "set_network_time attached c = c\<lparr>has_net_time := attached\<rparr>"

definition tick_eps :: rat where "tick_eps = f64 (1 / 10 ^ 9)"

partial_function (option) run_ticks :: "rat \<Rightarrow> rat \<Rightarrow> u32 \<Rightarrow> (rat \<times> u32) option" where
  "run_ticks interval acc t =
     (if interval \<le> f64 (acc + tick_eps) then run_ticks interval (f64 (acc - interval)) (t + 1)
      else Some (acc, t))"

definition advance :: "rat \<Rightarrow> network_clock \<Rightarrow> network_clock option" where
  "advance delta_time c =
     map_option (\<lambda>(acc, t). c\<lparr>accumulator := acc, clock_tick := t\<rparr>)
       (run_ticks (tick_interval c) (f64 (accumulator c + delta_time)) (clock_tick c))"

definition to_tick :: "rat \<Rightarrow> u32 option" where
  "to_tick x = (if - 1 < x \<and> x < 2 ^ 32 then Some (of_int (if 0 \<le> x then \<lfloor>x\<rfloor> else \<lceil>x\<rceil>)) else None)"

definition expected_tick :: "network_time \<Rightarrow> u32 \<Rightarrow> network_clock \<Rightarrow> u32 option" where
  "expected_tick nt server_tick c =
     (let one_way = f64 (smoothed_rtt nt * (1 / 2))
      in if tick_interval c = 0 then None
         else map_option (\<lambda>k. server_tick + k) (to_tick (f64 (f64 (one_way / tick_interval c) + 1 / 2))))"

definition follow :: "u32 \<Rightarrow> network_clock \<Rightarrow> network_clock" where
  "follow expected c =
     (let drift = uint expected - uint (clock_tick c)
      in if 2 < \<bar>drift\<bar> then c\<lparr>clock_tick := expected, accumulator := 0\<rparr>
         else if 0 < drift then
           (let c = c\<lparr>accumulator := f64 (accumulator c + f64 (tick_interval c * (1 / 2)))\<rparr>
            in if tick_interval c \<le> accumulator c
               then c\<lparr>accumulator := f64 (accumulator c - tick_interval c), clock_tick := clock_tick c + 1\<rparr>
               else c)
         else if drift < 0 then c\<lparr>accumulator := f64 (accumulator c - f64 (tick_interval c * (1 / 2)))\<rparr>
         else c)"

definition align_to_server_tick :: "network_time \<Rightarrow> u32 \<Rightarrow> network_clock \<Rightarrow> network_clock option" where
  "align_to_server_tick nt server_tick c =
     (if \<not> has_net_time c then Some (c\<lparr>clock_tick := server_tick, accumulator := 0\<rparr>)
      else map_option (\<lambda>expected. follow expected c) (expected_tick nt server_tick c))"

definition interpolation_factor :: "network_clock \<Rightarrow> rat" where
  "interpolation_factor c =
     (if tick_interval c \<le> 0 then 0 else f32 (f64 (accumulator c / tick_interval c)))"

definition time_until_next_tick :: "network_clock \<Rightarrow> rat" where
  "time_until_next_tick c = f32 (f64 (tick_interval c - accumulator c))"

definition estimated_server_tick :: "network_time \<Rightarrow> rat \<Rightarrow> network_clock \<Rightarrow> u32 option" where
  "estimated_server_tick nt local_time c =
     (if \<not> has_net_time c \<or> tick_interval c \<le> 0 then Some (clock_tick c)
      else to_tick (f64 (local_to_remote local_time nt / tick_interval c)))"

definition clock_reset :: "network_clock \<Rightarrow> network_clock" where
  "clock_reset c = c\<lparr>accumulator := 0, clock_tick := 0\<rparr>"

subsection \<open>The loop of advance\<close>

lemma tick_eps_pos: "0 < tick_eps"
  unfolding tick_eps_def by (rule fround_pos) simp_all

text \<open>Every pass takes at least half an interval off an accumulator that is above minus one interval.\<close>

lemma run_ticks_returns:
  assumes i: "0 < i" "tick_eps \<le> i" "i \<le> A" "A \<le> 2 ^ 51 * i"
  shows "a \<le> A \<Longrightarrow> \<exists>n a'. run_ticks i a t = Some (a', t + of_nat n) \<and> f64 (a' + tick_eps) < i \<and>
           \<bar>a - of_nat n * i - a'\<bar> \<le> of_nat n * (A / 2 ^ 52)"
proof (induction "nat \<lceil>(a + i) / (i / 2)\<rceil>" arbitrary: a t rule: less_induct)
  case less
  show ?case
  proof (cases "i \<le> f64 (a + tick_eps)")
    case False
    then show ?thesis by (intro exI [of _ 0] exI [of _ a]) (simp add: run_ticks.simps [of i a t])
  next
    case True
    define b where "b = f64 (a - i)"
    have "0 < a + tick_eps"
    proof (rule ccontr)
      assume "\<not> ?thesis"
      then show False using True i(1) fround_mono [of "a + tick_eps" 0 53] by simp
    qed
    then have a: "- i < a" using i by linarith
    have "\<bar>a - i\<bar> \<le> 2 * A" using a less.prems i by linarith
    then have err: "\<bar>b - (a - i)\<bar> \<le> A / 2 ^ 52"
      unfolding b_def using fround_error [of 53 "a - i"] by simp
    also have half: "A / 2 ^ 52 \<le> i / 2" using i(4) by simp
    finally have b: "b \<le> a - i / 2" by linarith
    have "(b + i) / (i / 2) \<le> (a + i - i / 2) / (i / 2)" using b i(1) by (intro divide_right_mono) simp_all
    also have "\<dots> = (a + i) / (i / 2) - 1" using i(1) by (simp add: field_simps)
    finally have "\<lceil>(b + i) / (i / 2)\<rceil> \<le> \<lceil>(a + i) / (i / 2)\<rceil> - 1"
      using ceiling_mono by fastforce
    moreover have "0 < (a + i) / (i / 2)" using a i(1) by simp
    ultimately have meas: "nat \<lceil>(b + i) / (i / 2)\<rceil> < nat \<lceil>(a + i) / (i / 2)\<rceil>" by linarith
    have "b \<le> A" using b i(1) less.prems by linarith
    from less.hyps [OF meas this, of "t + 1"] obtain n a' where
      IH: "run_ticks i b (t + 1) = Some (a', t + 1 + of_nat n)" "f64 (a' + tick_eps) < i"
        "\<bar>b - of_nat n * i - a'\<bar> \<le> of_nat n * (A / 2 ^ 52)" by blast
    have "run_ticks i a t = Some (a', t + of_nat (Suc n))"
      using IH(1) True by (subst run_ticks.simps) (simp add: b_def add.assoc)
    moreover have "\<bar>a - of_nat (Suc n) * i - a'\<bar> \<le> of_nat (Suc n) * (A / 2 ^ 52)"
    proof -
      have "a - of_nat (Suc n) * i - a' = (b - of_nat n * i - a') - (b - (a - i))" by (simp add: left_diff_distrib distrib_right)
      then have "\<bar>a - of_nat (Suc n) * i - a'\<bar> \<le> \<bar>b - of_nat n * i - a'\<bar> + \<bar>b - (a - i)\<bar>"
        by (simp only: abs_triangle_ineq4)
      also have "\<dots> \<le> of_nat n * (A / 2 ^ 52) + A / 2 ^ 52" using IH(3) err by (rule add_mono)
      finally show ?thesis by (simp only: of_nat_Suc distrib_right mult_1 add.commute)
    qed
    ultimately show ?thesis using IH(2) by blast
  qed
qed

lemma run_ticks_zero: "run_ticks i a t = Some y \<Longrightarrow> i = 0 \<Longrightarrow> f64 a = a \<Longrightarrow> 0 \<le> a \<Longrightarrow> False"
proof (induction rule: run_ticks.raw_induct [rotated 1, consumes 1])
  case (1 run i a t y)
  have "0 \<le> f64 (a + tick_eps)" using 1 tick_eps_pos by (intro fround_nonneg) simp_all
  then show ?case using 1 by simp
qed

text \<open>With a tick rate of at most \<open>10 ^ 9\<close> Hz and a frame time of at most \<open>2 ^ 51\<close> ticks, \<open>advance\<close> returns: it
  counts some number of ticks, leaves less than one tick in the accumulator, and the accumulator differs
  from the exact remainder by at most \<open>2 ^ -52\<close> of the time to catch up per tick counted.\<close>

theorem advance_returns:
  assumes "0 < tick_interval c" "tick_eps \<le> tick_interval c"
    and "f64 (accumulator c + dt) \<le> A" "tick_interval c \<le> A" "A \<le> 2 ^ 51 * tick_interval c"
  shows "\<exists>n c'. advance dt c = Some c' \<and> clock_tick c' = clock_tick c + of_nat n \<and>
      tick_interval c' = tick_interval c \<and> f64 (accumulator c' + tick_eps) < tick_interval c \<and>
      \<bar>f64 (accumulator c + dt) - of_nat n * tick_interval c - accumulator c'\<bar> \<le> of_nat n * (A / 2 ^ 52)"
  using run_ticks_returns [OF assms(1,2,4,5,3), of "clock_tick c"] by (auto simp: advance_def)

lemma tick_eps_le_1: "tick_eps \<le> 1"
  using fround_le_double [of "1 / 10 ^ 9" 53] by (simp add: tick_eps_def)

lemma f64_half [simp]: "f64 (1 / 2) = 1 / 2"
  using fround_scaled [of 1 53 "- 1"] by simp

theorem advance_returns_witness: "\<exists>c'. advance 2 (new_network_clock 1) = Some c'"
proof -
  have c: "tick_interval (new_network_clock 1) = 1" "accumulator (new_network_clock 1) = 0"
    by (simp_all add: new_network_clock_def set_tick_rate_def)
  show ?thesis using advance_returns [of "new_network_clock 1" 2 3] tick_eps_le_1 by (auto simp: c)
qed

text \<open>With a tick rate of zero or less, which \<open>set_tick_rate\<close> accepts and the other operations treat as a
  stopped clock, \<open>advance\<close> never returns, for any frame time that does not take the clock back.\<close>

theorem advance_rate_zero_hangs:
  "hz \<le> 0 \<Longrightarrow> 0 \<le> f64 (accumulator c + dt) \<Longrightarrow> advance dt (set_tick_rate hz c) = None"
  using run_ticks_zero [of 0 "f64 (accumulator c + dt)" "clock_tick c"] 
  by (cases "run_ticks 0 (f64 (accumulator c + dt)) (clock_tick c)") (auto simp: advance_def set_tick_rate_def fround_idem)

theorem advance_rate_zero_hangs_witness: "advance 1 (new_network_clock 0) = None"
proof -
  have "set_tick_rate 0 (new_network_clock 0) = new_network_clock 0"
    by (simp add: new_network_clock_def set_tick_rate_def)
  then show ?thesis using advance_rate_zero_hangs [of 0 "new_network_clock 0" 1]
    by (simp add: new_network_clock_def set_tick_rate_def)
qed

subsection \<open>Alignment to the server\<close>

text \<open>The distance of two ticks as the code measures it, on the unsigned values.\<close>

definition tick_distance :: "u32 \<Rightarrow> u32 \<Rightarrow> int" where
  "tick_distance a b = \<bar>uint a - uint b\<bar>"

lemma uint_plus_one: "uint (t :: u32) < uint (e :: u32) \<Longrightarrow> uint (t + 1) = uint t + 1"
proof -
  assume "uint t < uint e"
  moreover have "uint e < 2 ^ LENGTH(32)" by (rule unsigned_less)
  ultimately show ?thesis using uint_ge_0 [of t] by (simp add: uint_word_ariths mod_pos_pos_trivial del: uint_ge_0)
qed

lemma follow_distance:
  "tick_distance expected (clock_tick (follow expected c)) \<le> min 2 (tick_distance expected (clock_tick c))"
  by (auto simp: follow_def Let_def tick_distance_def uint_plus_one [of _ expected])

text \<open>Aligning to a server tick never moves the local tick away from the tick expected from the round-trip
  time, and leaves it at most two ticks off; the tick rate is kept, and a local tick ahead of the server's is
  never taken back by a small drift: its accumulator is, below zero if need be.\<close>

theorem align_converges:
  assumes "has_net_time c" "expected_tick nt server_tick c = Some e"
  shows "\<exists>c'. align_to_server_tick nt server_tick c = Some c' \<and> tick_interval c' = tick_interval c \<and>
      tick_distance e (clock_tick c') \<le> min 2 (tick_distance e (clock_tick c)) \<and>
      (uint e < uint (clock_tick c) \<and> uint (clock_tick c) \<le> uint e + 2 \<longrightarrow>
         clock_tick c' = clock_tick c \<and> accumulator c' = f64 (accumulator c - f64 (tick_interval c / 2)))"
  using assms follow_distance [of e c] by (auto simp: align_to_server_tick_def follow_def Let_def)

theorem align_converges_witness:
  "\<exists>c'. align_to_server_tick new_network_time 0 ((set_network_time True (new_network_clock 1))\<lparr>clock_tick := 1\<rparr>) = Some c' \<and>
     clock_tick c' = 1 \<and> interpolation_factor c' = - 1 / 2"
proof -
  let ?c = "(set_network_time True (new_network_clock 1))\<lparr>clock_tick := 1\<rparr>"
  have c: "tick_interval ?c = 1" "accumulator ?c = 0" "clock_tick ?c = 1" "has_net_time ?c"
    by (simp_all add: new_network_clock_def set_tick_rate_def set_network_time_def)
  have m: "f64 (- (1 / 2)) = - (1 / 2)" "f32 (- (1 / 2)) = - (1 / 2)"
    using fround_scaled [of 1 24 "- 1"] by (simp_all only: fround_uminus f64_half) simp
  have "expected_tick new_network_time 0 ?c = Some 0"
    by (simp add: expected_tick_def c to_tick_def new_network_time_def Let_def floor_eq_iff
        floor_unique [of 0 "1 / 2 :: rat"])
  from align_converges [OF c(4) this] obtain c' where
    "align_to_server_tick new_network_time 0 ?c = Some c'" "tick_interval c' = 1" "clock_tick c' = 1"
    "accumulator c' = f64 (0 - f64 (1 / 2))"
    unfolding c by auto
  then show ?thesis by (intro exI [of _ c']) (simp add: interpolation_factor_def m)
qed

end
