(* ===== verification/InputBuffer.thy ===== *)
theory InputBuffer
  imports Prelude
begin

text \<open>
  \<open>InputBuffer\<close> (\<open>src/include/campello_net/prediction/input_buffer.hpp\<close>,
  \<open>src/src/prediction/input_buffer.cpp\<close>): per client, a ring of 256 entries that hold the input of a tick.

  The hash map from clients to rings is a partial map; a tick is a 16-bit word. The lemmas describe the
  buffer through its observable content, the function \<open>retrieve\<close>: what a store changes of it, which
  ticks survive a run of stores, and what pruning removes.
\<close>

subsection \<open>The ring buffers\<close>

type_synonym client_id = u64

definition MAX_TICKS :: nat where "MAX_TICKS = 256"

record entry =
  entry_tick :: u16
  entry_data :: bytes

definition empty_entry :: entry where "empty_entry = \<lparr>entry_tick = 0, entry_data = []\<rparr>"

type_synonym input_buffer = "client_id \<Rightarrow> entry list option"

definition slot :: "u16 \<Rightarrow> nat" where "slot t = unat t mod MAX_TICKS"

definition ib_store :: "client_id \<Rightarrow> u16 \<Rightarrow> bytes \<Rightarrow> input_buffer \<Rightarrow> input_buffer" where
  "ib_store c t d B =
     (let buf = (case B c of None \<Rightarrow> [] | Some buf \<Rightarrow> buf);
          buf = (if buf = [] then replicate MAX_TICKS empty_entry else buf)
      in B(c \<mapsto> buf[slot t := \<lparr>entry_tick = t, entry_data = d\<rparr>]))"

definition ib_retrieve :: "client_id \<Rightarrow> u16 \<Rightarrow> input_buffer \<Rightarrow> bytes option" where
  "ib_retrieve c t B =
     (case B c of None \<Rightarrow> None
      | Some buf \<Rightarrow> if buf = [] then None
          else if entry_tick (buf ! slot t) \<noteq> t then None else Some (entry_data (buf ! slot t)))"

definition ib_has :: "client_id \<Rightarrow> u16 \<Rightarrow> input_buffer \<Rightarrow> bool" where
  "ib_has c t B =
     (case B c of None \<Rightarrow> False | Some buf \<Rightarrow> if buf = [] then False else entry_tick (buf ! slot t) = t)"

definition prune_entry :: "u16 \<Rightarrow> entry \<Rightarrow> entry" where
  "prune_entry t e = (if entry_tick e \<noteq> 0 \<and> 0 \<le> sint (t - entry_tick e) then empty_entry else e)"

definition prune_up_to :: "u16 \<Rightarrow> input_buffer \<Rightarrow> input_buffer" where
  "prune_up_to t B = (\<lambda>c. map_option (map (prune_entry t)) (B c))"

definition clear_client :: "client_id \<Rightarrow> input_buffer \<Rightarrow> input_buffer" where
  "clear_client c B = B(c := None)"

definition last_received_tick :: "client_id \<Rightarrow> input_buffer \<Rightarrow> u16" where
  "last_received_tick c B =
     (case B c of None \<Rightarrow> 0
      | Some buf \<Rightarrow> foldl (\<lambda>max_tick e. if entry_tick e \<noteq> 0 \<and> 0 < sint (entry_tick e - max_tick)
                                          then entry_tick e else max_tick) 0 buf)"

subsection \<open>The invariant\<close>

text \<open>A ring is empty or has all its slots, and a used slot holds a tick of its residue class.\<close>

definition ring_ok :: "entry list \<Rightarrow> bool" where
  "ring_ok buf \<longleftrightarrow> length buf = MAX_TICKS \<and> (\<forall>i<MAX_TICKS. entry_tick (buf ! i) = 0 \<or> slot (entry_tick (buf ! i)) = i)"

definition ib_ok :: "input_buffer \<Rightarrow> bool" where
  "ib_ok B \<longleftrightarrow> (\<forall>c buf. B c = Some buf \<longrightarrow> ring_ok buf)"

lemma ib_okD: "ib_ok B \<Longrightarrow> B c = Some buf \<Longrightarrow> ring_ok buf"
  by (simp add: ib_ok_def)

lemma slot_less [simp]: "slot t < MAX_TICKS" "slot t < 256"
  by (simp_all add: slot_def MAX_TICKS_def)

lemma slot_0 [simp]: "slot 0 = 0"
  by (simp add: slot_def)

lemma ring_ok_fresh: "ring_ok (replicate MAX_TICKS empty_entry)"
  by (simp add: ring_ok_def empty_entry_def)

lemma ring_ok_update: "ring_ok buf \<Longrightarrow> ring_ok (buf[slot t := \<lparr>entry_tick = t, entry_data = d\<rparr>])"
  by (simp add: ring_ok_def nth_list_update)

lemma ring_ok_nonempty [simp]: "ring_ok buf \<Longrightarrow> buf \<noteq> []"
  by (auto simp: ring_ok_def MAX_TICKS_def)

lemma ring_ok_length: "ring_ok buf \<Longrightarrow> length buf = MAX_TICKS"
  by (simp add: ring_ok_def)

lemma ib_ok_empty: "ib_ok Map.empty"
  by (simp add: ib_ok_def)

lemma ib_ok_store: "ib_ok B \<Longrightarrow> ib_ok (ib_store c t d B)"
  by (auto simp: ib_ok_def ib_store_def Let_def ring_ok_update ring_ok_fresh split: option.splits)

lemma prune_entry_tick: "entry_tick (prune_entry t e) = 0 \<or> entry_tick (prune_entry t e) = entry_tick e"
  by (simp add: prune_entry_def empty_entry_def)

lemma ring_ok_prune: "ring_ok buf \<Longrightarrow> ring_ok (map (prune_entry t) buf)"
  unfolding ring_ok_def by (metis length_map nth_map prune_entry_tick)

lemma ib_ok_prune: "ib_ok B \<Longrightarrow> ib_ok (prune_up_to t B)"
  by (auto simp: ib_ok_def prune_up_to_def ring_ok_prune)

lemma ib_ok_clear: "ib_ok B \<Longrightarrow> ib_ok (clear_client c B)"
  by (simp add: ib_ok_def clear_client_def)

lemma ib_has_retrieve: "ib_has c t B \<longleftrightarrow> ib_retrieve c t B \<noteq> None"
  by (simp add: ib_has_def ib_retrieve_def split: option.splits)

subsection \<open>Stores\<close>

lemma retrieve_store:
  assumes "ib_ok B"
  shows "ib_retrieve c' t' (ib_store c t d B) =
     (if c' \<noteq> c then ib_retrieve c' t' B
      else if t' = t then Some d
      else if slot t' = slot t then None
      else if B c = None then (if t' = 0 then Some [] else None)
      else ib_retrieve c t' B)"
proof (cases "B c")
  case None
  then show ?thesis
    by (auto simp: ib_store_def ib_retrieve_def Let_def MAX_TICKS_def nth_list_update empty_entry_def)
next
  case (Some buf)
  then have "ring_ok buf" using assms by (rule ib_okD [rotated])
  then show ?thesis using Some
    by (auto simp: ib_store_def ib_retrieve_def Let_def ring_ok_length nth_list_update)
qed

text \<open>What \<open>store\<close> changes of what the buffer answers: the tick stored, exactly; every tick of its residue
  modulo 256 is gone; everything else and every other client is as before, except that the first store for
  a client makes tick 0 retrievable, with an empty input nobody stored.\<close>

theorem input_store_spec:
  assumes "ib_ok B"
  shows "ib_ok (ib_store c t d B) \<and> ib_retrieve c' t' (ib_store c t d B) =
     (if c' \<noteq> c then ib_retrieve c' t' B
      else if t' = t then Some d
      else if slot t' = slot t then None
      else if B c = None then (if t' = 0 then Some [] else None)
      else ib_retrieve c t' B)"
  using retrieve_store [OF assms] ib_ok_store [OF assms] by simp

theorem input_store_spec_witness:
  "ib_retrieve 7 0 (ib_store 7 5 [1] Map.empty) = Some []"
  using input_store_spec [OF ib_ok_empty, of 7 5 "[1]" 7 0] by (simp add: slot_def MAX_TICKS_def)

text \<open>A client that sends an input for every tick from \<open>t\<close> on.\<close>

fun store_run :: "client_id \<Rightarrow> u16 \<Rightarrow> bytes list \<Rightarrow> input_buffer \<Rightarrow> input_buffer" where
  "store_run c t [] B = B"
| "store_run c t (d # ds) B = store_run c (t + 1) ds (ib_store c t d B)"

lemma ib_ok_store_run: "ib_ok B \<Longrightarrow> ib_ok (store_run c t ds B)"
  by (induction ds arbitrary: t B) (simp_all add: ib_ok_store)

lemma store_run_snoc: "store_run c t (ds @ [d]) B = ib_store c (t + of_nat (length ds)) d (store_run c t ds B)"
  by (induction ds arbitrary: t B) (simp_all add: add.assoc)

lemma store_run_used: "ds \<noteq> [] \<Longrightarrow> store_run c t ds B c \<noteq> None"
  by (induction ds rule: rev_induct) (simp_all add: store_run_snoc ib_store_def Let_def)

lemma slot_add: "slot (t + of_nat n) = (slot t + n) mod 256"
proof -
  have "unat (t + of_nat n) mod 256 = (unat t + n) mod 256"
    by (simp add: unat_word_ariths unsigned_of_nat take_bit_eq_mod mod_add_right_eq mod_mod_cancel)
  then show ?thesis by (simp add: slot_def MAX_TICKS_def mod_add_left_eq)
qed

lemma slot_add_ne: "i < j \<Longrightarrow> j < i + 256 \<Longrightarrow> slot (t + of_nat i) \<noteq> slot (t + of_nat j)"
proof
  assume ij: "i < j" "j < i + 256" and "slot (t + of_nat i) = slot (t + of_nat j)"
  then have "256 dvd (slot t + j) - (slot t + i)" by (metis slot_add mod_eq_dvd_iff_nat add_le_cancel_left less_imp_le)
  then show False using ij by (auto dest: dvd_imp_le)
qed

lemma store_run_retrieve:
  "ib_ok B \<Longrightarrow> i < length ds \<Longrightarrow> length ds \<le> i + 256 \<Longrightarrow>
     ib_retrieve c (t + of_nat i) (store_run c t ds B) = Some (ds ! i)"
proof (induction ds rule: rev_induct)
  case (snoc d ds)
  show ?case
  proof (cases "i = length ds")
    case True
    then show ?thesis using retrieve_store [OF ib_ok_store_run [OF snoc.prems(1)]] by (simp add: store_run_snoc)
  next
    case False
    then have i: "i < length ds" "length ds < i + 256" using snoc.prems by simp_all
    have "slot (t + of_nat i) \<noteq> slot (t + of_nat (length ds))" using i by (rule slot_add_ne)
    moreover have "ib_retrieve c (t + of_nat i) (store_run c t ds B) = Some (ds ! i)"
      using snoc i by simp
    moreover have "store_run c t ds B c \<noteq> None" using i by (intro store_run_used) auto
    ultimately show ?thesis using retrieve_store [OF ib_ok_store_run [OF snoc.prems(1)]] i
      by (auto simp: store_run_snoc nth_append)
  qed
qed simp

text \<open>A client's last 256 inputs of consecutive ticks can all be retrieved, each under its tick, whatever the
  first tick is, across the wrap of the 16-bit tick, and whatever was stored before.\<close>

theorem input_window:
  "ib_ok B \<Longrightarrow> i < length ds \<Longrightarrow> length ds \<le> i + 256 \<Longrightarrow>
     ib_retrieve c (t + of_nat i) (store_run c t ds B) = Some (ds ! i)"
  by (rule store_run_retrieve)

theorem input_window_witness: "ib_retrieve 1 0 (store_run 1 (- 1) [[7], [8], [9]] Map.empty) = Some [8]"
  using input_window [OF ib_ok_empty, of 1 "[[7], [8], [9]]" 1 "- 1"] by (simp del: store_run.simps)

subsection \<open>Pruning\<close>

lemma retrieve_prune:
  assumes "ib_ok B" "t' \<noteq> 0"
  shows "ib_retrieve c t' (prune_up_to t B) = (if 0 \<le> sint (t - t') then None else ib_retrieve c t' B)"
proof (cases "B c")
  case (Some buf)
  then have "ring_ok buf" using assms by (simp add: ib_okD)
  then show ?thesis using Some assms(2)
    by (auto simp: ib_retrieve_def prune_up_to_def ring_ok_length prune_entry_def empty_entry_def)
qed (simp add: ib_retrieve_def prune_up_to_def)

text \<open>Pruning up to a tick removes exactly the inputs that are not ahead of it on the 16-bit circle, for every
  tick but 0; where it prunes the entry in the slot of tick 0, it makes an input for tick 0 appear.\<close>

theorem input_prune_spec:
  assumes "ib_ok B"
  shows "ib_ok (prune_up_to t B) \<and>
     (t' \<noteq> 0 \<longrightarrow> ib_retrieve c t' (prune_up_to t B) = (if 0 \<le> sint (t - t') then None else ib_retrieve c t' B)) \<and>
     (t' \<noteq> 0 \<and> slot t' = 0 \<and> ib_has c t' B \<and> 0 \<le> sint (t - t') \<longrightarrow> ib_retrieve c 0 (prune_up_to t B) = Some [])"
proof (intro conjI impI)
  assume p: "t' \<noteq> 0 \<and> slot t' = 0 \<and> ib_has c t' B \<and> 0 \<le> sint (t - t')"
  then obtain buf where buf: "B c = Some buf" by (auto simp: ib_has_def split: option.splits)
  then have "ring_ok buf" using assms by (rule ib_okD [rotated])
  then show "ib_retrieve c 0 (prune_up_to t B) = Some []" using p buf ring_ok_length [of buf]
    by (auto simp: ib_retrieve_def ib_has_def prune_up_to_def prune_entry_def empty_entry_def MAX_TICKS_def nth_map)
qed (use assms ib_ok_prune retrieve_prune in auto)

theorem input_prune_spec_witness:
  "ib_retrieve 1 5 (prune_up_to 5 (ib_store 1 6 [9] (ib_store 1 5 [8] Map.empty))) = None"
  using input_prune_spec [OF ib_ok_store [OF ib_ok_store [OF ib_ok_empty]], where t = 5 and t' = 5 and c = 1] by simp

subsection \<open>The newest tick\<close>

lemma later_u16:
  assumes "uint (x :: u16) < 2 ^ 15" "uint (y :: u16) < 2 ^ 15"
  shows "0 < sint (x - y) \<longleftrightarrow> uint y < uint x"
proof -
  have xy: "0 \<le> uint x" "0 \<le> uint y" "uint x < 32768" "uint y < 32768" using assms by simp_all
  have d: "uint (x - y) = (if uint y \<le> uint x then uint x - uint y else uint x - uint y + 65536)"
    by (simp add: uint_sub_if')
  show ?thesis
  proof (cases "uint y \<le> uint x")
    case True
    moreover have "uint x - uint y < 32768" using xy by linarith
    ultimately have "sint (x - y) = uint x - uint y" unfolding sint_u16 d by simp
    then show ?thesis by simp
  next
    case False
    moreover have "\<not> uint x - uint y + 65536 < 32768" using xy by linarith
    ultimately have "sint (x - y) = uint x - uint y" unfolding sint_u16 d by simp
    then show ?thesis by simp
  qed
qed

abbreviation newest :: "u16 \<Rightarrow> entry list \<Rightarrow> u16" where
  "newest \<equiv> foldl (\<lambda>max_tick e. if entry_tick e \<noteq> 0 \<and> 0 < sint (entry_tick e - max_tick) then entry_tick e else max_tick)"

lemma newest_low:
  assumes "\<forall>e\<in>set buf. uint (entry_tick e) < 2 ^ 15" "uint m < 2 ^ 15"
  shows "uint (newest m buf) = Max (insert (uint m) ((\<lambda>e. uint (entry_tick e)) ` set buf))"
  using assms
proof (induction buf arbitrary: m)
  case (Cons e buf)
  let ?n = "if entry_tick e \<noteq> 0 \<and> 0 < sint (entry_tick e - m) then entry_tick e else m"
  have after: "0 < sint (entry_tick e - m) \<longleftrightarrow> uint m < uint (entry_tick e)"
    using Cons.prems by (intro later_u16) simp_all
  have "entry_tick e = 0 \<Longrightarrow> uint (entry_tick e) \<le> uint m" by simp
  then have pick: "uint ?n = max (uint (entry_tick e)) (uint m)"
    unfolding after by (auto simp: max_def)
  then have "uint ?n < 2 ^ 15" using Cons.prems by simp
  with Cons have "uint (newest ?n buf) = Max (insert (uint ?n) ((\<lambda>e. uint (entry_tick e)) ` set buf))" by simp
  then show ?case unfolding pick
    by (cases "buf = []") (simp_all add: Max_insert max.assoc max.commute max.left_commute)
qed simp

lemma newest_high:
  assumes "\<forall>e\<in>set buf. entry_tick e = 0 \<or> 2 ^ 15 \<le> uint (entry_tick e)"
  shows "newest 0 buf = 0"
  using assms
proof (induction buf)
  case (Cons e buf)
  have "\<not> (entry_tick e \<noteq> 0 \<and> 0 < sint (entry_tick e))"
    using Cons.prems uint_u16_less [of "entry_tick e"] by (auto simp: sint_u16)
  with Cons show ?case by (simp only: foldl_Cons diff_zero if_False list.set ball_simps) simp
qed simp

text \<open>\<open>last_received_tick\<close> is the greatest tick stored as long as all ticks are below 32768, and 0, "no input",
  when all of them are 32768 or more: in the second half of every cycle of the tick counter it forgets
  inputs that \<open>has\<close> still finds.\<close>

theorem last_received_tick_spec:
  assumes "B c = Some buf"
  shows "((\<forall>e\<in>set buf. uint (entry_tick e) < 2 ^ 15) \<longrightarrow>
            uint (last_received_tick c B) = Max (insert 0 ((\<lambda>e. uint (entry_tick e)) ` set buf))) \<and>
         ((\<forall>e\<in>set buf. entry_tick e = 0 \<or> 2 ^ 15 \<le> uint (entry_tick e)) \<longrightarrow> last_received_tick c B = 0)"
  using newest_low [of buf 0] newest_high [of buf] assms by (simp add: last_received_tick_def)

theorem last_received_tick_spec_witness:
  "last_received_tick 1 (ib_store 1 40000 [8] Map.empty) = 0 \<and> ib_has 1 40000 (ib_store 1 40000 [8] Map.empty)"
proof -
  let ?buf = "(replicate MAX_TICKS empty_entry)[slot 40000 := \<lparr>entry_tick = 40000, entry_data = [8]\<rparr>]"
  have "\<forall>e\<in>set ?buf. entry_tick e = 0 \<or> 2 ^ 15 \<le> uint (entry_tick e)"
    using set_update_subset_insert by (force simp: empty_entry_def)
  moreover have "ib_store 1 40000 [8] Map.empty 1 = Some ?buf" by (simp add: ib_store_def MAX_TICKS_def)
  ultimately show ?thesis
    using last_received_tick_spec [of "ib_store 1 40000 [8] Map.empty" 1 ?buf] retrieve_store [OF ib_ok_empty]
    by (simp add: ib_has_retrieve)
qed

end
