(* ===== verification/Quantization.thy ===== *)
theory Quantization
  imports BitStream Floats
begin

text \<open>
  \<open>src/include/campello_net/serialization/quantization.hpp\<close>: bounded floats in a few bits, and unit
  quaternions by their three smaller components.

  A \<open>float\<close> is the rational it denotes, and every operation is followed by its rounding. \<open>None\<close> is
  undefined behaviour: the shift \<open>1u << 32\<close>, and the conversion of the NaN that \<open>0 / 0\<close> gives. A read
  returns the value (\<open>None\<close> for \<open>false\<close>) and the stream. \<open>std::sqrt\<close> is the correctly rounded square root.
\<close>

subsection \<open>Scalars\<close>

definition max_int :: "nat \<Rightarrow> nat" where "max_int n = 2 ^ n - 1"

definition unit_pos :: "rat \<Rightarrow> rat \<Rightarrow> rat \<Rightarrow> rat option" where
  "unit_pos v mn mx =
     (let n = f32 (v - mn); d = f32 (mx - mn)
      in if d = 0 then (if n = 0 then None else Some (if 0 < n then 1 else 0))
         else let t = f32 (n / d) in Some (if t < 0 then 0 else if 1 < t then 1 else t))"

definition quantum :: "rat \<Rightarrow> nat \<Rightarrow> u32" where
  "quantum t n = of_int \<lfloor>f32 (f32 (t * f32 (of_nat (max_int n))) + 1 / 2)\<rfloor>"

definition write_quantized :: "bitstream \<Rightarrow> rat \<Rightarrow> rat \<Rightarrow> rat \<Rightarrow> nat \<Rightarrow> bitstream option" where
  "write_quantized s v mn mx n =
     (if n = 0 then Some s
      else let n = min n 32
           in if n = 32 then None else map_option (\<lambda>t. write_bits s (ucast (quantum t n)) n) (unit_pos v mn mx))"

definition dequantize :: "u64 \<Rightarrow> rat \<Rightarrow> rat \<Rightarrow> nat \<Rightarrow> rat" where
  "dequantize q mn mx n =
     f32 (mn + f32 (f32 (mx - mn) * f32 (f32 (of_nat (unat q)) / f32 (of_nat (max_int n)))))"

definition read_quantized :: "bitstream \<Rightarrow> rat \<Rightarrow> rat \<Rightarrow> nat \<Rightarrow> (rat option \<times> bitstream) option" where
  "read_quantized s mn mx n =
     (if n = 0 then Some (Some mn, s)
      else let n = min n 32
           in case read_bits s n of
                (None, s1) \<Rightarrow> Some (None, s1)
              | (Some q, s1) \<Rightarrow> if n = 32 then None else Some (Some (dequantize q mn mx n), s1))"

subsection \<open>The square root\<close>

fun isqrt :: "nat \<Rightarrow> nat" where
  "isqrt n = (if n < 4 then (if n = 0 then 0 else 1)
     else let r = 2 * isqrt (n div 4) in if (r + 1) * (r + 1) \<le> n then r + 1 else r)"

declare isqrt.simps [simp del]

definition fsqrt :: "nat \<Rightarrow> rat \<Rightarrow> rat" where
  "fsqrt p x =
     (if x = 0 then 0
      else let u = 2 powi (fexp x div 2 - int p + 1); y = x / (u * u); n = isqrt (nat \<lfloor>y\<rfloor>);
               mid = (of_nat n + 1 / 2) * (of_nat n + 1 / 2)
           in of_nat (if y < mid then n else if mid < y then n + 1 else if even n then n else n + 1) * u)"

subsection \<open>Quaternions\<close>

fun pick_largest :: "rat list \<Rightarrow> nat list \<Rightarrow> nat \<Rightarrow> rat \<Rightarrow> nat" where
  "pick_largest quat [] largest_idx largest_abs = largest_idx"
| "pick_largest quat (i # is) largest_idx largest_abs =
     (if largest_abs < \<bar>quat ! i\<bar> then pick_largest quat is i \<bar>quat ! i\<bar>
      else pick_largest quat is largest_idx largest_abs)"

definition largest_index :: "rat list \<Rightarrow> nat" where
  "largest_index quat = pick_largest quat [1, 2, 3] 0 \<bar>quat ! 0\<bar>"

fun write_others :: "nat \<Rightarrow> rat list \<Rightarrow> nat \<Rightarrow> nat list \<Rightarrow> bitstream \<Rightarrow> bitstream option" where
  "write_others n quat k [] s = Some s"
| "write_others n quat k (i # is) s =
     (if i = k then write_others n quat k is s
      else Option.bind (write_quantized s (quat ! i) (- 1) 1 n) (write_others n quat k is))"

definition write_smallest_three :: "bitstream \<Rightarrow> rat list \<Rightarrow> nat \<Rightarrow> bitstream option" where
  "write_smallest_three s quat n =
     (let k = largest_index quat in write_others n quat k [0, 1, 2, 3] (write_bits s (of_nat k) 2))"

fun read_others :: "nat \<Rightarrow> nat \<Rightarrow> nat list \<Rightarrow> rat list \<Rightarrow> bitstream \<Rightarrow> (bool \<times> rat list \<times> bitstream) option" where
  "read_others n k [] quat s = Some (True, quat, s)"
| "read_others n k (i # is) quat s =
     (if k = i then read_others n k is quat s
      else Option.bind (read_quantized s (- 1) 1 n)
             (\<lambda>(v, s1). case v of None \<Rightarrow> Some (False, quat, s1)
                | Some x \<Rightarrow> read_others n k is (quat[i := x]) s1))"

definition sum_others :: "nat \<Rightarrow> rat list \<Rightarrow> rat" where
  "sum_others k quat =
     foldl (\<lambda>sum_sq i. if k \<noteq> i then f32 (sum_sq + f32 (quat ! i * quat ! i)) else sum_sq) 0 [0, 1, 2, 3]"

definition read_smallest_three :: "bitstream \<Rightarrow> rat list \<Rightarrow> nat \<Rightarrow> (bool \<times> rat list \<times> bitstream) option" where
  "read_smallest_three s quat n =
     (case read_bits s 2 of
        (None, s1) \<Rightarrow> Some (False, quat, s1)
      | (Some w, s1) \<Rightarrow>
          (let k = unat w
           in map_option (\<lambda>(ok, quat, s2). if \<not> ok then (False, quat, s2)
                else (True, quat[k := fsqrt 24 (max 0 (f32 (1 - sum_others k quat)))], s2))
              (read_others n k [0, 1, 2, 3] quat s1)))"

subsection \<open>The stream level\<close>

lemma read_back:
  assumes "bs_ok s" "read_bit_pos s = write_bit_pos s"
  shows "read_bits (write_bits s v n) n = (Some (take_bit n v), (write_bits s v n)\<lparr>read_bit_pos := write_bit_pos s + n\<rparr>)"
  using write_bits_ok [OF assms(1), of v n] write_pos_write_bits [OF assms(1), of v n] assms(2)
  by (simp add: read_bits_eq of_msb_msb_bits)

lemma abs_step: "\<bar>a - b\<bar> \<le> e \<Longrightarrow> \<bar>b - c\<bar> \<le> f \<Longrightarrow> e + f \<le> g \<Longrightarrow> \<bar>a - c\<bar> \<le> (g :: rat)"
  by linarith

text \<open>What a value becomes after a write and a read, at the level of numbers.\<close>

definition requantize :: "rat \<Rightarrow> rat \<Rightarrow> rat \<Rightarrow> nat \<Rightarrow> rat option" where
  "requantize v mn mx n = map_option (\<lambda>t. dequantize (take_bit n (ucast (quantum t n))) mn mx n) (unit_pos v mn mx)"

lemma read_write_quantized:
  assumes "bs_ok s" "read_bit_pos s = write_bit_pos s" "0 < n" "n < 32" "requantize v mn mx n = Some x"
  shows "\<exists>s1 s2. write_quantized s v mn mx n = Some s1 \<and> read_quantized s1 mn mx n = Some (Some x, s2)"
  using assms(3-5) read_back [OF assms(1,2)]
  by (auto simp: requantize_def write_quantized_def read_quantized_def min_def)

subsection \<open>The error of the numeric part\<close>

abbreviation uro :: rat where "uro \<equiv> 1 / 2 ^ 24"

lemma f32_error: "\<bar>f32 x - x\<bar> \<le> uro * \<bar>x\<bar>"
  using fround_error [of 24 x] by simp

lemma f32_error_le: "\<bar>x\<bar> \<le> b \<Longrightarrow> \<bar>f32 x - x\<bar> \<le> uro * b"
  using f32_error [of x] mult_left_mono [of "\<bar>x\<bar>" b uro] by simp

lemma quotient_error:
  fixes n d N D u :: rat
  assumes "0 \<le> N" "N \<le> D" "0 < D" "\<bar>n - N\<bar> \<le> u * N" "\<bar>d - D\<bar> \<le> u * D" "0 \<le> u" "u \<le> 1 / 4"
  shows "0 < d" "\<bar>n / d - N / D\<bar> \<le> 3 * u"
proof -
  have uD: "u * D \<le> 1 / 4 * D" using assms by (intro mult_right_mono) simp_all
  then have d: "3 / 4 * D \<le> d" using assms(5) by (simp add: abs_le_iff) 
  then show "0 < d" using assms(3) by linarith
  let ?x = "N / D"
  have x: "0 \<le> ?x" "?x \<le> 1" using assms by simp_all
  have N: "?x * D = N" using assms(3) by auto
  have "n - ?x * d = (n - ?x * D) - ?x * (d - D)" by (simp add: right_diff_distrib)
  then have "n - ?x * d = (n - N) - ?x * (d - D)" unfolding N .
  then have "\<bar>n - ?x * d\<bar> \<le> \<bar>n - N\<bar> + \<bar>?x\<bar> * \<bar>d - D\<bar>" by (simp only: abs_mult [symmetric] abs_triangle_ineq4)
  also have "\<dots> \<le> u * N + 1 * (u * D)"
    using assms x by (intro add_mono mult_mono) simp_all
  also have "\<dots> \<le> u * D + 1 * (u * D)" using assms by (intro add_mono mult_left_mono) simp_all
  also have "\<dots> \<le> 3 * u * (3 / 4 * D)" using assms by simp
  also have "\<dots> \<le> 3 * u * d" using d assms by (intro mult_left_mono) simp_all
  finally have "\<bar>n - ?x * d\<bar> \<le> 3 * u * d" .
  moreover have "n / d - ?x = (n - ?x * d) / d" using \<open>0 < d\<close> by (simp add: diff_divide_distrib)
  ultimately show "\<bar>n / d - ?x\<bar> \<le> 3 * u" using \<open>0 < d\<close> by (simp add: abs_divide pos_divide_le_eq)
qed

lemma clamp_error:
  fixes t x e :: rat
  assumes "0 \<le> x" "x \<le> 1" "\<bar>t - x\<bar> \<le> e"
  shows "\<bar>(if t < 0 then 0 else if 1 < t then 1 else t) - x\<bar> \<le> e"
  using assms by (auto simp: abs_le_iff)

text \<open>The normalised position is within five roundings of the exact one.\<close>

lemma unit_pos_error:
  assumes "mn \<le> v" "v \<le> mx" "mn < mx"
  obtains t where "unit_pos v mn mx = Some t" "0 \<le> t" "t \<le> 1" "\<bar>t - (v - mn) / (mx - mn)\<bar> \<le> 5 * uro"
proof -
  let ?n = "f32 (v - mn)" and ?d = "f32 (mx - mn)" and ?x = "(v - mn) / (mx - mn)"
  have q: "0 < ?d" "\<bar>?n / ?d - ?x\<bar> \<le> 3 * uro"
    using quotient_error [of "v - mn" "mx - mn" ?n uro ?d] f32_error [of "v - mn"] f32_error [of "mx - mn"] assms by simp_all
  have x: "0 \<le> ?x" "?x \<le> 1" using assms by simp_all
  have "0 \<le> ?n" using assms by (simp add: fround_nonneg)
  then have n0: "0 \<le> ?n / ?d" using q(1) by simp
  have "\<bar>?n / ?d\<bar> \<le> 1 + 3 * uro" using q(2) x n0 unfolding abs_le_iff by linarith
  from f32_error_le [OF this] have "\<bar>f32 (?n / ?d) - ?n / ?d\<bar> \<le> uro * (1 + 3 * uro)" .
  moreover have "\<bar>f32 (?n / ?d) - ?x\<bar> \<le> \<bar>f32 (?n / ?d) - ?n / ?d\<bar> + \<bar>?n / ?d - ?x\<bar>"
    using abs_triangle_ineq [of "f32 (?n / ?d) - ?n / ?d" "?n / ?d - ?x"] by simp
  moreover have "uro * (1 + 3 * uro) + 3 * uro \<le> 5 * uro" by simp
  ultimately have t: "\<bar>f32 (?n / ?d) - ?x\<bar> \<le> 5 * uro" using q(2) by linarith
  define t where "t = (if f32 (?n / ?d) < 0 then 0 else if 1 < f32 (?n / ?d) then 1 else f32 (?n / ?d))"
  have "unit_pos v mn mx = Some t" using q(1) by (simp add: unit_pos_def t_def Let_def)
  moreover have "0 \<le> t" "t \<le> 1" by (simp_all add: t_def)
  moreover have "\<bar>t - ?x\<bar> \<le> 5 * uro" unfolding t_def using x t by (rule clamp_error)
  ultimately show thesis by (rule that)
qed

lemma max_int_bounds:
  assumes "1 \<le> n" "n \<le> 23"
  shows "1 \<le> max_int n" "max_int n < 2 ^ 23" "max_int n < 2 ^ n"
    "f32 (of_nat (max_int n)) = of_nat (max_int n)"
    "f32 (of_nat (max_int n) + 1 / 2) = of_nat (max_int n) + 1 / 2"
proof -
  have le: "(2::nat) ^ n \<le> 2 ^ 23" using assms by (intro power_increasing) simp_all
  have "(2::nat) ^ 1 \<le> 2 ^ n" using assms by (intro power_increasing) simp_all
  then show 1: "1 \<le> max_int n" "max_int n < 2 ^ 23" "max_int n < 2 ^ n" using le by (simp_all add: max_int_def)
  show "f32 (of_nat (max_int n)) = of_nat (max_int n)" using 1 by (intro fround_of_nat) simp
  have "f32 (of_int (2 * int (max_int n) + 1) * 2 powi (- 1)) = of_int (2 * int (max_int n) + 1) * 2 powi (- 1)"
    using 1 by (intro fround_scaled) simp
  then show "f32 (of_nat (max_int n) + 1 / 2) = of_nat (max_int n) + 1 / 2"
    by (simp add: distrib_right add_divide_distrib)
qed

lemma quantum_error:
  assumes n: "1 \<le> n" "n \<le> 23" and t: "0 \<le> t" "t \<le> 1"
  obtains k where "quantum t n = of_nat k" "k \<le> max_int n"
    "\<bar>of_nat k - t * of_nat (max_int n)\<bar> \<le> 1 / 2 + 3 * uro * of_nat (max_int n)"
proof -
  define M :: rat where "M = of_nat (max_int n)"
  note mi = max_int_bounds [OF n, folded M_def]
  have M: "1 \<le> M" using mi(1) by (simp add: M_def)
  define a where "a = f32 (t * M)"
  define y where "y = f32 (a + 1 / 2)"
  have tM: "0 \<le> t * M" "t * M \<le> M" using t M mult_right_mono [of t 1 M] by simp_all
  have a: "0 \<le> a" "a \<le> M" "\<bar>a - t * M\<bar> \<le> uro * M"
    using tM fround_mono [of "t * M" M 24] f32_error_le [of "t * M" M] mi(4)
    by (simp_all add: a_def fround_nonneg)
  have "\<bar>a + 1 / 2\<bar> \<le> 2 * M" using a M by simp
  from f32_error_le [OF this] have ye: "\<bar>y - (a + 1 / 2)\<bar> \<le> 2 * uro * M" by (simp add: y_def)
  have y: "0 \<le> y" "y \<le> M + 1 / 2"
    using a fround_mono [of "a + 1 / 2" "M + 1 / 2" 24] mi(5) by (simp_all add: y_def fround_nonneg)
  define k where "k = nat \<lfloor>y\<rfloor>"
  have k: "of_nat k \<le> y" "y < of_nat k + 1" using y(1) by (simp_all add: k_def) linarith+
  have "of_nat k < (of_nat (max_int n + 1) :: rat)" using k y by (simp add: M_def)
  then have "k \<le> max_int n" by (simp only: of_nat_less_iff)
  moreover have "quantum t n = of_nat k"
    using y(1) by (simp add: quantum_def mi(4) k_def flip: M_def a_def y_def)
  moreover have "\<bar>of_nat k - t * M\<bar> \<le> 1 / 2 + 3 * uro * M"
  proof -
    have "\<bar>of_nat k - a\<bar> \<le> 1 / 2 + 2 * uro * M" using k ye unfolding abs_le_iff by linarith
    then show ?thesis using a(3) by (rule abs_step) linarith
  qed
  ultimately show thesis using that by (simp add: M_def)
qed

lemma dequantize_error:
  assumes n: "1 \<le> n" "n \<le> 23" and k: "unat q = k" "k \<le> max_int n" and D: "mn < mx"
  shows "\<bar>dequantize q mn mx n - (mn + (mx - mn) * (of_nat k / of_nat (max_int n)))\<bar>
           \<le> uro * (5 * (mx - mn) + max \<bar>mn\<bar> \<bar>mx\<bar>)"
proof -
  define M :: rat where "M = of_nat (max_int n)"
  define E where "E = mx - mn"
  define z where "z = of_nat k / M"
  define z' where "z' = f32 z"
  define d where "d = f32 E"
  define w where "w = f32 (d * z')"
  define B where "B = max \<bar>mn\<bar> \<bar>mx\<bar>"
  note mi = max_int_bounds [OF n, folded M_def]
  have M: "1 \<le> M" using mi(1) by (simp add: M_def)
  have E: "0 < E" using D by (simp add: E_def)
  have kM: "of_nat k \<le> M" using k by (simp add: M_def)
  have z: "0 \<le> z" "z \<le> 1" using M kM by (simp_all add: z_def)
  have z': "0 \<le> z'" "z' \<le> 1" "\<bar>z' - z\<bar> \<le> uro"
    using z fround_mono [of z 1 24] f32_error_le [of z 1] by (simp_all add: z'_def fround_nonneg)
  have d: "0 \<le> d" "d \<le> 2 * E" "\<bar>d - E\<bar> \<le> uro * E"
    using E f32_error [of E] fround_le_double [of E 24] by (simp_all add: d_def fround_nonneg)
  have dz: "\<bar>d * z'\<bar> \<le> 2 * E" using mult_mono [OF d(2) z'(2)] d z' E by simp
  have w: "\<bar>w - d * z'\<bar> \<le> uro * (2 * E)" unfolding w_def using dz by (rule f32_error_le)
  have "d * z' - E * z = (d - E) * z' + E * (z' - z)" by (simp add: algebra_simps)
  then have "\<bar>d * z' - E * z\<bar> \<le> \<bar>d - E\<bar> * \<bar>z'\<bar> + \<bar>E\<bar> * \<bar>z' - z\<bar>"
    by (metis abs_mult abs_triangle_ineq)
  also have "\<dots> \<le> uro * E * 1 + E * uro" using d(3) z' E by (intro add_mono mult_mono) simp_all
  finally have "\<bar>d * z' - E * z\<bar> \<le> uro * E * 1 + E * uro" .
  with w have w2: "\<bar>w - E * z\<bar> \<le> 4 * uro * E" by (rule abs_step) simp
  have Ez: "0 \<le> E * z" "E * z \<le> E" using E z mult_left_mono [of z 1 E] by simp_all
  have "\<bar>mn + E * z\<bar> \<le> B" using Ez unfolding B_def E_def by (auto simp: abs_le_iff max_def)
  moreover have "4 * uro * E \<le> E" using E by simp
  ultimately have "\<bar>mn + w\<bar> \<le> B + E" using w2 unfolding abs_le_iff by linarith
  from f32_error_le [OF this] have "\<bar>f32 (mn + w) - (mn + w)\<bar> \<le> uro * (B + E)" .
  moreover have "\<bar>(mn + w) - (mn + E * z)\<bar> \<le> 4 * uro * E" using w2 by simp
  ultimately have "\<bar>f32 (mn + w) - (mn + E * z)\<bar> \<le> uro * (B + E) + 4 * uro * E"
    by (rule abs_step) simp
  moreover have "dequantize q mn mx n = f32 (mn + w)"
    using k n mi fround_of_nat [of k 24]
    by (simp add: dequantize_def w_def d_def z'_def z_def E_def flip: M_def)
  ultimately show ?thesis by (simp add: z_def distrib_left flip: M_def E_def B_def)
qed

subsection \<open>Properties\<close>

lemma unat_quantum_bits:
  assumes "k \<le> max_int n" "1 \<le> n" "n \<le> 23"
  shows "unat (take_bit n (ucast (of_nat k :: u32) :: u64)) = k"
proof -
  have k: "k < 2 ^ n" "k < 2 ^ 23" using max_int_bounds [of n] assms by simp_all
  then have "unat (ucast (of_nat k :: u32) :: u64) = k" by (simp add: unat_ucast_up unat_of_nat_small)
  then show ?thesis using k by (simp add: unsigned_take_bit_eq take_bit_nat_eq_self)
qed

text \<open>A value between the bounds, written with 1 to 23 bits and read back, is off by at most half a
  quantisation step, plus fourteen rounding errors of the range and the bounds.\<close>

theorem quantization_error:
  assumes n: "1 \<le> n" "n \<le> 23" and v: "mn \<le> v" "v \<le> mx" "mn < mx"
    and s: "bs_ok s" "read_bit_pos s = write_bit_pos s"
  shows "\<exists>s1 s2 x. write_quantized s v mn mx n = Some s1 \<and> read_quantized s1 mn mx n = Some (Some x, s2) \<and>
     \<bar>x - v\<bar> \<le> (mx - mn) / (2 * of_nat (max_int n)) + (13 * (mx - mn) + max \<bar>mn\<bar> \<bar>mx\<bar>) / 2 ^ 24"
proof -
  define M :: rat where "M = of_nat (max_int n)"
  define E where "E = mx - mn"
  define y where "y = (v - mn) / E"
  have M: "1 \<le> M" using max_int_bounds(1) [OF n] by (simp add: M_def)
  have E: "0 < E" using v by (simp add: E_def)
  obtain t where t: "unit_pos v mn mx = Some t" "0 \<le> t" "t \<le> 1" "\<bar>t - y\<bar> \<le> 5 * uro"
    using unit_pos_error [OF v] unfolding y_def E_def by blast
  obtain k where k: "quantum t n = of_nat k" "k \<le> max_int n" "\<bar>of_nat k - t * M\<bar> \<le> 1 / 2 + 3 * uro * M"
    using quantum_error [OF n t(2,3)] unfolding M_def by blast
  define x where "x = dequantize (take_bit n (ucast (quantum t n))) mn mx n"
  have req: "requantize v mn mx n = Some x" by (simp add: requantize_def t(1) x_def)
  have "unat (take_bit n (ucast (quantum t n) :: u64)) = k" using unat_quantum_bits [OF k(2) n] k(1) by simp
  from dequantize_error [OF n this k(2) v(3)]
  have dq: "\<bar>x - (mn + E * (of_nat k / M))\<bar> \<le> uro * (5 * E + max \<bar>mn\<bar> \<bar>mx\<bar>)" by (simp add: x_def M_def E_def)
  have "\<bar>t * M - y * M\<bar> = \<bar>t - y\<bar> * M" using M by (simp add: abs_mult flip: left_diff_distrib)
  then have "\<bar>t * M - y * M\<bar> \<le> 5 * uro * M" using t(4) M by (simp add: mult_right_mono)
  with k(3) have "\<bar>of_nat k - y * M\<bar> \<le> 1 / 2 + 8 * uro * M" by (rule abs_step) simp
  then have "\<bar>of_nat k - y * M\<bar> / M \<le> (1 / 2 + 8 * uro * M) / M" using M by (intro divide_right_mono) simp_all
  moreover have "\<bar>of_nat k - y * M\<bar> / M = \<bar>of_nat k / M - y\<bar>"
    using M by (simp add: diff_divide_distrib abs_div_pos)
  moreover have "(1 / 2 + 8 * uro * M) / M = 1 / (2 * M) + 8 * uro" using M by (simp add: add_divide_distrib)
  ultimately have "\<bar>of_nat k / M - y\<bar> \<le> 1 / (2 * M) + 8 * uro" by simp
  then have "E * \<bar>of_nat k / M - y\<bar> \<le> E * (1 / (2 * M) + 8 * uro)" using E by (intro mult_left_mono) simp_all
  moreover have "(mn + E * (of_nat k / M)) - v = E * (of_nat k / M - y)"
  proof -
    have "E * y = v - mn" using E by (simp add: y_def)
    then show ?thesis by (simp only: right_diff_distrib)
  qed
  ultimately have "\<bar>(mn + E * (of_nat k / M)) - v\<bar> \<le> E / (2 * M) + 8 * uro * E"
    using E by (simp add: abs_mult distrib_left)
  with dq have "\<bar>x - v\<bar> \<le> E / (2 * M) + (13 * E + max \<bar>mn\<bar> \<bar>mx\<bar>) / 2 ^ 24"
    by (rule abs_step) (simp add: distrib_left add_divide_distrib)
  then show ?thesis using read_write_quantized [OF s _ _ req] n by (auto simp: M_def E_def)
qed

theorem quantization_error_witness:
  "\<exists>s1 s2 x. write_quantized bs_empty (1 / 3) (- 1) 1 10 = Some s1 \<and> read_quantized s1 (- 1) 1 10 = Some (Some x, s2) \<and>
     \<bar>x - 1 / 3\<bar> \<le> 2 / (2 * of_nat (max_int 10)) + 27 / 2 ^ 24"
  using quantization_error [of 10 "- 1" "1 / 3" 1 bs_empty] by simp

lemma f32_all_ones:
  "f32 33554431 = 33554432"
  "f32 67108863 = 67108864"
  "f32 134217727 = 134217728"
  "f32 268435455 = 268435456"
  "f32 536870911 = 536870912"
  "f32 1073741823 = 1073741824"
  "f32 2147483647 = 2147483648"
  by code_simp+

lemma f32_powers:
  "f32 33554432 = 33554432"
  "f32 67108864 = 67108864"
  "f32 134217728 = 134217728"
  "f32 268435456 = 268435456"
  "f32 536870912 = 536870912"
  "f32 1073741824 = 1073741824"
  "f32 2147483648 = 2147483648"
  by code_simp+

lemma f32_round_half:
  "f32 (16777215 + 1 / 2) = 16777216"
  "f32 (33554432 + 1 / 2) = 33554432"
  "f32 (67108864 + 1 / 2) = 67108864"
  "f32 (134217728 + 1 / 2) = 134217728"
  "f32 (268435456 + 1 / 2) = 268435456"
  "f32 (536870912 + 1 / 2) = 536870912"
  "f32 (1073741824 + 1 / 2) = 1073741824"
  "f32 (2147483648 + 1 / 2) = 2147483648"
  by code_simp+

lemma quantum_wraps:
  assumes "n \<in> {24, 25, 26, 27, 28, 29, 30, 31}"
  shows "quantum 1 n = 2 ^ n"
  using assms f32_all_ones f32_powers f32_round_half fround_int [of 16777215 24]
  by (elim insertE) (simp_all add: quantum_def max_int_def)

lemma dequantize_0: "f32 mn = mn \<Longrightarrow> dequantize 0 mn mx n = mn"
  by (simp add: dequantize_def)

lemma unit_pos_top:
  assumes "mn < mx" "mx \<le> v" shows "unit_pos v mn mx = Some 1"
proof -
  have d: "0 < f32 (mx - mn)" "f32 (mx - mn) \<le> f32 (v - mn)" using assms by (simp_all add: fround_pos fround_mono)
  then have "1 \<le> f32 (v - mn) / f32 (mx - mn)" by simp
  then have "1 \<le> f32 (f32 (v - mn) / f32 (mx - mn))" using fround_mono [of 1 "f32 (v - mn) / f32 (mx - mn)" 24] by simp
  then show ?thesis using d by (auto simp: unit_pos_def Let_def)
qed

text \<open>With 24 to 31 bits the largest quantum does not fit: a value at or above the upper bound is written as
  zero and read back as the lower bound.\<close>

theorem quantized_maximum_wraps:
  assumes n: "n \<in> {24, 25, 26, 27, 28, 29, 30, 31}" and v: "mn < mx" "mx \<le> v" "f32 mn = mn"
    and s: "bs_ok s" "read_bit_pos s = write_bit_pos s"
  shows "\<exists>s1 s2. write_quantized s v mn mx n = Some s1 \<and> read_quantized s1 mn mx n = Some (Some mn, s2)"
proof -
  have "take_bit n (ucast (quantum 1 n) :: u64) = 0"
    unfolding quantum_wraps [OF n] using n by (elim insertE) (simp_all add: take_bit_eq_mask mask_eq_exp_minus_1)
  then have "requantize v mn mx n = Some mn"
    using v by (simp add: requantize_def unit_pos_top dequantize_0)
  then show ?thesis using read_write_quantized [OF s, of n v mn mx mn] n by auto
qed

theorem quantized_maximum_wraps_witness:
  "\<exists>s1 s2. write_quantized bs_empty 1 0 1 24 = Some s1 \<and> read_quantized s1 0 1 24 = Some (Some 0, s2)"
  using quantized_maximum_wraps [of 24 0 1 1 bs_empty] by simp

text \<open>The encoder looks at absolute values only to find the largest component, and at the other three.\<close>

lemma pick_largest_cong:
  "\<forall>i\<in>set is. \<bar>q ! i\<bar> = \<bar>q' ! i\<bar> \<Longrightarrow> pick_largest q is k a = pick_largest q' is k a"
  by (induction "is" arbitrary: k a) auto

lemma largest_index_cong:
  assumes "\<And>i. \<bar>q ! i\<bar> = \<bar>q' ! i\<bar>" shows "largest_index q = largest_index q'"
  unfolding largest_index_def assms by (rule pick_largest_cong) (simp add: assms)

lemma write_others_cong:
  "\<forall>i\<in>set is. i \<noteq> k \<longrightarrow> q ! i = q' ! i \<Longrightarrow> write_others n q k is s = write_others n q' k is s"
proof (induction "is" arbitrary: s)
  case (Cons i "is")
  then have "write_others n q k is = write_others n q' k is" by (intro ext) simp
  then show ?case using Cons.prems by auto
qed simp

text \<open>The sign of the largest component is lost: a quaternion and the one with that component negated, which is
  another rotation, are written as the same bits, for every stream and every precision.\<close>

theorem quaternion_sign_lost:
  "write_smallest_three s (quat[largest_index quat := - quat ! largest_index quat]) n = write_smallest_three s quat n"
proof -
  let ?k = "largest_index quat" and ?q = "quat[largest_index quat := - quat ! largest_index quat]"
  have eq: "\<bar>?q ! i\<bar> = \<bar>quat ! i\<bar>" for i by (cases "?k < length quat"; cases "i = ?k") (simp_all add: list_update_beyond)
  then have k: "largest_index ?q = ?k" by (rule largest_index_cong)
  have "write_others n ?q ?k [0, 1, 2, 3] s' = write_others n quat ?k [0, 1, 2, 3] s'" for s'
    by (rule write_others_cong) simp
  then show ?thesis by (simp add: write_smallest_three_def k)
qed

theorem quaternion_sign_lost_witness:
  "write_smallest_three bs_empty [5 / 8, 0, 0, - 25 / 32] 10 = write_smallest_three bs_empty [5 / 8, 0, 0, 25 / 32] 10"
  using quaternion_sign_lost [of bs_empty "[5 / 8, 0, 0, 25 / 32]" 10]
  by (simp add: largest_index_def numeral_3_eq_3 numeral_2_eq_2)

end
