(* ===== verification/OrderedMap.thy ===== *)
theory OrderedMap
  imports Main
begin

text \<open>
  \<open>std::map\<close> as the sources use it: the list of its entries in the order of the key type's \<open>operator<\<close>,
  two keys being the same when neither is less than the other. Assigning to \<open>m[k]\<close> keeps the key that is
  already there.

  The locale \<open>key_order\<close> is the contract of a key type, an \<open>operator<\<close> that is a linear order on the keys in
  use; the laws of lookup, assignment and erasure are proved in it.
\<close>

fun map_find :: "('k \<Rightarrow> 'k \<Rightarrow> bool) \<Rightarrow> 'k \<Rightarrow> ('k \<times> 'v) list \<Rightarrow> 'v option" where
  "map_find lt k [] = None"
| "map_find lt k ((k', v) # m) = (if \<not> lt k' k \<and> \<not> lt k k' then Some v else map_find lt k m)"

fun map_put :: "('k \<Rightarrow> 'k \<Rightarrow> bool) \<Rightarrow> 'k \<Rightarrow> 'v \<Rightarrow> ('k \<times> 'v) list \<Rightarrow> ('k \<times> 'v) list" where
  "map_put lt k v [] = [(k, v)]"
| "map_put lt k v ((k', v') # m) =
     (if lt k' k then (k', v') # map_put lt k v m
      else if lt k k' then (k, v) # (k', v') # m
      else (k', v) # m)"

definition map_del :: "('k \<Rightarrow> 'k \<Rightarrow> bool) \<Rightarrow> 'k \<Rightarrow> ('k \<times> 'v) list \<Rightarrow> ('k \<times> 'v) list" where
  "map_del lt k m = filter (\<lambda>(k', v). lt k' k \<or> lt k k') m"

locale key_order =
  fixes lt :: "'k \<Rightarrow> 'k \<Rightarrow> bool" and ok :: "'k \<Rightarrow> bool" and key :: "'k \<Rightarrow> 'o::linorder"
  assumes lt_key: "ok a \<Longrightarrow> ok b \<Longrightarrow> lt a b \<longleftrightarrow> key a < key b"
begin

definition good :: "('k \<times> 'v) list \<Rightarrow> bool" where
  "good m \<longleftrightarrow> (\<forall>(k, v)\<in>set m. ok k) \<and> sorted_wrt (<) (map (key \<circ> fst) m)"

lemma good_Nil [simp]: "good []"
  by (simp add: good_def)

lemma good_Cons: "good ((k, v) # m) \<longleftrightarrow> ok k \<and> (\<forall>(k', v')\<in>set m. key k < key k') \<and> good m"
  by (auto simp: good_def)

lemma find_eq: "good m \<Longrightarrow> ok k \<Longrightarrow> map_find lt k m = map_of (map (\<lambda>(k, v). (key k, v)) m) (key k)"
  by (induction m) (auto simp: good_Cons lt_key)

lemma find_cong: "good m \<Longrightarrow> ok k \<Longrightarrow> ok k' \<Longrightarrow> key k = key k' \<Longrightarrow> map_find lt k m = map_find lt k' m"
  by (simp add: find_eq)

lemma good_ok: "good m \<Longrightarrow> (k, v) \<in> set m \<Longrightarrow> ok k"
  by (auto simp: good_def)

lemma put_entries: "ok k \<Longrightarrow> good m \<Longrightarrow> (k', v') \<in> set (map_put lt k v m) \<Longrightarrow> ok k' \<and> (key k' = key k \<and> v' = v \<or> (k', v') \<in> set m)"
  by (induction m) (auto simp: good_Cons lt_key not_less dest: good_ok split: if_splits)

lemma good_put: "good m \<Longrightarrow> ok k \<Longrightarrow> good (map_put lt k v m)"
proof (induction m)
  case (Cons e m)
  obtain k1 v1 where e: "e = (k1, v1)" by (rule prod.exhaust)
  have "key k1 < key k2" if "(k2, v2) \<in> set (map_put lt k v m)" "key k1 < key k" for k2 v2
    using put_entries [of k m k2 v2 v] Cons.prems that e by (auto simp: good_Cons)
  then show ?case using Cons e by (auto simp: good_Cons lt_key not_less)
qed (simp add: good_Cons)

lemma in_del: "ok k \<Longrightarrow> good m \<Longrightarrow> (k', v) \<in> set (map_del lt k m) \<longleftrightarrow> (k', v) \<in> set m \<and> key k' \<noteq> key k"
  by (auto simp: map_del_def lt_key dest: good_ok)

lemma good_del: "good m \<Longrightarrow> good (map_del lt k m)"
  by (induction m) (auto simp: good_Cons map_del_def)

lemma find_put:
  "good m \<Longrightarrow> ok k \<Longrightarrow> ok k' \<Longrightarrow> map_find lt k' (map_put lt k v m) = (if key k' = key k then Some v else map_find lt k' m)"
  by (induction m) (auto simp: good_Cons lt_key not_less)

lemma find_del:
  "good m \<Longrightarrow> ok k \<Longrightarrow> ok k' \<Longrightarrow> map_find lt k' (map_del lt k m) = (if key k' = key k then None else map_find lt k' m)"
  by (induction m) (auto simp: good_Cons lt_key map_del_def)

lemma find_in: "map_find lt k m = Some v \<Longrightarrow> good m \<Longrightarrow> ok k \<Longrightarrow> \<exists>k'. (k', v) \<in> set m \<and> key k' = key k"
  by (induction m) (auto simp: good_Cons lt_key split: if_splits)

lemma in_find:
  assumes "(k, v) \<in> set m" "good m" shows "map_find lt k m = Some v"
  using assms
proof (induction m)
  case (Cons e m)
  obtain k1 v1 where e: "e = (k1, v1)" by (rule prod.exhaust)
  have k: "ok k" using good_ok [OF Cons.prems(2,1)] .
  show ?case
  proof (cases "(k, v) = e")
    case False
    then have "key k1 < key k" using Cons.prems e by (auto simp: good_Cons)
    then show ?thesis using Cons e k False by (auto simp: good_Cons lt_key)
  qed (use e k in \<open>simp add: lt_key\<close>)
qed simp

lemma find_None: "good m \<Longrightarrow> ok k \<Longrightarrow> map_find lt k m = None \<longleftrightarrow> (\<forall>(k', v)\<in>set m. key k' \<noteq> key k)"
proof (induction m)
  case (Cons e m)
  obtain k1 v1 where "e = (k1, v1)" by (rule prod.exhaust)
  then show ?case using Cons by (cases "key k1" "key k" rule: linorder_cases) (auto simp: good_Cons lt_key)
qed simp

text \<open>Two maps with the same keys keep them under the same assignments and erasures.\<close>

definition keys_of :: "('k \<times> 'v) list \<Rightarrow> 'o list" where
  "keys_of m = map (key \<circ> fst) m"

lemma keys_of_simps [simp]: "keys_of [] = []" "keys_of (e # m) = key (fst e) # keys_of m"
  by (simp_all add: keys_of_def)

lemma keys_of_Nil [simp]: "[] = keys_of m \<longleftrightarrow> m = []"
  by (auto simp: keys_of_def)

lemma put_value: "(k', v') \<in> set (map_put lt k v m) \<Longrightarrow> v' = v \<or> v' \<in> snd ` set m"
  by (induction m) (force split: if_splits)+

lemma keys_of_put:
  "keys_of m = keys_of m' \<Longrightarrow> good m \<Longrightarrow> good m' \<Longrightarrow> ok k \<Longrightarrow> keys_of (map_put lt k v m) = keys_of (map_put lt k v' m')"
proof (induction m arbitrary: m')
  case (Cons e m)
  then obtain e' m2 where "m' = e' # m2" "key (fst e) = key (fst e')" "keys_of m = keys_of m2" by (cases m') auto
  then show ?case using Cons by (cases e; cases e') (auto simp: good_Cons lt_key)
qed simp

lemma keys_of_del:
  "keys_of m = keys_of m' \<Longrightarrow> good m \<Longrightarrow> good m' \<Longrightarrow> ok k \<Longrightarrow> keys_of (map_del lt k m) = keys_of (map_del lt k m')"
proof (induction m arbitrary: m')
  case (Cons e m)
  then obtain e' m2 where "m' = e' # m2" "key (fst e) = key (fst e')" "keys_of m = keys_of m2" by (cases m') auto
  then show ?case using Cons by (cases e; cases e') (auto simp: good_Cons lt_key map_del_def)
qed (simp add: map_del_def)

lemma entries_del: "e \<in> set (map_del lt k m) \<Longrightarrow> e \<in> set m"
  by (auto simp: map_del_def)

end

end
