(* ===== verification/Loopback.thy ===== *)
theory Loopback
  imports Transport OrderedMap
begin

text \<open>
  \<open>LoopbackHub\<close> and \<open>LoopbackTransport\<close> (\<open>src/src/transport/loopback_transport.cpp\<close>): the in-memory transport
  and the router its instances share.

  The hub holds pointers to transports, and delivering writes into the transport pointed to. The state
  \<open>world\<close> is therefore one hub with a store of the transports on it: a pointer is the number of a transport.
  The three ordered maps of the hub are the sorted lists of \<open>OrderedMap\<close>, keyed by addresses. The clock is
  an argument of the operations that read it; \<open>rng n\<close> is the \<open>n\<close>-th value a transport draws from its
  generator, which every transport seeds with 42. \<open>None\<close> is a loop that does not end.
\<close>

subsection \<open>State\<close>

record loop_packet =
  lp_sender :: address
  lp_data :: bytes
  lp_reliability :: reliability

record delayed_packet =
  delivery_time :: rat
  dp_recipient :: address
  dp_sender :: address
  dp_data :: bytes
  dp_reliability :: reliability
  dp_broadcast :: bool

record loopback =
  lo_bound :: bool
  lo_connected :: bool
  local_addr :: address
  remote_addr :: address
  pending_recv :: "loop_packet list"
  ready_recv :: "loop_packet list"
  latency_sec :: rat
  loss_ratio :: rat
  draws :: nat
  delayed_outbound :: "delayed_packet list"

definition new_loopback :: loopback where
  "new_loopback = \<lparr>lo_bound = False, lo_connected = False, local_addr = addr_default, remote_addr = addr_default,
     pending_recv = [], ready_recv = [], latency_sec = 0, loss_ratio = 0, draws = 0, delayed_outbound = []\<rparr>"

record hub =
  servers :: "(address \<times> nat) list"
  clients :: "(address \<times> nat) list"
  client_to_server :: "(address \<times> address) list"
  next_port :: u16

definition new_hub :: hub where
  "new_hub = \<lparr>servers = [], clients = [], client_to_server = [], next_port = 50000\<rparr>"

record world =
  w_hub :: hub
  w_tr :: "nat \<Rightarrow> loopback"

definition upd :: "nat \<Rightarrow> (loopback \<Rightarrow> loopback) \<Rightarrow> world \<Rightarrow> world" where
  "upd t f w = w\<lparr>w_tr := (w_tr w)(t := f (w_tr w t))\<rparr>"

subsection \<open>The hub\<close>

definition find_transport :: "endian \<Rightarrow> address \<Rightarrow> hub \<Rightarrow> nat option" where
  "find_transport en a h =
     (case map_find (addr_less en) a (clients h) of
        Some t \<Rightarrow> Some t
      | None \<Rightarrow> map_find (addr_less en) a (servers h))"

definition enqueue_pending :: "nat \<Rightarrow> address \<Rightarrow> bytes \<Rightarrow> reliability \<Rightarrow> world \<Rightarrow> world" where
  "enqueue_pending t sender d r =
     upd t (\<lambda>l. l\<lparr>pending_recv := pending_recv l @ [\<lparr>lp_sender = sender, lp_data = d, lp_reliability = r\<rparr>]\<rparr>)"

definition bind_server :: "endian \<Rightarrow> address \<Rightarrow> nat \<Rightarrow> hub \<Rightarrow> hub" where
  "bind_server en a t h = h\<lparr>servers := map_put (addr_less en) a t (servers h)\<rparr>"

fun unbind_clients :: "endian \<Rightarrow> address \<Rightarrow> (address \<times> address) list \<Rightarrow> hub \<Rightarrow> hub" where
  "unbind_clients en a [] h = h"
| "unbind_clients en a ((c, s) # m) h =
     (if addr_eq s a
      then unbind_clients en a m (h\<lparr>clients := map_del (addr_less en) c (clients h),
             client_to_server := map_del (addr_less en) c (client_to_server h)\<rparr>)
      else unbind_clients en a m h)"

definition unbind_server :: "endian \<Rightarrow> address \<Rightarrow> hub \<Rightarrow> hub" where
  "unbind_server en a h =
     (let h = h\<lparr>servers := map_del (addr_less en) a (servers h)\<rparr> in unbind_clients en a (client_to_server h) h)"

definition loop_address :: "u16 \<Rightarrow> address" where
  "loop_address = addr_parse (\<lambda>_. Some [127, 0, 0, 1]) (\<lambda>_. None) ''127.0.0.1''"

partial_function (option) fresh_client :: "endian \<Rightarrow> (address \<times> nat) list \<Rightarrow> u16 \<Rightarrow> (address \<times> u16) option" where
  "fresh_client en cl port =
     (if map_find (addr_less en) (loop_address port) cl \<noteq> None then fresh_client en cl (port + 1)
      else Some (loop_address port, port + 1))"

definition connect_client :: "endian \<Rightarrow> address \<Rightarrow> nat \<Rightarrow> hub \<Rightarrow> (address option \<times> hub) option" where
  "connect_client en server_addr t h =
     (if map_find (addr_less en) server_addr (servers h) = None then Some (None, h)
      else map_option (\<lambda>(a, port). (Some a, h\<lparr>next_port := port, clients := map_put (addr_less en) a t (clients h),
             client_to_server := map_put (addr_less en) a server_addr (client_to_server h)\<rparr>))
           (fresh_client en (clients h) (next_port h)))"

definition disconnect_client :: "endian \<Rightarrow> address \<Rightarrow> hub \<Rightarrow> hub" where
  "disconnect_client en a h =
     h\<lparr>clients := map_del (addr_less en) a (clients h),
       client_to_server := map_del (addr_less en) a (client_to_server h)\<rparr>"

definition deliver :: "endian \<Rightarrow> address \<Rightarrow> address \<Rightarrow> bytes \<Rightarrow> reliability \<Rightarrow> world \<Rightarrow> world" where
  "deliver en to from d r w =
     (case find_transport en to (w_hub w) of None \<Rightarrow> w | Some t \<Rightarrow> enqueue_pending t from d r w)"

fun broadcast_to :: "endian \<Rightarrow> address \<Rightarrow> address \<Rightarrow> bytes \<Rightarrow> reliability \<Rightarrow> (address \<times> address) list \<Rightarrow> world \<Rightarrow> world" where
  "broadcast_to en server_addr from d r [] w = w"
| "broadcast_to en server_addr from d r ((c, s) # m) w =
     (if addr_ne s server_addr then broadcast_to en server_addr from d r m w
      else case map_find (addr_less en) c (clients (w_hub w)) of
             None \<Rightarrow> broadcast_to en server_addr from d r m w
           | Some t \<Rightarrow> broadcast_to en server_addr from d r m (enqueue_pending t from d r w))"

definition hub_broadcast :: "endian \<Rightarrow> address \<Rightarrow> address \<Rightarrow> bytes \<Rightarrow> reliability \<Rightarrow> world \<Rightarrow> world" where
  "hub_broadcast en server_addr from d r w =
     broadcast_to en server_addr from d r (client_to_server (w_hub w)) w"

subsection \<open>The transport\<close>

definition lo_bind :: "endian \<Rightarrow> address \<Rightarrow> nat \<Rightarrow> world \<Rightarrow> bool \<times> world" where
  "lo_bind en a t w =
     (if lo_bound (w_tr w t) then (False, w)
      else let w = upd t (\<lambda>l. l\<lparr>local_addr := a\<rparr>) w;
               w = w\<lparr>w_hub := bind_server en a t (w_hub w)\<rparr>
           in (True, upd t (\<lambda>l. l\<lparr>lo_bound := True\<rparr>) w))"

definition lo_connect :: "endian \<Rightarrow> address \<Rightarrow> nat \<Rightarrow> world \<Rightarrow> (bool \<times> world) option" where
  "lo_connect en a t w =
     (if lo_connected (w_tr w t) \<or> lo_bound (w_tr w t) then Some (False, w)
      else map_option (\<lambda>(ca, h). case ca of
               None \<Rightarrow> (False, w\<lparr>w_hub := h\<rparr>)
             | Some c \<Rightarrow> (True, upd t (\<lambda>l. l\<lparr>local_addr := c, remote_addr := a, lo_connected := True\<rparr>) (w\<lparr>w_hub := h\<rparr>)))
           (connect_client en a t (w_hub w)))"

definition lo_disconnect :: "endian \<Rightarrow> nat \<Rightarrow> world \<Rightarrow> world" where
  "lo_disconnect en t w =
     (let w = (if lo_bound (w_tr w t)
               then upd t (\<lambda>l. l\<lparr>lo_bound := False\<rparr>) (w\<lparr>w_hub := unbind_server en (local_addr (w_tr w t)) (w_hub w)\<rparr>) else w);
          w = (if lo_connected (w_tr w t)
               then upd t (\<lambda>l. l\<lparr>lo_connected := False\<rparr>) (w\<lparr>w_hub := disconnect_client en (local_addr (w_tr w t)) (w_hub w)\<rparr>) else w)
      in upd t (\<lambda>l. l\<lparr>local_addr := addr_default, remote_addr := addr_default, pending_recv := [], ready_recv := []\<rparr>) w)"

definition lo_is_connected :: "loopback \<Rightarrow> bool" where
  "lo_is_connected l \<longleftrightarrow> lo_bound l \<or> lo_connected l"

definition should_drop :: "(nat \<Rightarrow> rat) \<Rightarrow> loopback \<Rightarrow> bool \<times> loopback" where
  "should_drop rng l =
     (if loss_ratio l \<le> 0 then (False, l)
      else (rng (draws l) < loss_ratio l, l\<lparr>draws := draws l + 1\<rparr>))"

definition lo_send :: "endian \<Rightarrow> (nat \<Rightarrow> rat) \<Rightarrow> rat \<Rightarrow> bytes \<Rightarrow> reliability \<Rightarrow> nat \<Rightarrow> world \<Rightarrow> bool \<times> world" where
  "lo_send en rng now d r t w =
     (let (drop, l) = should_drop rng (w_tr w t); w = upd t (\<lambda>_. l) w
      in if drop then (True, w)
         else if 0 < latency_sec l
         then (True, upd t (\<lambda>l. l\<lparr>delayed_outbound := delayed_outbound l @
                [\<lparr>delivery_time = f64 (now + latency_sec l),
                  dp_recipient = (if lo_bound l then local_addr l else remote_addr l), dp_sender = local_addr l,
                  dp_data = d, dp_reliability = r, dp_broadcast = lo_bound l\<rparr>]\<rparr>) w)
         else if lo_bound l then (True, hub_broadcast en (local_addr l) (local_addr l) d r w)
         else if lo_connected l then (True, deliver en (remote_addr l) (local_addr l) d r w)
         else (False, w))"

definition lo_send_to :: "endian \<Rightarrow> (nat \<Rightarrow> rat) \<Rightarrow> rat \<Rightarrow> address \<Rightarrow> bytes \<Rightarrow> reliability \<Rightarrow> nat \<Rightarrow> world \<Rightarrow> bool \<times> world" where
  "lo_send_to en rng now a d r t w =
     (if \<not> lo_bound (w_tr w t) then (False, w)
      else let (drop, l) = should_drop rng (w_tr w t); w = upd t (\<lambda>_. l) w
      in if drop then (True, w)
         else if 0 < latency_sec l
         then (True, upd t (\<lambda>l. l\<lparr>delayed_outbound := delayed_outbound l @
                [\<lparr>delivery_time = f64 (now + latency_sec l), dp_recipient = a, dp_sender = local_addr l,
                  dp_data = d, dp_reliability = r, dp_broadcast = False\<rparr>]\<rparr>) w)
         else (True, deliver en a (local_addr l) d r w))"

fun flush_delayed :: "endian \<Rightarrow> rat \<Rightarrow> delayed_packet list \<Rightarrow> world \<Rightarrow> delayed_packet list \<times> world" where
  "flush_delayed en now [] w = ([], w)"
| "flush_delayed en now (p # ps) w =
     (if delivery_time p \<le> now
      then flush_delayed en now ps
             (if dp_broadcast p then hub_broadcast en (dp_sender p) (dp_sender p) (dp_data p) (dp_reliability p) w
              else deliver en (dp_recipient p) (dp_sender p) (dp_data p) (dp_reliability p) w)
      else let (ps', w) = flush_delayed en now ps w in (p # ps', w))"

definition lo_poll :: "endian \<Rightarrow> rat \<Rightarrow> nat \<Rightarrow> world \<Rightarrow> world" where
  "lo_poll en now t w =
     (let (ps, w) = flush_delayed en now (delayed_outbound (w_tr w t)) w;
          w = upd t (\<lambda>l. l\<lparr>delayed_outbound := ps\<rparr>) w
      in upd t (\<lambda>l. l\<lparr>ready_recv := ready_recv l @ pending_recv l, pending_recv := []\<rparr>) w)"

definition lo_pop_receive :: "nat \<Rightarrow> loopback \<Rightarrow> (bytes \<times> address) option \<times> loopback" where
  "lo_pop_receive max_length l =
     (case ready_recv l of
        [] \<Rightarrow> (None, l)
      | p # ps \<Rightarrow> (Some (take (min max_length (length (lp_data p))) (lp_data p), lp_sender p), l\<lparr>ready_recv := ps\<rparr>))"

definition lo_rtt :: "loopback \<Rightarrow> rat" where "lo_rtt l = f32 (latency_sec l * 2)"

definition set_latency :: "rat \<Rightarrow> loopback \<Rightarrow> loopback" where
  "set_latency seconds l = l\<lparr>latency_sec := max 0 seconds\<rparr>"

definition set_packet_loss :: "rat \<Rightarrow> loopback \<Rightarrow> loopback" where
  "set_packet_loss ratio l = l\<lparr>loss_ratio := (if ratio < 0 then 0 else if 1 < ratio then 1 else ratio)\<rparr>"

subsection \<open>The tables of the hub\<close>

interpretation addrs: key_order "addr_less en" addr_ok "addr_key en" for en
  by unfold_locales (rule addr_less_key)

text \<open>The tables are ordered, hold well-formed addresses, and know the server of every client.\<close>

definition hub_ok :: "endian \<Rightarrow> hub \<Rightarrow> bool" where
  "hub_ok en h \<longleftrightarrow> addrs.good en (servers h) \<and> addrs.good en (clients h) \<and> addrs.good en (client_to_server h) \<and>
     (\<forall>(c, s)\<in>set (client_to_server h). addr_ok s) \<and> addrs.keys_of en (clients h) = addrs.keys_of en (client_to_server h)"

lemma hub_ok_new [simp]: "hub_ok en new_hub"
  by (simp add: hub_ok_def new_hub_def)

lemma loop_address_ok [simp]: "addr_ok (loop_address p)"
  by (simp add: loop_address_def addr_parse_def addr_ok_def)

lemma loop_address_key: "addr_key en (loop_address p) = addr_key en (loop_address q) \<longleftrightarrow> p = q"
  by (simp add: loop_address_def addr_parse_def addr_key_def word_uint_eq_iff)

lemma hub_ok_bind: "hub_ok en h \<Longrightarrow> addr_ok a \<Longrightarrow> hub_ok en (bind_server en a t h)"
  by (simp add: hub_ok_def bind_server_def addrs.good_put)

lemma hub_ok_disconnect: "hub_ok en h \<Longrightarrow> addr_ok a \<Longrightarrow> hub_ok en (disconnect_client en a h)"
  unfolding hub_ok_def disconnect_client_def
  by (auto simp: addrs.good_del dest: addrs.entries_del intro!: addrs.keys_of_del)

lemma hub_ok_unbind_clients: "\<forall>(c, s)\<in>set m. addr_ok c \<Longrightarrow> hub_ok en h \<Longrightarrow> hub_ok en (unbind_clients en a m h)"
  by (induction en a m h rule: unbind_clients.induct)
    (auto simp: disconnect_client_def [symmetric] intro: hub_ok_disconnect)

lemma hub_ok_unbind: "hub_ok en h \<Longrightarrow> hub_ok en (unbind_server en a h)"
  unfolding unbind_server_def Let_def
  by (rule hub_ok_unbind_clients) (auto simp: hub_ok_def addrs.good_del dest: addrs.good_ok)

lemma fresh_client_result:
  "fresh_client en cl port = Some r \<Longrightarrow> (\<exists>p. r = (loop_address p, p + 1) \<and> map_find (addr_less en) (loop_address p) cl = None)"
  by (induction rule: fresh_client.raw_induct [rotated 1, consumes 1]) (auto split: if_splits)

lemma fresh_client_returns:
  "map_find (addr_less en) (loop_address (port + of_nat n)) cl = None \<Longrightarrow> fresh_client en cl port \<noteq> None"
proof (induction n arbitrary: port)
  case 0
  then show ?case by (simp add: fresh_client.simps [of en cl port])
next
  case (Suc n)
  then show ?case using Suc.IH [of "port + 1"] by (subst fresh_client.simps) (auto simp: add.assoc)
qed

text \<open>Fewer clients than ports leave a port free.\<close>

lemma free_port:
  assumes "addrs.good en cl" "length cl < 65536"
  obtains n where "map_find (addr_less en) (loop_address (port + of_nat n)) cl = None"
proof -
  let ?f = "\<lambda>p :: u16. addr_key en (loop_address p)"
  have "card (range ?f) = 65536"
    by (subst card_image) (simp_all add: inj_on_def loop_address_key card_word)
  moreover have "card (set (addrs.keys_of en cl)) < 65536"
    using assms(2) card_length [of "addrs.keys_of en cl"] by (simp add: addrs.keys_of_def)
  ultimately have "\<not> range ?f \<subseteq> set (addrs.keys_of en cl)"
    using card_mono [of "set (addrs.keys_of en cl)" "range ?f"] by force
  then obtain p where "?f p \<notin> set (addrs.keys_of en cl)" by auto
  then have "map_find (addr_less en) (loop_address p) cl = None"
    using assms(1) by (subst addrs.find_None) (auto simp: addrs.keys_of_def image_iff)
  moreover have "p = port + of_nat (unat (p - port))" by simp
  ultimately show thesis using that [of "unat (p - port)"] by simp
qed

lemma hub_ok_connect:
  assumes "hub_ok en h" "addr_ok a" "connect_client en a t h = Some (r, h')"
  shows "hub_ok en h'"
proof (cases "map_find (addr_less en) a (servers h) = None")
  case False
  then obtain c port where f: "fresh_client en (clients h) (next_port h) = Some (c, port)"
    and h': "h' = h\<lparr>next_port := port, clients := map_put (addr_less en) c t (clients h),
             client_to_server := map_put (addr_less en) c a (client_to_server h)\<rparr>"
    using assms(3) by (auto simp: connect_client_def)
  have c: "addr_ok c" using fresh_client_result [OF f] by auto
  have "\<forall>(c', s)\<in>set (map_put (addr_less en) c a (client_to_server h)). addr_ok s"
    using assms(1,2) by (force simp: hub_ok_def dest: addrs.put_value)
  then show ?thesis using assms c unfolding h'
    by (auto simp: hub_ok_def addrs.good_put intro!: addrs.keys_of_put)
qed (use assms in \<open>simp add: connect_client_def\<close>)

subsection \<open>No pointer outlives its transport\<close>

text \<open>Sending, polling and popping change neither the hub nor who is bound or connected where.\<close>

definition same_links :: "world \<Rightarrow> world \<Rightarrow> bool" where
  "same_links w w' \<longleftrightarrow> w_hub w' = w_hub w \<and>
     (\<forall>t. lo_bound (w_tr w' t) = lo_bound (w_tr w t) \<and> lo_connected (w_tr w' t) = lo_connected (w_tr w t) \<and>
          local_addr (w_tr w' t) = local_addr (w_tr w t) \<and> remote_addr (w_tr w' t) = remote_addr (w_tr w t))"

lemma same_links_refl [simp]: "same_links w w"
  by (simp add: same_links_def)

lemma same_links_trans: "same_links w w1 \<Longrightarrow> same_links w1 w2 \<Longrightarrow> same_links w w2"
  by (simp add: same_links_def)

lemma upd_sel [simp]: "w_hub (upd t f w) = w_hub w" "w_tr (upd t f w) u = (if u = t then f (w_tr w t) else w_tr w u)"
  by (simp_all add: upd_def)

lemma same_links_upd:
  "lo_bound (f (w_tr w t)) = lo_bound (w_tr w t) \<Longrightarrow> lo_connected (f (w_tr w t)) = lo_connected (w_tr w t) \<Longrightarrow>
   local_addr (f (w_tr w t)) = local_addr (w_tr w t) \<Longrightarrow> remote_addr (f (w_tr w t)) = remote_addr (w_tr w t) \<Longrightarrow>
   same_links w (upd t f w)"
  by (simp add: same_links_def)

lemma same_links_enqueue [simp]: "same_links w (enqueue_pending t a d r w)"
  unfolding enqueue_pending_def by (rule same_links_upd) simp_all

lemma same_links_deliver [simp]: "same_links w (deliver en a b d r w)"
  by (simp add: deliver_def split: option.split)

lemma same_links_broadcast_to: "same_links w (broadcast_to en a b d r m w)"
proof (induction en a b d r m w rule: broadcast_to.induct)
  case (2 en a b d r c s m w)
  then show ?case by (auto split: option.split intro: same_links_trans [OF same_links_enqueue])
qed simp

lemma same_links_broadcast [simp]: "same_links w (hub_broadcast en a b d r w)"
  by (simp add: hub_broadcast_def same_links_broadcast_to)

lemma same_links_flush: "same_links w (snd (flush_delayed en now ps w))"
proof (induction en now ps w rule: flush_delayed.induct)
  case (2 en now p ps w)
  then show ?case
    by (auto simp: case_prod_unfold Let_def intro: same_links_trans [OF same_links_broadcast] same_links_trans [OF same_links_deliver])
qed simp

lemma should_drop_links:
  "lo_bound (snd (should_drop rng l)) = lo_bound l" "lo_connected (snd (should_drop rng l)) = lo_connected l"
  "local_addr (snd (should_drop rng l)) = local_addr l" "remote_addr (snd (should_drop rng l)) = remote_addr l"
  by (simp_all add: should_drop_def)

lemma same_links_draw: "should_drop rng (w_tr w t) = (b, l) \<Longrightarrow> same_links w (upd t (\<lambda>_. l) w)"
  using should_drop_links [of rng "w_tr w t"] by (intro same_links_upd) simp_all

lemma same_links_delay [simp]: "same_links w (upd t (\<lambda>l. l\<lparr>delayed_outbound := f l\<rparr>) w)"
  by (rule same_links_upd) simp_all

lemma same_links_send: "same_links w (snd (lo_send en rng now d r t w))"
proof -
  obtain b l where dl: "should_drop rng (w_tr w t) = (b, l)" by (rule prod.exhaust)
  have "same_links (upd t (\<lambda>_. l) w) (snd (lo_send en rng now d r t w))"
    by (simp add: lo_send_def dl Let_def)
  with same_links_draw [OF dl] show ?thesis by (rule same_links_trans)
qed

lemma same_links_send_to: "same_links w (snd (lo_send_to en rng now a d r t w))"
proof -
  obtain b l where dl: "should_drop rng (w_tr w t) = (b, l)" by (rule prod.exhaust)
  have "lo_bound (w_tr w t) \<Longrightarrow> same_links (upd t (\<lambda>_. l) w) (snd (lo_send_to en rng now a d r t w))"
    by (simp add: lo_send_to_def dl Let_def)
  then show ?thesis using same_links_trans [OF same_links_draw [OF dl]]
    by (cases "lo_bound (w_tr w t)") (simp_all add: lo_send_to_def)
qed

lemma same_links_poll: "same_links w (lo_poll en now t w)"
proof -
  obtain ps w1 where f: "flush_delayed en now (delayed_outbound (w_tr w t)) w = (ps, w1)" by (rule prod.exhaust)
  have "same_links w w1" using same_links_flush [of w en now "delayed_outbound (w_tr w t)"] f by simp
  moreover have "same_links w1 (lo_poll en now t w)" by (simp add: lo_poll_def f same_links_def Let_def)
  ultimately show ?thesis by (rule same_links_trans)
qed

lemma same_links_pop: "same_links w (upd t (\<lambda>l. snd (lo_pop_receive n l)) w)"
  by (rule same_links_upd) (simp_all add: lo_pop_receive_def split: list.split)

text \<open>Every entry of the tables points to a transport that is bound, or connected, at the entry's address.\<close>

definition world_ok :: "endian \<Rightarrow> world \<Rightarrow> bool" where
  "world_ok en w \<longleftrightarrow> hub_ok en (w_hub w) \<and>
     (\<forall>t. addr_ok (local_addr (w_tr w t)) \<and> \<not> (lo_bound (w_tr w t) \<and> lo_connected (w_tr w t))) \<and>
     (\<forall>(a, t)\<in>set (servers (w_hub w)). lo_bound (w_tr w t) \<and> addr_eq (local_addr (w_tr w t)) a) \<and>
     (\<forall>(a, t)\<in>set (clients (w_hub w)). lo_connected (w_tr w t) \<and> addr_eq (local_addr (w_tr w t)) a)"

lemma world_ok_same: "world_ok en w \<Longrightarrow> same_links w w' \<Longrightarrow> world_ok en w'"
  by (simp add: world_ok_def same_links_def)

lemma world_okD:
  assumes "world_ok en w"
  shows "hub_ok en (w_hub w)" "addr_ok (local_addr (w_tr w t))" "\<not> (lo_bound (w_tr w t) \<and> lo_connected (w_tr w t))"
    "(a, t) \<in> set (servers (w_hub w)) \<Longrightarrow> lo_bound (w_tr w t) \<and> addr_eq (local_addr (w_tr w t)) a"
    "(a, t) \<in> set (clients (w_hub w)) \<Longrightarrow> lo_connected (w_tr w t) \<and> addr_eq (local_addr (w_tr w t)) a"
  using assms by (auto simp: world_ok_def)

lemma world_okI:
  assumes "hub_ok en (w_hub w)" "\<And>t. addr_ok (local_addr (w_tr w t))" "\<And>t. \<not> (lo_bound (w_tr w t) \<and> lo_connected (w_tr w t))"
    "\<And>a t. (a, t) \<in> set (servers (w_hub w)) \<Longrightarrow> lo_bound (w_tr w t) \<and> addr_eq (local_addr (w_tr w t)) a"
    "\<And>a t. (a, t) \<in> set (clients (w_hub w)) \<Longrightarrow> lo_connected (w_tr w t) \<and> addr_eq (local_addr (w_tr w t)) a"
  shows "world_ok en w"
  using assms unfolding world_ok_def by blast

lemma unbind_clients_sub:
  "e \<in> set (clients (unbind_clients en a m h)) \<Longrightarrow> e \<in> set (clients h)"
  "servers (unbind_clients en a m h) = servers h"
  by (induction en a m h rule: unbind_clients.induct) (auto split: if_splits dest: addrs.entries_del)

lemma world_ok_bind:
  assumes ok: "world_ok en w" and a: "addr_ok a" and "\<not> lo_connected (w_tr w t)"
  shows "world_ok en (snd (lo_bind en a t w))"
proof (cases "lo_bound (w_tr w t)")
  case False
  have nt: "u \<noteq> t" if "(b, u) \<in> set (servers (w_hub w)) \<or> (b, u) \<in> set (clients (w_hub w))" for b u
    using that world_okD(4,5) [OF ok] False assms(3) by blast
  have good: "addrs.good en (servers (w_hub w))" using world_okD(1) [OF ok] by (simp add: hub_ok_def)
  have ent: "u = t \<and> addr_eq a b \<or> (b, u) \<in> set (servers (w_hub w))"
    if "(b, u) \<in> set (map_put (addr_less en) a t (servers (w_hub w)))" for b u
    using addrs.put_entries [OF a good that] a by (auto simp: addr_eq_key [of a b en])
  have srv: "u = t \<Longrightarrow> addr_eq a b" "u \<noteq> t \<Longrightarrow> lo_bound (w_tr w u) \<and> addr_eq (local_addr (w_tr w u)) b"
    if "(b, u) \<in> set (map_put (addr_less en) a t (servers (w_hub w)))" for b u
    using ent [OF that] nt world_okD(4) [OF ok] by auto
  have cl: "lo_connected (w_tr w u) \<and> addr_eq (local_addr (w_tr w u)) b \<and> u \<noteq> t"
    if "(b, u) \<in> set (clients (w_hub w))" for b u
    using that nt world_okD(5) [OF ok] by blast
  show ?thesis using world_okD(1,2,3) [OF ok] False assms(3) a hub_ok_bind [of en "w_hub w" a t]
    unfolding world_ok_def by (auto simp: lo_bind_def bind_server_def dest: srv cl)
qed (use ok in \<open>simp add: lo_bind_def\<close>)

lemma world_ok_connect:
  assumes ok: "world_ok en w" and a: "addr_ok a" and r: "lo_connect en a t w = Some (b, w')"
  shows "world_ok en w'"
proof (cases "lo_connected (w_tr w t) \<or> lo_bound (w_tr w t)")
  case False
  obtain co h where c: "connect_client en a t (w_hub w) = Some (co, h)" using r False by (auto simp: lo_connect_def)
  have h: "hub_ok en h" using hub_ok_connect [OF world_okD(1) [OF ok] a c] .
  show ?thesis
  proof (cases co)
    case None
    then have "h = w_hub w" using c by (auto simp: connect_client_def split: if_splits)
    then show ?thesis using None ok c r False by (simp add: lo_connect_def)
  next
    case (Some ca)
    then obtain port where f: "fresh_client en (clients (w_hub w)) (next_port (w_hub w)) = Some (ca, port)"
      and h': "clients h = map_put (addr_less en) ca t (clients (w_hub w))" "servers h = servers (w_hub w)"
      using c by (auto simp: connect_client_def split: if_splits)
    have ca: "addr_ok ca" using fresh_client_result [OF f] by auto
    have w': "w' = upd t (\<lambda>l. l\<lparr>local_addr := ca, remote_addr := a, lo_connected := True\<rparr>) (w\<lparr>w_hub := h\<rparr>)"
      using r False c Some by (simp add: lo_connect_def)
    have nt: "u \<noteq> t" if "(b, u) \<in> set (servers (w_hub w)) \<or> (b, u) \<in> set (clients (w_hub w))" for b u
      using that world_okD(4,5) [OF ok] False by blast
    have good: "addrs.good en (clients (w_hub w))" using world_okD(1) [OF ok] by (simp add: hub_ok_def)
    have ent: "u = t \<and> addr_eq ca b \<or> (b, u) \<in> set (clients (w_hub w))"
      if "(b, u) \<in> set (map_put (addr_less en) ca t (clients (w_hub w)))" for b u
      using addrs.put_entries [OF ca good that] ca by (auto simp: addr_eq_key [of ca b en])
    have cl: "u = t \<Longrightarrow> addr_eq ca b" "u \<noteq> t \<Longrightarrow> lo_connected (w_tr w u) \<and> addr_eq (local_addr (w_tr w u)) b"
      if "(b, u) \<in> set (map_put (addr_less en) ca t (clients (w_hub w)))" for b u
      using ent [OF that] nt world_okD(5) [OF ok] by auto
    have srv: "lo_bound (w_tr w u) \<and> addr_eq (local_addr (w_tr w u)) b \<and> u \<noteq> t" if "(b, u) \<in> set (servers (w_hub w))" for b u
      using that nt world_okD(4) [OF ok] by blast
    show ?thesis using world_okD(1,2,3) [OF ok] False ca h
      unfolding world_ok_def w' by (auto simp: h' dest: srv cl)
  qed
qed (use ok r in \<open>simp add: lo_connect_def\<close>)

lemma world_ok_disconnect:
  assumes ok: "world_ok en w"
  shows "world_ok en (lo_disconnect en t w)"
proof -
  let ?l = "w_tr w t"
  have hub: "hub_ok en (w_hub w)" and la: "addr_ok (local_addr ?l)" and ex: "\<not> (lo_bound ?l \<and> lo_connected ?l)"
    using world_okD [OF ok] by auto
  have good: "addrs.good en (servers (w_hub w))" "addrs.good en (clients (w_hub w))" using hub by (simp_all add: hub_ok_def)
  have srv: "u \<noteq> t" if "(b, u) \<in> set (map_del (addr_less en) (local_addr ?l) (servers (w_hub w)))" for b u
    using that addrs.in_del [OF la good(1)] world_okD(4) [OF ok] addrs.good_ok [OF good(1)] la
    by (metis addr_eq_key)
  have cl: "u \<noteq> t" if "(b, u) \<in> set (map_del (addr_less en) (local_addr ?l) (clients (w_hub w)))" for b u
    using that addrs.in_del [OF la good(2)] world_okD(5) [OF ok] addrs.good_ok [OF good(2)] la
    by (metis addr_eq_key)
  define h where "h = (if lo_bound ?l then unbind_server en (local_addr ?l) (w_hub w)
      else if lo_connected ?l then disconnect_client en (local_addr ?l) (w_hub w) else w_hub w)"
  define l' where "l' = ?l\<lparr>lo_bound := False, lo_connected := False, local_addr := addr_default,
      remote_addr := addr_default, pending_recv := [], ready_recv := []\<rparr>"
  have w': "w_hub (lo_disconnect en t w) = h" "w_tr (lo_disconnect en t w) u = (if u = t then l' else w_tr w u)" for u
    using ex by (cases ?l; simp add: lo_disconnect_def Let_def h_def l'_def)+
  have hs: "(b, u) \<in> set (servers (w_hub w)) \<and> u \<noteq> t" if "(b, u) \<in> set (servers h)" for b u
  proof (cases "lo_bound ?l")
    case True
    then show ?thesis using that srv by (auto simp: h_def unbind_server_def unbind_clients_sub dest: addrs.entries_del)
  next
    case False
    then show ?thesis using that world_okD(4) [OF ok] by (auto simp: h_def disconnect_client_def split: if_splits)
  qed
  have hc: "(b, u) \<in> set (clients (w_hub w)) \<and> u \<noteq> t" if "(b, u) \<in> set (clients h)" for b u
  proof (cases "lo_connected ?l")
    case True
    then show ?thesis using that cl ex by (auto simp: h_def disconnect_client_def dest: addrs.entries_del)
  next
    case False
    then have "(b, u) \<in> set (clients (w_hub w))"
      using that by (auto simp: h_def unbind_server_def split: if_splits dest: unbind_clients_sub(1))
    then show ?thesis using False world_okD(5) [OF ok] by auto
  qed
  show ?thesis
  proof (rule world_okI)
    show "hub_ok en (w_hub (lo_disconnect en t w))" using hub la by (simp add: w' h_def hub_ok_unbind hub_ok_disconnect)
    show "addr_ok (local_addr (w_tr (lo_disconnect en t w) u))" for u
      using world_okD(2) [OF ok] by (simp add: w' l'_def)
    show "\<not> (lo_bound (w_tr (lo_disconnect en t w) u) \<and> lo_connected (w_tr (lo_disconnect en t w) u))" for u
      using world_okD(3) [OF ok] by (simp add: w' l'_def)
  next
    fix b u assume "(b, u) \<in> set (servers (w_hub (lo_disconnect en t w)))"
    then have "(b, u) \<in> set (servers (w_hub w))" "u \<noteq> t" using hs unfolding w' by blast+
    then show "lo_bound (w_tr (lo_disconnect en t w) u) \<and> addr_eq (local_addr (w_tr (lo_disconnect en t w) u)) b"
      using world_okD(4) [OF ok] by (simp add: w')
  next
    fix b u assume "(b, u) \<in> set (clients (w_hub (lo_disconnect en t w)))"
    then have "(b, u) \<in> set (clients (w_hub w))" "u \<noteq> t" using hc unfolding w' by blast+
    then show "lo_connected (w_tr (lo_disconnect en t w) u) \<and> addr_eq (local_addr (w_tr (lo_disconnect en t w) u)) b"
      using world_okD(5) [OF ok] by (simp add: w')
  qed
qed

text \<open>The states that the transports of one hub reach, by any of them calling any operation, in any order, but
  none calling \<open>bind\<close> while it is connected. Destroying a transport is a call of \<open>disconnect\<close>.\<close>

inductive hub_run :: "endian \<Rightarrow> (nat \<Rightarrow> rat) \<Rightarrow> world \<Rightarrow> bool" for en rng where
  start: "(\<forall>t. w_tr w t = new_loopback) \<Longrightarrow> w_hub w = new_hub \<Longrightarrow> hub_run en rng w"
| bind: "hub_run en rng w \<Longrightarrow> addr_ok a \<Longrightarrow> \<not> lo_connected (w_tr w t) \<Longrightarrow> hub_run en rng (snd (lo_bind en a t w))"
| connect: "hub_run en rng w \<Longrightarrow> addr_ok a \<Longrightarrow> lo_connect en a t w = Some (b, w') \<Longrightarrow> hub_run en rng w'"
| disconnect: "hub_run en rng w \<Longrightarrow> hub_run en rng (lo_disconnect en t w)"
| send: "hub_run en rng w \<Longrightarrow> hub_run en rng (snd (lo_send en rng now d r t w))"
| send_to: "hub_run en rng w \<Longrightarrow> hub_run en rng (snd (lo_send_to en rng now a d r t w))"
| poll: "hub_run en rng w \<Longrightarrow> hub_run en rng (lo_poll en now t w)"
| pop: "hub_run en rng w \<Longrightarrow> hub_run en rng (upd t (\<lambda>l. snd (lo_pop_receive n l)) w)"
| latency: "hub_run en rng w \<Longrightarrow> hub_run en rng (upd t (set_latency s) w)"
| loss: "hub_run en rng w \<Longrightarrow> hub_run en rng (upd t (set_packet_loss s) w)"

lemma world_ok_run: "hub_run en rng w \<Longrightarrow> world_ok en w"
proof (induction rule: hub_run.induct)
  case (start w)
  then show ?case by (simp add: world_ok_def new_loopback_def) (simp add: new_hub_def hub_ok_def)
next
  case (latency w t s)
  from this(2) show ?case by (rule world_ok_same [OF _ same_links_upd]) (simp_all add: set_latency_def)
next
  case (loss w t s)
  from this(2) show ?case by (rule world_ok_same [OF _ same_links_upd]) (simp_all add: set_packet_loss_def)
qed (auto intro: world_ok_bind world_ok_connect world_ok_disconnect world_ok_same [OF _ same_links_send]
      world_ok_same [OF _ same_links_send_to] world_ok_same [OF _ same_links_poll] world_ok_same [OF _ same_links_pop])

lemma find_transport_linked:
  assumes ok: "world_ok en w" and a: "addr_ok a" and f: "find_transport en a (w_hub w) = Some t"
  shows "lo_is_connected (w_tr w t) \<and> addr_eq (local_addr (w_tr w t)) a"
proof -
  have good: "addrs.good en (servers (w_hub w))" "addrs.good en (clients (w_hub w))"
    using world_okD(1) [OF ok] by (simp_all add: hub_ok_def)
  obtain b where b: "(b, t) \<in> set (clients (w_hub w)) \<or> (b, t) \<in> set (servers (w_hub w))" "addr_key en b = addr_key en a"
    using f addrs.find_in [OF _ good(1) a] addrs.find_in [OF _ good(2) a]
    by (auto simp: find_transport_def split: option.splits)
  then have "lo_is_connected (w_tr w t) \<and> addr_eq (local_addr (w_tr w t)) b"
    using world_okD(4,5) [OF ok] by (auto simp: lo_is_connected_def)
  moreover have "addr_ok b" using b(1) addrs.good_ok [OF good(1)] addrs.good_ok [OF good(2)] by blast
  ultimately show ?thesis using b(2) a world_okD(2) [OF ok] by (auto simp: addr_eq_key [of _ _ en])
qed


definition idle_world :: world where
  "idle_world = \<lparr>w_hub = new_hub, w_tr = (\<lambda>_. new_loopback)\<rparr>"


text \<open>A transport that binds while it is connected as a client is never taken out of the hub's client table: after
  it is disconnected, or destroyed, its client address still routes to it.\<close>

theorem bind_while_connected_leaks:
  assumes "world_ok en w" "lo_connected (w_tr w t)" "(ca, t) \<in> set (clients (w_hub w))"
    and "addr_ok a" "\<not> addr_eq ca a" "\<forall>(c, s)\<in>set (client_to_server (w_hub w)). \<not> addr_eq s a"
  shows "find_transport en ca (w_hub (lo_disconnect en t (snd (lo_bind en a t w)))) = Some t \<and>
     \<not> lo_is_connected (w_tr (lo_disconnect en t (snd (lo_bind en a t w))) t)"
proof -
  have good: "addrs.good en (clients (w_hub w))" using world_okD(1) [OF assms(1)] by (simp add: hub_ok_def)
  have ca: "addr_ok ca" using addrs.good_ok [OF good assms(3)] .
  have nb: "\<not> lo_bound (w_tr w t)" using world_okD(3) [OF assms(1), of t] assms(2) by simp
  have ub: "unbind_clients en a m h = h" if "\<forall>(c, s)\<in>set m. \<not> addr_eq s a" for m h
    using that by (induction en a m h rule: unbind_clients.induct) auto
  have "map_find (addr_less en) ca (map_del (addr_less en) a (clients (w_hub w))) = Some t"
    using addrs.find_del [OF good assms(4) ca] addrs.in_find [OF assms(3) good] assms(5) ca assms(4)
    by (auto simp: addr_eq_key [of ca a en])
  then show ?thesis using nb assms(2,6)
    by (simp add: lo_bind_def lo_disconnect_def Let_def find_transport_def unbind_server_def bind_server_def
        disconnect_client_def ub lo_is_connected_def)
qed

subsection \<open>Delivery\<close>

definition lo_waiting :: "loopback \<Rightarrow> (bytes \<times> address) list" where
  "lo_waiting l = map (\<lambda>p. (lp_data p, lp_sender p)) (ready_recv l)"

interpretation lbq: receive_queue lo_pop_receive lo_waiting
  by unfold_locales (auto simp: lo_waiting_def lo_pop_receive_def min_def split: list.splits)

fun loop_send_all :: "endian \<Rightarrow> (nat \<Rightarrow> rat) \<Rightarrow> rat \<Rightarrow> reliability \<Rightarrow> bytes list \<Rightarrow> nat \<Rightarrow> world \<Rightarrow> bool list \<times> world" where
  "loop_send_all en rng now r [] t w = ([], w)"
| "loop_send_all en rng now r (d # ds) t w =
     (let (b, w) = lo_send en rng now d r t w; (bs, w) = loop_send_all en rng now r ds t w in (b # bs, w))"

lemma upd_same [simp]: "upd t (\<lambda>_. w_tr w t) w = w"
  by (simp add: upd_def)

lemma send_connected:
  "lo_connected (w_tr w t) \<Longrightarrow> \<not> lo_bound (w_tr w t) \<Longrightarrow> latency_sec (w_tr w t) = 0 \<Longrightarrow> loss_ratio (w_tr w t) = 0 \<Longrightarrow>
   find_transport en (remote_addr (w_tr w t)) (w_hub w) = Some s \<Longrightarrow>
   lo_send en rng now d r t w = (True, enqueue_pending s (local_addr (w_tr w t)) d r w)"
  by (simp add: lo_send_def should_drop_def deliver_def Let_def)

lemma enqueue_sel:
  "w_hub (enqueue_pending s a d r w) = w_hub w"
  "w_tr (enqueue_pending s a d r w) u = (if u = s
     then (w_tr w s)\<lparr>pending_recv := pending_recv (w_tr w s) @ [\<lparr>lp_sender = a, lp_data = d, lp_reliability = r\<rparr>]\<rparr>
     else w_tr w u)"
  by (simp_all add: enqueue_pending_def)

lemma loop_send_all_connected:
  assumes "lo_connected (w_tr w t)" "\<not> lo_bound (w_tr w t)" "latency_sec (w_tr w t) = 0" "loss_ratio (w_tr w t) = 0"
    "find_transport en (remote_addr (w_tr w t)) (w_hub w) = Some s"
  shows "fst (loop_send_all en rng now r ds t w) = replicate (length ds) True \<and>
     w_tr (snd (loop_send_all en rng now r ds t w)) s = (w_tr w s)\<lparr>pending_recv := pending_recv (w_tr w s) @
       map (\<lambda>d. \<lparr>lp_sender = local_addr (w_tr w t), lp_data = d, lp_reliability = r\<rparr>) ds\<rparr>"
  using assms
proof (induction ds arbitrary: w)
  case (Cons d ds)
  let ?w = "enqueue_pending s (local_addr (w_tr w t)) d r w"
  have sel: "lo_connected (w_tr ?w t)" "\<not> lo_bound (w_tr ?w t)" "latency_sec (w_tr ?w t) = 0" "loss_ratio (w_tr ?w t) = 0"
    "remote_addr (w_tr ?w t) = remote_addr (w_tr w t)" "local_addr (w_tr ?w t) = local_addr (w_tr w t)" "w_hub ?w = w_hub w"
    using Cons.prems by (auto simp: enqueue_sel)
  have send: "lo_send en rng now d r t w = (True, ?w)" using send_connected Cons.prems by blast
  have "find_transport en (remote_addr (w_tr ?w t)) (w_hub ?w) = Some s" using Cons.prems(5) sel by simp
  note IH = Cons.IH [OF sel(1-4) this, unfolded sel(6)]
  have eq: "loop_send_all en rng now r (d # ds) t w = (True # fst (loop_send_all en rng now r ds t ?w), snd (loop_send_all en rng now r ds t ?w))"
    by (simp add: send case_prod_unfold Let_def)
  show ?case using IH by (simp add: eq enqueue_sel(2) del: loop_send_all.simps)
qed simp

text \<open>Without latency and loss, what a connected transport sends is at its server after the server's next poll:
  a receive loop there ends and gets what was queued before and then exactly the messages sent, each once, in
  order, cut to the loop's buffer, from the sender's address; every send reports success.\<close>

theorem loopback_in_order:
  assumes "lo_connected (w_tr w t)" "\<not> lo_bound (w_tr w t)" "latency_sec (w_tr w t) = 0" "loss_ratio (w_tr w t) = 0"
    "find_transport en (remote_addr (w_tr w t)) (w_hub w) = Some s"
    "delayed_outbound (w_tr w s) = []" "loop_send_all en rng now r ds t w = (oks, w')"
  shows "oks = replicate (length ds) True \<and>
     (\<exists>l. drain lo_pop_receive n (w_tr (lo_poll en now2 s w') s) =
        Some (map (\<lambda>p. (take n (lp_data p), lp_sender p)) (ready_recv (w_tr w s) @ pending_recv (w_tr w s)) @
              map (\<lambda>d. (take n d, local_addr (w_tr w t))) ds, l))"
proof -
  have tr: "oks = replicate (length ds) True" "w_tr w' s = (w_tr w s)\<lparr>pending_recv := pending_recv (w_tr w s) @
       map (\<lambda>d. \<lparr>lp_sender = local_addr (w_tr w t), lp_data = d, lp_reliability = r\<rparr>) ds\<rparr>"
    using loop_send_all_connected [OF assms(1-5), of rng now r ds] assms(7) by simp_all
  have "w_tr (lo_poll en now2 s w') s = (w_tr w' s)\<lparr>ready_recv := ready_recv (w_tr w' s) @ pending_recv (w_tr w' s), pending_recv := []\<rparr>"
    by (simp add: lo_poll_def tr(2) assms(6))
  then have "lo_waiting (w_tr (lo_poll en now2 s w') s) =
      map (\<lambda>p. (lp_data p, lp_sender p)) (ready_recv (w_tr w s) @ pending_recv (w_tr w s)) @ map (\<lambda>d. (d, local_addr (w_tr w t))) ds"
    by (simp add: lo_waiting_def tr(2) comp_def)
  then show ?thesis using lbq.drain_returns [of n "w_tr (lo_poll en now2 s w') s"] tr(1) by (auto simp: comp_def)
qed

text \<open>A server bound at port 9 by transport 1, and transport 2 connected to it.\<close>

definition two_peers :: world where
  "two_peers = snd (the (lo_connect Little (loop_address 9) 2 (snd (lo_bind Little (loop_address 9) 1 idle_world))))"

lemma two_peers_eq:
  "two_peers = \<lparr>w_hub = \<lparr>servers = [(loop_address 9, 1)], clients = [(loop_address 50000, 2)],
       client_to_server = [(loop_address 50000, loop_address 9)], next_port = 50001\<rparr>,
     w_tr = (\<lambda>_. new_loopback)(1 := new_loopback\<lparr>local_addr := loop_address 9, lo_bound := True\<rparr>,
       2 := new_loopback\<lparr>local_addr := loop_address 50000, remote_addr := loop_address 9, lo_connected := True\<rparr>)\<rparr>"
  by (simp add: two_peers_def lo_connect_def lo_bind_def idle_world_def upd_def new_loopback_def new_hub_def bind_server_def
      connect_client_def fresh_client.simps [of _ "[]"] addr_less_key)

theorem loopback_in_order_witness:
  "\<exists>w' l. loop_send_all Little (\<lambda>_. 0) 0 Unreliable [[1, 2], [3]] 2 two_peers = ([True, True], w') \<and>
     drain lo_pop_receive 9 (w_tr (lo_poll Little 0 1 w') 1) = Some ([([1, 2], loop_address 50000), ([3], loop_address 50000)], l)"
proof -
  obtain oks w' where s: "loop_send_all Little (\<lambda>_. 0) 0 Unreliable [[1, 2], [3]] 2 two_peers = (oks, w')" by (rule prod.exhaust)
  have "addr_key Little (loop_address 9) < addr_key Little (loop_address 50000)"
    by (simp add: loop_address_def addr_parse_def addr_key_def)
  then have f: "find_transport Little (loop_address 9) (w_hub two_peers) = Some 1"
    by (simp add: two_peers_eq find_transport_def addr_less_key)
  have "oks = [True, True] \<and> (\<exists>l. drain lo_pop_receive 9 (w_tr (lo_poll Little 0 1 w') 1) =
      Some ([([1, 2], loop_address 50000), ([3], loop_address 50000)], l))"
    using loopback_in_order [OF _ _ _ _ _ _ s, of 1 9 0] f by (simp add: two_peers_eq new_loopback_def)
  then show ?thesis using s by blast
qed

text \<open>The search for a free client port ends as long as the hub has fewer clients than there are ports: connecting to
  a bound server returns true.\<close>

theorem connect_returns:
  assumes "world_ok en w" "length (clients (w_hub w)) < 65536"
    and "\<not> lo_connected (w_tr w t)" "\<not> lo_bound (w_tr w t)" "map_find (addr_less en) a (servers (w_hub w)) \<noteq> None"
  shows "\<exists>w'. lo_connect en a t w = Some (True, w') \<and> lo_connected (w_tr w' t) \<and> remote_addr (w_tr w' t) = a"
proof -
  have "addrs.good en (clients (w_hub w))" using world_okD(1) [OF assms(1)] by (simp add: hub_ok_def)
  then obtain n where "map_find (addr_less en) (loop_address (next_port (w_hub w) + of_nat n)) (clients (w_hub w)) = None"
    using free_port assms(2) by blast
  then have "fresh_client en (clients (w_hub w)) (next_port (w_hub w)) \<noteq> None" by (rule fresh_client_returns)
  then show ?thesis using assms(3-5) by (auto simp: lo_connect_def connect_client_def)
qed

lemma world_ok_idle: "world_ok en idle_world"
  by (simp add: world_ok_def idle_world_def new_loopback_def) (simp add: new_hub_def)

theorem connect_returns_witness:
  "\<exists>w'. lo_connect Little (loop_address 9) 2 (snd (lo_bind Little (loop_address 9) 1 idle_world)) = Some (True, w')"
  using connect_returns [OF world_ok_bind [OF world_ok_idle, of "loop_address 9" 1 Little], of 2 "loop_address 9"]
  by (auto simp: lo_bind_def idle_world_def new_loopback_def bind_server_def new_hub_def addr_less_key)

lemma world_ok_two_peers: "world_ok Little two_peers"
  by (rule world_okI)
    (auto simp: two_peers_eq hub_ok_def addrs.good_Cons new_loopback_def split: if_splits)

theorem bind_while_connected_leaks_witness:
  "find_transport Little (loop_address 50000)
     (w_hub (lo_disconnect Little 2 (snd (lo_bind Little (loop_address 7) 2 two_peers)))) = Some 2"
proof -
  have "\<not> addr_eq (loop_address 50000) (loop_address 7)" "\<not> addr_eq (loop_address 9) (loop_address 7)"
    by (simp_all add: addr_eq_key [of _ _ Little] loop_address_key)
  then show ?thesis
    using bind_while_connected_leaks [OF world_ok_two_peers, of 2 "loop_address 50000" "loop_address 7"]
    by (simp add: two_peers_eq new_loopback_def)
qed

end
