(* ===== verification/Simulator.thy ===== *)
theory Simulator
  imports UdpInterface
begin

text \<open>
  \<open>NetworkSimulator\<close> (\<open>src/src/transport/network_simulator.cpp\<close>): a decorator of any transport that delays,
  drops and duplicates packets.

  The inner transport is a parameter, the record \<open>T\<close> of its virtual functions over a state \<open>'s\<close>.
  \<open>uni n a b\<close> is the value of the \<open>n\<close>-th draw from the generator through a uniform distribution from \<open>a\<close>
  to \<open>b\<close>; the clock is an argument, for the receive loop of \<open>poll\<close> a function of the packet's number.
  \<open>None\<close> is a loop that does not end, or the inner transport's undefined behaviour.
\<close>

subsection \<open>State\<close>

record queued_packet =
  deliver_time :: rat
  qp_data :: bytes
  qp_sender :: address
  qp_target :: address
  qp_reliability :: reliability
  outbound :: bool
  targeted :: bool

record 's simulator =
  inner :: 's
  packet_loss :: rat
  latency_min_ms :: rat
  latency_max_ms :: rat
  jitter_ms :: rat
  duplication :: rat
  delay_queue :: "queued_packet list"
  ready_queue :: "queued_packet list"
  sim_draws :: nat

definition new_simulator :: "'s \<Rightarrow> 's simulator" where
  "new_simulator i = \<lparr>inner = i, packet_loss = 0, latency_min_ms = 0, latency_max_ms = 0, jitter_ms = 0,
     duplication = 0, delay_queue = [], ready_queue = [], sim_draws = 0\<rparr>"

subsection \<open>Random decisions\<close>

definition sim_drop :: "(nat \<Rightarrow> rat \<Rightarrow> rat \<Rightarrow> rat) \<Rightarrow> 's simulator \<Rightarrow> bool \<times> 's simulator" where
  "sim_drop uni S =
     (if packet_loss S \<le> 0 then (False, S)
      else (uni (sim_draws S) 0 1 < packet_loss S, S\<lparr>sim_draws := sim_draws S + 1\<rparr>))"

definition sim_duplicate :: "(nat \<Rightarrow> rat \<Rightarrow> rat \<Rightarrow> rat) \<Rightarrow> 's simulator \<Rightarrow> bool \<times> 's simulator" where
  "sim_duplicate uni S =
     (if duplication S \<le> 0 then (False, S)
      else (uni (sim_draws S) 0 1 < duplication S, S\<lparr>sim_draws := sim_draws S + 1\<rparr>))"

definition calculate_delay_s :: "(nat \<Rightarrow> rat \<Rightarrow> rat \<Rightarrow> rat) \<Rightarrow> 's simulator \<Rightarrow> rat \<times> 's simulator" where
  "calculate_delay_s uni S =
     (let (delay_ms, S) = (if latency_min_ms S < latency_max_ms S
            then (uni (sim_draws S) (latency_min_ms S) (latency_max_ms S), S\<lparr>sim_draws := sim_draws S + 1\<rparr>)
            else (latency_min_ms S, S));
          (delay_ms, S) = (if 0 < jitter_ms S
            then (f64 (delay_ms + uni (sim_draws S) (- jitter_ms S) (jitter_ms S)), S\<lparr>sim_draws := sim_draws S + 1\<rparr>)
            else (delay_ms, S))
      in (f64 (max 0 delay_ms / 1000), S))"

subsection \<open>Queueing\<close>

text \<open>Append a packet, and its copy where the generator says so; the packet's time is filled in.\<close>

definition sim_enqueue :: "(nat \<Rightarrow> rat \<Rightarrow> rat \<Rightarrow> rat) \<Rightarrow> rat \<Rightarrow> queued_packet \<Rightarrow> 's simulator \<Rightarrow> 's simulator" where
  "sim_enqueue uni now pkt S =
     (let (delay, S) = calculate_delay_s uni S;
          deliver = f64 (now + delay);
          S = S\<lparr>delay_queue := delay_queue S @ [pkt\<lparr>deliver_time := deliver\<rparr>]\<rparr>;
          (dup, S) = sim_duplicate uni S
      in if dup
         then S\<lparr>delay_queue := delay_queue S @ [pkt\<lparr>deliver_time := f64 (deliver + f64 (jitter_ms S / 1000))\<rparr>]\<rparr>
         else S)"

definition sim_send :: "(nat \<Rightarrow> rat \<Rightarrow> rat \<Rightarrow> rat) \<Rightarrow> rat \<Rightarrow> bytes \<Rightarrow> reliability \<Rightarrow> 's simulator \<Rightarrow> bool \<times> 's simulator" where
  "sim_send uni now d r S =
     (let (drop, S) = sim_drop uni S
      in if drop then (True, S)
         else (True, sim_enqueue uni now \<lparr>deliver_time = 0, qp_data = d, qp_sender = addr_default, qp_target = addr_default,
                  qp_reliability = r, outbound = True, targeted = False\<rparr> S))"

definition sim_send_to ::
  "(nat \<Rightarrow> rat \<Rightarrow> rat \<Rightarrow> rat) \<Rightarrow> rat \<Rightarrow> address \<Rightarrow> bytes \<Rightarrow> reliability \<Rightarrow> 's simulator \<Rightarrow> bool \<times> 's simulator" where
  "sim_send_to uni now a d r S =
     (let (drop, S) = sim_drop uni S
      in if drop then (True, S)
         else (True, sim_enqueue uni now \<lparr>deliver_time = 0, qp_data = d, qp_sender = addr_default, qp_target = a,
                  qp_reliability = r, outbound = True, targeted = True\<rparr> S))"

subsection \<open>Polling\<close>

partial_function (option) sim_intercept ::
  "'s transport \<Rightarrow> (nat \<Rightarrow> rat \<Rightarrow> rat \<Rightarrow> rat) \<Rightarrow> reliability \<Rightarrow> (nat \<Rightarrow> rat) \<Rightarrow> nat \<Rightarrow> 's simulator \<Rightarrow> 's simulator option" where
  "sim_intercept T uni raw nows k S =
     (case t_pop_receive T 2048 (inner S) of
        (None, i) \<Rightarrow> Some (S\<lparr>inner := i\<rparr>)
      | (Some (d, a), i) \<Rightarrow>
          (let (drop, S) = sim_drop uni (S\<lparr>inner := i\<rparr>)
           in sim_intercept T uni raw nows (k + 1)
                (if drop then S
                 else sim_enqueue uni (nows k) \<lparr>deliver_time = 0, qp_data = d, qp_sender = a, qp_target = addr_default,
                        qp_reliability = raw, outbound = False, targeted = False\<rparr> S)))"

fun sim_flush :: "'s transport \<Rightarrow> rat \<Rightarrow> queued_packet list \<Rightarrow> 's simulator \<Rightarrow> queued_packet list \<times> 's simulator" where
  "sim_flush T now [] S = ([], S)"
| "sim_flush T now (p # ps) S =
     (if deliver_time p \<le> now
      then sim_flush T now ps
             (if outbound p
              then (if targeted p then S\<lparr>inner := snd (t_send_to T (qp_target p) (qp_data p) (qp_reliability p) (inner S))\<rparr>
                    else S\<lparr>inner := snd (t_send T (qp_data p) (qp_reliability p) (inner S))\<rparr>)
              else S\<lparr>ready_queue := ready_queue S @ [p]\<rparr>)
      else let (ps', S) = sim_flush T now ps S in (p # ps', S))"

definition sim_poll ::
  "'s transport \<Rightarrow> (nat \<Rightarrow> rat \<Rightarrow> rat \<Rightarrow> rat) \<Rightarrow> reliability \<Rightarrow> (nat \<Rightarrow> rat) \<Rightarrow> rat \<Rightarrow> 's simulator \<Rightarrow> 's simulator option" where
  "sim_poll T uni raw nows now S =
     Option.bind (t_poll T (inner S)) (\<lambda>i.
     Option.bind (sim_intercept T uni raw nows 0 (S\<lparr>inner := i\<rparr>)) (\<lambda>S.
       let (ps, S) = sim_flush T now (delay_queue S) S in Some (S\<lparr>delay_queue := ps\<rparr>)))"

definition sim_pop_receive :: "nat \<Rightarrow> 's simulator \<Rightarrow> (bytes \<times> address) option \<times> 's simulator" where
  "sim_pop_receive max_length S =
     (case ready_queue S of
        [] \<Rightarrow> (None, S)
      | p # ps \<Rightarrow> (Some (take (min max_length (length (qp_data p))) (qp_data p), qp_sender p), S\<lparr>ready_queue := ps\<rparr>))"

subsection \<open>Forwarded operations and settings\<close>

definition sim_disconnect :: "'s transport \<Rightarrow> 's simulator \<Rightarrow> 's simulator" where
  "sim_disconnect T S = S\<lparr>inner := t_disconnect T (inner S), delay_queue := [], ready_queue := []\<rparr>"

definition clamp01 :: "rat \<Rightarrow> rat" where
  "clamp01 x = (if x < 0 then 0 else if 1 < x then 1 else x)"

definition sim_set_packet_loss :: "rat \<Rightarrow> 's simulator \<Rightarrow> 's simulator" where
  "sim_set_packet_loss ratio S = S\<lparr>packet_loss := clamp01 ratio\<rparr>"

definition sim_set_latency :: "rat \<Rightarrow> rat \<Rightarrow> 's simulator \<Rightarrow> 's simulator" where
  "sim_set_latency min_ms max_ms S = S\<lparr>latency_min_ms := min_ms, latency_max_ms := max_ms\<rparr>"

definition sim_set_jitter :: "rat \<Rightarrow> 's simulator \<Rightarrow> 's simulator" where
  "sim_set_jitter ms S = S\<lparr>jitter_ms := ms\<rparr>"

definition sim_set_duplication :: "rat \<Rightarrow> 's simulator \<Rightarrow> 's simulator" where
  "sim_set_duplication ratio S = S\<lparr>duplication := clamp01 ratio\<rparr>"

definition fwd :: "('s \<Rightarrow> 'a \<times> 's) \<Rightarrow> 's simulator \<Rightarrow> 'a \<times> 's simulator" where
  "fwd f S = (let (x, i) = f (inner S) in (x, S\<lparr>inner := i\<rparr>))"

definition simulator_transport ::
  "'s transport \<Rightarrow> (nat \<Rightarrow> rat \<Rightarrow> rat \<Rightarrow> rat) \<Rightarrow> reliability \<Rightarrow> (nat \<Rightarrow> rat) \<Rightarrow> rat \<Rightarrow> 's simulator transport" where
  "simulator_transport T uni raw nows now =
     \<lparr>t_bind = (\<lambda>a. fwd (t_bind T a)), t_connect = (\<lambda>a. fwd (t_connect T a)), t_disconnect = sim_disconnect T,
      t_is_connected = (\<lambda>S. t_is_connected T (inner S)),
      t_send = (\<lambda>d r. sim_send uni now d r), t_send_to = (\<lambda>a d r. sim_send_to uni now a d r),
      t_poll = sim_poll T uni raw nows now, t_pop_receive = sim_pop_receive,
      t_rtt = (\<lambda>S. t_rtt T (inner S)), t_packet_loss = packet_loss,
      t_connection_rtt = (\<lambda>a S. t_connection_rtt T a (inner S)),
      t_connection_packet_loss = (\<lambda>a S. t_connection_packet_loss T a (inner S))\<rparr>"

subsection \<open>The queues\<close>

definition sim_waiting :: "'s simulator \<Rightarrow> (bytes \<times> address) list" where
  "sim_waiting S = map (\<lambda>p. (qp_data p, qp_sender p)) (ready_queue S)"

interpretation simq: receive_queue sim_pop_receive sim_waiting
  by unfold_locales (auto simp: sim_waiting_def sim_pop_receive_def min_def split: list.splits)

definition due :: "rat \<Rightarrow> queued_packet \<Rightarrow> bool" where
  "due now p \<longleftrightarrow> deliver_time p \<le> now"

definition send_out :: "'s transport \<Rightarrow> queued_packet \<Rightarrow> 's \<Rightarrow> 's" where
  "send_out T p i = (if targeted p then snd (t_send_to T (qp_target p) (qp_data p) (qp_reliability p) i)
                     else snd (t_send T (qp_data p) (qp_reliability p) i))"

lemma sim_flush_spec:
  "sim_flush T now ps S = (filter (\<lambda>p. \<not> due now p) ps,
     S\<lparr>inner := fold (send_out T) (filter (\<lambda>p. due now p \<and> outbound p) ps) (inner S),
       ready_queue := ready_queue S @ filter (\<lambda>p. due now p \<and> \<not> outbound p) ps\<rparr>)"
  by (induction ps arbitrary: S) (simp_all add: due_def send_out_def)

text \<open>C28: The delivery loop of a poll hands the outbound packets that are due to the inner transport, and the inbound ones
  to the ready queue, each once, in the order they were queued, and keeps exactly the packets that are not due:
  nothing is delivered before its time.\<close>

theorem sim_flush_exactly_due:
  "sim_flush T now ps S = (filter (\<lambda>p. \<not> due now p) ps,
     S\<lparr>inner := fold (send_out T) (filter (\<lambda>p. due now p \<and> outbound p) ps) (inner S),
       ready_queue := ready_queue S @ filter (\<lambda>p. due now p \<and> \<not> outbound p) ps\<rparr>)"
  by (rule sim_flush_spec)

subsection \<open>The artificial delay\<close>

lemma delay_bounds:
  assumes uni: "\<And>n a b. a \<le> b \<Longrightarrow> a \<le> uni n a b \<and> uni n a b \<le> b"
    and "latency_min_ms S \<le> latency_max_ms S" "0 \<le> jitter_ms S" "jitter_ms S \<le> latency_min_ms S"
    and rep: "f64 (latency_min_ms S) = latency_min_ms S" "f64 (latency_max_ms S) = latency_max_ms S"
  shows "f64 (f64 (latency_min_ms S - jitter_ms S) / 1000) \<le> fst (calculate_delay_s uni S)"
    and "fst (calculate_delay_s uni S) \<le> f64 (f64 (latency_max_ms S + jitter_ms S) / 1000)"
proof -
  define base where "base = (if latency_min_ms S < latency_max_ms S
    then uni (sim_draws S) (latency_min_ms S) (latency_max_ms S) else latency_min_ms S)"
  define j where "j = uni (if latency_min_ms S < latency_max_ms S then sim_draws S + 1 else sim_draws S) (- jitter_ms S) (jitter_ms S)"
  define ms where "ms = (if 0 < jitter_ms S then f64 (base + j) else base)"
  have b: "latency_min_ms S \<le> base" "base \<le> latency_max_ms S" using uni assms(2) by (simp_all add: base_def)
  have j: "- jitter_ms S \<le> j" "j \<le> jitter_ms S"
    using uni [of "- jitter_ms S" "jitter_ms S"] assms(3) unfolding j_def by simp_all
  have ms: "f64 (latency_min_ms S - jitter_ms S) \<le> ms" "ms \<le> f64 (latency_max_ms S + jitter_ms S)"
    using b j assms(3) rep fround_mono [of "latency_min_ms S - jitter_ms S" "base + j" 53]
      fround_mono [of "base + j" "latency_max_ms S + jitter_ms S" 53]
    by (cases "jitter_ms S = 0"; simp add: ms_def)+
  have eq: "fst (calculate_delay_s uni S) = f64 (max 0 ms / 1000)"
    by (simp add: calculate_delay_s_def ms_def base_def j_def Let_def)
  have nn: "0 \<le> f64 (latency_max_ms S + jitter_ms S)" using assms by (intro fround_nonneg) simp_all
  show "f64 (f64 (latency_min_ms S - jitter_ms S) / 1000) \<le> fst (calculate_delay_s uni S)"
    unfolding eq using ms by (intro fround_mono) simp_all
  show "fst (calculate_delay_s uni S) \<le> f64 (f64 (latency_max_ms S + jitter_ms S) / 1000)"
    unfolding eq using ms nn by (intro fround_mono) simp_all
qed

subsection \<open>Receiving through the simulator\<close>

definition queued_for :: "queued_packet list \<Rightarrow> (bytes \<times> address) list \<Rightarrow> bool" where
  "queued_for ps ms \<longleftrightarrow> map (\<lambda>p. (qp_data p, qp_sender p)) ps = ms \<and> (\<forall>p\<in>set ps. \<not> outbound p)"

locale inner_queue = receive_queue "t_pop_receive T" waiting
  for T :: "'s transport" and waiting :: "'s \<Rightarrow> (bytes \<times> address) list"
begin

lemma sim_drop_inner: "inner (snd (sim_drop uni S)) = inner S" "ready_queue (snd (sim_drop uni S)) = ready_queue S"
  "delay_queue (snd (sim_drop uni S)) = delay_queue S"
  by (simp_all add: sim_drop_def)

lemma sim_enqueue_inner:
  "inner (sim_enqueue uni now p S) = inner S" "ready_queue (sim_enqueue uni now p S) = ready_queue S"
  by (simp_all add: sim_enqueue_def calculate_delay_s_def sim_duplicate_def Let_def case_prod_unfold)

text \<open>The receive loop ends for every inner queue, whatever is dropped, delayed and duplicated.\<close>

lemma intercept_returns:
  "\<exists>S'. sim_intercept T uni raw nows k S = Some S' \<and> waiting (inner S') = [] \<and> ready_queue S' = ready_queue S"
proof (induction "waiting (inner S)" arbitrary: S k)
  case Nil
  then obtain i where "t_pop_receive T 2048 (inner S) = (None, i)" "waiting i = []"
    using pop_none [of "inner S" 2048] by (metis prod.collapse)
  then show ?case by (simp add: sim_intercept.simps [of T uni raw nows k S])
next
  case (Cons m q)
  obtain d a where m: "m = (d, a)" by (rule prod.exhaust)
  obtain i where i: "t_pop_receive T 2048 (inner S) = (Some (take 2048 d, a), i)" "waiting i = q"
    using pop_some [of "inner S" d a q 2048] Cons(2) m by (metis prod.collapse)
  define S1 where "S1 = (if fst (sim_drop uni (S\<lparr>inner := i\<rparr>)) then snd (sim_drop uni (S\<lparr>inner := i\<rparr>))
    else sim_enqueue uni (nows k) \<lparr>deliver_time = 0, qp_data = take 2048 d, qp_sender = a, qp_target = addr_default,
           qp_reliability = raw, outbound = False, targeted = False\<rparr> (snd (sim_drop uni (S\<lparr>inner := i\<rparr>))))"
  have S1: "inner S1 = i" "ready_queue S1 = ready_queue S"
    by (simp_all add: S1_def sim_drop_inner sim_enqueue_inner)
  have "sim_intercept T uni raw nows k S = sim_intercept T uni raw nows (k + 1) S1"
    by (subst sim_intercept.simps) (simp add: i(1) Let_def case_prod_unfold S1_def)
  then show ?case using Cons(1) [of S1 "k + 1"] S1 i(2) by auto
qed

text \<open>Without loss and duplication every waiting message is queued once, in order, cut to 2048 bytes.\<close>

lemma intercept_lossless:
  assumes "packet_loss S = 0" "duplication S = 0"
  shows "\<exists>S' ps. sim_intercept T uni raw nows k S = Some S' \<and> delay_queue S' = delay_queue S @ ps \<and>
     queued_for ps (map (\<lambda>(d, a). (take 2048 d, a)) (waiting (inner S))) \<and> ready_queue S' = ready_queue S \<and>
     (latency_min_ms S = 0 \<and> latency_max_ms S = 0 \<and> jitter_ms S = 0 \<longrightarrow> (\<forall>p\<in>set ps. \<exists>j. deliver_time p = f64 (nows j)))"
  using assms
proof (induction "waiting (inner S)" arbitrary: S k)
  case Nil
  then obtain i where "t_pop_receive T 2048 (inner S) = (None, i)" "waiting i = []"
    using pop_none [of "inner S" 2048] by (metis prod.collapse)
  then show ?case using Nil by (auto simp: sim_intercept.simps [of T uni raw nows k S] queued_for_def)
next
  case (Cons m q)
  obtain d a where m: "m = (d, a)" by (rule prod.exhaust)
  obtain i where i: "t_pop_receive T 2048 (inner S) = (Some (take 2048 d, a), i)" "waiting i = q"
    using pop_some [of "inner S" d a q 2048] Cons(2) m by (metis prod.collapse)
  let ?p = "\<lparr>deliver_time = 0, qp_data = take 2048 d, qp_sender = a, qp_target = addr_default,
      qp_reliability = raw, outbound = False, targeted = False\<rparr>"
  define S1 where "S1 = sim_enqueue uni (nows k) ?p (S\<lparr>inner := i\<rparr>)"
  define p1 where "p1 = ?p\<lparr>deliver_time := f64 (nows k + fst (calculate_delay_s uni S))\<rparr>"
  have cd: "calculate_delay_s uni (S\<lparr>inner := i\<rparr>) = (fst (calculate_delay_s uni S), (snd (calculate_delay_s uni S))\<lparr>inner := i\<rparr>)"
    by (simp add: calculate_delay_s_def Let_def)
  have cs: "packet_loss (snd (calculate_delay_s uni S)) = packet_loss S" "duplication (snd (calculate_delay_s uni S)) = duplication S"
    "latency_min_ms (snd (calculate_delay_s uni S)) = latency_min_ms S" "latency_max_ms (snd (calculate_delay_s uni S)) = latency_max_ms S"
    "jitter_ms (snd (calculate_delay_s uni S)) = jitter_ms S" "delay_queue (snd (calculate_delay_s uni S)) = delay_queue S"
    "ready_queue (snd (calculate_delay_s uni S)) = ready_queue S"
    by (simp_all add: calculate_delay_s_def Let_def)
  have S1: "inner S1 = i" "packet_loss S1 = 0" "duplication S1 = 0" "delay_queue S1 = delay_queue S @ [p1]" "ready_queue S1 = ready_queue S"
    "latency_min_ms S1 = latency_min_ms S" "latency_max_ms S1 = latency_max_ms S" "jitter_ms S1 = jitter_ms S"
    using Cons.prems by (simp_all add: S1_def sim_enqueue_def cd cs sim_duplicate_def Let_def p1_def)
  have step: "sim_intercept T uni raw nows k S = sim_intercept T uni raw nows (k + 1) S1"
    by (subst sim_intercept.simps) (simp add: i(1) sim_drop_def Cons.prems S1_def)
  obtain S' ps where IH: "sim_intercept T uni raw nows (k + 1) S1 = Some S'" "delay_queue S' = delay_queue S1 @ ps"
    "queued_for ps (map (\<lambda>(d, a). (take 2048 d, a)) (waiting (inner S1)))" "ready_queue S' = ready_queue S1"
    "latency_min_ms S1 = 0 \<and> latency_max_ms S1 = 0 \<and> jitter_ms S1 = 0 \<longrightarrow> (\<forall>p\<in>set ps. \<exists>j. deliver_time p = f64 (nows j))"
    using Cons(1) [of S1 "k + 1"] i(2) S1 by auto
  have zero: "fst (calculate_delay_s uni S) = 0" if "latency_min_ms S = 0 \<and> latency_max_ms S = 0 \<and> jitter_ms S = 0"
    using that by (simp add: calculate_delay_s_def)
  show ?case
    by (rule exI [of _ S'], rule exI [of _ "p1 # ps"])
      (use IH S1 Cons(2) [symmetric] m i(2) zero in \<open>auto simp: step queued_for_def p1_def\<close>)
qed

end

interpretation udps: inner_queue "udp_transport os sock_ok bind_ok now ins" udp_waiting for os sock_ok bind_ok now ins
  by (unfold_locales) (auto simp: udp_transport_def dest: udp_pop_none udp_pop_some)

text \<open>A simulator around the UDP transport with every setting at its default receives what the UDP transport
  receives: a poll ends, and afterwards its receive queue is extended by the messages waiting below, each once and
  in order, but each cut to 2048 bytes, whatever buffer the caller has.\<close>

theorem simulator_receives:
  assumes "udp_poll os now ins (inner S) = Inr u" "delay_queue S = []" "\<And>j. f64 (nows j) \<le> t"
    and "packet_loss S = 0" "duplication S = 0" "latency_min_ms S = 0" "latency_max_ms S = 0" "jitter_ms S = 0"
  shows "\<exists>S'. sim_poll (udp_transport os sock_ok bind_ok now ins) uni raw nows t S = Some S' \<and> delay_queue S' = [] \<and>
     sim_waiting S' = sim_waiting S @ map (\<lambda>(d, a). (take 2048 d, a)) (udp_waiting u)"
proof -
  let ?T = "udp_transport os sock_ok bind_ok now ins"
  let ?S = "S\<lparr>inner := u\<rparr>"
  obtain S1 ps where S1: "sim_intercept ?T uni raw nows 0 ?S = Some S1" "delay_queue S1 = ps" "ready_queue S1 = ready_queue S"
    "queued_for ps (map (\<lambda>(d, a). (take 2048 d, a)) (udp_waiting u))" "\<forall>p\<in>set ps. \<exists>j. deliver_time p = f64 (nows j)"
    using udps.intercept_lossless [of ?S os sock_ok bind_ok now ins uni raw nows 0] assms(2,4-8) by auto
  have "due t p" if "p \<in> set ps" for p using S1(5) assms(3) that by (auto simp: due_def)
  then have "filter (\<lambda>p. \<not> due t p) ps = []" "filter (\<lambda>p. due t p \<and> \<not> outbound p) ps = ps"
    using S1(4) by (auto simp: queued_for_def filter_empty_conv filter_id_conv)
  moreover have "t_poll ?T (inner S) = Some u" by (simp add: udp_transport_def assms(1))
  ultimately show ?thesis using S1
    by (auto simp: sim_poll_def sim_flush_spec sim_waiting_def queued_for_def)
qed

theorem simulator_receives_witness:
  "\<exists>S'. sim_poll (udp_transport (\<lambda>_ _. True) True True 0 []) (\<lambda>_ a _. a) Unreliable (\<lambda>_. 0) 0
       (new_simulator (new_udp\<lparr>receive_queue := [(addr_default, replicate 3000 7)]\<rparr>)) = Some S' \<and>
     sim_waiting S' = [(replicate 2048 7, addr_default)]"
proof -
  let ?u = "new_udp\<lparr>receive_queue := [(addr_default, replicate 3000 7)]\<rparr>"
  have "udp_poll (\<lambda>_ _. True) 0 [] ?u = Inr ?u" by (simp add: udp_poll_def new_udp_def)
  with simulator_receives [where os = "\<lambda>_ _. True" and now = 0 and ins = "[]" and S = "new_simulator ?u" and u = ?u and
      nows = "\<lambda>_. 0" and t = 0 and sock_ok = True and bind_ok = True and uni = "\<lambda>_ a _. a" and raw = Unreliable]
  obtain S' where "sim_poll (udp_transport (\<lambda>_ _. True) True True 0 []) (\<lambda>_ a _. a) Unreliable (\<lambda>_. 0) 0 (new_simulator ?u) = Some S'"
    "sim_waiting S' = sim_waiting (new_simulator ?u) @ map (\<lambda>(d, a). (take 2048 d, a)) (udp_waiting ?u)"
    by (auto simp: new_simulator_def)
  then show ?thesis by (auto simp: sim_waiting_def udp_waiting_def new_udp_def new_simulator_def)
qed

text \<open>The delay drawn for a packet lies between the minimal latency less the jitter and the maximal latency plus the
  jitter, in seconds, for every generator that stays within the bounds it is given.\<close>

theorem simulator_delay_bounds:
  assumes "\<And>n a b. a \<le> b \<Longrightarrow> a \<le> uni n a b \<and> uni n a b \<le> b"
    and "latency_min_ms S \<le> latency_max_ms S" "0 \<le> jitter_ms S" "jitter_ms S \<le> latency_min_ms S"
    and "f64 (latency_min_ms S) = latency_min_ms S" "f64 (latency_max_ms S) = latency_max_ms S"
  shows "f64 (f64 (latency_min_ms S - jitter_ms S) / 1000) \<le> fst (calculate_delay_s uni S) \<and>
     fst (calculate_delay_s uni S) \<le> f64 (f64 (latency_max_ms S + jitter_ms S) / 1000)"
  using delay_bounds [OF assms] by simp

theorem simulator_delay_bounds_witness:
  "f64 (f64 80 / 1000) \<le> fst (calculate_delay_s (\<lambda>_ a _. a) (sim_set_jitter 20 (sim_set_latency 100 150 (new_simulator new_udp)))) \<and>
   fst (calculate_delay_s (\<lambda>_ a _. a) (sim_set_jitter 20 (sim_set_latency 100 150 (new_simulator new_udp)))) \<le> f64 (f64 170 / 1000)"
  using simulator_delay_bounds [of "\<lambda>_ a _. a" "sim_set_jitter 20 (sim_set_latency 100 150 (new_simulator new_udp))"]
  by (simp add: sim_set_jitter_def sim_set_latency_def new_simulator_def)

end
