(* ===== verification/Snapshots.thy ===== *)
theory Snapshots
  imports Floats Prelude
begin

text \<open>
  The rings of snapshots: \<open>SnapshotHistory\<close> and \<open>ClientSnapshotBuffer\<close> (\<open>src/src/network_replication.cpp\<close>)
  and \<open>LagCompensator\<close> (\<open>src/src/prediction/lag_compensator.cpp\<close>), which reads the history.

  A snapshot owns one blob; its entities are spans of it, kept as offset and length. Pointers to slots
  are their indices. Times are \<open>float\<close> numbers.

  The lemmas show that the history is the last 128 of the snapshots stored under consecutive identifiers,
  across the wrap of the 16-bit identifier, what it answers after a gap, and that the client's buffer
  brackets every render time.
\<close>

subsection \<open>Snapshots\<close>

text \<open>\<open>EntitySnapshot\<close> by value.\<close>

record entity_snapshot =
  snap_id :: u64
  snap_data :: bytes

text \<open>\<open>EntitySnapshot\<close> as a span of the blob of its snapshot.\<close>

record span_entry =
  span_id :: u64
  span_off :: nat
  span_len :: nat

definition resolve :: "bytes \<Rightarrow> span_entry list \<Rightarrow> entity_snapshot list" where
  "resolve blob es = map (\<lambda>e. \<lparr>snap_id = span_id e, snap_data = take (span_len e) (drop (span_off e) blob)\<rparr>) es"

text \<open>The copy loop that both \<open>store\<close> functions share.\<close>

fun flatten :: "entity_snapshot list \<Rightarrow> bytes \<Rightarrow> span_entry list \<Rightarrow> bytes \<times> span_entry list" where
  "flatten [] blob es = (blob, es)"
| "flatten (e # ents) blob es =
     flatten ents (blob @ snap_data e)
       (es @ [\<lparr>span_id = snap_id e, span_off = length blob, span_len = length (snap_data e)\<rparr>])"

subsection \<open>SnapshotHistory\<close>

definition MAX_SNAPSHOTS :: nat where "MAX_SNAPSHOTS = 128"

record snapshot =
  sn_id :: u16
  sn_blob :: bytes
  sn_entities :: "span_entry list"

record snapshot_history =
  snapshots :: "snapshot list"
  sh_count :: nat
  sh_head :: nat

definition empty_snapshot :: snapshot where
  "empty_snapshot = \<lparr>sn_id = 0, sn_blob = [], sn_entities = []\<rparr>"

definition new_history :: snapshot_history where
  "new_history = \<lparr>snapshots = replicate MAX_SNAPSHOTS empty_snapshot, sh_count = 0, sh_head = 0\<rparr>"

definition sh_store :: "u16 \<Rightarrow> entity_snapshot list \<Rightarrow> snapshot_history \<Rightarrow> snapshot_history" where
  "sh_store i ents h =
     (let h = h\<lparr>sh_head := (sh_head h + 1) mod MAX_SNAPSHOTS\<rparr>;
          (blob, es) = flatten ents [] [];
          h = h\<lparr>snapshots := (snapshots h)[sh_head h := \<lparr>sn_id = i, sn_blob = blob, sn_entities = es\<rparr>]\<rparr>
      in if sh_count h < MAX_SNAPSHOTS then h\<lparr>sh_count := sh_count h + 1\<rparr> else h)"

definition sh_retrieve :: "u16 \<Rightarrow> snapshot_history \<Rightarrow> entity_snapshot list option" where
  "sh_retrieve i h =
     (if sh_count h = 0 then None
      else let head_id = sn_id (snapshots h ! sh_head h);
               delta = head_id - i
           in if sh_count h \<le> unat delta then None
              else let idx = (sh_head h + MAX_SNAPSHOTS - unat delta) mod MAX_SNAPSHOTS
                   in Some (resolve (sn_blob (snapshots h ! idx)) (sn_entities (snapshots h ! idx))))"

subsection \<open>LagCompensator\<close>

text \<open>
  The compensator keeps a pointer to the replication manager's history; \<open>None\<close> when it is not set.
  \<open>std::round\<close> rounds half away from zero; a value out of the range of
  \<open>int\<close> and an overflow of the difference are undefined, \<open>None\<close> here.
\<close>

definition round_half_away :: "rat \<Rightarrow> int" where
  "round_half_away x = (if 0 \<le> x then \<lfloor>x + 1 / 2\<rfloor> else - \<lfloor>- x + 1 / 2\<rfloor>)"

definition get_rewind_tick :: "rat \<Rightarrow> u16 \<Rightarrow> rat \<Rightarrow> u16 option" where
  "get_rewind_tick rate client_tick client_rtt_ms =
     (if rate \<le> 0 then Some client_tick
      else let tick_interval_ms = f32 (1000 / rate);
               tick_offset = round_half_away (f32 (f32 (client_rtt_ms * (1 / 2)) / tick_interval_ms))
           in if tick_interval_ms = 0 \<or> tick_offset < - (2 ^ 31) \<or> 2 ^ 31 \<le> tick_offset \<or>
                2 ^ 31 \<le> uint client_tick - tick_offset then None
              else let result = uint client_tick - tick_offset;
                       result = (if result < 0 then 0 else result)
                   in Some (word_of_int result))"

definition get_entity_state :: "snapshot_history option \<Rightarrow> u16 \<Rightarrow> u64 \<Rightarrow> bytes option" where
  "get_entity_state history tick entity =
     (case history of None \<Rightarrow> None
      | Some h \<Rightarrow> (case sh_retrieve tick h of None \<Rightarrow> None
                   | Some snap \<Rightarrow> map_option snap_data (find (\<lambda>e. snap_id e = entity) snap)))"

definition get_all_entities :: "snapshot_history option \<Rightarrow> u16 \<Rightarrow> entity_snapshot list option" where
  "get_all_entities history tick = (case history of None \<Rightarrow> None | Some h \<Rightarrow> sh_retrieve tick h)"

subsection \<open>ClientSnapshotBuffer\<close>

record client_snapshot =
  cs_id :: u16
  receive_time :: rat
  cs_blob :: bytes
  cs_entities :: "span_entry list"

record client_buffer =
  cb_snapshots :: "client_snapshot list"
  cb_count :: nat
  cb_head :: nat

definition empty_client_snapshot :: client_snapshot where
  "empty_client_snapshot = \<lparr>cs_id = 0, receive_time = 0, cs_blob = [], cs_entities = []\<rparr>"

definition new_client_buffer :: client_buffer where
  "new_client_buffer = \<lparr>cb_snapshots = replicate MAX_SNAPSHOTS empty_client_snapshot, cb_count = 0, cb_head = 0\<rparr>"

definition cb_store :: "u16 \<Rightarrow> rat \<Rightarrow> entity_snapshot list \<Rightarrow> client_buffer \<Rightarrow> client_buffer" where
  "cb_store i time ents b =
     (let b = b\<lparr>cb_head := (cb_head b + 1) mod MAX_SNAPSHOTS\<rparr>;
          (blob, es) = flatten ents [] [];
          b = b\<lparr>cb_snapshots := (cb_snapshots b)[cb_head b :=
                 \<lparr>cs_id = i, receive_time = time, cs_blob = blob, cs_entities = es\<rparr>]\<rparr>
      in if cb_count b < MAX_SNAPSHOTS then b\<lparr>cb_count := cb_count b + 1\<rparr> else b)"

definition time_at :: "client_buffer \<Rightarrow> nat \<Rightarrow> rat" where
  "time_at b k = receive_time (cb_snapshots b ! k)"

definition oldest_idx :: "client_buffer \<Rightarrow> nat" where
  "oldest_idx b = (cb_head b + MAX_SNAPSHOTS - (cb_count b - 1)) mod MAX_SNAPSHOTS"

text \<open>The search loop, from pass \<open>i\<close> on with \<open>n\<close> passes left.\<close>

fun bracket_search :: "rat \<Rightarrow> client_buffer \<Rightarrow> nat \<Rightarrow> nat \<Rightarrow> (nat \<times> nat \<times> rat) option" where
  "bracket_search target b i 0 = None"
| "bracket_search target b i (Suc n) =
     (let idx_a = (oldest_idx b + i) mod MAX_SNAPSHOTS;
          idx_b = (oldest_idx b + i + 1) mod MAX_SNAPSHOTS
      in if time_at b idx_a \<le> target \<and> target \<le> time_at b idx_b
         then let dt = f32 (time_at b idx_b - time_at b idx_a)
              in Some (idx_a, idx_b, if 0 < dt then f32 (f32 (target - time_at b idx_a) / dt) else 0)
         else bracket_search target b (i + 1) n)"

definition find_bracketing :: "rat \<Rightarrow> client_buffer \<Rightarrow> (nat \<times> nat \<times> rat) option" where
  "find_bracketing target b =
     (if cb_count b < 2 then None
      else if target \<le> time_at b (oldest_idx b)
      then Some (oldest_idx b, (oldest_idx b + 1) mod MAX_SNAPSHOTS, 0)
      else if time_at b (cb_head b) \<le> target
      then Some ((cb_head b + MAX_SNAPSHOTS - 1) mod MAX_SNAPSHOTS, cb_head b, 1)
      else bracket_search target b 0 (cb_count b - 1))"

definition cb_resolve :: "client_snapshot \<Rightarrow> entity_snapshot list" where
  "cb_resolve s = resolve (cs_blob s) (cs_entities s)"

definition find_entity :: "client_snapshot \<Rightarrow> u64 \<Rightarrow> bytes" where
  "find_entity s net_id = (case find (\<lambda>e. snap_id e = net_id) (cb_resolve s) of Some e \<Rightarrow> snap_data e | None \<Rightarrow> [])"

definition cb_clear :: "client_buffer \<Rightarrow> client_buffer" where
  "cb_clear b = b\<lparr>cb_snapshots := map (\<lambda>s. s\<lparr>cs_blob := [], cs_entities := []\<rparr>) (cb_snapshots b),
     cb_count := 0, cb_head := 0\<rparr>"

definition cb_size :: "client_buffer \<Rightarrow> nat" where
  "cb_size b = cb_count b"

definition cb_empty :: "client_buffer \<Rightarrow> bool" where
  "cb_empty b \<longleftrightarrow> cb_count b = 0"

subsection \<open>Spans\<close>

definition spans_within :: "bytes \<Rightarrow> span_entry list \<Rightarrow> bool" where
  "spans_within blob es \<longleftrightarrow> (\<forall>e\<in>set es. span_off e + span_len e \<le> length blob)"

lemma resolve_append: "spans_within blob es \<Longrightarrow> resolve (blob @ d) es = resolve blob es"
  by (auto simp: resolve_def spans_within_def)

text \<open>What the spans of a flattened snapshot show is what was stored.\<close>

lemma resolve_flatten:
  "spans_within blob es \<Longrightarrow>
     resolve (fst (flatten ents blob es)) (snd (flatten ents blob es)) = resolve blob es @ ents"
proof (induction ents arbitrary: blob es)
  case (Cons e ents)
  let ?es = "es @ [\<lparr>span_id = snap_id e, span_off = length blob, span_len = length (snap_data e)\<rparr>]"
  have "spans_within (blob @ snap_data e) ?es" using Cons.prems by (auto simp: spans_within_def)
  moreover have "resolve (blob @ snap_data e) ?es = resolve blob es @ [e]"
    using resolve_append [OF Cons.prems, of "snap_data e"] by (cases e) (simp add: resolve_def)
  ultimately show ?case using Cons.IH [of "blob @ snap_data e" ?es] by simp
qed (simp add: resolve_def)

lemma resolve_stored [simp]: "resolve (fst (flatten ents [] [])) (snd (flatten ents [] [])) = ents"
  using resolve_flatten [of "[]" "[]" ents] by (simp add: spans_within_def resolve_def)

subsection \<open>The history holds the last 128 snapshots\<close>

fun history_run :: "u16 \<Rightarrow> entity_snapshot list list \<Rightarrow> snapshot_history \<Rightarrow> snapshot_history" where
  "history_run i [] h = h"
| "history_run i (s # ss) h = history_run (i + 1) ss (sh_store i s h)"

lemma history_run_snoc: "history_run i (ss @ [s]) h = sh_store (i + of_nat (length ss)) s (history_run i ss h)"
  by (induction ss arbitrary: i h) (simp_all add: add.assoc)

definition slot_holds :: "snapshot_history \<Rightarrow> nat \<Rightarrow> u16 \<Rightarrow> entity_snapshot list \<Rightarrow> bool" where
  "slot_holds h k i s \<longleftrightarrow> sn_id (snapshots h ! k) = i \<and>
     resolve (sn_blob (snapshots h ! k)) (sn_entities (snapshots h ! k)) = s"

lemma sh_store_sel:
  assumes "length (snapshots h) = 128"
  shows "sh_head (sh_store i s h) = (sh_head h + 1) mod 128"
    and "sh_count (sh_store i s h) = min 128 (sh_count h + 1) \<or> 128 < sh_count h"
    and "length (snapshots (sh_store i s h)) = 128"
    and "slot_holds (sh_store i s h) ((sh_head h + 1) mod 128) i s"
    and "k \<noteq> (sh_head h + 1) mod 128 \<Longrightarrow> slot_holds (sh_store i s h) k j t = slot_holds h k j t"
  using assms by (auto simp: sh_store_def Let_def case_prod_unfold MAX_SNAPSHOTS_def slot_holds_def)

lemma mod_Suc_ne: "k < n \<Longrightarrow> n \<le> k + 127 \<Longrightarrow> (k + 1) mod 128 \<noteq> (n mod 128 + 1) mod (128::nat)"
proof
  assume *: "k < n" "n \<le> k + 127" "(k + 1) mod 128 = (n mod 128 + 1) mod (128::nat)"
  then have "(k + 1) mod 128 = (n + 1) mod 128" by (simp add: mod_simps)
  then have "128 dvd (n + 1) - (k + 1)" using * by (intro mod_eq_dvd_iff_nat [THEN iffD1]) simp_all
  then show False using * by (auto dest: dvd_imp_le)
qed

lemma history_run_ring:
  fixes i
  defines "h \<equiv> \<lambda>ss. history_run i ss new_history"
  shows "length (snapshots (h ss)) = 128 \<and> sh_head (h ss) = length ss mod 128 \<and> sh_count (h ss) = min 128 (length ss) \<and>
    (\<forall>k<length ss. length ss \<le> k + 128 \<longrightarrow> slot_holds (h ss) ((k + 1) mod 128) (i + of_nat k) (ss ! k))"
proof (induction ss rule: rev_induct)
  case Nil
  show ?case by (simp add: h_def new_history_def MAX_SNAPSHOTS_def)
next
  case (snoc s ss)
  have step: "h (ss @ [s]) = sh_store (i + of_nat (length ss)) s (h ss)" by (simp add: h_def history_run_snoc)
  note sel = sh_store_sel [of "h ss"]
  have "slot_holds (h (ss @ [s])) ((k + 1) mod 128) (i + of_nat k) ((ss @ [s]) ! k)"
    if k: "k < length (ss @ [s])" "length (ss @ [s]) \<le> k + 128" for k
  proof (cases "k = length ss")
    case True
    then show ?thesis using sel(4) snoc by (simp add: step mod_simps)
  next
    case False
    then have k: "k < length ss" "length ss \<le> k + 127" using k by simp_all
    from mod_Suc_ne [OF this] show ?thesis using sel(5) snoc k by (simp add: step nth_append)
  qed
  moreover have "sh_count (h (ss @ [s])) = min 128 (length (ss @ [s]))"
    using sel(2) [of "i + of_nat (length ss)" s] snoc by (auto simp: step)
  ultimately show ?case using sel(1,3) snoc by (auto simp: step mod_simps)
qed

lemma history_slot:
  "k < length ss \<Longrightarrow> length ss \<le> k + 128 \<Longrightarrow>
     slot_holds (history_run i ss new_history) ((k + 1) mod 128) (i + of_nat k) (ss ! k)"
  using history_run_ring [of i ss] by blast

lemma history_retrieve:
  "sh_retrieve j (history_run i ss new_history) =
     (let d = unat (i + of_nat (length ss - 1) - j)
      in if ss \<noteq> [] \<and> d < length ss \<and> d < 128 then Some (ss ! (length ss - 1 - d)) else None)"
proof (cases "ss = []")
  case True
  then show ?thesis by (simp add: sh_retrieve_def new_history_def)
next
  case False
  let ?h = "history_run i ss new_history" and ?n = "length ss"
  define d where "d = unat (i + of_nat (?n - 1) - j)"
  note ring = history_run_ring [of i ss]
  have n: "(?n - 1 + 1) mod 128 = ?n mod 128" using False by (cases ss) simp_all
  have "slot_holds ?h (?n mod 128) (i + of_nat (?n - 1)) (ss ! (?n - 1))"
    using history_slot [of "?n - 1" ss i] False unfolding n by (cases ss) simp_all
  then have hd: "sn_id (snapshots ?h ! sh_head ?h) = i + of_nat (?n - 1)" using ring by (simp add: slot_holds_def)
  have idx: "(sh_head ?h + MAX_SNAPSHOTS - d) mod MAX_SNAPSHOTS = (?n - 1 - d + 1) mod 128" if "d < ?n" "d < 128"
  proof -
    have "?n mod 128 + 128 - d = ?n mod 128 + (128 - d)" using that by simp
    then have "(?n mod 128 + 128 - d) mod 128 = (?n + (128 - d)) mod 128" by (simp only: mod_add_left_eq)
    also have "?n + (128 - d) = ?n - 1 - d + 1 + 128" using that by linarith
    also have "\<dots> mod 128 = (?n - 1 - d + 1) mod 128" by (rule mod_add_self2)
    finally show ?thesis using ring by (simp add: MAX_SNAPSHOTS_def)
  qed
  have "slot_holds ?h ((?n - 1 - d + 1) mod 128) (i + of_nat (?n - 1 - d)) (ss ! (?n - 1 - d))" if "d < ?n" "d < 128"
    by (rule history_slot) (use that in auto)
  moreover have "unat (sn_id (snapshots ?h ! sh_head ?h) - j) = d" by (simp only: hd d_def)
  ultimately show ?thesis
    unfolding d_def [symmetric] using False ring idx
    by (cases "d < ?n \<and> d < 128") (simp_all add: sh_retrieve_def Let_def slot_holds_def, auto)
qed

lemma history_run_ok: "length (snapshots (history_run i ss new_history)) = 128 \<and>
    sh_head (history_run i ss new_history) = length ss mod 128 \<and> sh_count (history_run i ss new_history) = min 128 (length ss)"
  using history_run_ring [of i ss] by simp

text \<open>C32: After snapshots were stored under consecutive identifiers, whatever the first one (the 16-bit
  identifier may wrap), \<open>retrieve\<close> returns for each of the last 128 of them the entities stored under it,
  and nothing for any other identifier.
\<close>

theorem history_window:
  "sh_retrieve j (history_run i ss new_history) =
     (let d = unat (i + of_nat (length ss - 1) - j)
      in if ss \<noteq> [] \<and> d < length ss \<and> d < 128 then Some (ss ! (length ss - 1 - d)) else None)"
  by (rule history_retrieve)

lemma sh_retrieve_prev:
  "1 < sh_count h \<Longrightarrow> sn_id (snapshots h ! sh_head h) = j \<Longrightarrow> (sh_head h + 128 - 1) mod 128 = k \<Longrightarrow>
     slot_holds h k i s \<Longrightarrow> sh_retrieve (j - 1) h = Some s"
  by (auto simp: sh_retrieve_def Let_def slot_holds_def MAX_SNAPSHOTS_def)

text \<open>When the identifiers skip, as they do while no client is connected, the one before the newest
  stored is answered with the snapshot stored last before the gap, although nothing was stored under it:
  the identifier of the slot is not compared.
\<close>

theorem history_gap_wrong:
  assumes "ss \<noteq> []"
  shows "sh_retrieve (j - 1) (sh_store j s (history_run i ss new_history)) = Some (last ss)"
proof -
  let ?h = "history_run i ss new_history" and ?n = "length ss"
  note ok = history_run_ok [of i ss]
  have n: "0 < ?n" using assms by simp
  note sel = sh_store_sel [of ?h]
  have hd: "sn_id (snapshots (sh_store j s ?h) ! sh_head (sh_store j s ?h)) = j"
    using sel(1,4) ok by (simp add: slot_holds_def)
  have cnt: "1 < sh_count (sh_store j s ?h)" using sel(2) [of j s] ok n by auto
  have prev: "(sh_head (sh_store j s ?h) + 128 - 1) mod 128 = ?n mod 128"
  proof -
    have "sh_head (sh_store j s ?h) = (?n + 1) mod 128" using sel(1) ok by (simp only: mod_add_left_eq)
    then have "(sh_head (sh_store j s ?h) + 128 - 1) mod 128 = ((?n + 1) mod 128 + 127) mod 128"
      by (simp add: add.commute)
    also have "\<dots> = (?n + 1 + 127) mod 128" by (rule mod_add_left_eq)
    finally show ?thesis by simp
  qed
  have "slot_holds ?h (?n mod 128) (i + of_nat (?n - 1)) (ss ! (?n - 1))"
    using history_slot [of "?n - 1" ss i] n by (simp del: of_nat_diff)
  moreover have "?n mod 128 \<noteq> (?n mod 128 + 1) mod 128" by (simp add: mod_Suc)
  ultimately have "slot_holds (sh_store j s ?h) (?n mod 128) (i + of_nat (?n - 1)) (last ss)"
    using sel(5) ok by (simp add: last_conv_nth assms)
  with sh_retrieve_prev [OF cnt hd prev] show ?thesis by blast
qed

lemma history_gap_wrong_witness:
  "get_all_entities (Some (sh_store 100 [] (history_run 1 [[\<lparr>snap_id = 7, snap_data = [1]\<rparr>]] new_history))) 99 =
     Some [\<lparr>snap_id = 7, snap_data = [1]\<rparr>]"
  using history_gap_wrong [of "[[\<lparr>snap_id = 7, snap_data = [1]\<rparr>]]" 100 "[]" 1] by (simp add: get_all_entities_def)

subsection \<open>Lag compensation\<close>

text \<open>The state found for a shot is that of the tick the client saw: half a round trip, to the nearest
  tick, before the tick it reported, if that is among the last 128 snapshots of a history without gaps
  and does not lie before tick 0.
\<close>

theorem rewind_finds_snapshot:
  assumes "0 < rate" and "0 \<le> rtt" and "f32 (1000 / rate) \<noteq> 0"
    and off: "round_half_away (f32 (f32 (rtt / 2) / f32 (1000 / rate))) = int k"
    and tick: "k \<le> unat tick" "tick = i + of_nat (m + k)" "unat i + m + k < 65536"
    and stored: "m < length ss" "length ss \<le> m + 128"
  shows "\<exists>t. get_rewind_tick rate tick rtt = Some t \<and>
    get_entity_state (Some (history_run i ss new_history)) t e = map_option snap_data (find (\<lambda>x. snap_id x = e) (ss ! m))"
proof -
  have k: "k < 65536" using tick(3) by simp
  have ut: "unat tick = unat i + m + k"
    using tick(2,3) by (simp add: unat_word_ariths unsigned_of_nat take_bit_nat_eq_self)
  have "uint tick - int k = uint i + int m" "uint i + int m < 65536"
    using ut tick(3) by (simp_all only: uint_nat)
  moreover have nn: "(uint i + int m < 0) = False" by (simp only: not_less eq_False uint_nat)
  ultimately have r: "get_rewind_tick rate tick rtt = Some (i + of_nat m)"
    using assms(1,3) off k by (simp add: get_rewind_tick_def Let_def nn)
  have "unat (i + of_nat (length ss - 1) - (i + of_nat m)) = length ss - 1 - m"
  proof -
    have "i + of_nat (length ss - 1) - (i + of_nat m) = (of_nat (length ss - 1 - m) :: u16)"
      using stored by (simp add: of_nat_diff)
    moreover have "unat (of_nat (length ss - 1 - m) :: u16) = length ss - 1 - m"
      by (rule unat_of_nat_small) (use stored in simp)
    ultimately show ?thesis by (simp only:)
  qed
  then have "sh_retrieve (i + of_nat m) (history_run i ss new_history) = Some (ss ! m)"
    using stored by (auto simp: history_retrieve Let_def)
  then show ?thesis using r by (simp add: get_entity_state_def)
qed

lemma rewind_finds_snapshot_witness:
  "\<exists>t. get_rewind_tick 25 4 80 = Some t \<and>
    get_entity_state (Some (history_run 2 [[], [\<lparr>snap_id = 7, snap_data = [1]\<rparr>], []] new_history)) t 7 = Some [1]"
proof -
  have "round_half_away (f32 (f32 (80 / 2) / f32 (1000 / 25))) = int 1" 
    by (simp add: round_half_away_def floor_unique [of 1 "3 / 2 :: rat"])
  moreover have "4 = (2 :: u16) + of_nat (1 + 1)" "f32 (1000 / 25) \<noteq> 0" by simp_all
  ultimately have "\<exists>t. get_rewind_tick 25 4 80 = Some t \<and>
    get_entity_state (Some (history_run 2 [[], [\<lparr>snap_id = 7, snap_data = [1]\<rparr>], []] new_history)) t 7 =
      map_option snap_data (find (\<lambda>x. snap_id x = 7) ([[], [\<lparr>snap_id = 7, snap_data = [1]\<rparr>], []] ! 1))"
    by (intro rewind_finds_snapshot [where k = 1 and i = 2 and m = 1]) simp_all
  then show ?thesis by (simp del: history_run.simps)
qed

subsection \<open>The buffer brackets every render time\<close>

definition cb_ok :: "client_buffer \<Rightarrow> bool" where
  "cb_ok b \<longleftrightarrow> length (cb_snapshots b) = 128 \<and> cb_head b < 128 \<and> cb_count b \<le> 128"

lemma cb_ok_new: "cb_ok new_client_buffer"
  by (simp add: cb_ok_def new_client_buffer_def MAX_SNAPSHOTS_def)

lemma cb_ok_store: "cb_ok b \<Longrightarrow> cb_ok (cb_store i t ents b)"
  by (auto simp: cb_ok_def cb_store_def Let_def case_prod_unfold MAX_SNAPSHOTS_def)

lemma cb_ok_clear: "cb_ok b \<Longrightarrow> cb_ok (cb_clear b)"
  by (simp add: cb_ok_def cb_clear_def)

definition nth_oldest :: "client_buffer \<Rightarrow> nat \<Rightarrow> nat" where
  "nth_oldest b k = (oldest_idx b + k) mod 128"

lemma nth_oldest_ends:
  "cb_ok b \<Longrightarrow> 0 < cb_count b \<Longrightarrow> nth_oldest b 0 = oldest_idx b \<and> nth_oldest b (cb_count b - 1) = cb_head b"
proof -
  assume ok: "cb_ok b" "0 < cb_count b"
  have "nth_oldest b (cb_count b - 1) = (cb_head b + 128 - (cb_count b - 1) + (cb_count b - 1)) mod 128"
    by (simp only: nth_oldest_def oldest_idx_def MAX_SNAPSHOTS_def mod_add_left_eq)
  also have "cb_head b + 128 - (cb_count b - 1) + (cb_count b - 1) = cb_head b + 128"
    using ok by (simp add: cb_ok_def)
  finally show ?thesis using ok by (simp add: cb_ok_def nth_oldest_def oldest_idx_def MAX_SNAPSHOTS_def)
qed

lemma blend_bounds:
  assumes "a \<le> x" "x \<le> b"
  shows "0 \<le> (if 0 < f32 (b - a) then f32 (f32 (x - a) / f32 (b - a)) else 0) \<and>
    (if 0 < f32 (b - a) then f32 (f32 (x - a) / f32 (b - a)) else 0) \<le> 1"
proof (cases "0 < f32 (b - a)")
  case True
  have "0 \<le> f32 (x - a)" using assms by (intro fround_nonneg) simp_all
  moreover have "f32 (x - a) \<le> f32 (b - a)" using assms by (intro fround_mono) simp_all
  ultimately have "0 \<le> f32 (x - a) / f32 (b - a)" "f32 (x - a) / f32 (b - a) \<le> 1"
    using True by simp_all
  then show ?thesis using True fround_mono [of _ 1 24] fround_nonneg [of _ 24] by simp
qed simp

lemma bracket_search_finds:
  assumes "time_at b (nth_oldest b i) < target" and "target \<le> time_at b (nth_oldest b (i + n))"
  shows "\<exists>k t. i \<le> k \<and> k < i + n \<and> bracket_search target b i n = Some (nth_oldest b k, nth_oldest b (k + 1), t) \<and>
    0 \<le> t \<and> t \<le> 1 \<and> time_at b (nth_oldest b k) \<le> target \<and> target \<le> time_at b (nth_oldest b (k + 1))"
  using assms
proof (induction n arbitrary: i)
  case (Suc n)
  have idx: "(oldest_idx b + i) mod MAX_SNAPSHOTS = nth_oldest b i"
      "(oldest_idx b + i + 1) mod MAX_SNAPSHOTS = nth_oldest b (i + 1)"
    by (simp_all add: nth_oldest_def MAX_SNAPSHOTS_def add.assoc)
  show ?case
  proof (cases "target \<le> time_at b (nth_oldest b (i + 1))")
    case True
    then show ?thesis
      using Suc.prems blend_bounds [of "time_at b (nth_oldest b i)" target "time_at b (nth_oldest b (i + 1))"]
      unfolding bracket_search.simps Let_def idx by (intro exI [of _ i]) simp
  next
    case False
    then have "time_at b (nth_oldest b (i + 1)) < target" "target \<le> time_at b (nth_oldest b (i + 1 + n))"
      using Suc.prems by simp_all
    from Suc.IH [OF this] obtain k t where k: "i + 1 \<le> k" "k < i + 1 + n"
      "bracket_search target b (i + 1) n = Some (nth_oldest b k, nth_oldest b (k + 1), t)"
      "0 \<le> t" "t \<le> 1" "time_at b (nth_oldest b k) \<le> target" "target \<le> time_at b (nth_oldest b (k + 1))" by blast
    then show ?thesis
      using False unfolding bracket_search.simps Let_def idx by (intro exI [of _ k] exI [of _ t]) simp
  qed
qed simp

text \<open>With at least two snapshots stored, the search always finds two consecutive ones, for any receive
  times and any render time; the blend factor lies in [0, 1]; and the render time lies between their
  times unless it lies before the oldest or after the newest snapshot, when the result is that end's pair.
\<close>

theorem find_bracketing_total:
  assumes "cb_ok b" and "2 \<le> cb_count b"
  shows "\<exists>k t. k + 1 < cb_count b \<and> find_bracketing target b = Some (nth_oldest b k, nth_oldest b (k + 1), t) \<and>
    0 \<le> t \<and> t \<le> 1 \<and>
    (if target \<le> time_at b (oldest_idx b) then k = 0 \<and> t = 0
     else if time_at b (cb_head b) \<le> target then k = cb_count b - 2 \<and> t = 1
     else time_at b (nth_oldest b k) \<le> target \<and> target \<le> time_at b (nth_oldest b (k + 1)))"
proof -
  have ends: "nth_oldest b 0 = oldest_idx b" "nth_oldest b (cb_count b - 1) = cb_head b"
    using nth_oldest_ends assms by simp_all
  consider "target \<le> time_at b (oldest_idx b)" | "time_at b (oldest_idx b) < target" "time_at b (cb_head b) \<le> target"
    | "time_at b (oldest_idx b) < target" "target < time_at b (cb_head b)" by linarith
  then show ?thesis
  proof cases
    case 1
    then show ?thesis using assms ends
      by (intro exI [of _ 0] exI [of _ 0]) (simp add: find_bracketing_def nth_oldest_def MAX_SNAPSHOTS_def)
  next
    case 2
    have e: "Suc (cb_count b - 2) = cb_count b - Suc 0" using assms by simp
    have "nth_oldest b (cb_count b - 2) = (cb_head b + MAX_SNAPSHOTS - 1) mod MAX_SNAPSHOTS"
    proof -
      have "nth_oldest b (cb_count b - 2) = (cb_head b + 128 - (cb_count b - 1) + (cb_count b - 2)) mod 128"
        by (simp only: nth_oldest_def oldest_idx_def MAX_SNAPSHOTS_def mod_add_left_eq)
      also have "cb_head b + 128 - (cb_count b - 1) + (cb_count b - 2) = cb_head b + 128 - 1"
        using assms by (simp add: cb_ok_def)
      finally show ?thesis by (simp only: MAX_SNAPSHOTS_def)
    qed
    then show ?thesis using 2 assms ends
      by (intro exI [of _ "cb_count b - 2"] exI [of _ 1]) (simp add: find_bracketing_def e)
  next
    case 3
    then have "time_at b (nth_oldest b 0) < target" "target \<le> time_at b (nth_oldest b (0 + (cb_count b - 1)))"
      using ends by simp_all
    from bracket_search_finds [OF this] obtain k t where "k < cb_count b - 1"
      "bracket_search target b 0 (cb_count b - 1) = Some (nth_oldest b k, nth_oldest b (k + 1), t)" "0 \<le> t" "t \<le> 1"
      "time_at b (nth_oldest b k) \<le> target" "target \<le> time_at b (nth_oldest b (k + 1))" by auto
    then show ?thesis using 3 assms
      by (intro exI [of _ k] exI [of _ t]) (simp add: find_bracketing_def)
  qed
qed

lemma find_bracketing_total_witness:
  "\<exists>k t. find_bracketing 5 (cb_store 2 6 [] (cb_store 1 4 [] new_client_buffer)) = Some (k, k + 1, t) \<and> 0 \<le> t \<and> t \<le> 1"
proof -
  let ?b = "cb_store 2 6 [] (cb_store 1 4 [] new_client_buffer)"
  have c: "cb_count ?b = 2" "oldest_idx ?b = 1"
    by (simp_all add: cb_store_def Let_def new_client_buffer_def MAX_SNAPSHOTS_def oldest_idx_def)
  have "cb_ok ?b" by (intro cb_ok_store cb_ok_new)
  from find_bracketing_total [OF this, of 5] show ?thesis by (auto simp: c nth_oldest_def)
qed

end
