(* ===== verification/EntityManager.thy ===== *)
theory EntityManager
  imports Packet "HOL-Library.AList" "HOL-Library.Multiset"
begin

text \<open>
  \<open>NetworkEntityManager\<close> (\<open>src/include/campello_net/network_entity.hpp\<close>, \<open>src/src/network_entity.cpp\<close>): the
  networked entities of a server or a client, and the messages that create and destroy them.

  The hash map of entities is the list of its entries in iteration order. The bridge to the game is a log of
  the calls made to it; the handle its \<open>spawn\<close> returns is the parameter \<open>mk\<close>, a function of the log and the
  arguments. An operation that sends returns its messages; \<open>net\<close> tells whether a manager was passed.

  The lemmas show that what a spawn broadcasts is what a client applies, that the identifiers are unique, and
  that every handle the bridge gives out is destroyed exactly once.
\<close>

subsection \<open>Wire integers\<close>

definition write_u64_be :: "u64 \<Rightarrow> bytes" where
  "write_u64_be v = [ucast (drop_bit 56 v), ucast (drop_bit 48 v), ucast (drop_bit 40 v), ucast (drop_bit 32 v),
     ucast (drop_bit 24 v), ucast (drop_bit 16 v), ucast (drop_bit 8 v), ucast v]"

definition write_u32_be :: "u32 \<Rightarrow> bytes" where
  "write_u32_be v = [ucast (drop_bit 24 v), ucast (drop_bit 16 v), ucast (drop_bit 8 v), ucast v]"

definition write_u16_be :: "u16 \<Rightarrow> bytes" where
  "write_u16_be v = [ucast (drop_bit 8 v), ucast v]"

definition read_u64_be :: "bytes \<Rightarrow> u64" where
  "read_u64_be s = push_bit 56 (ucast (s ! 0)) OR push_bit 48 (ucast (s ! 1)) OR push_bit 40 (ucast (s ! 2)) OR
     push_bit 32 (ucast (s ! 3)) OR push_bit 24 (ucast (s ! 4)) OR push_bit 16 (ucast (s ! 5)) OR
     push_bit 8 (ucast (s ! 6)) OR ucast (s ! 7)"

definition read_u32_be :: "bytes \<Rightarrow> u32" where
  "read_u32_be s = push_bit 24 (ucast (s ! 0)) OR push_bit 16 (ucast (s ! 1)) OR push_bit 8 (ucast (s ! 2)) OR ucast (s ! 3)"

definition read_u16_be :: "bytes \<Rightarrow> u16" where
  "read_u16_be s = push_bit 8 (ucast (s ! 0)) OR ucast (s ! 1)"

lemma write_u64_be [wire_simps]: "write_u64_be v = be_bytes 8 v"
  by (simp add: write_u64_be_def numeral_eq_Suc)

lemma write_u32_be [wire_simps]: "write_u32_be v = be_bytes 4 v"
  by (simp add: write_u32_be_def be_bytes_4)

lemma write_u16_be [wire_simps]: "write_u16_be v = be_bytes 2 v"
  by (simp add: write_u16_be_def be_bytes_2)

lemma length_write_be [simp]: "length (write_u64_be v) = 8" "length (write_u32_be x) = 4" "length (write_u16_be y) = 2"
  by (simp_all add: write_u64_be_def write_u32_be_def write_u16_be_def)

lemma nths_Cons: "8 \<le> length s \<Longrightarrow> take 8 s = [s ! 0, s ! 1, s ! 2, s ! 3, s ! 4, s ! 5, s ! 6, s ! 7]"
  by (cases s; cases "tl s"; cases "tl (tl s)"; cases "tl (tl (tl s))"; cases "tl (tl (tl (tl s)))";
      cases "tl (tl (tl (tl (tl s))))"; cases "tl (tl (tl (tl (tl (tl s)))))"; cases "tl (tl (tl (tl (tl (tl (tl s))))))";
      simp add: numeral_eq_Suc)

lemma read_u64_be: "8 \<le> length s \<Longrightarrow> read_u64_be s = of_be (take 8 s)"
  unfolding nths_Cons read_u64_be_def of_be_def by (simp add: push_bit_or or.assoc)

lemma read_u32_be: "4 \<le> length s \<Longrightarrow> read_u32_be s = of_be (take 4 s)"
  by (cases s; cases "tl s"; cases "tl (tl s)"; cases "tl (tl (tl s))")
    (simp_all add: read_u32_be_def of_be_4 numeral_eq_Suc)

lemma read_u16_be: "2 \<le> length s \<Longrightarrow> read_u16_be s = of_be (take 2 s)"
  by (cases s; cases "tl s") (simp_all add: read_u16_be_def of_be_2 numeral_eq_Suc)

lemma read_write_u64 [simp]: "read_u64_be (write_u64_be v @ s) = v"
  using of_be_be_bytes_full [of 8 v] by (simp add: read_u64_be wire_simps)

lemma read_write_u32 [simp]: "read_u32_be (write_u32_be v @ s) = v"
  using of_be_be_bytes_full [of 4 v] by (simp add: read_u32_be wire_simps)

lemma read_write_u16 [simp]: "read_u16_be (write_u16_be v @ s) = v"
  using of_be_be_bytes_full [of 2 v] by (simp add: read_u16_be wire_simps)

subsection \<open>Calls to the connection manager\<close>

text \<open>
  The modes of \<open>NetworkManager\<close>, and what the entity, replication and RPC managers ask of it: \<open>broadcast\<close>, to all or
  to all but one client, \<open>send\<close> to one client, and a client's \<open>send\<close> to its server.
\<close>

datatype net_mode = NmNone | NmServer | NmClient | NmHost

datatype net_call = NetBroadcast bytes reliability | NetBroadcastExcept bytes reliability u64
  | NetSendTo u64 bytes reliability | NetSend bytes reliability

fun call_message :: "net_call \<Rightarrow> bytes" where
  "call_message (NetBroadcast msg r) = msg"
| "call_message (NetBroadcastExcept msg r c) = msg"
| "call_message (NetSendTo c msg r) = msg"
| "call_message (NetSend msg r) = msg"

subsection \<open>State\<close>

record net_entity =
  e_net_id :: u64
  e_prefab_id :: u32
  e_local_handle :: u64
  e_owner_id :: u64

datatype bridge_event = BSpawn u32 u64 bytes u64 | BDestroy u64

record entity_manager =
  entities :: "(u64 \<times> net_entity) list"
  has_bridge :: bool
  next_id :: u64
  max_entities :: nat
  bridge_log :: "bridge_event list"

type_synonym handle_source = "bridge_event list \<Rightarrow> u32 \<Rightarrow> u64 \<Rightarrow> bytes \<Rightarrow> u64"

definition new_entity_manager :: entity_manager where
  "new_entity_manager = \<lparr>entities = [], has_bridge = False, next_id = 1, max_entities = 0, bridge_log = []\<rparr>"

definition bridge_spawn :: "handle_source \<Rightarrow> u32 \<Rightarrow> u64 \<Rightarrow> bytes \<Rightarrow> entity_manager \<Rightarrow> u64 \<times> entity_manager" where
  "bridge_spawn mk p nid d m =
     (let h = mk (bridge_log m) p nid d in (h, m\<lparr>bridge_log := bridge_log m @ [BSpawn p nid d h]\<rparr>))"

definition bridge_destroy :: "u64 \<Rightarrow> entity_manager \<Rightarrow> entity_manager" where
  "bridge_destroy h m = m\<lparr>bridge_log := bridge_log m @ [BDestroy h]\<rparr>"

definition set_bridge :: "bool \<Rightarrow> entity_manager \<Rightarrow> entity_manager" where
  "set_bridge b m = m\<lparr>has_bridge := b\<rparr>"

definition set_max_entities :: "nat \<Rightarrow> entity_manager \<Rightarrow> entity_manager" where
  "set_max_entities n m = m\<lparr>max_entities := n\<rparr>"

definition end_entity_manager :: "entity_manager \<Rightarrow> entity_manager" where
  "end_entity_manager m =
     (if has_bridge m then fold (\<lambda>(nid, e). bridge_destroy (e_local_handle e)) (entities m) m else m)"

definition at_capacity :: "entity_manager \<Rightarrow> bool" where
  "at_capacity m \<longleftrightarrow> 0 < max_entities m \<and> max_entities m \<le> length (entities m)"

text \<open>The part that \<open>spawn\<close> and \<open>on_receive_spawn\<close> share: create the local entity and enter it in the map.\<close>

definition enter_entity :: "handle_source \<Rightarrow> u32 \<Rightarrow> u64 \<Rightarrow> bytes \<Rightarrow> entity_manager \<Rightarrow> net_entity \<times> entity_manager" where
  "enter_entity mk p nid d m =
     (let ent = \<lparr>e_net_id = nid, e_prefab_id = p, e_local_handle = 0, e_owner_id = 0\<rparr>;
          (ent, m) = (if has_bridge m
                      then let (h, m) = bridge_spawn mk p nid d m in (ent\<lparr>e_local_handle := h\<rparr>, m)
                      else (ent, m))
      in (ent, m\<lparr>entities := AList.update nid ent (entities m)\<rparr>))"

subsection \<open>Server operations\<close>

definition spawn_message :: "net_entity \<Rightarrow> bytes \<Rightarrow> bytes" where
  "spawn_message ent d = [0xCA, 0xFE, 0x10] @ write_u64_be (e_net_id ent) @ write_u32_be (e_prefab_id ent) @
     write_u16_be (of_nat (length d)) @ d"

definition broadcast_spawn :: "net_entity \<Rightarrow> bytes \<Rightarrow> net_call list" where
  "broadcast_spawn ent d = [NetBroadcast (spawn_message ent d) ReliableOrdered]"

definition broadcast_destroy :: "u64 \<Rightarrow> net_call list" where
  "broadcast_destroy nid = [NetBroadcast ([0xCA, 0xFE, 0x11] @ write_u64_be nid) ReliableOrdered]"

definition em_spawn :: "handle_source \<Rightarrow> u32 \<Rightarrow> bytes \<Rightarrow> bool \<Rightarrow> entity_manager \<Rightarrow>
    u64 \<times> net_call list \<times> entity_manager" where
  "em_spawn mk p d net m =
     (if at_capacity m then (0, [], m)
      else let nid = next_id m;
               m = m\<lparr>next_id := next_id m + 1\<rparr>;
               (ent, m) = enter_entity mk p nid d m
           in (nid, if net then broadcast_spawn ent d else [], m))"

definition em_destroy :: "u64 \<Rightarrow> bool \<Rightarrow> entity_manager \<Rightarrow> net_call list \<times> entity_manager" where
  "em_destroy nid net m =
     (case map_of (entities m) nid of
        None \<Rightarrow> ([], m)
      | Some e \<Rightarrow>
          let m = (if has_bridge m then bridge_destroy (e_local_handle e) m else m);
              m = m\<lparr>entities := AList.delete nid (entities m)\<rparr>
          in (if net then broadcast_destroy nid else [], m))"

definition em_set_owner :: "u64 \<Rightarrow> u64 \<Rightarrow> entity_manager \<Rightarrow> entity_manager" where
  "em_set_owner nid c m =
     (case map_of (entities m) nid of
        None \<Rightarrow> m
      | Some e \<Rightarrow> m\<lparr>entities := AList.update nid (e\<lparr>e_owner_id := c\<rparr>) (entities m)\<rparr>)"

definition send_full_state_to_client :: "u64 \<Rightarrow> entity_manager \<Rightarrow> net_call list" where
  "send_full_state_to_client c m =
     map (\<lambda>(nid, ent). NetSendTo c ([0xCA, 0xFE, 0x10] @ write_u64_be (e_net_id ent) @
       write_u32_be (e_prefab_id ent) @ write_u16_be 0) ReliableOrdered) (entities m)"

subsection \<open>Message handlers\<close>

definition on_receive_spawn :: "handle_source \<Rightarrow> bytes \<Rightarrow> entity_manager \<Rightarrow> entity_manager" where
  "on_receive_spawn mk s m =
     (if length s < 14 then m
      else let net_id = read_u64_be s;
               prefab = read_u32_be (drop 8 s);
               init_len = read_u16_be (drop 12 s)
           in if length s < 14 + unat init_len then m
              else let init_data = (if 0 < unat init_len then take (unat init_len) (drop 14 s) else [])
                   in if map_of (entities m) net_id \<noteq> None then m
                      else if at_capacity m then m
                      else snd (enter_entity mk prefab net_id init_data m))"

definition on_receive_destroy :: "bytes \<Rightarrow> entity_manager \<Rightarrow> entity_manager" where
  "on_receive_destroy s m =
     (if length s < 8 then m
      else let net_id = read_u64_be s
           in case map_of (entities m) net_id of
                None \<Rightarrow> m
              | Some e \<Rightarrow>
                  let m = (if has_bridge m then bridge_destroy (e_local_handle e) m else m)
                  in m\<lparr>entities := AList.delete net_id (entities m)\<rparr>)"

definition on_receive_set_owner :: "bytes \<Rightarrow> entity_manager \<Rightarrow> entity_manager" where
  "on_receive_set_owner s m =
     (if length s < 16 then m
      else let net_id = read_u64_be s; owner = read_u64_be (drop 8 s)
           in case map_of (entities m) net_id of
                None \<Rightarrow> m
              | Some e \<Rightarrow> m\<lparr>entities := AList.update net_id (e\<lparr>e_owner_id := owner\<rparr>) (entities m)\<rparr>)"

definition on_receive_full_state :: "bytes \<Rightarrow> entity_manager \<Rightarrow> entity_manager" where
  "on_receive_full_state s m = m"

text \<open>The entity cases of \<open>process_system_message\<close> in \<open>network_manager.cpp\<close>.\<close>

definition entity_message :: "handle_source \<Rightarrow> u8 \<Rightarrow> bytes \<Rightarrow> entity_manager \<Rightarrow> entity_manager" where
  "entity_message mk ty s m =
     (if ty = 0x10 then on_receive_spawn mk s m
      else if ty = 0x11 then on_receive_destroy s m
      else if ty = 0x12 then on_receive_set_owner s m
      else if ty = 0x13 then on_receive_full_state s m
      else m)"

subsection \<open>Queries\<close>

definition em_exists :: "u64 \<Rightarrow> entity_manager \<Rightarrow> bool" where
  "em_exists nid m \<longleftrightarrow> map_of (entities m) nid \<noteq> None"

definition em_local_handle :: "u64 \<Rightarrow> entity_manager \<Rightarrow> u64" where
  "em_local_handle nid m = (case map_of (entities m) nid of Some e \<Rightarrow> e_local_handle e | None \<Rightarrow> 0)"

definition em_prefab :: "u64 \<Rightarrow> entity_manager \<Rightarrow> u32" where
  "em_prefab nid m = (case map_of (entities m) nid of Some e \<Rightarrow> e_prefab_id e | None \<Rightarrow> 0)"

definition em_owner :: "u64 \<Rightarrow> entity_manager \<Rightarrow> u64" where
  "em_owner nid m = (case map_of (entities m) nid of Some e \<Rightarrow> e_owner_id e | None \<Rightarrow> 0)"

definition em_entity_count :: "entity_manager \<Rightarrow> nat" where
  "em_entity_count m = length (entities m)"

definition for_each_entity :: "(u64 \<Rightarrow> u32 \<Rightarrow> u64 \<Rightarrow> u64 \<Rightarrow> 's \<Rightarrow> 's) \<Rightarrow> entity_manager \<Rightarrow> 's \<Rightarrow> 's" where
  "for_each_entity cb m =
     fold (\<lambda>(nid, e). cb nid (e_prefab_id e) (e_local_handle e) (e_owner_id e)) (entities m)"

subsection \<open>Association lists\<close>

lemma update_new: "map_of al k = None \<Longrightarrow> AList.update k v al = al @ [(k, v)]"
  by (induction al) (auto split: if_splits)

lemma mset_delete:
  assumes "distinct (map fst al)" and "map_of al k = Some v"
  shows "mset al = add_mset (k, v) (mset (AList.delete k al))"
  using assms
proof (induction al)
  case (Cons e al)
  have "map_of al k = None \<Longrightarrow> AList.delete k al = al" by (simp add: delete_id map_of_eq_None_iff)
  with Cons show ?case by (cases e) (auto simp: map_of_eq_None_iff split: if_splits)
qed simp

lemma map_update_value:
  assumes "map_of al k = Some v" and "f v' = f v" and "distinct (map fst al)"
  shows "map (\<lambda>(k, v). f v) (AList.update k v' al) = map (\<lambda>(k, v). f v) al"
  using assms by (induction al) (auto split: if_splits)

subsection \<open>The abstract view: which identifiers exist, with which prefab\<close>

definition view :: "entity_manager \<Rightarrow> u64 \<Rightarrow> u32 option" where
  "view m nid = map_option e_prefab_id (map_of (entities m) nid)"

lemma view_None: "view m nid = None \<longleftrightarrow> map_of (entities m) nid = None"
  by (simp add: view_def)

lemma enter_entity_simps:
  "view (snd (enter_entity mk p nid d m)) = (view m)(nid \<mapsto> p)"
  "max_entities (snd (enter_entity mk p nid d m)) = max_entities m"
  "next_id (snd (enter_entity mk p nid d m)) = next_id m"
  "has_bridge (snd (enter_entity mk p nid d m)) = has_bridge m"
  "e_net_id (fst (enter_entity mk p nid d m)) = nid"
  "e_prefab_id (fst (enter_entity mk p nid d m)) = p"
  "e_owner_id (fst (enter_entity mk p nid d m)) = 0"
  "entities (snd (enter_entity mk p nid d m)) = AList.update nid (fst (enter_entity mk p nid d m)) (entities m)"
  by (auto simp: enter_entity_def bridge_spawn_def Let_def view_def fun_eq_iff update_conv')

lemma bridge_destroy_simps [simp]:
  "entities (bridge_destroy h m) = entities m" "max_entities (bridge_destroy h m) = max_entities m"
  "next_id (bridge_destroy h m) = next_id m" "has_bridge (bridge_destroy h m) = has_bridge m"
  "bridge_log (bridge_destroy h m) = bridge_log m @ [BDestroy h]"
  by (simp_all add: bridge_destroy_def)

lemma spawn_view:
  "\<not> at_capacity m \<Longrightarrow> view (snd (snd (em_spawn mk p d net m))) = (view m)(next_id m \<mapsto> p)"
  "at_capacity m \<Longrightarrow> snd (snd (em_spawn mk p d net m)) = m"
  by (simp_all add: em_spawn_def Let_def case_prod_unfold enter_entity_simps) (simp add: view_def fun_eq_iff)

lemma destroy_view: "view (snd (em_destroy nid net m)) = (view m)(nid := None)"
  by (auto simp: em_destroy_def view_def fun_eq_iff delete_conv' split: option.splits)

lemma set_owner_view: "view (em_set_owner nid c m) = view m"
  by (auto simp: em_set_owner_def view_def fun_eq_iff update_conv' split: option.splits)

subsection \<open>What a broadcast does to a client\<close>

lemma drop_write [simp]:
  "drop 8 (write_u64_be v @ s) = s" "drop 4 (write_u32_be x @ s) = s" "drop 2 (write_u16_be y @ s) = s"
  "drop 12 (write_u64_be v @ s) = drop 4 s" "drop 14 (write_u64_be v @ s) = drop 6 s"
  "drop 6 (write_u32_be x @ s) = drop 2 s"
  by simp_all

lemma spawn_message_received:
  "entity_message mk (spawn_message ent d ! 2) (drop 3 (spawn_message ent d)) m =
     (if map_of (entities m) (e_net_id ent) \<noteq> None \<or> at_capacity m then m
      else snd (enter_entity mk (e_prefab_id ent) (e_net_id ent) (take (length d mod 65536) d) m))"
proof -
  have n: "unat (of_nat (length d) :: u16) = length d mod 65536" by (simp add: unsigned_of_nat take_bit_nat_def)
  have "length d mod 65536 \<le> length d" by simp
  then show ?thesis
    by (simp add: entity_message_def spawn_message_def on_receive_spawn_def Let_def n not_less)
qed

lemma destroy_message_received:
  "view (entity_message mk 0x11 (write_u64_be nid) m) = (view m)(nid := None)"
  using read_write_u64 [of nid "[]"]
  by (auto simp: entity_message_def on_receive_destroy_def view_def fun_eq_iff delete_conv' Let_def
      split: option.splits)

definition deliver_call :: "handle_source \<Rightarrow> net_call \<Rightarrow> entity_manager \<Rightarrow> entity_manager" where
  "deliver_call mk c m = entity_message mk (call_message c ! 2) (drop 3 (call_message c)) m"

lemma deliver_spawn_view:
  assumes "view m (e_net_id ent) = None" and "max_entities m = 0"
  shows "view (fold (deliver_call mk) (broadcast_spawn ent d) m) = (view m)(e_net_id ent \<mapsto> e_prefab_id ent)"
  using assms by (simp add: broadcast_spawn_def deliver_call_def spawn_message_received view_None at_capacity_def
      enter_entity_simps)

lemma deliver_destroy_view: "view (fold (deliver_call mk) (broadcast_destroy nid) m) = (view m)(nid := None)"
  by (simp add: broadcast_destroy_def deliver_call_def destroy_message_received)

lemma entity_message_capacity [simp]: "max_entities (entity_message mk ty s m) = max_entities m"
  by (auto simp: entity_message_def on_receive_spawn_def on_receive_destroy_def on_receive_set_owner_def
      on_receive_full_state_def enter_entity_simps Let_def split: option.splits)

lemma deliver_capacity [simp]: "max_entities (fold (deliver_call mk) cs m) = max_entities m"
  by (induction cs arbitrary: m) (simp_all add: deliver_call_def)

subsection \<open>A client that receives the broadcasts mirrors the server\<close>

datatype entity_op = OpSpawn u32 bytes | OpDestroy u64 | OpSetOwner u64 u64

fun run_op :: "handle_source \<Rightarrow> entity_op \<Rightarrow> entity_manager \<Rightarrow> net_call list \<times> entity_manager" where
  "run_op mk (OpSpawn p d) m = snd (em_spawn mk p d True m)"
| "run_op mk (OpDestroy nid) m = em_destroy nid True m"
| "run_op mk (OpSetOwner nid c) m = ([], em_set_owner nid c m)"

fun entity_ops :: "handle_source \<Rightarrow> entity_op list \<Rightarrow> entity_manager \<Rightarrow> net_call list \<times> entity_manager" where
  "entity_ops mk [] m = ([], m)"
| "entity_ops mk (x # xs) m =
     (let (cs, m) = run_op mk x m; (cs', m) = entity_ops mk xs m in (cs @ cs', m))"

definition ids_below_next :: "entity_manager \<Rightarrow> bool" where
  "ids_below_next m \<longleftrightarrow> (\<forall>nid. view m nid \<noteq> None \<longrightarrow> nid < next_id m)"

lemma run_op_next:
  "next_id (snd (run_op mk x m)) = next_id m \<or> next_id (snd (run_op mk x m)) = next_id m + 1"
  by (cases x) (auto simp: em_spawn_def em_destroy_def em_set_owner_def Let_def case_prod_unfold enter_entity_simps
      split: option.splits)

lemma destroy_calls: "fst (em_destroy nid True m) = (if view m nid = None then [] else broadcast_destroy nid)"
  by (auto simp: em_destroy_def view_def split: option.splits)

lemma spawn_calls:
  "\<not> at_capacity m \<Longrightarrow> \<exists>ent. fst (snd (em_spawn mk p d True m)) = broadcast_spawn ent d \<and>
     e_net_id ent = next_id m \<and> e_prefab_id ent = p"
  "at_capacity m \<Longrightarrow> fst (snd (em_spawn mk p d net m)) = []"
  by (auto simp: em_spawn_def Let_def case_prod_unfold enter_entity_simps)

lemma spawn_mirrors:
  assumes "view c = view s" and "max_entities c = 0" and "view s (next_id s) = None"
  shows "view (fold (deliver_call mk') (fst (snd (em_spawn mk p d True s))) c) = view (snd (snd (em_spawn mk p d True s)))"
proof (cases "at_capacity s")
  case False
  obtain ent where ent: "fst (snd (em_spawn mk p d True s)) = broadcast_spawn ent d" "e_net_id ent = next_id s"
      "e_prefab_id ent = p" using spawn_calls(1) [OF False] by blast
  show ?thesis using assms by (simp add: ent deliver_spawn_view spawn_view False)
qed (simp add: spawn_calls spawn_view assms)

lemma run_op_mirrors:
  assumes "view c = view s" and "max_entities c = 0" and "view s (next_id s) = None"
  shows "view (fold (deliver_call mk') (fst (run_op mk x s)) c) = view (snd (run_op mk x s))"
proof (cases x)
  case (OpDestroy nid)
  show ?thesis using assms by (auto simp: OpDestroy destroy_calls deliver_destroy_view destroy_view)
qed (simp_all add: assms spawn_mirrors set_owner_view)

lemma run_op_ids:
  assumes "ids_below_next s" and "unat (next_id s) + 1 < 2 ^ 64"
  shows "ids_below_next (snd (run_op mk x s)) \<and> unat (next_id (snd (run_op mk x s))) \<le> unat (next_id s) + 1"
proof -
  have up: "unat (next_id s + 1) = unat (next_id s) + 1"
    using assms(2) by (simp add: unat_word_ariths)
  have below: "nid < next_id s + 1" if "nid \<le> next_id s" for nid
    using that up by (simp add: word_less_nat_alt word_le_nat_alt)
  have spawned: "next_id (snd (snd (em_spawn mk p d True s))) = next_id s + 1" if "\<not> at_capacity s" for p d
    using that by (simp add: em_spawn_def Let_def case_prod_unfold enter_entity_simps)
  have "next_id (snd (em_destroy nid True s)) = next_id s" "next_id (em_set_owner nid c s) = next_id s" for nid c
    by (auto simp: em_destroy_def em_set_owner_def split: option.splits)
  then show ?thesis using assms(1) up below
    by (cases x; cases "at_capacity s")
      (auto simp: ids_below_next_def destroy_view set_owner_view spawn_view spawned less_imp_le split: if_splits)
qed

lemma ids_fresh: "ids_below_next s \<Longrightarrow> view s (next_id s) = None"
  by (fastforce simp: ids_below_next_def)

text \<open>A client that holds the server's entities (say none) and has no entity limit, and that receives the
  messages of any sequence of spawns, destroys and ownership changes of the server, in order, holds
  exactly the server's entities with their prefabs afterwards, whatever handles its own bridge gives out.
\<close>

theorem client_mirrors_server:
  assumes "view c = view s" and "max_entities c = 0" and "ids_below_next s"
    and "unat (next_id s) + length ops < 2 ^ 64"
  shows "view (fold (deliver_call mk') (fst (entity_ops mk ops s)) c) = view (snd (entity_ops mk ops s))"
  using assms
proof (induction ops arbitrary: s c)
  case (Cons x xs)
  let ?s = "snd (run_op mk x s)" and ?c = "fold (deliver_call mk') (fst (run_op mk x s)) c"
  have small: "unat (next_id s) + 1 < 2 ^ 64" using Cons.prems(4) by simp
  note ids = run_op_ids [OF Cons.prems(3) small, of mk x]
  have "view ?c = view ?s" by (rule run_op_mirrors [OF Cons.prems(1,2) ids_fresh [OF Cons.prems(3)]])
  moreover have "unat (next_id ?s) + length xs < 2 ^ 64" using ids Cons.prems(4) by simp
  ultimately have "view (fold (deliver_call mk') (fst (entity_ops mk xs ?s)) ?c) = view (snd (entity_ops mk xs ?s))"
    using Cons.IH [of ?c ?s] Cons.prems(2) ids by simp
  then show ?case by (simp add: Let_def case_prod_unfold)
qed simp

definition mirror_ops :: "entity_op list" where
  "mirror_ops = [OpSpawn 7 [1, 2], OpSpawn 8 [], OpDestroy 1, OpSetOwner 2 5]"

lemma client_mirrors_server_witness:
  "view (fold (deliver_call (\<lambda>_ _ _ _. 3)) (fst (entity_ops (\<lambda>_ _ _ _. 4) mirror_ops new_entity_manager)) new_entity_manager) 2 =
     Some 8"
proof -
  have "view (snd (entity_ops (\<lambda>_ _ _ _. 4) mirror_ops new_entity_manager)) 2 = Some 8" by code_simp
  then show ?thesis
    by (subst client_mirrors_server)
      (simp_all add: new_entity_manager_def ids_below_next_def view_def mirror_ops_def)
qed

subsection \<open>Handles\<close>

definition spawned :: "bridge_event list \<Rightarrow> u64 multiset" where
  "spawned es = mset (List.map_filter (\<lambda>e. case e of BSpawn p n d h \<Rightarrow> Some h | BDestroy h \<Rightarrow> None) es)"

definition destroyed :: "bridge_event list \<Rightarrow> u64 multiset" where
  "destroyed es = mset (List.map_filter (\<lambda>e. case e of BSpawn p n d h \<Rightarrow> None | BDestroy h \<Rightarrow> Some h) es)"

definition live :: "entity_manager \<Rightarrow> u64 multiset" where
  "live m = image_mset (e_local_handle \<circ> snd) (mset (entities m))"

lemma map_filter_append: "List.map_filter f (xs @ ys) = List.map_filter f xs @ List.map_filter f ys"
  by (simp add: List.map_filter_def)

lemma spawned_simps [simp]:
  "spawned (es @ [BSpawn p n d h]) = add_mset h (spawned es)" "spawned (es @ [BDestroy h]) = spawned es"
  "destroyed (es @ [BSpawn p n d h]) = destroyed es" "destroyed (es @ [BDestroy h]) = add_mset h (destroyed es)"
  by (simp_all add: spawned_def destroyed_def map_filter_append List.map_filter_simps)

definition entities_wf :: "entity_manager \<Rightarrow> bool" where
  "entities_wf m \<longleftrightarrow> distinct (map fst (entities m)) \<and> (\<forall>(nid, e)\<in>set (entities m). e_net_id e = nid)"

text \<open>Every handle the bridge gave out was destroyed, or belongs to exactly one entity.\<close>

definition handles_balanced :: "entity_manager \<Rightarrow> bool" where
  "handles_balanced m \<longleftrightarrow> spawned (bridge_log m) = destroyed (bridge_log m) + live m"

definition manager_ok :: "entity_manager \<Rightarrow> bool" where
  "manager_ok m \<longleftrightarrow> has_bridge m \<and> entities_wf m \<and> handles_balanced m"

lemma enter_entity_ok:
  assumes "manager_ok m" and "map_of (entities m) nid = None"
  shows "manager_ok (snd (enter_entity mk p nid d m))"
  using assms
  by (auto simp: manager_ok_def entities_wf_def handles_balanced_def live_def enter_entity_def bridge_spawn_def Let_def
      update_new map_of_eq_None_iff)

lemma erase_ok:
  assumes "manager_ok m" and "map_of (entities m) nid = Some e"
  shows "manager_ok (bridge_destroy (e_local_handle e) m\<lparr>entities := AList.delete nid (entities m)\<rparr>)"
proof -
  have "mset (entities m) = add_mset (nid, e) (mset (AList.delete nid (entities m)))"
    using assms mset_delete by (fastforce simp: manager_ok_def entities_wf_def)
  moreover have "\<forall>(k, v)\<in>set (AList.delete nid (entities m)). e_net_id v = k"
    using assms(1) by (auto simp: AList.delete_eq manager_ok_def entities_wf_def)
  ultimately show ?thesis using assms
    by (auto simp: manager_ok_def entities_wf_def handles_balanced_def live_def distinct_delete)
qed

lemma update_ok:
  assumes "manager_ok m" and "map_of (entities m) nid = Some e"
  shows "manager_ok (m\<lparr>entities := AList.update nid (e\<lparr>e_owner_id := c\<rparr>) (entities m)\<rparr>)"
proof -
  let ?al = "AList.update nid (e\<lparr>e_owner_id := c\<rparr>) (entities m)"
  have d: "distinct (map fst (entities m))" using assms by (simp add: manager_ok_def entities_wf_def)
  have "map (\<lambda>(k, v). e_local_handle v) ?al = map (\<lambda>(k, v). e_local_handle v) (entities m)"
    by (rule map_update_value [OF assms(2) _ d]) simp
  then have "image_mset (e_local_handle \<circ> snd) (mset ?al) = image_mset (e_local_handle \<circ> snd) (mset (entities m))"
    by (metis (no_types, lifting) case_prod_beta' comp_apply map_eq_conv mset_map)
  moreover have "e_net_id v = k" if "(k, v) \<in> set ?al" for k v
  proof -
    from that have "map_of ?al k = Some v" using d by (simp add: distinct_update)
    then show ?thesis using assms
      by (auto simp: update_conv' manager_ok_def entities_wf_def dest!: map_of_SomeD split: if_splits)
  qed
  ultimately show ?thesis using assms d
    by (auto simp: manager_ok_def entities_wf_def handles_balanced_def live_def distinct_update)
qed

lemma spawn_ok:
  assumes "manager_ok m" and "map_of (entities m) (next_id m) = None"
  shows "manager_ok (snd (snd (em_spawn mk p d net m)))"
proof -
  have "manager_ok (m\<lparr>next_id := next_id m + 1\<rparr>)" using assms by (simp add: manager_ok_def entities_wf_def handles_balanced_def live_def)
  then show ?thesis using assms enter_entity_ok [of "m\<lparr>next_id := next_id m + 1\<rparr>" "next_id m" mk p d]
    by (simp add: em_spawn_def Let_def case_prod_unfold)
qed

lemma bridged: "manager_ok m \<Longrightarrow> has_bridge m"
  by (simp add: manager_ok_def)

lemma destroy_ok: "manager_ok m \<Longrightarrow> manager_ok (snd (em_destroy nid net m))"
  using erase_ok by (auto simp: em_destroy_def bridged split: option.splits)

lemma message_ok: "manager_ok m \<Longrightarrow> manager_ok (entity_message mk ty s m)"
  using enter_entity_ok erase_ok update_ok
  by (auto simp: entity_message_def on_receive_spawn_def on_receive_destroy_def on_receive_set_owner_def
      on_receive_full_state_def Let_def bridged split: option.splits)

lemma set_owner_ok: "manager_ok m \<Longrightarrow> manager_ok (em_set_owner nid c m)"
  using update_ok by (auto simp: em_set_owner_def split: option.splits)

lemma capacity_ok: "manager_ok m \<Longrightarrow> manager_ok (set_max_entities n m)"
  by (simp add: set_max_entities_def manager_ok_def entities_wf_def handles_balanced_def live_def)

text \<open>
  The states of a manager whose bridge is set before use, and which never spawns under an identifier that
  a peer already made it enter: local calls and messages in any order.
\<close>

inductive manager_reach :: "handle_source \<Rightarrow> entity_manager \<Rightarrow> bool" for mk where
  start: "manager_reach mk (set_bridge True new_entity_manager)"
| spawn: "manager_reach mk m \<Longrightarrow> map_of (entities m) (next_id m) = None \<Longrightarrow>
    manager_reach mk (snd (snd (em_spawn mk p d net m)))"
| destroy: "manager_reach mk m \<Longrightarrow> manager_reach mk (snd (em_destroy nid net m))"
| owner: "manager_reach mk m \<Longrightarrow> manager_reach mk (em_set_owner nid c m)"
| capacity: "manager_reach mk m \<Longrightarrow> manager_reach mk (set_max_entities n m)"
| message: "manager_reach mk m \<Longrightarrow> manager_reach mk (entity_message mk ty s m)"

lemma reach_ok: "manager_reach mk m \<Longrightarrow> manager_ok m"
proof (induction rule: manager_reach.induct)
  case start
  show ?case by (simp add: manager_ok_def entities_wf_def handles_balanced_def live_def set_bridge_def
      new_entity_manager_def spawned_def destroyed_def List.map_filter_simps)
qed (simp_all add: spawn_ok destroy_ok set_owner_ok capacity_ok message_ok)

lemma end_log:
  assumes "has_bridge m"
  shows "spawned (bridge_log (end_entity_manager m)) = spawned (bridge_log m) \<and>
    destroyed (bridge_log (end_entity_manager m)) = destroyed (bridge_log m) + live m"
proof -
  have "spawned (bridge_log (fold (\<lambda>(nid, e). bridge_destroy (e_local_handle e)) xs m')) = spawned (bridge_log m') \<and>
    destroyed (bridge_log (fold (\<lambda>(nid, e). bridge_destroy (e_local_handle e)) xs m')) =
      destroyed (bridge_log m') + image_mset (e_local_handle \<circ> snd) (mset xs)" for xs m'
    by (induction xs arbitrary: m') (simp_all add: case_prod_unfold)
  then show ?thesis using assms by (simp add: end_entity_manager_def live_def)
qed

text \<open>C34: When such a manager is destroyed, each local entity its bridge ever created, counted with
  multiplicity, has been destroyed exactly once: none is leaked and none destroyed twice.
\<close>

theorem handles_destroyed_once:
  assumes "manager_reach mk m"
  shows "spawned (bridge_log (end_entity_manager m)) = destroyed (bridge_log (end_entity_manager m))"
  using reach_ok [OF assms] by (simp add: end_log bridged manager_ok_def handles_balanced_def)

lemma handles_destroyed_once_witness:
  "spawned (bridge_log (end_entity_manager (snd (snd (em_spawn (\<lambda>_ _ _ _. 9) 4 [1] True (set_bridge True new_entity_manager)))))) =
    destroyed (bridge_log (end_entity_manager (snd (snd (em_spawn (\<lambda>_ _ _ _. 9) 4 [1] True (set_bridge True new_entity_manager))))))"
  by (rule handles_destroyed_once [where mk = "\<lambda>_ _ _ _. 9"], rule manager_reach.spawn [OF manager_reach.start])
    (simp add: set_bridge_def new_entity_manager_def)

text \<open>A spawn under an identifier that a peer's message already entered replaces the entry: the replaced
  entity's handle is never destroyed, even by the destructor.
\<close>

theorem spawn_collision_leaks:
  assumes "manager_ok m" and "map_of (entities m) (next_id m) = Some e" and "\<not> at_capacity m"
  shows "spawned (bridge_log (end_entity_manager (snd (snd (em_spawn mk p d net m))))) =
    add_mset (e_local_handle e) (destroyed (bridge_log (end_entity_manager (snd (snd (em_spawn mk p d net m))))))"
proof -
  have split: "image_mset f (mset (AList.update k v al)) + {#f (k, e)#} = image_mset f (mset al) + {#f (k, v)#}"
    if "distinct (map fst al)" "map_of al k = Some e" for al k v and f :: "u64 \<times> net_entity \<Rightarrow> u64"
    using that by (induction al) (auto simp: update_new split: if_splits)
  have d: "distinct (map fst (entities m))" using assms(1) by (simp add: manager_ok_def entities_wf_def)
  show ?thesis
    using assms split [OF d assms(2), of "e_local_handle \<circ> snd"]
    by (simp add: em_spawn_def Let_def case_prod_unfold end_log enter_entity_simps bridged)
      (simp add: enter_entity_def bridge_spawn_def Let_def bridged manager_ok_def handles_balanced_def live_def)
qed

definition peer_entered_first :: entity_manager where
  "peer_entered_first = entity_message (\<lambda>_ _ _ _. 6) 0x10 (write_u64_be 1 @ write_u32_be 5 @ write_u16_be 0) (set_bridge True new_entity_manager)"

lemma spawn_collision_leaks_witness:
  "spawned (bridge_log (end_entity_manager (snd (snd (em_spawn (\<lambda>_ _ _ _. 9) 4 [] False peer_entered_first))))) =
    add_mset 6 (destroyed (bridge_log (end_entity_manager (snd (snd (em_spawn (\<lambda>_ _ _ _. 9) 4 [] False peer_entered_first))))))"
proof -
  have "manager_ok peer_entered_first"
    unfolding peer_entered_first_def by (rule reach_ok, rule manager_reach.message, rule manager_reach.start)
  moreover have "map_of (entities peer_entered_first) (next_id peer_entered_first) =
      Some \<lparr>e_net_id = 1, e_prefab_id = 5, e_local_handle = 6, e_owner_id = 0\<rparr> \<and> \<not> at_capacity peer_entered_first"
    by code_simp
  ultimately show ?thesis
    using spawn_collision_leaks [of peer_entered_first "\<lparr>e_net_id = 1, e_prefab_id = 5, e_local_handle = 6, e_owner_id = 0\<rparr>"]
    by simp
qed

subsection \<open>Late joiners\<close>

definition full_state_message :: "net_entity \<Rightarrow> bytes" where
  "full_state_message ent = spawn_message ent []"

lemma full_state_calls:
  "send_full_state_to_client c m = map (\<lambda>(nid, ent). NetSendTo c (full_state_message ent) ReliableOrdered) (entities m)"
  by (simp add: send_full_state_to_client_def full_state_message_def spawn_message_def case_prod_unfold)

definition blank :: "net_entity \<Rightarrow> bool" where
  "blank e \<longleftrightarrow> e_owner_id e = 0"

lemma full_state_delivered:
  assumes "max_entities j = 0" and "distinct (map fst es)" and "\<forall>(nid, e)\<in>set es. e_net_id e = nid"
    and "\<forall>(nid, e)\<in>set es. map_of (entities j) nid = None" and "\<forall>(nid, e)\<in>set (entities j). blank e"
  shows "view (fold (deliver_call mk) (map (\<lambda>(nid, ent). NetSendTo c (full_state_message ent) ReliableOrdered) es) j) =
      view j ++ (\<lambda>nid. map_option e_prefab_id (map_of es nid)) \<and>
    (\<forall>(nid, e)\<in>set (entities (fold (deliver_call mk) (map (\<lambda>(nid, ent). NetSendTo c (full_state_message ent) ReliableOrdered) es) j)). blank e)"
  using assms
proof (induction es arbitrary: j)
  case Nil
  then show ?case by (simp add: map_add_def)
next
  case (Cons x es)
  obtain nid e where x: "x = (nid, e)" by fastforce
  let ?j = "deliver_call mk (NetSendTo c (full_state_message e) ReliableOrdered) j"
  have e: "e_net_id e = nid" "map_of (entities j) nid = None" using Cons.prems by (simp_all add: x)
  have j: "?j = snd (enter_entity mk (e_prefab_id e) nid [] j)"
    using Cons.prems(1) e
    by (simp add: deliver_call_def full_state_message_def spawn_message_received at_capacity_def)
  have ents: "entities ?j = entities j @ [(nid, fst (enter_entity mk (e_prefab_id e) nid [] j))]"
    by (simp add: j enter_entity_simps update_new e)
  have notin: "nid \<notin> fst ` set es" using Cons.prems(2) by (simp add: x)
  have "\<forall>(nid, e)\<in>set es. map_of (entities ?j) nid = None"
    using Cons.prems(4) notin by (auto simp: x ents map_add_def split: option.splits) (force+)
  moreover have "\<forall>(nid, e)\<in>set (entities ?j). blank e"
    using Cons.prems(5) by (auto simp: ents blank_def enter_entity_simps)
  moreover have "max_entities ?j = 0" using Cons.prems(1) by (simp add: deliver_call_def)
  ultimately have IH: "view (fold (deliver_call mk) (map (\<lambda>(nid, ent). NetSendTo c (full_state_message ent) ReliableOrdered) es) ?j) =
      view ?j ++ (\<lambda>nid. map_option e_prefab_id (map_of es nid)) \<and>
    (\<forall>(nid, e)\<in>set (entities (fold (deliver_call mk) (map (\<lambda>(nid, ent). NetSendTo c (full_state_message ent) ReliableOrdered) es) ?j)). blank e)"
    using Cons.IH [of ?j] Cons.prems(2,3) by (simp add: x)
  moreover have "view ?j ++ (\<lambda>nid. map_option e_prefab_id (map_of es nid)) =
      view j ++ (\<lambda>nid. map_option e_prefab_id (map_of (x # es) nid))"
    using notin e(2)
    by (auto simp: j enter_entity_simps x fun_eq_iff map_add_def map_of_eq_None_iff [THEN iffD2] split: option.splits)
  ultimately show ?case by (simp add: x)
qed

text \<open>A late joiner that receives the full state holds exactly the server's entities with their prefabs;
  but every owner is 0 there, whatever the owners on the server.
\<close>

theorem full_state_replicates:
  assumes "entities_wf m" and "entities j = []" and "max_entities j = 0"
  shows "view (fold (deliver_call mk) (send_full_state_to_client c m) j) = view m \<and>
    em_owner nid (fold (deliver_call mk) (send_full_state_to_client c m) j) = 0"
proof -
  have "view j ++ (\<lambda>nid. map_option e_prefab_id (map_of (entities m) nid)) = view m"
    using assms(2) by (simp add: fun_eq_iff view_def map_add_def split: option.splits)
  then show ?thesis
    using full_state_delivered [of j "entities m" mk c] assms
    by (auto simp: full_state_calls entities_wf_def em_owner_def blank_def dest!: map_of_SomeD split: option.splits)
qed

definition owned_entity :: entity_manager where
  "owned_entity = em_set_owner 1 5 (snd (snd (em_spawn (\<lambda>_ _ _ _. 2) 3 [1] True new_entity_manager)))"

lemma full_state_replicates_witness:
  "em_prefab 1 owned_entity = 3 \<and> em_owner 1 owned_entity = 5 \<and>
   em_owner 1 (fold (deliver_call (\<lambda>_ _ _ _. 3)) (send_full_state_to_client 9 owned_entity) new_entity_manager) = 0"
proof -
  have "em_prefab 1 owned_entity = 3" "em_owner 1 owned_entity = 5" "entities_wf owned_entity" by code_simp+
  then show ?thesis
    using full_state_replicates [of owned_entity new_entity_manager] by (simp add: new_entity_manager_def)
qed

end
