(* ===== verification/Replication.thy ===== *)
theory Replication
  imports Snapshots EntityManager
begin

text \<open>
  \<open>NetworkReplicationManager\<close> (\<open>src/include/campello_net/network_replication.hpp\<close>,
  \<open>src/src/network_replication.cpp\<close>): the server's snapshots, sent to each client as the difference to the
  last one it acknowledged, and the client's side, which applies, buffers or reports them.

  The bridge to the game is a parameter: \<open>ser\<close> gives the bytes that \<open>serialize_entity\<close> writes, \<open>None\<close> where it
  returns false; the calls made to the bridge and to the callback are the log \<open>applied\<close>. \<open>ents\<close> are the
  identifiers the entity manager iterates over, \<open>None\<close> when there is none; \<open>conn\<close> is
  \<open>NetworkManager::is_client_connected\<close>. Messages to send are returned. The unordered containers are lists
  in iteration order. The loops of the two ticks are \<open>partial_function\<close>s, \<open>None\<close> when they do not end.
\<close>

subsection \<open>State\<close>

record client_rep_state =
  last_acked :: u16
  has_ack :: bool
  visible :: "u64 set"

datatype rep_event = RDeserialize u64 bytes | RInterpolate u64 bytes bytes rat | RExtrapolate u64 bytes rat
  | RCallback u64 bytes

record replication =
  has_rbridge :: bool
  dirty :: "u64 list"
  snapshot_id :: u16
  full_sync_interval :: u16
  max_baseline_age :: u16
  rep_rate :: rat
  rep_accumulator :: rat
  history :: snapshot_history
  client_states :: "(u64 \<times> client_rep_state) list"
  interest_filter :: "(u64 \<Rightarrow> u64 \<Rightarrow> bool) option"
  last_received :: u16
  ack_accumulator :: rat
  interp_enabled :: bool
  snap_buffer :: client_buffer
  client_time :: rat
  prediction_mode :: bool
  has_snapshot_cb :: bool
  interp_delay :: rat
  latest_received :: u16
  applied :: "rep_event list"

definition new_client_state :: client_rep_state where
  "new_client_state = \<lparr>last_acked = 0, has_ack = False, visible = {}\<rparr>"

definition new_replication :: replication where
  "new_replication = \<lparr>has_rbridge = False, dirty = [], snapshot_id = 0, full_sync_interval = 10,
     max_baseline_age = 64, rep_rate = 30, rep_accumulator = 0, history = new_history, client_states = [],
     interest_filter = None, last_received = 0, ack_accumulator = 0, interp_enabled = False,
     snap_buffer = new_client_buffer, client_time = 0, prediction_mode = False, has_snapshot_cb = False,
     interp_delay = 0, latest_received = 0, applied = []\<rparr>"

definition set_full_sync_interval :: "u16 \<Rightarrow> replication \<Rightarrow> replication" where
  "set_full_sync_interval n r = r\<lparr>full_sync_interval := n\<rparr>"

definition set_rep_rate :: "rat \<Rightarrow> replication \<Rightarrow> replication" where
  "set_rep_rate hz r = r\<lparr>rep_rate := hz\<rparr>"

definition set_max_baseline_age :: "u16 \<Rightarrow> replication \<Rightarrow> replication" where
  "set_max_baseline_age n r = r\<lparr>max_baseline_age := n\<rparr>"

definition set_interest_filter :: "(u64 \<Rightarrow> u64 \<Rightarrow> bool) option \<Rightarrow> replication \<Rightarrow> replication" where
  "set_interest_filter f r = r\<lparr>interest_filter := f\<rparr>"

definition set_rep_bridge :: "bool \<Rightarrow> replication \<Rightarrow> replication" where
  "set_rep_bridge b r = r\<lparr>has_rbridge := b\<rparr>"

definition set_prediction_mode :: "bool \<Rightarrow> replication \<Rightarrow> replication" where
  "set_prediction_mode b r = r\<lparr>prediction_mode := b\<rparr>"

definition set_snapshot_cb :: "bool \<Rightarrow> replication \<Rightarrow> replication" where
  "set_snapshot_cb b r = r\<lparr>has_snapshot_cb := b\<rparr>"

definition set_interpolation_delay :: "rat \<Rightarrow> replication \<Rightarrow> replication" where
  "set_interpolation_delay d r = r\<lparr>interp_delay := d\<rparr>"

definition set_interpolation_enabled :: "bool \<Rightarrow> replication \<Rightarrow> replication" where
  "set_interpolation_enabled b r = r\<lparr>interp_enabled := b\<rparr>"

definition mark_dirty :: "u64 \<Rightarrow> replication \<Rightarrow> replication" where
  "mark_dirty n r = r\<lparr>dirty := List.insert n (dirty r)\<rparr>"

definition dirty_count :: "replication \<Rightarrow> nat" where
  "dirty_count r = length (dirty r)"

subsection \<open>Acknowledgements\<close>

text \<open>The cast of the difference to a signed 16-bit integer: \<open>a\<close> is newer than \<open>b\<close>, the wrap included.\<close>

definition newer16 :: "u16 \<Rightarrow> u16 \<Rightarrow> bool" where
  "newer16 a b \<longleftrightarrow> 0 < sint (a - b)"

definition on_snapshot_ack :: "u64 \<Rightarrow> u16 \<Rightarrow> replication \<Rightarrow> replication" where
  "on_snapshot_ack c i r =
     (let st = (case map_of (client_states r) c of Some st \<Rightarrow> st | None \<Rightarrow> new_client_state);
          st = (if \<not> has_ack st \<or> newer16 i (last_acked st) then st\<lparr>last_acked := i, has_ack := True\<rparr> else st)
      in r\<lparr>client_states := AList.update c st (client_states r)\<rparr>)"

definition rep_client_connected :: "u64 \<Rightarrow> replication \<Rightarrow> replication" where
  "rep_client_connected c r = r\<lparr>client_states := AList.update c new_client_state (client_states r)\<rparr>"

definition rep_client_disconnected :: "u64 \<Rightarrow> replication \<Rightarrow> replication" where
  "rep_client_disconnected c r = r\<lparr>client_states := AList.delete c (client_states r)\<rparr>"

subsection \<open>Building and sending a snapshot\<close>

definition snapshot_entry :: "entity_snapshot \<Rightarrow> bytes" where
  "snapshot_entry e = (let data_len = (of_nat (length (snap_data e)) :: u16)
     in write_u64_be (snap_id e) @ write_u16_be data_len @ take (unat data_len) (snap_data e))"

definition snapshot_message :: "u16 \<Rightarrow> entity_snapshot list \<Rightarrow> bytes" where
  "snapshot_message i es =
     [0xCA, 0xFE, 0x20] @ write_u16_be i @ write_u16_be (of_nat (length es)) @ concat (map snapshot_entry es)"

definition send_snapshot_to_client :: "u64 \<Rightarrow> entity_snapshot list \<Rightarrow> replication \<Rightarrow> net_call list" where
  "send_snapshot_to_client c es r =
     (if es = [] then [] else [NetSendTo c (snapshot_message (snapshot_id r) es) Unreliable])"

definition serialize_all :: "(u64 \<Rightarrow> bytes option) \<Rightarrow> u64 list \<Rightarrow> entity_snapshot list" where
  "serialize_all ser ids = List.map_filter (\<lambda>i. map_option (\<lambda>d. \<lparr>snap_id = i, snap_data = d\<rparr>) (ser i)) ids"

definition entity_changed :: "entity_snapshot list \<Rightarrow> entity_snapshot \<Rightarrow> bool" where
  "entity_changed base cur =
     (case find (\<lambda>b. snap_id b = snap_id cur) base of None \<Rightarrow> True | Some b \<Rightarrow> snap_data b \<noteq> snap_data cur)"

text \<open>The delta loop and the full-sync loop of one client: the entities to send and the visible set.\<close>

fun delta_entities :: "(u64 \<Rightarrow> u64 \<Rightarrow> bool) option \<Rightarrow> u64 \<Rightarrow> entity_snapshot list \<Rightarrow> entity_snapshot list \<Rightarrow>
    u64 set \<Rightarrow> entity_snapshot list \<times> u64 set" where
  "delta_entities filt c base [] vis = ([], vis)"
| "delta_entities filt c base (cur # snap) vis =
     (if filt \<noteq> None \<and> \<not> the filt (snap_id cur) c
      then delta_entities filt c base snap (vis - {snap_id cur})
      else let newly_visible = (filt \<noteq> None \<and> snap_id cur \<notin> vis);
               vis = (if filt \<noteq> None then insert (snap_id cur) vis else vis);
               (ds, vis) = delta_entities filt c base snap vis
           in (if newly_visible \<or> entity_changed base cur then cur # ds else ds, vis))"

fun filtered_entities :: "(u64 \<Rightarrow> u64 \<Rightarrow> bool) \<Rightarrow> u64 \<Rightarrow> entity_snapshot list \<Rightarrow> u64 set \<Rightarrow>
    entity_snapshot list \<times> u64 set" where
  "filtered_entities f c [] vis = ([], vis)"
| "filtered_entities f c (cur # snap) vis =
     (if f (snap_id cur) c
      then let (es, vis) = filtered_entities f c snap (insert (snap_id cur) vis) in (cur # es, vis)
      else filtered_entities f c snap (vis - {snap_id cur}))"

definition send_to_client :: "(u64 \<Rightarrow> bool) \<Rightarrow> bool \<Rightarrow> entity_snapshot list \<Rightarrow> replication \<Rightarrow> u64 \<Rightarrow>
    client_rep_state \<Rightarrow> net_call list \<times> client_rep_state" where
  "send_to_client conn force snap r c st =
     (if \<not> conn c then ([], st)
      else let baseline = (if \<not> force \<and> has_ack st then sh_retrieve (last_acked st) (history r) else None);
               age = snapshot_id r - last_acked st
           in if \<not> force \<and> has_ack st \<and> baseline \<noteq> None \<and> age \<le> max_baseline_age r
              then let (es, vis) = delta_entities (interest_filter r) c (the baseline) snap (visible st)
                   in (send_snapshot_to_client c es r, st\<lparr>visible := vis\<rparr>)
              else case interest_filter r of
                     Some f \<Rightarrow> let (es, vis) = filtered_entities f c snap (visible st)
                               in (send_snapshot_to_client c es r, st\<lparr>visible := vis\<rparr>)
                   | None \<Rightarrow> (send_snapshot_to_client c snap r, st))"

definition force_full_sync :: "replication \<Rightarrow> bool" where
  "force_full_sync r \<longleftrightarrow> 0 < full_sync_interval r \<and> unat (snapshot_id r) mod unat (full_sync_interval r) = 0"

definition current_entities :: "(u64 \<Rightarrow> bytes option) \<Rightarrow> u64 list option \<Rightarrow> (u64 \<Rightarrow> bool) \<Rightarrow> replication \<Rightarrow>
    entity_snapshot list" where
  "current_entities ser ents conn r =
     (let any_needs_full = (force_full_sync r \<or> (\<exists>(c, st)\<in>set (client_states r). conn c \<and> \<not> has_ack st));
          build_full = (interest_filter r \<noteq> None \<or> (any_needs_full \<and> ents \<noteq> None))
      in if build_full \<and> ents \<noteq> None then serialize_all ser (the ents) else serialize_all ser (dirty r))"

definition build_and_send_snapshot :: "(u64 \<Rightarrow> bytes option) \<Rightarrow> u64 list option \<Rightarrow> (u64 \<Rightarrow> bool) \<Rightarrow> replication \<Rightarrow>
    net_call list \<times> replication" where
  "build_and_send_snapshot ser ents conn r =
     (if client_states r = [] then ([], r\<lparr>dirty := []\<rparr>)
      else let force = force_full_sync r;
               snap = current_entities ser ents conn r;
               r = r\<lparr>history := sh_store (snapshot_id r) snap (history r)\<rparr>;
               sent = map (\<lambda>(c, st). (c, send_to_client conn force snap r c st)) (client_states r)
           in (concat (map (\<lambda>(c, cs, st). cs) sent),
               r\<lparr>client_states := map (\<lambda>(c, cs, st). (c, st)) sent, dirty := []\<rparr>))"

partial_function (option) server_loop :: "(replication \<Rightarrow> net_call list \<times> replication) \<Rightarrow> rat \<Rightarrow> replication \<Rightarrow>
    (net_call list \<times> replication) option" where
  "server_loop build target_dt r =
     (if target_dt \<le> rep_accumulator r
      then let r = r\<lparr>rep_accumulator := f32 (rep_accumulator r - target_dt)\<rparr>;
               r = r\<lparr>snapshot_id := snapshot_id r + 1\<rparr>;
               (cs, r) = build r
           in Option.bind (server_loop build target_dt r) (\<lambda>(cs', r'). Some (cs @ cs', r'))
      else Some ([], r))"

text \<open>With a rate of 0 the interval is infinite, and the loop is never entered.\<close>

definition server_tick :: "net_mode \<Rightarrow> (u64 \<Rightarrow> bytes option) \<Rightarrow> u64 list option \<Rightarrow> (u64 \<Rightarrow> bool) \<Rightarrow> rat \<Rightarrow>
    replication \<Rightarrow> (net_call list \<times> replication) option" where
  "server_tick mode ser ents conn dt r =
     (if mode \<noteq> NmServer \<and> mode \<noteq> NmHost then Some ([], r)
      else if \<not> has_rbridge r then Some ([], r)
      else let r = r\<lparr>rep_accumulator := f32 (rep_accumulator r + dt)\<rparr>
           in if rep_rate r = 0 then Some ([], r)
              else server_loop (build_and_send_snapshot ser ents conn) (f32 (1 / rep_rate r)) r)"

subsection \<open>The client's side\<close>

fun parse_entities :: "nat \<Rightarrow> bytes \<Rightarrow> entity_snapshot list" where
  "parse_entities 0 s = []"
| "parse_entities (Suc n) s =
     (if length s < 10 then []
      else let net_id = read_u64_be s; data_len = unat (read_u16_be (drop 8 s)); s = drop 10 s
           in if length s < data_len then []
              else \<lparr>snap_id = net_id, snap_data = take data_len s\<rparr> # parse_entities n (drop data_len s))"

definition on_receive_delta :: "bytes \<Rightarrow> replication \<Rightarrow> replication" where
  "on_receive_delta s r =
     (if length s < 4 then r
      else let i = read_u16_be s;
               num_entities = read_u16_be (drop 2 s);
               r = (if newer16 i (last_received r) then r\<lparr>last_received := i\<rparr> else r);
               r = (if newer16 i (latest_received r) then r\<lparr>latest_received := i\<rparr> else r);
               es = parse_entities (unat num_entities) (drop 4 s)
           in if prediction_mode r \<and> has_snapshot_cb r
              then r\<lparr>applied := applied r @ map (\<lambda>e. RCallback (snap_id e) (snap_data e)) es\<rparr>
              else if interp_enabled r then r\<lparr>snap_buffer := cb_store i (client_time r) es (snap_buffer r)\<rparr>
              else if has_rbridge r
              then r\<lparr>applied := applied r @ map (\<lambda>e. RDeserialize (snap_id e) (snap_data e)) es\<rparr>
              else r)"

definition ack_message :: "u16 \<Rightarrow> bytes" where
  "ack_message i = [0xCA, 0xFE, 0x21] @ write_u16_be i"

partial_function (option) snapshot_ack_loop :: "rat \<Rightarrow> replication \<Rightarrow> (net_call list \<times> replication) option" where
  "snapshot_ack_loop target_dt r =
     (if target_dt \<le> ack_accumulator r
      then let r = r\<lparr>ack_accumulator := f32 (ack_accumulator r - target_dt)\<rparr>;
               cs = (if last_received r \<noteq> 0 then [NetSend (ack_message (last_received r)) Unreliable] else [])
           in Option.bind (snapshot_ack_loop target_dt r) (\<lambda>(cs', r'). Some (cs @ cs', r'))
      else Some ([], r))"

definition client_tick :: "net_mode \<Rightarrow> rat \<Rightarrow> replication \<Rightarrow> (net_call list \<times> replication) option" where
  "client_tick mode dt r =
     (if mode \<noteq> NmClient \<and> mode \<noteq> NmHost then Some ([], r)
      else let r = r\<lparr>client_time := f32 (client_time r + dt)\<rparr>;
               r = r\<lparr>ack_accumulator := f32 (ack_accumulator r + dt)\<rparr>
           in if rep_rate r = 0 then Some ([], r) else snapshot_ack_loop (f32 (1 / rep_rate r)) r)"

definition interpolate_one :: "rat \<Rightarrow> rat \<Rightarrow> client_snapshot \<Rightarrow> client_snapshot \<Rightarrow> entity_snapshot \<Rightarrow> rep_event" where
  "interpolate_one target t older newer e =
     (if receive_time newer < target
      then RExtrapolate (snap_id e) (snap_data e) (f32 (target - receive_time newer))
      else let older_data = find_entity older (snap_id e)
           in if older_data \<noteq> [] then RInterpolate (snap_id e) older_data (snap_data e) t
              else RDeserialize (snap_id e) (snap_data e))"

definition client_interpolate :: "rat \<Rightarrow> replication \<Rightarrow> replication" where
  "client_interpolate render_time r =
     (if \<not> has_rbridge r \<or> \<not> interp_enabled r \<or> cb_size (snap_buffer r) < 2 then r
      else let target = f32 (render_time - interp_delay r)
           in case find_bracketing target (snap_buffer r) of
                None \<Rightarrow> r
              | Some (a, b, t) \<Rightarrow>
                  let older = cb_snapshots (snap_buffer r) ! a; newer = cb_snapshots (snap_buffer r) ! b
                  in r\<lparr>applied := applied r @ map (interpolate_one target t older newer) (cb_resolve newer)\<rparr>)"

definition query_interpolated_entity :: "u64 \<Rightarrow> rat \<Rightarrow> replication \<Rightarrow> (bytes \<times> bytes \<times> rat) option" where
  "query_interpolated_entity n render_time r =
     (if \<not> interp_enabled r \<or> cb_size (snap_buffer r) < 2 then None
      else let target = f32 (render_time - interp_delay r)
           in case find_bracketing target (snap_buffer r) of
                None \<Rightarrow> None
              | Some (a, b, t) \<Rightarrow>
                  let older_data = find_entity (cb_snapshots (snap_buffer r) ! a) n;
                      newer_data = find_entity (cb_snapshots (snap_buffer r) ! b) n
                  in if newer_data = [] then None else Some (older_data, newer_data, t))"

subsection \<open>What a snapshot message says\<close>

definition wire_entity :: "entity_snapshot \<Rightarrow> entity_snapshot" where
  "wire_entity e = e\<lparr>snap_data := take (length (snap_data e) mod 65536) (snap_data e)\<rparr>"

lemma wire_entity_id [simp]: "snap_id (wire_entity e) = snap_id e"
  by (simp add: wire_entity_def)

lemma unat_u16_of_nat: "unat (of_nat n :: u16) = n mod 65536"
  by (simp add: unsigned_of_nat take_bit_nat_def)

lemma parse_entry: "parse_entities (Suc n) (snapshot_entry e @ s) = wire_entity e # parse_entities n s"
proof -
  have l: "length (snap_data e) mod 65536 \<le> length (snap_data e)" by simp
  have len: "length (snapshot_entry e) = 10 + length (snap_data e) mod 65536"
    by (simp add: snapshot_entry_def Let_def unat_u16_of_nat min_absorb2)
  have "read_u64_be (snapshot_entry e @ s) = snap_id e"
    "read_u16_be (drop 8 (snapshot_entry e @ s)) = of_nat (length (snap_data e))"
    "drop 10 (snapshot_entry e @ s) = take (length (snap_data e) mod 65536) (snap_data e) @ s"
    by (simp_all add: snapshot_entry_def Let_def unat_u16_of_nat)
  then show ?thesis using l len
    by (simp add: Let_def unat_u16_of_nat wire_entity_def)
qed

lemma parse_concat: "parse_entities n (concat (map snapshot_entry es)) = map wire_entity (take n es)"
proof (induction es arbitrary: n)
  case Nil
  show ?case by (cases n) simp_all
next
  case (Cons e es)
  then show ?case by (cases n) (simp_all add: parse_entry del: parse_entities.simps(2))
qed

definition received_entities :: "bytes \<Rightarrow> entity_snapshot list" where
  "received_entities msg = parse_entities (unat (read_u16_be (drop 5 msg))) (drop 7 msg)"

lemma received_message:
  "received_entities (snapshot_message i es) = map wire_entity (take (length es mod 65536) es)"
  by (simp add: received_entities_def snapshot_message_def parse_concat unat_u16_of_nat)

definition fits_wire :: "entity_snapshot list \<Rightarrow> bool" where
  "fits_wire es \<longleftrightarrow> length es < 65536 \<and> (\<forall>e\<in>set es. length (snap_data e) < 65536)"

lemma received_fits: "fits_wire es \<Longrightarrow> received_entities (snapshot_message i es) = es"
  by (auto simp: received_message fits_wire_def wire_entity_def intro!: map_idI)

subsection \<open>What the client shows\<close>

definition show_event :: "rep_event \<Rightarrow> (u64 \<Rightarrow> bytes option) \<Rightarrow> u64 \<Rightarrow> bytes option" where
  "show_event ev w = (case ev of RDeserialize i d \<Rightarrow> w(i \<mapsto> d) | _ \<Rightarrow> w)"

text \<open>The state of each entity as the bridge was last told to deserialize it.\<close>

definition shown :: "replication \<Rightarrow> u64 \<Rightarrow> bytes option" where
  "shown r = fold show_event (applied r) Map.empty"

definition immediate :: "replication \<Rightarrow> bool" where
  "immediate r \<longleftrightarrow> has_rbridge r \<and> \<not> interp_enabled r \<and> \<not> (prediction_mode r \<and> has_snapshot_cb r)"

definition receive_message :: "bytes \<Rightarrow> replication \<Rightarrow> replication" where
  "receive_message msg r = on_receive_delta (drop 3 msg) r"

definition show_entity :: "entity_snapshot \<Rightarrow> (u64 \<Rightarrow> bytes option) \<Rightarrow> u64 \<Rightarrow> bytes option" where
  "show_entity e w = w(snap_id e \<mapsto> snap_data e)"

lemma shown_received:
  assumes "immediate r" and "7 \<le> length msg"
  shows "shown (receive_message msg r) = fold show_entity (received_entities msg) (shown r)"
proof -
  have "fold show_event (map (\<lambda>e. RDeserialize (snap_id e) (snap_data e)) es) w = fold show_entity es w" for es w
    by (induction es arbitrary: w) (simp_all add: show_event_def show_entity_def)
  moreover have "(prediction_mode r \<and> has_snapshot_cb r) = False" "(length (drop 3 msg) < 4) = False"
    using assms by (auto simp: immediate_def)
  ultimately show ?thesis using assms(1)
    unfolding receive_message_def on_receive_delta_def Let_def immediate_def received_entities_def shown_def
    by auto
qed

lemma length_snapshot_message: "7 \<le> length (snapshot_message i es)"
  by (simp add: snapshot_message_def)

lemma show_entities_other: "n \<notin> snap_id ` set es \<Longrightarrow> fold show_entity es w n = w n"
  by (induction es arbitrary: w) (auto simp: show_entity_def)

lemma show_entity_same: "show_entity e w (snap_id e) = Some (snap_data e)"
  by (simp add: show_entity_def)

lemma show_entities_in:
  "distinct (map snap_id es) \<Longrightarrow> e \<in> set es \<Longrightarrow> fold show_entity es w (snap_id e) = Some (snap_data e)"
proof (induction es arbitrary: w)
  case (Cons x es)
  then show ?case by (cases "e = x") (auto simp: show_entities_other show_entity_same)
qed simp

subsection \<open>A delta brings a client from the baseline to the current snapshot\<close>

lemma delta_unfiltered: "delta_entities None c base snap vis = (filter (entity_changed base) snap, vis)"
  by (induction snap arbitrary: vis) simp_all

text \<open>C8: Without an interest filter: if what a client that shows states as they arrive shows of the entities of the baseline is their
  state in it, then after the delta message, within the limits of the wire format, it shows every entity of the current
  snapshot in its current state, those included that have not changed and are not in the message.
\<close>

theorem delta_brings_current:
  assumes "immediate r" and "distinct (map snap_id snap)" and "fits_wire snap"
    and shows_base: "\<forall>b\<in>set base. shown r (snap_id b) = Some (snap_data b)"
    and "e \<in> set snap"
  shows "shown (receive_message (snapshot_message i (fst (delta_entities None c base snap vis))) r) (snap_id e) =
    Some (snap_data e)"
proof -
  let ?es = "filter (entity_changed base) snap"
  have fits: "fits_wire ?es"
    using assms(3) length_filter_le [of "entity_changed base" snap] by (auto simp: fits_wire_def simp del: length_filter_le)
  have d: "distinct (map snap_id ?es)" using assms(2) by (rule distinct_map_filter)
  have all: "shown (receive_message (snapshot_message i ?es) r) = fold show_entity ?es (shown r)"
    by (simp add: shown_received [OF assms(1) length_snapshot_message] received_fits fits)
  show ?thesis
  proof (cases "entity_changed base e")
    case True
    then show ?thesis using assms(5) d by (simp add: delta_unfiltered all show_entities_in)
  next
    case False
    have "snap_id e \<notin> snap_id ` set ?es"
    proof
      assume "snap_id e \<in> snap_id ` set ?es"
      then obtain x where "x \<in> set snap" "entity_changed base x" "snap_id x = snap_id e" by auto
      then show False using False assms(2,5) by (metis distinct_map inj_onD)
    qed
    moreover from False obtain b where "find (\<lambda>b. snap_id b = snap_id e) base = Some b" "snap_data b = snap_data e"
      by (auto simp: entity_changed_def split: option.splits)
    then have "shown r (snap_id e) = Some (snap_data e)"
      using shows_base by (auto simp: find_Some_iff) (metis nth_mem)
    ultimately show ?thesis by (simp add: delta_unfiltered all show_entities_other)
  qed
qed

subsection \<open>Interest\<close>

lemma delta_respects:
  "e \<in> set (fst (delta_entities filt c base snap vis)) \<Longrightarrow> e \<in> set snap \<and> (\<forall>f. filt = Some f \<longrightarrow> f (snap_id e) c)"
  by (induction snap arbitrary: vis) (auto simp: Let_def case_prod_unfold split: if_splits)

lemma filtered_respects: "e \<in> set (fst (filtered_entities f c snap vis)) \<Longrightarrow> e \<in> set snap \<and> f (snap_id e) c"
  by (induction snap arbitrary: vis) (auto simp: Let_def case_prod_unfold split: if_splits)

lemma send_snapshot_calls:
  "NetSendTo c' msg rel \<in> set (send_snapshot_to_client c es r) \<longleftrightarrow>
     es \<noteq> [] \<and> c' = c \<and> msg = snapshot_message (snapshot_id r) es \<and> rel = Unreliable"
  by (auto simp: send_snapshot_to_client_def)

lemma send_to_client_shape:
  "\<exists>es st'. send_to_client conn force snap r c st = (if conn c then send_snapshot_to_client c es r else [], st') \<and>
     set es \<subseteq> set snap \<and> (\<forall>f. interest_filter r = Some f \<longrightarrow> (\<forall>e\<in>set es. f (snap_id e) c))"
proof (cases "conn c \<and> \<not> force \<and> has_ack st \<and> sh_retrieve (last_acked st) (history r) \<noteq> None \<and>
    snapshot_id r - last_acked st \<le> max_baseline_age r")
  case True
  then show ?thesis
    by (intro exI [of _ "fst (delta_entities (interest_filter r) c (the (sh_retrieve (last_acked st) (history r))) snap (visible st))"])
      (auto simp: send_to_client_def Let_def case_prod_unfold dest: delta_respects)
next
  case False
  then show ?thesis
  proof (cases "interest_filter r")
    case None
    then show ?thesis using False
      by (intro exI [of _ snap]) (auto simp: send_to_client_def Let_def case_prod_unfold)
  next
    case (Some f)
    then show ?thesis using False
      by (intro exI [of _ "fst (filtered_entities f c snap (visible st))"])
        (auto simp: send_to_client_def Let_def case_prod_unfold dest: filtered_respects)
  qed
qed

lemma send_to_client_calls:
  assumes "NetSendTo c' msg rel \<in> set (fst (send_to_client conn force snap r c st))"
  shows "c' = c \<and> conn c \<and> (\<exists>es. msg = snapshot_message (snapshot_id r) es \<and> set es \<subseteq> set snap \<and>
       (\<forall>f. interest_filter r = Some f \<longrightarrow> (\<forall>e\<in>set es. f (snap_id e) c)))"
  using send_to_client_shape [of conn force snap r c st] assms by (auto simp: send_snapshot_calls split: if_splits)

lemma build_calls:
  "NetSendTo c msg rel \<in> set (fst (build_and_send_snapshot ser ents conn r)) \<Longrightarrow>
     conn c \<and> (\<exists>es. msg = snapshot_message (snapshot_id r) es \<and> set es \<subseteq> set (current_entities ser ents conn r) \<and>
       (\<forall>f. interest_filter r = Some f \<longrightarrow> (\<forall>e\<in>set es. f (snap_id e) c)))"
  by (auto simp: build_and_send_snapshot_def Let_def case_prod_unfold dest!: send_to_client_calls split: if_splits)

text \<open>C25: With an interest filter set, no message of a snapshot goes to a client that is not connected, and
  none tells a client anything about an entity the filter rejects for it.
\<close>

theorem interest_respected:
  assumes "interest_filter r = Some f"
    and "NetSendTo c msg rel \<in> set (fst (build_and_send_snapshot ser ents conn r))"
  shows "conn c \<and> (\<forall>e\<in>set (received_entities msg). f (snap_id e) c)"
  using build_calls [OF assms(2)] assms(1) by (fastforce simp: received_message dest: in_set_takeD)

lemma serialize_all_simps [simp]:
  "serialize_all ser [] = []"
  "serialize_all ser (n # ns) =
     (case ser n of None \<Rightarrow> serialize_all ser ns | Some d \<Rightarrow> \<lparr>snap_id = n, snap_data = d\<rparr> # serialize_all ser ns)"
  by (simp_all add: serialize_all_def List.map_filter_simps split: option.splits)

lemma build_calls_of:
  assumes "(c, st) \<in> set (client_states r)"
    and "NetSendTo c msg rel \<in> set (fst (send_to_client conn (force_full_sync r) (current_entities ser ents conn r)
      (r\<lparr>history := sh_store (snapshot_id r) (current_entities ser ents conn r) (history r)\<rparr>) c st))"
  shows "NetSendTo c msg rel \<in> set (fst (build_and_send_snapshot ser ents conn r))"
  using assms by (auto simp: build_and_send_snapshot_def Let_def case_prod_unfold intro!: bexI [of _ "(c, st)"])

lemma serialize_all_set: "e \<in> set (serialize_all ser ns) \<longleftrightarrow> snap_id e \<in> set ns \<and> ser (snap_id e) = Some (snap_data e)"
  by (induction ns) (auto split: option.splits)

lemma serialize_all_distinct: "distinct ns \<Longrightarrow> distinct (map snap_id (serialize_all ser ns))"
proof (induction ns)
  case (Cons n ns)
  then show ?case by (auto simp: serialize_all_set split: option.splits)
qed simp

text \<open>At a full-sync tick, and at any tick for a client that never acknowledged a snapshot, each connected
  client is sent, if no interest filter is set, every entity of the entity manager that the bridge
  serializes; a client that gets the message shows all of them in their current state.
\<close>

theorem full_sync_complete:
  assumes "(c, st) \<in> set (client_states r)" and "conn c" and "force_full_sync r \<or> \<not> has_ack st"
    and "interest_filter r = None" and "distinct ids" and "fits_wire (serialize_all ser ids)"
    and "n \<in> set ids" and "ser n = Some d" and "immediate cl"
  shows "\<exists>msg. NetSendTo c msg Unreliable \<in> set (fst (build_and_send_snapshot ser (Some ids) conn r)) \<and>
    shown (receive_message msg cl) n = Some d"
proof -
  let ?es = "serialize_all ser ids" and ?msg = "snapshot_message (snapshot_id r) (serialize_all ser ids)"
  have e: "\<lparr>snap_id = n, snap_data = d\<rparr> \<in> set ?es" using assms(7,8) by (simp add: serialize_all_set)
  have cur: "current_entities ser (Some ids) conn r = ?es"
    using assms(1-3) by (auto simp: current_entities_def)
  have "NetSendTo c ?msg Unreliable \<in> set (fst (build_and_send_snapshot ser (Some ids) conn r))"
    by (rule build_calls_of [OF assms(1)])
      (use e assms(2-4) in \<open>auto simp: cur send_to_client_def send_snapshot_to_client_def Let_def\<close>)
  moreover have "shown (receive_message ?msg cl) n = Some d"
    using show_entities_in [OF serialize_all_distinct [OF assms(5)] e]
    by (simp add: shown_received [OF assms(9) length_snapshot_message] received_fits assms(6))
  ultimately show ?thesis by blast
qed

definition sync_example :: replication where
  "sync_example = rep_client_connected 1 (set_rep_bridge True new_replication)"

lemma full_sync_complete_witness:
  "\<exists>msg. NetSendTo 1 msg Unreliable \<in> set (fst (build_and_send_snapshot [7 \<mapsto> [1, 2]] (Some [7]) (\<lambda>_. True) sync_example)) \<and>
    shown (receive_message msg (set_rep_bridge True new_replication)) 7 = Some [1, 2]"
  by (rule full_sync_complete [where ids = "[7]" and st = new_client_state])
    (simp_all add: sync_example_def rep_client_connected_def set_rep_bridge_def new_replication_def new_client_state_def
      fits_wire_def immediate_def)

lemma interest_respected_witness:
  "\<exists>msg. NetSendTo 1 msg Unreliable \<in> set (fst (build_and_send_snapshot [7 \<mapsto> [1], 8 \<mapsto> [2]] (Some [7, 8]) (\<lambda>_. True)
      (set_interest_filter (Some (\<lambda>e c. e = 7)) sync_example))) \<and> (\<forall>e\<in>set (received_entities msg). snap_id e = 7)"
proof -
  let ?r = "set_interest_filter (Some (\<lambda>e c. e = 7)) sync_example"
  let ?msg = "snapshot_message 0 [\<lparr>snap_id = 7, snap_data = [1]\<rparr>]"
  have "NetSendTo 1 ?msg Unreliable \<in> set (fst (build_and_send_snapshot [7 \<mapsto> [1], 8 \<mapsto> [2]] (Some [7, 8]) (\<lambda>_. True) ?r))"
    by (rule build_calls_of [where st = new_client_state])
      (simp_all add: sync_example_def rep_client_connected_def set_rep_bridge_def new_replication_def new_client_state_def
        set_interest_filter_def current_entities_def send_to_client_def send_snapshot_to_client_def force_full_sync_def Let_def)
  moreover from this have "\<forall>e\<in>set (received_entities ?msg). snap_id e = 7"
    using interest_respected [of ?r "\<lambda>e c. e = 7" 1 ?msg Unreliable] by (simp add: set_interest_filter_def)
  ultimately show ?thesis by blast
qed

text \<open>A client that shows the baseline, two entities, gets a delta with the one of them that changed.\<close>

definition delta_base :: "entity_snapshot list" where
  "delta_base = [\<lparr>snap_id = 7, snap_data = [3]\<rparr>, \<lparr>snap_id = 8, snap_data = [4]\<rparr>]"

definition delta_client :: replication where
  "delta_client = receive_message (snapshot_message 1 delta_base) (set_rep_bridge True new_replication)"

definition delta_current :: "entity_snapshot list" where
  "delta_current = [\<lparr>snap_id = 7, snap_data = [5]\<rparr>, \<lparr>snap_id = 8, snap_data = [4]\<rparr>]"

lemma delta_brings_current_witness:
  "map snap_id (fst (delta_entities None 1 delta_base delta_current {})) = [7] \<and>
   (let r = receive_message (snapshot_message 2 (fst (delta_entities None 1 delta_base delta_current {}))) delta_client
    in shown r 7 = Some [5] \<and> shown r 8 = Some [4])"
proof -
  let ?r = "set_rep_bridge True new_replication"
  have im: "immediate ?r" by (simp add: immediate_def set_rep_bridge_def new_replication_def)
  then have c: "immediate delta_client"
    by (auto simp: delta_client_def immediate_def receive_message_def on_receive_delta_def Let_def)
  have fits: "fits_wire delta_base" "fits_wire delta_current" "distinct (map snap_id delta_base)" "distinct (map snap_id delta_current)"
    by (simp_all add: fits_wire_def delta_base_def delta_current_def)
  have "\<forall>b\<in>set delta_base. shown delta_client (snap_id b) = Some (snap_data b)"
    using shown_received [OF im length_snapshot_message] received_fits [OF fits(1)] show_entities_in [OF fits(3)]
    by (simp add: delta_client_def)
  note brings = delta_brings_current [OF c fits(4,2) this, of _ 2 1 "{}"]
  from brings [of "\<lparr>snap_id = 7, snap_data = [5]\<rparr>"] brings [of "\<lparr>snap_id = 8, snap_data = [4]\<rparr>"]
  show ?thesis by (simp add: Let_def delta_unfiltered entity_changed_def delta_base_def delta_current_def)
qed

subsection \<open>A value that returns to the baseline is not sent\<close>

lemma find_record_in: "distinct (map snap_id base) \<Longrightarrow> b \<in> set base \<Longrightarrow> find (\<lambda>x. snap_id x = snap_id b) base = Some b"
  by (induction base) auto

lemma no_call_for:
  assumes "\<And>st. (c, st) \<in> set (client_states r) \<Longrightarrow> n \<notin> snap_id ` set (fst (delta_entities (interest_filter r) c base
      (current_entities ser ents conn r) (visible st)))"
    and "\<And>st. (c, st) \<in> set (client_states r) \<Longrightarrow> has_ack st \<and> snapshot_id r - last_acked st \<le> max_baseline_age r \<and>
      sh_retrieve (last_acked st) (sh_store (snapshot_id r) (current_entities ser ents conn r) (history r)) = Some base"
    and "\<not> force_full_sync r"
    and msg: "NetSendTo c msg rel \<in> set (fst (build_and_send_snapshot ser ents conn r))"
  shows "n \<notin> snap_id ` set (received_entities msg)"
proof -
  let ?snap = "current_entities ser ents conn r"
  let ?r = "r\<lparr>history := sh_store (snapshot_id r) ?snap (history r)\<rparr>"
  obtain c' st where st: "(c', st) \<in> set (client_states r)"
    and call: "NetSendTo c msg rel \<in> set (fst (send_to_client conn (force_full_sync r) ?snap ?r c' st))"
    using msg by (auto simp: build_and_send_snapshot_def Let_def case_prod_unfold split: if_splits)
  have c: "c' = c" "conn c" using send_to_client_calls [OF call] by simp_all
  then have "msg = snapshot_message (snapshot_id r)
      (fst (delta_entities (interest_filter r) c base ?snap (visible st)))"
    using call assms(2) [of st] assms(3) st
    by (auto simp: send_to_client_def send_snapshot_calls Let_def case_prod_unfold split: if_splits)
  then show ?thesis using assms(1) [of st] st c by (auto simp: received_message dest!: in_set_takeD)
qed


subsection \<open>A client that joins late\<close>

lemma newer16_zero: "newer16 a 0 \<longleftrightarrow> 0 < uint a \<and> uint a < 32768"
  using uint_u16_less [of a] by (auto simp: newer16_def sint_u16)

definition message_id :: "bytes \<Rightarrow> u16" where
  "message_id msg = read_u16_be (drop 3 msg)"

lemma receive_last_received:
  "last_received (receive_message msg r) =
     (if 7 \<le> length msg \<and> newer16 (message_id msg) (last_received r) then message_id msg else last_received r)"
  by (auto simp: receive_message_def on_receive_delta_def message_id_def Let_def)

lemma snapshot_ack_silent: "snapshot_ack_loop t r = Some y \<Longrightarrow> last_received r = 0 \<Longrightarrow> fst y = []"
proof (induction rule: snapshot_ack_loop.raw_induct [rotated 1, consumes 1])
  case (1 run t r y)
  then show ?case by (auto simp: Let_def bind_eq_Some_conv split: if_splits)
qed

text \<open>A client that joins when the 16-bit snapshot identifiers are in their upper half acknowledges nothing,
  whatever messages it receives, until they wrap: compared with the initial 0 they all count as old.
\<close>

theorem late_joiner_never_acks:
  assumes "last_received r = 0" and "\<forall>msg\<in>set msgs. 32768 \<le> message_id msg"
    and "client_tick mode dt (fold receive_message msgs r) = Some (cs, r')"
  shows "cs = []"
proof -
  have "last_received (fold receive_message msgs r) = 0"
    using assms(1,2)
  proof (induction msgs arbitrary: r)
    case (Cons m ms)
    have "32768 \<le> uint (message_id m)" using Cons.prems(2) by (simp add: word_le_def)
    then show ?case using Cons by (simp add: receive_last_received newer16_zero)
  qed simp
  then show ?thesis using assms(3) by (auto simp: client_tick_def Let_def dest!: snapshot_ack_silent split: if_splits)
qed

definition ack_example :: replication where
  "ack_example = (set_rep_rate 1 new_replication)\<lparr>ack_accumulator := 1\<rparr>"

lemma late_joiner_never_acks_witness:
  "\<exists>cs r'. client_tick NmClient 0 (fold receive_message [snapshot_message 40000 []] ack_example) = Some (cs, r') \<and>
     ack_accumulator r' = 0 \<and> cs = []"
proof -
  let ?r = "receive_message (snapshot_message 40000 []) ack_example"
  have r: "rep_rate ?r = 1" "ack_accumulator ?r = 1" "last_received ack_example = 0"
    by (simp_all add: receive_message_def on_receive_delta_def Let_def ack_example_def set_rep_rate_def new_replication_def)
  obtain y where y: "client_tick NmClient 0 ?r = Some y" "ack_accumulator (snd y) = 0"
    by (simp add: client_tick_def r Let_def snapshot_ack_loop.simps)
  have "message_id (snapshot_message 40000 []) = 40000" by (simp add: message_id_def snapshot_message_def)
  then have "fst y = []"
    using late_joiner_never_acks [of ack_example "[snapshot_message 40000 []]" NmClient 0 "fst y" "snd y"] y r(3)
    by simp
  then show ?thesis using y by (cases y) auto
qed

definition revert_base :: "entity_snapshot list" where
  "revert_base = [\<lparr>snap_id = 7, snap_data = [1]\<rparr>, \<lparr>snap_id = 8, snap_data = [1]\<rparr>]"

definition revert_state :: replication where
  "revert_state = new_replication\<lparr>has_rbridge := True, dirty := [7, 8], snapshot_id := 2,
     history := sh_store 1 revert_base new_history,
     client_states := [(1, \<lparr>last_acked = 1, has_ack = True, visible = {}\<rparr>)]\<rparr>"


subsection \<open>The tick loop ends\<close>

lemma build_accumulator: "rep_accumulator (snd (build_and_send_snapshot ser ents conn r)) = rep_accumulator r"
  by (simp add: build_and_send_snapshot_def Let_def)

lemma f32_step:
  assumes "0 < i" "i \<le> a" "a \<le> 2 ^ 22 * i"
  shows "f32 (a - i) \<le> a - i / 2"
proof -
  have "\<bar>f32 (a - i) - (a - i)\<bar> \<le> (a - i) / 2 ^ 24" using fround_error [of 24 "a - i"] assms(2) by simp
  also have "\<dots> \<le> i / 2" using assms(1,3) by simp
  finally show ?thesis by linarith
qed

text \<open>One turn of a loop over an accumulator: half an interval is gone at least, whatever the rounding.\<close>

lemma accumulator_step:
  assumes "0 < i" "i \<le> a" "a \<le> 2 ^ 22 * i"
  shows "f32 (a - i) \<le> 2 ^ 22 * i" "nat \<lceil>f32 (a - i) / (i / 2)\<rceil> < nat \<lceil>a / (i / 2)\<rceil>"
proof -
  note le = f32_step [OF assms]
  then show "f32 (a - i) \<le> 2 ^ 22 * i" using assms by linarith
  have "f32 (a - i) / (i / 2) \<le> (a - i / 2) / (i / 2)" using assms(1) le by (intro divide_right_mono) simp_all
  also have "\<dots> = a / (i / 2) - 1" using assms(1) by (simp add: field_simps)
  finally have "\<lceil>f32 (a - i) / (i / 2)\<rceil> \<le> \<lceil>a / (i / 2)\<rceil> - 1" using ceiling_mono by fastforce
  moreover have "0 < a / (i / 2)" using assms by simp
  ultimately show "nat \<lceil>f32 (a - i) / (i / 2)\<rceil> < nat \<lceil>a / (i / 2)\<rceil>" by linarith
qed

lemma server_loop_returns:
  assumes "0 < i" and keeps: "\<And>r. rep_accumulator (snd (build r)) = rep_accumulator r"
  shows "rep_accumulator r \<le> 2 ^ 22 * i \<Longrightarrow> \<exists>y. server_loop build i r = Some y \<and> rep_accumulator (snd y) < i"
proof (induction "nat \<lceil>rep_accumulator r / (i / 2)\<rceil>" arbitrary: r rule: less_induct)
  case less
  show ?case
  proof (cases "i \<le> rep_accumulator r")
    case False
    then show ?thesis by (simp add: server_loop.simps)
  next
    case True
    define r1 where "r1 = snd (build (r\<lparr>rep_accumulator := f32 (rep_accumulator r - i), snapshot_id := snapshot_id r + 1\<rparr>))"
    have "rep_accumulator r1 = f32 (rep_accumulator r - i)" by (simp add: r1_def keeps)
    then obtain y where "server_loop build i r1 = Some y" "rep_accumulator (snd y) < i"
      using less.hyps [of r1] accumulator_step [OF assms(1) True less.prems] by auto
    then show ?thesis using True
      by (subst server_loop.simps) (simp add: Let_def case_prod_unfold r1_def)
  qed
qed

lemma snapshot_ack_loop_returns:
  "0 < i \<Longrightarrow> ack_accumulator r \<le> 2 ^ 22 * i \<Longrightarrow> \<exists>cs r'. snapshot_ack_loop i r = Some (cs, r') \<and> ack_accumulator r' < i \<and>
     set cs = (if i \<le> ack_accumulator r \<and> last_received r \<noteq> 0 then {NetSend (ack_message (last_received r)) Unreliable} else {})"
proof (induction "nat \<lceil>ack_accumulator r / (i / 2)\<rceil>" arbitrary: r rule: less_induct)
  case less
  show ?case
  proof (cases "i \<le> ack_accumulator r")
    case False
    then show ?thesis by (simp add: snapshot_ack_loop.simps)
  next
    case True
    define r1 where "r1 = r\<lparr>ack_accumulator := f32 (ack_accumulator r - i)\<rparr>"
    have "ack_accumulator r1 = f32 (ack_accumulator r - i)" "last_received r1 = last_received r" by (simp_all add: r1_def)
    then obtain cs r' where "snapshot_ack_loop i r1 = Some (cs, r')" "ack_accumulator r' < i"
        "set cs \<subseteq> (if last_received r \<noteq> 0 then {NetSend (ack_message (last_received r)) Unreliable} else {})"
      using less.hyps [of r1] accumulator_step [OF less.prems(1) True less.prems(2)] less.prems(1) by (auto split: if_splits)
    then show ?thesis using True
      by (subst snapshot_ack_loop.simps) (auto simp: Let_def r1_def split: if_splits)
  qed
qed

text \<open>A client's tick acknowledges the last snapshot received, unless its identifier is 0, as soon as an interval has passed.\<close>

lemma client_tick_acknowledges:
  assumes "mode = NmClient \<or> mode = NmHost" and "0 < rep_rate r" and "last_received r \<noteq> 0"
    and "f32 (1 / rep_rate r) \<le> f32 (ack_accumulator r + dt)" "f32 (ack_accumulator r + dt) \<le> 2 ^ 22 * f32 (1 / rep_rate r)"
  shows "\<exists>cs r'. client_tick mode dt r = Some (cs, r') \<and> set cs = {NetSend (ack_message (last_received r)) Unreliable}"
proof -
  have "0 < f32 (1 / rep_rate r)" using assms(2) by (intro fround_pos) simp_all
  from snapshot_ack_loop_returns [OF this, of "r\<lparr>client_time := f32 (client_time r + dt), ack_accumulator := f32 (ack_accumulator r + dt)\<rparr>"]
  show ?thesis using assms by (auto simp: client_tick_def Let_def)
qed

text \<open>C40: With a positive tick rate, and at most \<open>2 ^ 22\<close> intervals of time to catch up, the server's tick
  returns, and less than one interval is left in the accumulator.
\<close>

theorem server_tick_returns:
  assumes "0 < rep_rate r" and "f32 (rep_accumulator r + dt) \<le> 2 ^ 22 * f32 (1 / rep_rate r)"
    and "mode = NmServer \<or> mode = NmHost" and "has_rbridge r"
  shows "\<exists>cs r'. server_tick mode ser ents conn dt r = Some (cs, r') \<and> rep_accumulator r' < f32 (1 / rep_rate r)"
proof -
  have "0 < f32 (1 / rep_rate r)" using assms(1) by (intro fround_pos) simp_all
  from server_loop_returns [OF this build_accumulator, of "r\<lparr>rep_accumulator := f32 (rep_accumulator r + dt)\<rparr>"]
  obtain y where "server_loop (build_and_send_snapshot ser ents conn) (f32 (1 / rep_rate r))
      (r\<lparr>rep_accumulator := f32 (rep_accumulator r + dt)\<rparr>) = Some y" "rep_accumulator (snd y) < f32 (1 / rep_rate r)"
    using assms(2) by fastforce
  then show ?thesis using assms(1,3,4)
    by (intro exI [of _ "fst y"] exI [of _ "snd y"]) (auto simp: server_tick_def Let_def)
qed

lemma server_tick_returns_witness:
  "\<exists>cs r'. server_tick NmServer [7 \<mapsto> [1]] (Some [7]) (\<lambda>_. True) 3 (set_rep_rate 1 sync_example) = Some (cs, r') \<and> rep_accumulator r' < 1"
proof -
  have r: "rep_rate (set_rep_rate 1 sync_example) = 1" "rep_accumulator (set_rep_rate 1 sync_example) = 0"
      "has_rbridge (set_rep_rate 1 sync_example)"
    by (simp_all add: set_rep_rate_def sync_example_def rep_client_connected_def set_rep_bridge_def new_replication_def)
  show ?thesis using server_tick_returns [of "set_rep_rate 1 sync_example" 3 NmServer "[7 \<mapsto> [1]]"] by (simp add: r)
qed

end
