(* ===== verification/NetworkVariable.thy ===== *)
theory NetworkVariable
  imports Serializable
begin

text \<open>
  \<open>NetworkVariable<T>\<close> (\<open>src/include/campello_net/network_replication.hpp\<close>): a value that remembers whether it
  changed, and its field-level delta encoding. The overloads of \<open>serialize\<close> and \<open>deserialize\<close> for \<open>T\<close> are the
  parameters \<open>ser\<close> and \<open>des\<close>; where they are a \<open>codec\<close>, so that a value written is the value read, the delta
  brings a receiver that holds the baseline to the sender's value.
\<close>

record 'a netvar =
  nv_value :: 'a
  nv_dirty :: bool

definition new_netvar :: "'a \<Rightarrow> 'a netvar" where
  "new_netvar x = \<lparr>nv_value = x, nv_dirty = True\<rparr>"

definition nv_set :: "'a \<Rightarrow> 'a netvar \<Rightarrow> 'a netvar" where
  "nv_set x v = (if nv_value v \<noteq> x then v\<lparr>nv_value := x, nv_dirty := True\<rparr> else v)"

definition clear_dirty :: "'a netvar \<Rightarrow> 'a netvar" where
  "clear_dirty v = v\<lparr>nv_dirty := False\<rparr>"

definition nv_mark_dirty :: "'a netvar \<Rightarrow> 'a netvar" where
  "nv_mark_dirty v = v\<lparr>nv_dirty := True\<rparr>"

definition nv_serialize :: "(bitstream \<Rightarrow> 'a \<Rightarrow> bitstream) \<Rightarrow> 'a netvar \<Rightarrow> bitstream \<Rightarrow> bitstream" where
  "nv_serialize ser v s = ser s (nv_value v)"

definition nv_deserialize :: "(bitstream \<Rightarrow> 'a option \<times> bitstream) \<Rightarrow> 'a netvar \<Rightarrow> bitstream \<Rightarrow>
    bool \<times> 'a netvar \<times> bitstream" where
  "nv_deserialize des v s =
     (case des s of (None, s) \<Rightarrow> (False, v, s)
      | (Some temp, s) \<Rightarrow> (True, v\<lparr>nv_value := temp, nv_dirty := True\<rparr>, s))"

definition serialize_delta :: "(bitstream \<Rightarrow> 'a \<Rightarrow> bitstream) \<Rightarrow> 'a netvar \<Rightarrow> 'a \<Rightarrow> bitstream \<Rightarrow> bitstream" where
  "serialize_delta ser v baseline s =
     (let changed = (nv_value v \<noteq> baseline);
          s = write_bool s changed
      in if changed then nv_serialize ser v s else s)"

definition deserialize_delta :: "(bitstream \<Rightarrow> 'a option \<times> bitstream) \<Rightarrow> 'a netvar \<Rightarrow> 'a \<Rightarrow> bitstream \<Rightarrow>
    bool \<times> 'a netvar \<times> 'a \<times> bitstream" where
  "deserialize_delta des v baseline s =
     (case read_bool s of (None, s) \<Rightarrow> (False, v, baseline, s)
      | (Some changed, s) \<Rightarrow>
          if changed
          then let (ok, v, s) = nv_deserialize des v s
               in if ok then (True, v, nv_value v, s) else (False, v, baseline, s)
          else (True, v, baseline, s))"

lemma bool_written:
  assumes "bs_ok s" "bs_ok t" "read_bit_pos t = write_bit_pos s" "prefix (bits (write_bool s b)) (bits t)"
  shows "read_bool t = (Some b, t\<lparr>read_bit_pos := write_bit_pos (write_bool s b)\<rparr>)"
  using bool_codec.des_ser [of s t b] assms by (simp add: serialize_bool_def deserialize_bool_def)

lemma write_bool_ok: "bs_ok s \<Longrightarrow> bs_ok (write_bool s b) \<and> prefix (bits s) (bits (write_bool s b))"
  using bool_codec.ser_ok [of s b] bool_codec.ser_appends [of s b] by (simp add: serialize_bool_def)

context codec
begin

lemma delta_received:
  assumes "valid (nv_value v)"
  shows "\<exists>s. deserialize_delta des w baseline (bs_of_span (bs_span (serialize_delta ser v base bs_empty))) =
    (if nv_value v = base then (True, w, baseline, s)
     else (True, w\<lparr>nv_value := nv_value v, nv_dirty := True\<rparr>, nv_value v, s))"
proof (cases "nv_value v = base")
  case True
  let ?t = "bs_of_span (bs_span (write_bool bs_empty False))"
  have "read_bool ?t = (Some False, ?t\<lparr>read_bit_pos := write_bit_pos (write_bool bs_empty False)\<rparr>)"
    by (rule bool_written) (use bs_span_bits [of "write_bool bs_empty False"] write_bool_ok [of bs_empty False] in simp_all)
  then show ?thesis using True by (simp add: serialize_delta_def deserialize_delta_def)
next
  case False
  let ?b = "write_bool bs_empty True" and ?s = "ser (write_bool bs_empty True) (nv_value v)"
  let ?t = "bs_of_span (bs_span ?s)"
  have b: "bs_ok ?b" using write_bool_ok [of bs_empty True] by simp
  have s: "bs_ok ?s" "prefix (bits ?b) (bits ?s)" using b assms by (simp_all add: ser_ok ser_appends)
  have t: "prefix (bits ?s) (bits ?t)" by (rule bs_span_bits [OF s(1)])
  have r: "read_bool ?t = (Some True, ?t\<lparr>read_bit_pos := write_bit_pos ?b\<rparr>)"
    using b s(2) t by (intro bool_written) (auto intro: prefix_order.trans)
  have "write_bit_pos ?b \<le> write_bit_pos ?t"
    using prefix_length_le [OF prefix_order.trans [OF s(2) t]] by simp
  then have "bs_ok (?t\<lparr>read_bit_pos := write_bit_pos ?b\<rparr>)" by (intro bs_ok_read_pos) simp_all
  then have "des (?t\<lparr>read_bit_pos := write_bit_pos ?b\<rparr>) =
      (Some (nv_value v), ?t\<lparr>read_bit_pos := write_bit_pos ?b\<rparr>\<lparr>read_bit_pos := write_bit_pos ?s\<rparr>)"
    using b assms t by (intro des_ser) simp_all
  then show ?thesis using False r
    by (simp add: serialize_delta_def deserialize_delta_def nv_serialize_def nv_deserialize_def)
qed

end

text \<open>A string variable whose delta against a baseline is sent in a packet of its own: a receiver whose
  variable holds the baseline holds the sender's value afterwards, its own baseline is that value too,
  and its variable is marked dirty exactly if the value changed (or it was dirty before).
\<close>

theorem netvar_delta_roundtrip:
  assumes "length (nv_value v) \<le> 65535" and "nv_value w = base"
  shows "\<exists>w' s. deserialize_delta deserialize_string w base
      (bs_of_span (bs_span (serialize_delta serialize_string v base bs_empty))) = (True, w', nv_value v, s) \<and>
    nv_value w' = nv_value v \<and> (nv_dirty w' \<longleftrightarrow> nv_dirty w \<or> nv_value v \<noteq> base)"
  using string_codec.delta_received [of v w base base] assms by (auto split: if_splits)

lemma netvar_delta_roundtrip_witness:
  "\<exists>w' s. deserialize_delta deserialize_string (new_netvar [1]) [1]
      (bs_of_span (bs_span (serialize_delta serialize_string (new_netvar [2, 3]) [1] bs_empty))) = (True, w', [2, 3], s)"
  using netvar_delta_roundtrip [of "new_netvar [2, 3]" "new_netvar [1]" "[1]"] by (auto simp: new_netvar_def)

end
