(* ===== verification/SpatialInterest.thy ===== *)
theory SpatialInterest
  imports Floats Prelude "HOL-Library.AList"
begin

text \<open>
  \<open>SpatialInterestManager\<close> (\<open>src/include/campello_net/replication/spatial_interest_manager.hpp\<close>,
  \<open>src/src/replication/spatial_interest_manager.cpp\<close>): entities in a uniform grid of cells, and the queries that
  look only at the cells that overlap a sphere.

  Coordinates are \<open>float\<close> numbers, every operation on them is rounded. The hash maps are association lists
  in iteration order. The cast of a cell coordinate to \<open>int64_t\<close> is undefined in C++ beyond its range and with
  a cell size of 0; the model takes the exact integer, and the theorems assume a positive cell size.

  The lemmas show that the grid invariant is kept by every operation but \<open>set_cell_size\<close>, and that a query
  answers like a search through all entities.
\<close>

subsection \<open>State\<close>

record vec3 =
  vx :: rat
  vy :: rat
  vz :: rat

record cell_coord =
  cell_x :: int
  cell_y :: int
  cell_z :: int

record spatial_entity =
  se_id :: u64
  se_pos :: vec3
  se_cell :: cell_coord
  se_radius :: rat

record spatial_client =
  sc_id :: u64
  sc_pos :: vec3
  sc_radius :: rat

record spatial =
  cell_size :: rat
  default_radius :: rat
  max_per_client :: nat
  sp_entities :: "(u64 \<times> spatial_entity) list"
  sp_clients :: "(u64 \<times> spatial_client) list"
  sp_cells :: "(cell_coord \<times> u64 list) list"

definition new_spatial :: "rat \<Rightarrow> spatial" where
  "new_spatial sz = \<lparr>cell_size = sz, default_radius = 500, max_per_client = 0, sp_entities = [], sp_clients = [],
     sp_cells = []\<rparr>"

definition set_cell_size :: "rat \<Rightarrow> spatial \<Rightarrow> spatial" where
  "set_cell_size sz g = g\<lparr>cell_size := sz\<rparr>"

definition set_default_radius :: "rat \<Rightarrow> spatial \<Rightarrow> spatial" where
  "set_default_radius r g = g\<lparr>default_radius := r\<rparr>"

definition set_max_per_client :: "nat \<Rightarrow> spatial \<Rightarrow> spatial" where
  "set_max_per_client n g = g\<lparr>max_per_client := n\<rparr>"

subsection \<open>Cells\<close>

definition world_to_cell :: "spatial \<Rightarrow> vec3 \<Rightarrow> cell_coord" where
  "world_to_cell g p = \<lparr>cell_x = \<lfloor>f32 (vx p / cell_size g)\<rfloor>, cell_y = \<lfloor>f32 (vy p / cell_size g)\<rfloor>,
     cell_z = \<lfloor>f32 (vz p / cell_size g)\<rfloor>\<rparr>"

definition cell_list :: "(cell_coord \<times> u64 list) list \<Rightarrow> cell_coord \<Rightarrow> u64 list" where
  "cell_list cells c = (case map_of cells c of None \<Rightarrow> [] | Some ids \<Rightarrow> ids)"

definition add_to_cell :: "cell_coord \<Rightarrow> u64 \<Rightarrow> spatial \<Rightarrow> spatial" where
  "add_to_cell c n g = g\<lparr>sp_cells := AList.update c (cell_list (sp_cells g) c @ [n]) (sp_cells g)\<rparr>"

definition remove_from_cell :: "cell_coord \<Rightarrow> u64 \<Rightarrow> spatial \<Rightarrow> spatial" where
  "remove_from_cell c n g =
     (case map_of (sp_cells g) c of
        None \<Rightarrow> g
      | Some ids \<Rightarrow>
          if n \<in> set ids
          then let ids = remove1 n ids
               in if ids = [] then g\<lparr>sp_cells := AList.delete c (sp_cells g)\<rparr>
                  else g\<lparr>sp_cells := AList.update c ids (sp_cells g)\<rparr>
          else g)"

subsection \<open>Entities and clients\<close>

definition update_entity :: "u64 \<Rightarrow> vec3 \<Rightarrow> spatial \<Rightarrow> spatial" where
  "update_entity n p g =
     (case map_of (sp_entities g) n of
        None \<Rightarrow> g
      | Some ent \<Rightarrow>
          if se_pos ent = p then g
          else let old_cell = se_cell ent;
                   ent = ent\<lparr>se_pos := p, se_cell := world_to_cell g p\<rparr>;
                   g = g\<lparr>sp_entities := AList.update n ent (sp_entities g)\<rparr>
               in if old_cell \<noteq> se_cell ent
                  then add_to_cell (se_cell ent) n (remove_from_cell old_cell n g)
                  else g)"

definition register_entity :: "u64 \<Rightarrow> vec3 \<Rightarrow> spatial \<Rightarrow> spatial" where
  "register_entity n p g =
     (if map_of (sp_entities g) n \<noteq> None then update_entity n p g
      else let ent = \<lparr>se_id = n, se_pos = p, se_cell = world_to_cell g p, se_radius = 0\<rparr>;
               g = g\<lparr>sp_entities := AList.update n ent (sp_entities g)\<rparr>
           in add_to_cell (se_cell ent) n g)"

definition remove_entity :: "u64 \<Rightarrow> spatial \<Rightarrow> spatial" where
  "remove_entity n g =
     (case map_of (sp_entities g) n of
        None \<Rightarrow> g
      | Some ent \<Rightarrow>
          let g = remove_from_cell (se_cell ent) n g
          in g\<lparr>sp_entities := AList.delete n (sp_entities g)\<rparr>)"

definition set_entity_relevancy_radius :: "u64 \<Rightarrow> rat \<Rightarrow> spatial \<Rightarrow> spatial" where
  "set_entity_relevancy_radius n r g =
     (case map_of (sp_entities g) n of
        None \<Rightarrow> g
      | Some ent \<Rightarrow> g\<lparr>sp_entities := AList.update n (ent\<lparr>se_radius := r\<rparr>) (sp_entities g)\<rparr>)"

definition update_client :: "u64 \<Rightarrow> vec3 \<Rightarrow> spatial \<Rightarrow> spatial" where
  "update_client c p g =
     (case map_of (sp_clients g) c of
        None \<Rightarrow> g
      | Some cl \<Rightarrow> g\<lparr>sp_clients := AList.update c (cl\<lparr>sc_pos := p\<rparr>) (sp_clients g)\<rparr>)"

definition register_client :: "u64 \<Rightarrow> vec3 \<Rightarrow> spatial \<Rightarrow> spatial" where
  "register_client c p g =
     (if map_of (sp_clients g) c \<noteq> None then update_client c p g
      else g\<lparr>sp_clients := AList.update c \<lparr>sc_id = c, sc_pos = p, sc_radius = 0\<rparr> (sp_clients g)\<rparr>)"

definition remove_client :: "u64 \<Rightarrow> spatial \<Rightarrow> spatial" where
  "remove_client c g = g\<lparr>sp_clients := AList.delete c (sp_clients g)\<rparr>"

definition set_client_view_radius :: "u64 \<Rightarrow> rat \<Rightarrow> spatial \<Rightarrow> spatial" where
  "set_client_view_radius c r g =
     (case map_of (sp_clients g) c of
        None \<Rightarrow> g
      | Some cl \<Rightarrow> g\<lparr>sp_clients := AList.update c (cl\<lparr>sc_radius := r\<rparr>) (sp_clients g)\<rparr>)"

definition sp_clear :: "spatial \<Rightarrow> spatial" where
  "sp_clear g = g\<lparr>sp_entities := [], sp_clients := [], sp_cells := []\<rparr>"

definition sp_entity_count :: "spatial \<Rightarrow> nat" where
  "sp_entity_count g = length (sp_entities g)"

definition sp_client_count :: "spatial \<Rightarrow> nat" where
  "sp_client_count g = length (sp_clients g)"

subsection \<open>Queries\<close>

text \<open>The squared distance as computed.\<close>

definition dist_sq :: "vec3 \<Rightarrow> vec3 \<Rightarrow> rat" where
  "dist_sq a b =
     (let dx = f32 (vx a - vx b); dy = f32 (vy a - vy b); dz = f32 (vz a - vz b)
      in f32 (f32 (f32 (dx * dx) + f32 (dy * dy)) + f32 (dz * dz)))"

definition get_relevancy_radius :: "u64 \<Rightarrow> u64 \<Rightarrow> spatial \<Rightarrow> rat" where
  "get_relevancy_radius entity client g =
     (let radius = default_radius g;
          radius = (case map_of (sp_entities g) entity of
                      Some e \<Rightarrow> if 0 < se_radius e then se_radius e else radius | None \<Rightarrow> radius)
      in case map_of (sp_clients g) client of
           Some c \<Rightarrow> if 0 < sc_radius c then sc_radius c else radius | None \<Rightarrow> radius)"

definition is_relevant :: "u64 \<Rightarrow> u64 \<Rightarrow> spatial \<Rightarrow> bool" where
  "is_relevant entity client g =
     (case (map_of (sp_entities g) entity, map_of (sp_clients g) client) of
        (Some e, Some c) \<Rightarrow> let radius = get_relevancy_radius entity client g
                           in dist_sq (se_pos e) (sc_pos c) \<le> f32 (radius * radius)
      | _ \<Rightarrow> False)"

definition in_sphere :: "spatial \<Rightarrow> vec3 \<Rightarrow> rat \<Rightarrow> u64 \<Rightarrow> bool" where
  "in_sphere g p radius n =
     (case map_of (sp_entities g) n of None \<Rightarrow> False
      | Some e \<Rightarrow> dist_sq (se_pos e) p \<le> f32 (radius * radius))"

definition query_sphere :: "vec3 \<Rightarrow> rat \<Rightarrow> u64 list \<Rightarrow> spatial \<Rightarrow> u64 list" where
  "query_sphere p radius out g =
     (if radius \<le> 0 then out
      else let lo = world_to_cell g \<lparr>vx = f32 (vx p - radius), vy = f32 (vy p - radius), vz = f32 (vz p - radius)\<rparr>;
               hi = world_to_cell g \<lparr>vx = f32 (vx p + radius), vy = f32 (vy p + radius), vz = f32 (vz p + radius)\<rparr>
           in out @ concat (map (\<lambda>cx. concat (map (\<lambda>cy. concat (map (\<lambda>cz.
                filter (in_sphere g p radius) (cell_list (sp_cells g) \<lparr>cell_x = cx, cell_y = cy, cell_z = cz\<rparr>))
                  [cell_z lo..cell_z hi])) [cell_y lo..cell_y hi])) [cell_x lo..cell_x hi]))"

text \<open>
  \<open>std::sort\<close> leaves the order of equal distances open: the model sorts stably. Identifiers that are not
  registered, which only the caller's part of \<open>out\<close> can hold, come last.
\<close>

fun insort_by :: "('a \<Rightarrow> 'a \<Rightarrow> bool) \<Rightarrow> 'a \<Rightarrow> 'a list \<Rightarrow> 'a list" where
  "insort_by lt x [] = [x]"
| "insort_by lt x (y # ys) = (if lt y x then y # insort_by lt x ys else x # y # ys)"

definition sort_by :: "('a \<Rightarrow> 'a \<Rightarrow> bool) \<Rightarrow> 'a list \<Rightarrow> 'a list" where
  "sort_by lt xs = foldr (insort_by lt) xs []"

definition closer :: "spatial \<Rightarrow> vec3 \<Rightarrow> u64 \<Rightarrow> u64 \<Rightarrow> bool" where
  "closer g p a b =
     (case (map_of (sp_entities g) a, map_of (sp_entities g) b) of
        (Some ea, Some eb) \<Rightarrow> dist_sq (se_pos ea) p < dist_sq (se_pos eb) p
      | (ea, _) \<Rightarrow> ea \<noteq> None)"

definition query_visible :: "u64 \<Rightarrow> u64 list \<Rightarrow> spatial \<Rightarrow> u64 list" where
  "query_visible c out g =
     (case map_of (sp_clients g) c of
        None \<Rightarrow> out
      | Some cl \<Rightarrow>
          let radius = (if 0 < sc_radius cl then sc_radius cl else default_radius g);
              out = query_sphere (sc_pos cl) radius out g
          in if 0 < max_per_client g \<and> max_per_client g < length out
             then take (max_per_client g) (sort_by (closer g (sc_pos cl)) out)
             else out)"

definition get_filter :: "spatial \<Rightarrow> u64 \<Rightarrow> u64 \<Rightarrow> bool" where
  "get_filter g entity client = is_relevant entity client g"

subsection \<open>The grid invariant\<close>

definition grid_ok :: "spatial \<Rightarrow> bool" where
  "grid_ok g \<longleftrightarrow> (\<forall>c. distinct (cell_list (sp_cells g) c)) \<and>
     (\<forall>c n. n \<in> set (cell_list (sp_cells g) c) \<longleftrightarrow> (\<exists>e. map_of (sp_entities g) n = Some e \<and> se_cell e = c)) \<and>
     (\<forall>n e. map_of (sp_entities g) n = Some e \<longrightarrow> se_cell e = world_to_cell g (se_pos e))"

lemma cell_list_add: "cell_list (sp_cells (add_to_cell c n g)) c' = (if c' = c then cell_list (sp_cells g) c @ [n] else cell_list (sp_cells g) c')"
  by (simp add: add_to_cell_def cell_list_def update_conv')

lemma cell_list_remove:
  "cell_list (sp_cells (remove_from_cell c n g)) c' =
     (if c' = c then remove1 n (cell_list (sp_cells g) c) else cell_list (sp_cells g) c')"
  by (auto simp: remove_from_cell_def cell_list_def update_conv' delete_conv' Let_def remove1_idem split: option.splits)

lemma cells_keep [simp]:
  "sp_entities (add_to_cell c n g) = sp_entities g" "cell_size (add_to_cell c n g) = cell_size g"
  "sp_entities (remove_from_cell c n g) = sp_entities g" "cell_size (remove_from_cell c n g) = cell_size g"
  "sp_clients (add_to_cell c n g) = sp_clients g" "sp_clients (remove_from_cell c n g) = sp_clients g"
  by (auto simp: add_to_cell_def remove_from_cell_def Let_def split: option.splits)

lemma world_to_cell_cong: "cell_size g = cell_size h \<Longrightarrow> world_to_cell g p = world_to_cell h p"
  by (simp add: world_to_cell_def)

lemma grid_in: "grid_ok g \<Longrightarrow> n \<in> set (cell_list (sp_cells g) c) \<longleftrightarrow> (\<exists>e. map_of (sp_entities g) n = Some e \<and> se_cell e = c)"
  by (simp add: grid_ok_def)

lemma grid_ok_new: "grid_ok (new_spatial sz)"
  by (simp add: grid_ok_def new_spatial_def cell_list_def)

lemma grid_ok_register:
  assumes "grid_ok g" and new: "map_of (sp_entities g) n = None" and "se_cell e = world_to_cell g (se_pos e)"
  shows "grid_ok (add_to_cell (se_cell e) n (g\<lparr>sp_entities := AList.update n e (sp_entities g)\<rparr>))"
proof -
  have "n \<notin> set (cell_list (sp_cells g) c)" for c using grid_in [OF assms(1)] new by simp
  then show ?thesis using assms
    by (auto simp: grid_ok_def cell_list_add update_conv' world_to_cell_def)
qed

lemma grid_ok_update: "grid_ok g \<Longrightarrow> grid_ok (update_entity n p g)"
proof -
  assume ok: "grid_ok g"
  show ?thesis
  proof (cases "map_of (sp_entities g) n")
    case None
    then show ?thesis using ok by (simp add: update_entity_def)
  next
    case (Some e)
    have "n \<in> set (cell_list (sp_cells g) c) \<longleftrightarrow> c = se_cell e" for c using grid_in [OF ok] Some by auto
    then show ?thesis using ok Some
      by (auto simp: update_entity_def Let_def grid_ok_def cell_list_add cell_list_remove update_conv' world_to_cell_def)
  qed
qed

lemma grid_ok_remove: "grid_ok g \<Longrightarrow> grid_ok (remove_entity n g)"
proof -
  assume ok: "grid_ok g"
  show ?thesis
  proof (cases "map_of (sp_entities g) n")
    case None
    then show ?thesis using ok by (simp add: remove_entity_def)
  next
    case (Some e)
    have "n \<in> set (cell_list (sp_cells g) c) \<longleftrightarrow> c = se_cell e" for c using grid_in [OF ok] Some by auto
    then show ?thesis using ok Some
      by (auto simp: remove_entity_def Let_def grid_ok_def cell_list_remove delete_conv' world_to_cell_def)
  qed
qed

lemma grid_ok_entities:
  assumes "grid_ok g" "sp_cells h = sp_cells g" "cell_size h = cell_size g"
    and "\<And>n. map_option (\<lambda>e. (se_cell e, se_pos e)) (map_of (sp_entities h) n) = map_option (\<lambda>e. (se_cell e, se_pos e)) (map_of (sp_entities g) n)"
  shows "grid_ok h"
proof -
  have *: "map_of (sp_entities h) n = Some e \<Longrightarrow> \<exists>e'. map_of (sp_entities g) n = Some e' \<and> se_cell e' = se_cell e \<and> se_pos e' = se_pos e"
       "map_of (sp_entities g) n = Some e \<Longrightarrow> \<exists>e'. map_of (sp_entities h) n = Some e' \<and> se_cell e' = se_cell e \<and> se_pos e' = se_pos e" for n e
    using assms(4) [of n] by (cases "map_of (sp_entities h) n"; cases "map_of (sp_entities g) n"; simp)+
  have cells: "(\<exists>e. map_of (sp_entities h) n = Some e \<and> se_cell e = c) \<longleftrightarrow>
      (\<exists>e. map_of (sp_entities g) n = Some e \<and> se_cell e = c)" for n c
    using * by blast
  have "se_cell e = world_to_cell g (se_pos e)" if e: "map_of (sp_entities h) n = Some e" for n e
  proof -
    from *(1) [OF e] obtain e' where "map_of (sp_entities g) n = Some e'" "se_cell e' = se_cell e" "se_pos e' = se_pos e"
      by blast
    then show ?thesis using assms(1) by (simp add: grid_ok_def)
  qed
  then show ?thesis using assms(1) unfolding grid_ok_def assms(2) cells world_to_cell_cong [OF assms(3)] by simp
qed

lemma grid_ok_radius: "grid_ok g \<Longrightarrow> grid_ok (set_entity_relevancy_radius n r g)"
  by (rule grid_ok_entities [of g])
    (auto simp: set_entity_relevancy_radius_def update_conv' split: option.splits)

text \<open>The states reached by all operations but \<open>set_cell_size\<close>, on positions that are \<open>float\<close> numbers.\<close>

definition is_float3 :: "vec3 \<Rightarrow> bool" where
  "is_float3 p \<longleftrightarrow> f32 (vx p) = vx p \<and> f32 (vy p) = vy p \<and> f32 (vz p) = vz p"

inductive spatial_reach :: "rat \<Rightarrow> spatial \<Rightarrow> bool" for sz where
  "spatial_reach sz (new_spatial sz)"
| "spatial_reach sz g \<Longrightarrow> is_float3 p \<Longrightarrow> spatial_reach sz (register_entity n p g)"
| "spatial_reach sz g \<Longrightarrow> is_float3 p \<Longrightarrow> spatial_reach sz (update_entity n p g)"
| "spatial_reach sz g \<Longrightarrow> spatial_reach sz (remove_entity n g)"
| "spatial_reach sz g \<Longrightarrow> spatial_reach sz (set_entity_relevancy_radius n r g)"
| "spatial_reach sz g \<Longrightarrow> spatial_reach sz (register_client c p g)"
| "spatial_reach sz g \<Longrightarrow> spatial_reach sz (update_client c p g)"
| "spatial_reach sz g \<Longrightarrow> spatial_reach sz (remove_client c g)"
| "spatial_reach sz g \<Longrightarrow> spatial_reach sz (set_client_view_radius c r g)"
| "spatial_reach sz g \<Longrightarrow> spatial_reach sz (set_default_radius r g)"
| "spatial_reach sz g \<Longrightarrow> spatial_reach sz (set_max_per_client k g)"
| "spatial_reach sz g \<Longrightarrow> spatial_reach sz (sp_clear g)"

definition floats_ok :: "spatial \<Rightarrow> bool" where
  "floats_ok g \<longleftrightarrow> (\<forall>n e. map_of (sp_entities g) n = Some e \<longrightarrow> is_float3 (se_pos e))"

lemma client_ops_keep:
  "sp_entities (register_client c p g) = sp_entities g" "sp_cells (register_client c p g) = sp_cells g"
  "cell_size (register_client c p g) = cell_size g"
  "sp_entities (update_client c p g) = sp_entities g" "sp_cells (update_client c p g) = sp_cells g"
  "cell_size (update_client c p g) = cell_size g"
  "sp_entities (remove_client c g) = sp_entities g" "sp_cells (remove_client c g) = sp_cells g"
  "cell_size (remove_client c g) = cell_size g"
  "sp_entities (set_client_view_radius c r g) = sp_entities g" "sp_cells (set_client_view_radius c r g) = sp_cells g"
  "cell_size (set_client_view_radius c r g) = cell_size g"
  "sp_entities (set_default_radius r g) = sp_entities g" "sp_cells (set_default_radius r g) = sp_cells g"
  "cell_size (set_default_radius r g) = cell_size g"
  "sp_entities (set_max_per_client k g) = sp_entities g" "sp_cells (set_max_per_client k g) = sp_cells g"
  "cell_size (set_max_per_client k g) = cell_size g"
  by (auto simp: register_client_def update_client_def remove_client_def set_client_view_radius_def
      set_default_radius_def set_max_per_client_def split: option.splits)

lemma spatial_reach_ok: "spatial_reach sz g \<Longrightarrow> grid_ok g \<and> floats_ok g \<and> cell_size g = sz"
proof (induction rule: spatial_reach.induct)
  case 1
  show ?case by (simp add: grid_ok_new floats_ok_def) (simp add: new_spatial_def)
next
  case (2 g p n)
  have u: "floats_ok (update_entity n p g)" "cell_size (update_entity n p g) = cell_size g"
    using 2 by (auto simp: floats_ok_def update_entity_def update_conv' Let_def split: option.splits if_splits)
  then show ?case using 2 grid_ok_update [of g n p]
      grid_ok_register [of g n "\<lparr>se_id = n, se_pos = p, se_cell = world_to_cell g p, se_radius = 0\<rparr>"]
    by (auto simp: register_entity_def Let_def) (auto simp: floats_ok_def update_conv' split: if_splits)
next
  case (3 g p n)
  then show ?case
    by (auto simp: grid_ok_update) (auto simp: floats_ok_def update_entity_def update_conv' Let_def split: option.splits if_splits)
next
  case (4 g n)
  then show ?case
    by (auto simp: grid_ok_remove) (auto simp: floats_ok_def remove_entity_def delete_conv' Let_def split: option.splits if_splits)
next
  case (5 g n r)
  then show ?case
    by (auto simp: grid_ok_radius)
      (auto simp: floats_ok_def set_entity_relevancy_radius_def update_conv' split: option.splits if_splits)
next
  case (12 g)
  show ?case using 12 by (simp add: sp_clear_def floats_ok_def grid_ok_def cell_list_def)
qed (auto simp: client_ops_keep floats_ok_def elim!: grid_ok_entities)

subsection \<open>A query answers like a search through all entities\<close>

definition in_box :: "vec3 \<Rightarrow> rat \<Rightarrow> vec3 \<Rightarrow> bool" where
  "in_box p r q \<longleftrightarrow> \<bar>vx q - vx p\<bar> \<le> r \<and> \<bar>vy q - vy p\<bar> \<le> r \<and> \<bar>vz q - vz p\<bar> \<le> r"

lemma cell_axis_mono: "x \<le> y \<Longrightarrow> 0 < s \<Longrightarrow> \<lfloor>f32 (x / s)\<rfloor> \<le> \<lfloor>f32 (y / s)\<rfloor>"
  by (intro floor_mono fround_mono divide_right_mono) simp_all

lemma axis_in_range:
  assumes "\<bar>q - p\<bar> \<le> r" "f32 q = q" "0 < s"
  shows "\<lfloor>f32 (f32 (p - r) / s)\<rfloor> \<le> \<lfloor>f32 (q / s)\<rfloor> \<and> \<lfloor>f32 (q / s)\<rfloor> \<le> \<lfloor>f32 (f32 (p + r) / s)\<rfloor>"
proof -
  have "f32 (p - r) \<le> f32 q" "f32 q \<le> f32 (p + r)" using assms(1) by (intro fround_mono; simp)+
  then show ?thesis using assms by (auto intro!: cell_axis_mono)
qed

definition ix :: "cell_coord \<Rightarrow> cell_coord \<Rightarrow> cell_coord \<Rightarrow> bool" where
  "ix lo hi c \<longleftrightarrow> cell_x lo \<le> cell_x c \<and> cell_x c \<le> cell_x hi \<and> cell_y lo \<le> cell_y c \<and> cell_y c \<le> cell_y hi \<and>
     cell_z lo \<le> cell_z c \<and> cell_z c \<le> cell_z hi"

definition low_cell :: "spatial \<Rightarrow> vec3 \<Rightarrow> rat \<Rightarrow> cell_coord" where
  "low_cell g p r = world_to_cell g \<lparr>vx = f32 (vx p - r), vy = f32 (vy p - r), vz = f32 (vz p - r)\<rparr>"

definition high_cell :: "spatial \<Rightarrow> vec3 \<Rightarrow> rat \<Rightarrow> cell_coord" where
  "high_cell g p r = world_to_cell g \<lparr>vx = f32 (vx p + r), vy = f32 (vy p + r), vz = f32 (vz p + r)\<rparr>"

definition box_cells :: "cell_coord \<Rightarrow> cell_coord \<Rightarrow> cell_coord list" where
  "box_cells lo hi = map (\<lambda>(x, y, z). \<lparr>cell_x = x, cell_y = y, cell_z = z\<rparr>)
     (List.product [cell_x lo..cell_x hi] (List.product [cell_y lo..cell_y hi] [cell_z lo..cell_z hi]))"

lemma set_box_cells: "c \<in> set (box_cells lo hi) \<longleftrightarrow> ix lo hi c"
  by (cases c) (auto simp: box_cells_def ix_def image_iff)

lemma distinct_box_cells: "distinct (box_cells lo hi)"
  by (auto simp: box_cells_def distinct_map distinct_product inj_on_def)

definition scan :: "spatial \<Rightarrow> vec3 \<Rightarrow> rat \<Rightarrow> u64 list" where
  "scan g p r = concat (map (\<lambda>c. filter (in_sphere g p r) (cell_list (sp_cells g) c))
     (box_cells (low_cell g p r) (high_cell g p r)))"

lemma concat_product:
  "concat (map (\<lambda>x. concat (map (\<lambda>y. concat (map (\<lambda>z. f x y z) zs)) ys)) xs) =
     concat (map (\<lambda>(x, y, z). f x y z) (List.product xs (List.product ys zs)))"
proof (induction xs)
  case (Cons x xs)
  have "concat (map (\<lambda>y. concat (map (\<lambda>z. f x y z) zs)) ys) = concat (map (\<lambda>(y, z). f x y z) (List.product ys zs))"
    by (induction ys) (simp_all add: comp_def)
  then show ?case using Cons by (simp add: comp_def)
qed simp

lemma query_scan: "query_sphere p r out g = (if r \<le> 0 then out else out @ scan g p r)"
  by (simp add: query_sphere_def concat_product scan_def box_cells_def low_cell_def high_cell_def Let_def comp_def
      case_prod_unfold)

lemma scan_set:
  assumes "grid_ok g"
  shows "n \<in> set (scan g p r) \<longleftrightarrow> (\<exists>e. map_of (sp_entities g) n = Some e \<and> ix (low_cell g p r) (high_cell g p r) (se_cell e)) \<and>
    in_sphere g p r n"
  by (auto simp: scan_def set_box_cells grid_in [OF assms])

lemma scan_distinct:
  assumes "grid_ok g" shows "distinct (scan g p r)"
proof -
  have "distinct (concat (map (\<lambda>c. filter (in_sphere g p r) (cell_list (sp_cells g) c)) cs))" if "distinct cs" for cs
    using that
  proof (induction cs)
    case (Cons c cs)
    then show ?case using assms by (auto simp: grid_ok_def)
  qed simp
  then show ?thesis by (simp add: scan_def distinct_box_cells)
qed

lemma box_in_range:
  assumes "grid_ok g" "floats_ok g" "0 < cell_size g" "map_of (sp_entities g) n = Some e" "in_box p r (se_pos e)"
  shows "ix (low_cell g p r) (high_cell g p r) (se_cell e)"
proof -
  have c: "se_cell e = world_to_cell g (se_pos e)" using assms by (simp add: grid_ok_def)
  have f: "is_float3 (se_pos e)" using assms by (simp add: floats_ok_def)
  show ?thesis unfolding c
    using assms(3,5) f axis_in_range [where s = "cell_size g"]
    by (auto simp: ix_def low_cell_def high_cell_def world_to_cell_def in_box_def is_float3_def)
qed

text \<open>C21: In every state reached without a change of the cell size, a query of a sphere with positive radius
  returns no identifier twice; all it returns are registered and pass the distance test; and it returns
  every entity that passes the test and whose coordinates each differ from the centre's by at most the
  radius, as a search through all entities would.
\<close>

theorem query_sphere_exact:
  assumes "spatial_reach sz g" and "0 < sz" and "0 < radius"
  shows "distinct (query_sphere p radius [] g) \<and>
    (\<forall>n\<in>set (query_sphere p radius [] g). in_sphere g p radius n) \<and>
    (\<forall>n e. map_of (sp_entities g) n = Some e \<longrightarrow> in_box p radius (se_pos e) \<longrightarrow>
       (n \<in> set (query_sphere p radius [] g) \<longleftrightarrow> in_sphere g p radius n))"
  using spatial_reach_ok [OF assms(1)] assms(2,3) box_in_range [of g]
  by (auto simp: query_scan scan_distinct scan_set)

lemma query_sphere_exact_witness:
  "5 \<in> set (query_sphere \<lparr>vx = 0, vy = 0, vz = 0\<rparr> 4 [] (register_entity 5 \<lparr>vx = 1, vy = 2, vz = 2\<rparr> (new_spatial 100)))"
proof -
  let ?g = "register_entity 5 \<lparr>vx = 1, vy = 2, vz = 2\<rparr> (new_spatial 100)"
  have "spatial_reach 100 ?g" by (intro spatial_reach.intros) (simp add: is_float3_def)
  moreover have m: "map_of (sp_entities ?g) 5 = Some \<lparr>se_id = 5, se_pos = \<lparr>vx = 1, vy = 2, vz = 2\<rparr>,
      se_cell = world_to_cell (new_spatial 100) \<lparr>vx = 1, vy = 2, vz = 2\<rparr>, se_radius = 0\<rparr>"
    by (simp add: register_entity_def new_spatial_def Let_def)
  moreover have "in_sphere ?g \<lparr>vx = 0, vy = 0, vz = 0\<rparr> 4 5"
    unfolding in_sphere_def m by (simp add: dist_sq_def Let_def)
  ultimately show ?thesis
    using query_sphere_exact [of 100 ?g 4 "\<lparr>vx = 0, vy = 0, vz = 0\<rparr>"] by (auto simp: in_box_def)
qed

lemma only_element: "x \<in> set xs \<Longrightarrow> set xs \<subseteq> {x} \<Longrightarrow> distinct xs \<Longrightarrow> xs = [x]"
  by (cases xs; cases "tl xs") auto

text \<open>After a change of the cell size a query misses an entity at the very centre of the sphere, which the
  distance test accepts: the entities stay in the cells of the old size.
\<close>

theorem cell_size_change_loses_entity:
  defines "g \<equiv> register_entity 5 \<lparr>vx = 50, vy = 0, vz = 0\<rparr> (new_spatial 100)"
  shows "query_sphere \<lparr>vx = 50, vy = 0, vz = 0\<rparr> 10 [] g = [5] \<and>
    query_sphere \<lparr>vx = 50, vy = 0, vz = 0\<rparr> 10 [] (set_cell_size 10 g) = [] \<and>
    in_sphere (set_cell_size 10 g) \<lparr>vx = 50, vy = 0, vz = 0\<rparr> 10 5"
proof -
  have half: "f32 (1 / 2) = 1 / 2" using fround_scaled [of 1 24 "- 1"] by simp
  have cell: "world_to_cell (new_spatial 100) \<lparr>vx = 50, vy = 0, vz = 0\<rparr> = \<lparr>cell_x = 0, cell_y = 0, cell_z = 0\<rparr>"
    by (simp add: world_to_cell_def new_spatial_def half floor_unique [of 0 "1 / 2 :: rat"])
  have ents: "map_of (sp_entities g) 5 = Some \<lparr>se_id = 5, se_pos = \<lparr>vx = 50, vy = 0, vz = 0\<rparr>,
      se_cell = \<lparr>cell_x = 0, cell_y = 0, cell_z = 0\<rparr>, se_radius = 0\<rparr>"
    by (simp add: g_def register_entity_def Let_def cell) (simp add: new_spatial_def)
  have reach: "spatial_reach 100 g" unfolding g_def by (intro spatial_reach.intros) (simp add: is_float3_def)
  note ok = spatial_reach_ok [OF reach]
  have at: "in_sphere g \<lparr>vx = 50, vy = 0, vz = 0\<rparr> 10 5" "in_sphere (set_cell_size 10 g) \<lparr>vx = 50, vy = 0, vz = 0\<rparr> 10 5"
    using ents by (simp_all add: in_sphere_def dist_sq_def Let_def set_cell_size_def)
  have only: "n = 5" if "map_of (sp_entities g) n = Some e" for n e
    using that by (simp add: g_def register_entity_def new_spatial_def Let_def split: if_splits)
  have "5 \<in> set (scan g \<lparr>vx = 50, vy = 0, vz = 0\<rparr> 10)"
    using ok ents at(1) box_in_range [of g 5 _ "\<lparr>vx = 50, vy = 0, vz = 0\<rparr>" 10] by (auto simp: scan_set in_box_def)
  moreover have "set (scan g \<lparr>vx = 50, vy = 0, vz = 0\<rparr> 10) \<subseteq> {5}" using only ok by (auto simp: scan_set)
  ultimately have "scan g \<lparr>vx = 50, vy = 0, vz = 0\<rparr> 10 = [5]"
    using ok by (intro only_element) (simp_all add: scan_distinct)
  moreover have "scan (set_cell_size 10 g) \<lparr>vx = 50, vy = 0, vz = 0\<rparr> 10 = []"
  proof -
    have "cell_x (low_cell (set_cell_size 10 g) \<lparr>vx = 50, vy = 0, vz = 0\<rparr> 10) = 4"
      by (simp add: low_cell_def world_to_cell_def set_cell_size_def)
    moreover have "se_cell e = \<lparr>cell_x = 0, cell_y = 0, cell_z = 0\<rparr>" if "map_of (sp_entities g) n = Some e" for n e
      using only [OF that] that ents by auto
    ultimately have "n \<notin> set (cell_list (sp_cells g) c)" if "ix (low_cell (set_cell_size 10 g) \<lparr>vx = 50, vy = 0, vz = 0\<rparr> 10)
        (high_cell (set_cell_size 10 g) \<lparr>vx = 50, vy = 0, vz = 0\<rparr> 10) c" for n c
      using that grid_in [of g n c] ok by (auto simp: ix_def)
    then show ?thesis by (auto simp: scan_def set_box_cells set_cell_size_def filter_empty_conv)
  qed
  ultimately show ?thesis using at by (simp add: query_scan)
qed

subsection \<open>The nearest entities\<close>

lemma set_insort_by [simp]: "set (insort_by lt x xs) = insert x (set xs)"
  by (induction xs) auto

lemma set_sort_by: "set (sort_by lt xs) = set xs"
  unfolding sort_by_def by (induction xs) simp_all

lemma length_sort_by: "length (sort_by lt xs) = length xs"
proof -
  have "length (insort_by lt x xs) = Suc (length xs)" for x xs by (induction xs) simp_all
  then show ?thesis unfolding sort_by_def by (induction xs) simp_all
qed

lemma sorted_sort_by:
  assumes "\<And>a b. a \<in> set xs \<Longrightarrow> b \<in> set xs \<Longrightarrow> lt a b \<longleftrightarrow> (key a :: 'k::linorder) < key b"
  shows "sorted (map key (sort_by lt xs))"
  using assms
proof (induction xs)
  case (Cons x xs)
  have ins: "sorted (map key (insort_by lt x ys))"
    if "sorted (map key ys)" "\<forall>y\<in>set ys. lt y x \<longleftrightarrow> key y < key x" for ys
    using that by (induction ys) (force simp: not_less)+
  have "sorted (map key (sort_by lt xs))" using Cons by simp
  then show ?case using ins [of "sort_by lt xs"] Cons.prems by (simp add: sort_by_def set_sort_by [unfolded sort_by_def])
qed (simp add: sort_by_def)

definition distance_to :: "spatial \<Rightarrow> vec3 \<Rightarrow> u64 \<Rightarrow> rat" where
  "distance_to g p n = (case map_of (sp_entities g) n of None \<Rightarrow> 0 | Some e \<Rightarrow> dist_sq (se_pos e) p)"

text \<open>With a limit, a client sees at most that many of the entities in its view radius, all of them if
  they are no more, and otherwise none that is farther away than one it does not see.
\<close>

theorem query_visible_nearest:
  assumes "spatial_reach sz g" and "map_of (sp_clients g) c = Some cl" and "0 < max_per_client g"
  defines "radius \<equiv> (if 0 < sc_radius cl then sc_radius cl else default_radius g)"
  defines "all \<equiv> query_sphere (sc_pos cl) radius [] g"
  shows "length (query_visible c [] g) = min (max_per_client g) (length all) \<and>
    set (query_visible c [] g) \<subseteq> set all \<and>
    (\<forall>a\<in>set (query_visible c [] g). \<forall>b\<in>set all - set (query_visible c [] g).
       distance_to g (sc_pos cl) a \<le> distance_to g (sc_pos cl) b)"
proof (cases "max_per_client g < length all")
  case False
  then have "query_visible c [] g = all" using assms(2) by (simp add: query_visible_def all_def radius_def Let_def)
  then show ?thesis using False by simp
next
  case True
  let ?s = "sort_by (closer g (sc_pos cl)) all" and ?k = "max_per_client g" and ?d = "distance_to g (sc_pos cl)"
  have v: "query_visible c [] g = take ?k ?s"
    using True assms(2,3) by (simp add: query_visible_def all_def radius_def Let_def)
  have reg: "\<exists>e. map_of (sp_entities g) n = Some e" if "n \<in> set all" for n
    using that spatial_reach_ok [OF assms(1)] by (auto simp: all_def query_scan scan_set split: if_splits)
  have "sorted (map ?d ?s)"
  proof (rule sorted_sort_by)
    fix a b assume "a \<in> set all" "b \<in> set all"
    then obtain ea eb where "map_of (sp_entities g) a = Some ea" "map_of (sp_entities g) b = Some eb" using reg by blast
    then show "closer g (sc_pos cl) a b \<longleftrightarrow> ?d a < ?d b" by (simp add: closer_def distance_to_def)
  qed
  then have "sorted (map ?d (take ?k ?s) @ map ?d (drop ?k ?s))" by (simp flip: map_append)
  then have "\<forall>a\<in>set (take ?k ?s). \<forall>b\<in>set (drop ?k ?s). ?d a \<le> ?d b" by (auto simp: sorted_append)
  moreover have "set all - set (take ?k ?s) \<subseteq> set (drop ?k ?s)"
    by (metis Diff_subset_conv append_take_drop_id set_append set_sort_by subset_refl)
  ultimately show ?thesis
    using True set_take_subset [of ?k ?s] by (auto simp: v set_sort_by length_sort_by)
qed

definition crowded :: spatial where
  "crowded = set_max_per_client 1 (register_client 9 \<lparr>vx = 0, vy = 0, vz = 0\<rparr>
     (register_entity 6 \<lparr>vx = 2, vy = 0, vz = 0\<rparr> (register_entity 5 \<lparr>vx = 1, vy = 0, vz = 0\<rparr> (new_spatial 100))))"

lemma query_visible_nearest_witness: "length (query_visible 9 [] crowded) \<le> 1"
proof -
  have reach: "spatial_reach 100 crowded"
    unfolding crowded_def by (intro spatial_reach.intros) (simp_all add: is_float3_def)
  have c: "map_of (sp_clients crowded) 9 = Some \<lparr>sc_id = 9, sc_pos = \<lparr>vx = 0, vy = 0, vz = 0\<rparr>, sc_radius = 0\<rparr>"
      "max_per_client crowded = 1"
    by (simp_all add: crowded_def set_max_per_client_def register_client_def register_entity_def new_spatial_def
        update_entity_def add_to_cell_def Let_def)
  show ?thesis using query_visible_nearest [OF reach c(1)] by (simp add: c(2))
qed

end
