(* ===== verification/RpcManager.thy ===== *)
theory RpcManager
  imports EntityManager Floats
begin

text \<open>
  \<open>RpcManager\<close> (\<open>src/include/campello_net/rpc_manager.hpp\<close>, \<open>src/src/rpc_manager.cpp\<close>): remote calls as
  system messages of type 0x22.

  The handlers are user code: the state keeps which identifiers have one and with which authority, and
  \<open>rpc_log\<close> records their calls. Arguments are the bytes of the stream they were serialized to.
  What the connection manager answers (its mode, the network time, the round-trip time of a peer) and the
  clock are parameters.
\<close>

subsection \<open>State\<close>

datatype rpc_authority = Anyone | ServerOnly

record rpc_params =
  rpc_sender :: u64
  server_timestamp :: rat
  sender_rtt :: rat

record rpc_bucket =
  rb_rate :: rat
  rb_burst :: rat
  rb_tokens :: rat
  rb_last_update :: rat

record rpc_manager =
  has_net :: bool
  max_payload :: nat
  handlers :: "u16 \<rightharpoonup> rpc_authority"
  rate_buckets :: "u16 \<rightharpoonup> rpc_bucket"
  rpc_log :: "(u16 \<times> rpc_params \<times> bytes) list"

definition new_rpc_manager :: rpc_manager where
  "new_rpc_manager = \<lparr>has_net = False, max_payload = 0, handlers = Map.empty, rate_buckets = Map.empty, rpc_log = []\<rparr>"

definition set_network_manager :: "bool \<Rightarrow> rpc_manager \<Rightarrow> rpc_manager" where
  "set_network_manager b m = m\<lparr>has_net := b\<rparr>"

definition set_max_payload_size :: "nat \<Rightarrow> rpc_manager \<Rightarrow> rpc_manager" where
  "set_max_payload_size n m = m\<lparr>max_payload := n\<rparr>"

definition register_handler :: "u16 \<Rightarrow> rpc_authority \<Rightarrow> rpc_manager \<Rightarrow> rpc_manager" where
  "register_handler i auth m = m\<lparr>handlers := (handlers m)(i \<mapsto> auth)\<rparr>"

definition unregister_handler :: "u16 \<Rightarrow> rpc_manager \<Rightarrow> rpc_manager" where
  "unregister_handler i m = m\<lparr>handlers := (handlers m)(i := None)\<rparr>"

definition set_rpc_rate_limit :: "rat \<Rightarrow> u16 \<Rightarrow> rat \<Rightarrow> rat \<Rightarrow> rpc_manager \<Rightarrow> rpc_manager" where
  "set_rpc_rate_limit now i max_per_sec burst m =
     m\<lparr>rate_buckets := (rate_buckets m)(i \<mapsto> \<lparr>rb_rate = max 0 max_per_sec, rb_burst = max 0 burst,
       rb_tokens = max 0 burst, rb_last_update = now\<rparr>)\<rparr>"

subsection \<open>Sending\<close>

definition build_rpc_packet :: "u16 \<Rightarrow> bytes \<Rightarrow> rpc_manager \<Rightarrow> bytes" where
  "build_rpc_packet i args m =
     (if 0 < max_payload m \<and> max_payload m < length args then []
      else let packet = write_u16_be i @ args in [0xCA, 0xFE, 0x22] @ packet)"

definition send_rpc :: "net_mode \<Rightarrow> u64 \<Rightarrow> u16 \<Rightarrow> bytes \<Rightarrow> rpc_manager \<Rightarrow> net_call list" where
  "send_rpc mode target i args m =
     (if \<not> has_net m then []
      else let packet = build_rpc_packet i args m
           in if packet = [] then []
              else if mode = NmServer \<or> mode = NmHost then [NetSendTo target packet ReliableOrdered]
              else if mode = NmClient then [NetSend packet ReliableOrdered]
              else [])"

definition invoke_client :: "net_mode \<Rightarrow> u64 \<Rightarrow> u16 \<Rightarrow> bytes \<Rightarrow> rpc_manager \<Rightarrow> net_call list" where
  "invoke_client mode c i args m = send_rpc mode c i args m"

definition invoke_server :: "net_mode \<Rightarrow> u16 \<Rightarrow> bytes \<Rightarrow> rpc_manager \<Rightarrow> net_call list" where
  "invoke_server mode i args m = send_rpc mode 0 i args m"

text \<open>The overload for a stream, and the variadic one, which alone tests for the empty packet.\<close>

definition invoke_broadcast_stream :: "u16 \<Rightarrow> bytes \<Rightarrow> rpc_manager \<Rightarrow> net_call list" where
  "invoke_broadcast_stream i args m =
     (if \<not> has_net m then []
      else let packet = build_rpc_packet i args m in [NetBroadcast packet ReliableOrdered])"

definition invoke_broadcast :: "u16 \<Rightarrow> bytes \<Rightarrow> rpc_manager \<Rightarrow> net_call list" where
  "invoke_broadcast i args m =
     (if \<not> has_net m then []
      else let packet = build_rpc_packet i args m
           in if packet = [] then [] else [NetBroadcast packet ReliableOrdered])"

definition invoke_owner :: "net_mode \<Rightarrow> entity_manager option \<Rightarrow> u16 \<Rightarrow> u64 \<Rightarrow> bytes \<Rightarrow> rpc_manager \<Rightarrow> net_call list" where
  "invoke_owner mode ents i entity args m =
     (case ents of
        None \<Rightarrow> []
      | Some em \<Rightarrow> let owner = em_owner entity em
                  in if owner = 0 then [] else send_rpc mode owner i args m)"

definition invoke_not_owner :: "entity_manager option \<Rightarrow> u16 \<Rightarrow> u64 \<Rightarrow> bytes \<Rightarrow> rpc_manager \<Rightarrow> net_call list" where
  "invoke_not_owner ents i entity args m =
     (case ents of
        None \<Rightarrow> []
      | Some em \<Rightarrow>
          if \<not> has_net m then []
          else let owner = em_owner entity em; packet = build_rpc_packet i args m
               in if packet = [] then [] else [NetBroadcastExcept packet ReliableOrdered owner])"

subsection \<open>Receiving\<close>

definition rpc_bucket_take :: "rat \<Rightarrow> rpc_bucket \<Rightarrow> bool \<times> rpc_bucket" where
  "rpc_bucket_take t b =
     (if 0 < rb_rate b
      then let elapsed = f64 (t - rb_last_update b);
               b = b\<lparr>rb_last_update := t,
                 rb_tokens := min (rb_burst b) (f32 (rb_tokens b + f32 (rb_rate b * f32 elapsed)))\<rparr>
           in if rb_tokens b < 1 then (False, b) else (True, b\<lparr>rb_tokens := f32 (rb_tokens b - 1)\<rparr>)
      else (True, b))"

definition rpc_receive :: "rat \<Rightarrow> rat \<Rightarrow> (u64 \<Rightarrow> rat) \<Rightarrow> u64 \<Rightarrow> bytes \<Rightarrow> rpc_manager \<Rightarrow> rpc_manager" where
  "rpc_receive now net_time rtt sender s m =
     (if length s < 2 then m
      else if 0 < max_payload m \<and> max_payload m < length s - 2 then m
      else let i = read_u16_be s
           in case handlers m i of
                None \<Rightarrow> m
              | Some auth \<Rightarrow>
                  if auth = ServerOnly \<and> sender \<noteq> 0 then m
                  else let (allowed, m) = (case rate_buckets m i of
                             None \<Rightarrow> (True, m)
                           | Some b \<Rightarrow> let (ok, b) = rpc_bucket_take now b
                                      in (ok, m\<lparr>rate_buckets := (rate_buckets m)(i \<mapsto> b)\<rparr>))
                       in if \<not> allowed then m
                          else let params = \<lparr>rpc_sender = sender, server_timestamp = (if has_net m then net_time else 0),
                                 sender_rtt = (if has_net m then rtt sender else 0)\<rparr>
                               in m\<lparr>rpc_log := rpc_log m @ [(i, params, drop 2 s)]\<rparr>)"

subsection \<open>Round trip\<close>

definition fits_payload :: "bytes \<Rightarrow> rpc_manager \<Rightarrow> bool" where
  "fits_payload args m \<longleftrightarrow> max_payload m = 0 \<or> length args \<le> max_payload m"

lemma build_eq: "build_rpc_packet i args m = (if fits_payload args m then [0xCA, 0xFE, 0x22] @ write_u16_be i @ args else [])"
  by (auto simp: build_rpc_packet_def fits_payload_def)

lemma rpc_receive_packet:
  "rpc_receive now nt rtt sender (write_u16_be i @ args) m =
     (case handlers m i of
        None \<Rightarrow> m
      | Some auth \<Rightarrow>
          if \<not> fits_payload args m \<or> auth = ServerOnly \<and> sender \<noteq> 0 then m
          else let (allowed, m) = (case rate_buckets m i of
                     None \<Rightarrow> (True, m)
                   | Some b \<Rightarrow> let (ok, b) = rpc_bucket_take now b in (ok, m\<lparr>rate_buckets := (rate_buckets m)(i \<mapsto> b)\<rparr>))
               in if allowed
                  then m\<lparr>rpc_log := rpc_log m @ [(i, \<lparr>rpc_sender = sender, server_timestamp = (if has_net m then nt else 0),
                         sender_rtt = (if has_net m then rtt sender else 0)\<rparr>, args)]\<rparr>
                  else m)"
  by (auto simp: rpc_receive_def Let_def fits_payload_def case_prod_unfold split: option.splits)

text \<open>A client's call on its server, sent as one message, runs the handler the server registered for the
  identifier exactly once, with the sender's identifier and exactly the argument bytes, if and only if the
  arguments fit the payload limits of both sides and anyone may call it (no rate limit being set).
\<close>

theorem rpc_roundtrip:
  assumes "has_net m" and "handlers s i = Some auth" and "rate_buckets s i = None" and "sender \<noteq> 0"
  shows "(\<exists>msg. invoke_server NmClient i args m = [NetSend msg ReliableOrdered] \<and>
       rpc_log (rpc_receive now nt rtt sender (drop 3 msg) s) =
         rpc_log s @ [(i, \<lparr>rpc_sender = sender, server_timestamp = (if has_net s then nt else 0),
           sender_rtt = (if has_net s then rtt sender else 0)\<rparr>, args)]) \<longleftrightarrow>
     fits_payload args m \<and> fits_payload args s \<and> auth = Anyone"
  using assms by (cases auth) (auto simp: invoke_server_def send_rpc_def build_eq rpc_receive_packet)

lemma rpc_roundtrip_witness:
  "\<exists>msg. invoke_server NmClient 7 [1, 2] (set_network_manager True new_rpc_manager) = [NetSend msg ReliableOrdered] \<and>
     rpc_log (rpc_receive 0 0 (\<lambda>_. 0) 3 (drop 3 msg) (register_handler 7 Anyone new_rpc_manager)) =
       [(7, \<lparr>rpc_sender = 3, server_timestamp = 0, sender_rtt = 0\<rparr>, [1, 2])]"
  using rpc_roundtrip [of "set_network_manager True new_rpc_manager" "register_handler 7 Anyone new_rpc_manager" 7 Anyone 3 "[1, 2]"]
  by (simp add: set_network_manager_def register_handler_def new_rpc_manager_def fits_payload_def)

subsection \<open>Authority and rate limits\<close>

record rpc_arrival =
  ra_now :: rat
  ra_time :: rat
  ra_sender :: u64
  ra_data :: bytes

definition rpc_arrive :: "(u64 \<Rightarrow> rat) \<Rightarrow> rpc_arrival \<Rightarrow> rpc_manager \<Rightarrow> rpc_manager" where
  "rpc_arrive rtt a m = rpc_receive (ra_now a) (ra_time a) rtt (ra_sender a) (ra_data a) m"

lemma rpc_receive_cases:
  "handlers (rpc_receive now nt rtt sender s m) = handlers m \<and>
   (rpc_log (rpc_receive now nt rtt sender s m) = rpc_log m \<or>
    (\<exists>ps. rpc_log (rpc_receive now nt rtt sender s m) = rpc_log m @ [(read_u16_be s, ps, drop 2 s)] \<and>
       rpc_sender ps = sender \<and> handlers m (read_u16_be s) \<noteq> None \<and>
       (handlers m (read_u16_be s) = Some ServerOnly \<longrightarrow> sender = 0)))"
  by (auto simp: rpc_receive_def Let_def case_prod_unfold split: option.splits)

text \<open>C22: Whatever messages arrive from whomever, every handler call they cause belongs to a registered
  handler, with the true sender's identifier, and no client causes a call of a server-only handler.
\<close>

theorem rpc_authority_respected:
  "\<exists>calls. rpc_log (fold (rpc_arrive rtt) as m) = rpc_log m @ calls \<and> length calls \<le> length as \<and>
     (\<forall>(i, ps, args)\<in>set calls. handlers m i \<noteq> None \<and> rpc_sender ps \<in> ra_sender ` set as \<and>
        (handlers m i = Some ServerOnly \<longrightarrow> rpc_sender ps = 0))"
proof (induction as rule: rev_induct)
  case (snoc a as)
  let ?m = "fold (rpc_arrive rtt) as m"
  have h: "handlers ?m = handlers m"
    by (induction as arbitrary: m) (simp_all add: rpc_arrive_def rpc_receive_cases)
  obtain calls where calls: "rpc_log ?m = rpc_log m @ calls" "length calls \<le> length as"
      "\<forall>(i, ps, args)\<in>set calls. handlers m i \<noteq> None \<and> rpc_sender ps \<in> ra_sender ` set as \<and>
        (handlers m i = Some ServerOnly \<longrightarrow> rpc_sender ps = 0)" using snoc by blast
  from rpc_receive_cases [of "ra_now a" "ra_time a" rtt "ra_sender a" "ra_data a" ?m]
  consider "rpc_log (rpc_arrive rtt a ?m) = rpc_log ?m"
    | ps where "rpc_log (rpc_arrive rtt a ?m) = rpc_log ?m @ [(read_u16_be (ra_data a), ps, drop 2 (ra_data a))]"
        "rpc_sender ps = ra_sender a" "handlers m (read_u16_be (ra_data a)) \<noteq> None"
        "handlers m (read_u16_be (ra_data a)) = Some ServerOnly \<longrightarrow> ra_sender a = 0"
    unfolding rpc_arrive_def h by blast
  then show ?case
  proof cases
    case 1
    then show ?thesis using calls by (intro exI [of _ calls]) auto
  next
    case 2
    then show ?thesis using calls
      by (intro exI [of _ "calls @ [(read_u16_be (ra_data a), ps, drop 2 (ra_data a))]"]) auto
  qed
qed simp

text \<open>A broadcast of arguments that exceed the payload limit through the overload for streams, documented
  to be dropped silently, is sent to all clients as an empty message.
\<close>

theorem oversized_broadcast_sent_empty:
  assumes "has_net m" and "\<not> fits_payload args m"
  shows "invoke_broadcast_stream i args m = [NetBroadcast [] ReliableOrdered] \<and> invoke_broadcast i args m = []"
  using assms by (simp add: invoke_broadcast_stream_def invoke_broadcast_def build_eq)

lemma oversized_broadcast_sent_empty_witness:
  "invoke_broadcast_stream 7 [1, 2] (set_max_payload_size 1 (set_network_manager True new_rpc_manager)) =
     [NetBroadcast [] ReliableOrdered]"
  using oversized_broadcast_sent_empty [of "set_max_payload_size 1 (set_network_manager True new_rpc_manager)" "[1, 2]" 7]
  by (simp add: set_max_payload_size_def set_network_manager_def new_rpc_manager_def fits_payload_def)

lemma rpc_authority_respected_witness:
  "rpc_log (fold (rpc_arrive (\<lambda>_. 0)) [\<lparr>ra_now = 0, ra_time = 0, ra_sender = 3, ra_data = [0, 7, 1]\<rparr>]
     (register_handler 7 ServerOnly new_rpc_manager)) = []"
proof -
  let ?as = "[\<lparr>ra_now = 0, ra_time = 0, ra_sender = 3, ra_data = [0, 7, 1]\<rparr>]"
  let ?m = "register_handler 7 ServerOnly new_rpc_manager"
  obtain calls where c: "rpc_log (fold (rpc_arrive (\<lambda>_. 0)) ?as ?m) = rpc_log ?m @ calls"
    "\<forall>(i, ps, args)\<in>set calls. handlers ?m i \<noteq> None \<and> rpc_sender ps \<in> ra_sender ` set ?as \<and>
       (handlers ?m i = Some ServerOnly \<longrightarrow> rpc_sender ps = 0)"
    using rpc_authority_respected [of "\<lambda>_. 0" ?as ?m] by blast
  have "handlers ?m i \<noteq> None \<Longrightarrow> handlers ?m i = Some ServerOnly" for i
    by (auto simp: register_handler_def new_rpc_manager_def split: if_splits)
  then have "calls = []" using c(2) by (cases calls) fastforce+
  then show ?thesis using c(1) by (simp add: register_handler_def new_rpc_manager_def)
qed

subsection \<open>The rate limit\<close>

definition bucket_at :: "rat \<Rightarrow> rpc_bucket \<Rightarrow> bool" where
  "bucket_at t b \<longleftrightarrow> 0 < rb_rate b \<and> rb_last_update b = t \<and> 0 \<le> rb_tokens b \<and> rb_tokens b \<le> rb_burst b \<and>
     rb_tokens b \<le> 2 ^ 24 \<and> f32 (rb_tokens b) = rb_tokens b"

lemma take_at:
  assumes "bucket_at t b"
  shows "rpc_bucket_take t b = (if 1 \<le> rb_tokens b then (True, b\<lparr>rb_tokens := rb_tokens b - 1\<rparr>) else (False, b))"
    and "1 \<le> rb_tokens b \<Longrightarrow> bucket_at t (b\<lparr>rb_tokens := rb_tokens b - 1\<rparr>)"
proof -
  have sub: "f32 (rb_tokens b - 1) = rb_tokens b - 1" if "1 \<le> rb_tokens b"
    using fround_diff_nat [of 24 "rb_tokens b" 1] that assms by (simp add: bucket_at_def)
  show "rpc_bucket_take t b = (if 1 \<le> rb_tokens b then (True, b\<lparr>rb_tokens := rb_tokens b - 1\<rparr>) else (False, b))"
    using assms sub by (cases b) (simp add: rpc_bucket_take_def bucket_at_def Let_def min_absorb2)
  show "bucket_at t (b\<lparr>rb_tokens := rb_tokens b - 1\<rparr>)" if "1 \<le> rb_tokens b"
    using assms sub that by (simp add: bucket_at_def)
qed

definition rpc_calls :: "rpc_manager \<Rightarrow> (u64 \<times> bytes) list" where
  "rpc_calls m = map (\<lambda>(i, ps, args). (rpc_sender ps, args)) (rpc_log m)"

lemma floor_step: "1 \<le> (x::rat) \<Longrightarrow> nat \<lfloor>x\<rfloor> = Suc (nat \<lfloor>x - 1\<rfloor>)"
  using le_floor_iff [of 1 x] by (simp add: nat_diff_distrib Suc_diff_le)

text \<open>Of the calls of a rate-limited identifier that arrive at one instant, exactly the first run their
  handler, as many as the bucket holds whole tokens; with a full bucket that is the burst.
\<close>

theorem rpc_rate_limit_exact:
  assumes "handlers m i = Some Anyone" and "rate_buckets m i = Some b" and "bucket_at t b"
    and "\<forall>(c, args)\<in>set cs. fits_payload args m"
  shows "rpc_calls (fold (\<lambda>(c, args). rpc_receive t nt rtt c (write_u16_be i @ args)) cs m) =
    rpc_calls m @ take (nat \<lfloor>rb_tokens b\<rfloor>) cs"
  using assms
proof (induction cs arbitrary: m b)
  case (Cons call cs)
  obtain c args where call: "call = (c, args)" by fastforce
  let ?m = "rpc_receive t nt rtt c (write_u16_be i @ args) m"
  let ?b = "if 1 \<le> rb_tokens b then b\<lparr>rb_tokens := rb_tokens b - 1\<rparr> else b"
  have fits: "fits_payload args m" using Cons.prems(4) by (simp add: call)
  have step: "?m = (if 1 \<le> rb_tokens b
      then m\<lparr>rate_buckets := (rate_buckets m)(i \<mapsto> ?b), rpc_log := rpc_log m @ [(i, \<lparr>rpc_sender = c,
        server_timestamp = (if has_net m then nt else 0), sender_rtt = (if has_net m then rtt c else 0)\<rparr>, args)]\<rparr>
      else m\<lparr>rate_buckets := (rate_buckets m)(i \<mapsto> ?b)\<rparr>)"
    using Cons.prems(1,2) fits by (simp add: rpc_receive_packet take_at(1) [OF Cons.prems(3)])
  have "rpc_calls (fold (\<lambda>(c, args). rpc_receive t nt rtt c (write_u16_be i @ args)) cs ?m) =
      rpc_calls ?m @ take (nat \<lfloor>rb_tokens ?b\<rfloor>) cs"
  proof (rule Cons.IH)
    show "handlers ?m i = Some Anyone" "rate_buckets ?m i = Some ?b" using Cons.prems(1) by (simp_all add: step)
    show "bucket_at t ?b" using Cons.prems(3) take_at(2) by simp
    show "\<forall>(c, args)\<in>set cs. fits_payload args ?m" using Cons.prems(4) by (auto simp: step fits_payload_def)
  qed
  moreover have "rpc_calls ?m = rpc_calls m @ (if 1 \<le> rb_tokens b then [call] else [])"
    by (simp add: step rpc_calls_def call)
  ultimately show ?case
    using floor_step [of "rb_tokens b"] by (cases "1 \<le> rb_tokens b") (simp_all add: call not_le floor_less_iff)
qed simp

lemma rpc_rate_limit_exact_witness:
  "rpc_calls (fold (\<lambda>(c, args). rpc_receive 5 0 (\<lambda>_. 0) c (write_u16_be 7 @ args)) [(1, []), (2, [3]), (1, [4])]
     (set_rpc_rate_limit 5 7 10 2 (register_handler 7 Anyone new_rpc_manager))) = [(1, []), (2, [3])]"
proof -
  let ?m = "set_rpc_rate_limit 5 7 10 2 (register_handler 7 Anyone new_rpc_manager)"
  let ?b = "\<lparr>rb_rate = 10, rb_burst = 2, rb_tokens = 2, rb_last_update = 5\<rparr>"
  have m: "handlers ?m 7 = Some Anyone" "rate_buckets ?m 7 = Some ?b" "max_payload ?m = 0" "rpc_log ?m = []"
    by (simp_all add: set_rpc_rate_limit_def register_handler_def new_rpc_manager_def)
  have "bucket_at 5 ?b" by (simp add: bucket_at_def)
  from rpc_rate_limit_exact [OF m(1,2) this, of "[(1, []), (2, [3]), (1, [4])]" 0 "\<lambda>_. 0"]
  show ?thesis by (simp add: m fits_payload_def rpc_calls_def)
qed

end
