(* ===== verification/ManagerWire.thy ===== *)
theory ManagerWire
  imports Floats Prelude
begin

text \<open>
  The wire helpers of \<open>src/src/network_manager.cpp\<close>: 64-bit integers and \<open>double\<close>s in system messages. They
  reverse the bytes of the value unconditionally and copy it as it lies in memory, so the byte order of the
  host is a parameter. \<open>bits_of_double\<close> and \<open>double_of_bits\<close> are the IEEE 754 encoding of \<open>double\<close>: the
  first for numbers, the second \<open>None\<close> on infinities and NaNs.
\<close>

subsection \<open>Integers\<close>

definition bswap64 :: "u64 \<Rightarrow> u64" where
  "bswap64 x = of_be (rev (be_bytes 8 x))"

definition host_bytes :: "endian \<Rightarrow> u64 \<Rightarrow> bytes" where
  "host_bytes en x = (case en of Big \<Rightarrow> be_bytes 8 x | Little \<Rightarrow> le_bytes 8 x)"

definition of_host :: "endian \<Rightarrow> bytes \<Rightarrow> u64" where
  "of_host en s = (case en of Big \<Rightarrow> of_be s | Little \<Rightarrow> of_le s)"

definition nm_write_u64 :: "endian \<Rightarrow> u64 \<Rightarrow> bytes" where
  "nm_write_u64 en x = host_bytes en (bswap64 x)"

definition nm_read_u64 :: "endian \<Rightarrow> bytes \<Rightarrow> u64" where
  "nm_read_u64 en s = bswap64 (of_host en (take 8 s))"

lemma bswap_bytes: "be_bytes 8 (bswap64 x) = rev (be_bytes 8 x)"
  by (simp add: bswap64_def be_bytes_of_be)

lemma bswap64_bswap64 [simp]: "bswap64 (bswap64 x) = x"
  by (simp add: bswap64_def [of "bswap64 x"] bswap_bytes of_be_be_bytes_full)

lemma nm_write_little: "nm_write_u64 Little x = be_bytes 8 x"
  by (simp add: nm_write_u64_def host_bytes_def le_bytes_def bswap_bytes)

lemma nm_write_big: "nm_write_u64 Big x = le_bytes 8 x"
  by (simp add: nm_write_u64_def host_bytes_def le_bytes_def bswap_bytes)

lemma length_nm_write [simp]: "length (nm_write_u64 en x) = 8"
  by (cases en) (simp_all add: nm_write_u64_def host_bytes_def)

lemma nm_read_write [simp]: "nm_read_u64 en (nm_write_u64 en x @ s) = x"
  by (cases en) (simp_all add: nm_read_u64_def nm_write_u64_def host_bytes_def of_host_def of_be_be_bytes_full
      of_le_le_bytes_full)

lemma nm_read_write_alone [simp]: "nm_read_u64 en (nm_write_u64 en x) = x"
  using nm_read_write [of en x "[]"] by simp

subsection \<open>The encoding of double\<close>

definition bits_of_double :: "rat \<Rightarrow> u64" where
  "bits_of_double x =
     (if x = 0 then 0
      else let a = \<bar>x\<bar>; e = fexp a; s = (if x < 0 then 2 ^ 63 else 0 :: int)
           in if - 1022 \<le> e then word_of_int (s + (e + 1023) * 2 ^ 52 + (\<lfloor>a * 2 powi (52 - e)\<rfloor> - 2 ^ 52))
              else word_of_int (s + \<lfloor>a * 2 powi 1074\<rfloor>))"

definition double_of_bits :: "u64 \<Rightarrow> rat option" where
  "double_of_bits w =
     (let n = uint w; s = (if n div 2 ^ 63 = 1 then - 1 else 1 :: rat);
          e = n div 2 ^ 52 mod 2 ^ 11; m = n mod 2 ^ 52
      in if e = 2047 then None
         else if e = 0 then Some (s * (of_int m * 2 powi (- 1074)))
         else Some (s * (of_int (m + 2 ^ 52) * 2 powi (e - 1075))))"

text \<open>A \<open>double\<close> whose magnitude is in the normal range, or zero.\<close>

definition normal_double :: "rat \<Rightarrow> bool" where
  "normal_double x \<longleftrightarrow> x = 0 \<or> f64 x = x \<and> - 1022 \<le> fexp \<bar>x\<bar> \<and> fexp \<bar>x\<bar> \<le> 1023"

lemma significand:
  assumes "0 < a" and "f64 a = a"
  shows "\<exists>m. a * 2 powi (52 - fexp a) = of_int m \<and> 2 ^ 52 \<le> m \<and> m < 2 ^ 53"
proof -
  define u :: rat where "u = 2 powi (fexp a - 52)"
  have u: "0 < u" by (simp add: u_def)
  have "a = of_int (rne (a / u)) * u" using assms by (simp add: fround_def Let_def u_def)
  then have m: "a / u = of_int (rne (a / u))" using u by (metis nonzero_divide_eq_eq less_irrefl)
  have inv: "a * 2 powi (52 - fexp a) = a / u" by (simp add: u_def power_int_diff)
  note b = fexp_bounds [OF assms(1)]
  have "(2::rat) powi fexp a = 2 ^ 52 * u" "(2::rat) powi (fexp a + 1) = 2 ^ 53 * u"
    by (simp_all add: u_def power_int_diff power_int_add)
  then have "2 ^ 52 \<le> a / u" "a / u < 2 ^ 53" using b u by (simp_all add: field_simps)
  then have "(of_int (2 ^ 52) :: rat) \<le> of_int (rne (a / u))" "(of_int (rne (a / u)) :: rat) < of_int (2 ^ 53)"
    using m by simp_all
  then have "2 ^ 52 \<le> rne (a / u)" "rne (a / u) < 2 ^ 53" by (simp_all only: of_int_le_iff of_int_less_iff)
  then show ?thesis using inv m by metis
qed

lemma uint_of_int_small: "0 \<le> k \<Longrightarrow> k < 2 ^ 64 \<Longrightarrow> uint (word_of_int k :: u64) = k"
  by (simp add: uint_word_of_int)

lemma decode_fields:
  assumes "0 \<le> m" "m < 2 ^ 52" "0 < e" "e < 2047" "s = 0 \<or> s = 1"
  shows "double_of_bits (word_of_int (s * 2 ^ 63 + e * 2 ^ 52 + m)) =
    Some ((if s = 1 then - 1 else 1) * (of_int (m + 2 ^ 52) * 2 powi (e - 1075)))"
proof -
  let ?n = "s * 2 ^ 63 + e * 2 ^ 52 + m :: int"
  have rest: "0 \<le> e * 2 ^ 52 + m" "e * 2 ^ 52 + m < 2 ^ 63" using assms by simp_all
  have "0 \<le> ?n" "?n < 2 ^ 64" using assms(5) rest by auto
  then have u: "uint (word_of_int ?n :: u64) = ?n" by (rule uint_of_int_small)
  have "?n = (e * 2 ^ 52 + m) + s * 2 ^ 63" by simp
  then have "?n div 2 ^ 63 = s" using rest by (simp only: div_mult_self1 div_pos_pos_trivial)
  moreover have "?n = m + (s * 2 ^ 11 + e) * 2 ^ 52" by simp
  then have "?n div 2 ^ 52 = s * 2 ^ 11 + e" "?n mod 2 ^ 52 = m"
    using assms(1,2) by (simp_all only: div_mult_self1 mod_mult_self1 div_pos_pos_trivial mod_pos_pos_trivial)
  moreover from this have "?n div 2 ^ 52 mod 2 ^ 11 = e" using assms by (simp only: add.commute mod_mult_self1) simp
  ultimately show ?thesis unfolding double_of_bits_def Let_def u using assms(3-5) by auto
qed

lemma double_of_bits_of_double: "normal_double x \<Longrightarrow> double_of_bits (bits_of_double x) = Some x"
proof (cases "x = 0")
  case True
  then show ?thesis by (simp add: bits_of_double_def double_of_bits_def Let_def)
next
  case False
  assume "normal_double x"
  then have n: "f64 \<bar>x\<bar> = \<bar>x\<bar>" "- 1022 \<le> fexp \<bar>x\<bar>" "fexp \<bar>x\<bar> \<le> 1023"
    using False by (auto simp: normal_double_def abs_if fround_uminus)
  obtain m where m: "\<bar>x\<bar> * 2 powi (52 - fexp \<bar>x\<bar>) = of_int m" "2 ^ 52 \<le> m" "m < 2 ^ 53"
    using significand [of "\<bar>x\<bar>"] False n(1) by auto
  define s :: int where "s = (if x < 0 then 1 else 0)"
  have "bits_of_double x = word_of_int (s * 2 ^ 63 + (fexp \<bar>x\<bar> + 1023) * 2 ^ 52 + (m - 2 ^ 52))"
    using False n(2) m(1) by (simp add: bits_of_double_def Let_def s_def)
  then have "double_of_bits (bits_of_double x) =
      Some ((if s = 1 then - 1 else 1) * (of_int m * 2 powi (fexp \<bar>x\<bar> - 52)))"
    using decode_fields [of "m - 2 ^ 52" "fexp \<bar>x\<bar> + 1023" s] m n by (auto simp: s_def)
  moreover have "of_int m * 2 powi (fexp \<bar>x\<bar> - 52) = \<bar>x\<bar>"
    unfolding m(1) [symmetric] by (simp add: power_int_diff)
  ultimately show ?thesis by (auto simp: s_def split: if_splits)
qed

definition nm_write_double :: "endian \<Rightarrow> rat \<Rightarrow> bytes" where
  "nm_write_double en x = nm_write_u64 en (bits_of_double x)"

definition nm_read_double :: "endian \<Rightarrow> bytes \<Rightarrow> rat option" where
  "nm_read_double en s = double_of_bits (nm_read_u64 en s)"

lemma nm_double_roundtrip [simp]: "normal_double x \<Longrightarrow> nm_read_double en (nm_write_double en x @ s) = Some x"
  by (simp add: nm_read_double_def nm_write_double_def double_of_bits_of_double)

lemma length_nm_write_double [simp]: "length (nm_write_double en x) = 8"
  by (simp add: nm_write_double_def)

end
