(* ===== verification/NetworkManager.thy ===== *)
theory NetworkManager
  imports Transport ManagerWire RateLimiter NetworkClock ConnectionToken Replication RpcManager
begin

text \<open>
  \<open>NetworkManager\<close> (\<open>src/include/campello_net/network_manager.hpp\<close>, \<open>src/src/network_manager.cpp\<close>): the connections
  of a server, a client or a host, the system messages, and the delivery of user messages.

  The state is \<open>Impl\<close>. It holds the states of its transports; a pointer to one is a \<open>tptr\<close>. The managers it
  forwards messages to are part of the state too. What is not under its control is the record \<open>nm_env\<close>: the
  functions of the transports, the readings of the steady clock (one per call, counted by \<open>clock_reads\<close>), the
  approval callback, the byte order, and what the other models take as parameters. The other callbacks are
  the log \<open>events\<close>; they do not call back into the manager. \<open>None\<close> is a run the model does not follow: a
  receive loop that does not end, a transport that runs into undefined behaviour, or a time stamp that is
  not a number.
\<close>

subsection \<open>State\<close>

datatype tptr = Primary | Extra nat

record nm_config =
  cfg_mode :: net_mode
  cfg_bind :: address
  cfg_server :: address
  max_clients :: nat
  max_packet_size :: nat
  max_messages_per_sec :: rat
  max_bytes_per_sec :: rat
  max_rpcs_per_sec :: rat
  rate_limit_burst :: rat
  token_secret :: bytes
  require_token :: bool

definition default_config :: nm_config where
  "default_config = \<lparr>cfg_mode = NmNone, cfg_bind = addr_default, cfg_server = addr_default, max_clients = 32,
     max_packet_size = 8192, max_messages_per_sec = 100, max_bytes_per_sec = 1024 * 1024, max_rpcs_per_sec = 50,
     rate_limit_burst = 10, token_secret = replicate 32 0, require_token = False\<rparr>"

record client_entry =
  ce_id :: u64
  ce_address :: address
  ce_transport :: "tptr option"
  ce_approved :: bool
  ce_limiter :: rate_limiter
  ce_bytes_sent :: u64
  ce_bytes_received :: u64
  ce_packets_sent :: u64
  ce_packets_received :: u64
  ce_last_bytes_sent :: u64
  ce_last_bytes_received :: u64
  ce_last_stats_update :: rat
  ce_bandwidth_in :: rat
  ce_bandwidth_out :: rat

definition new_client_entry :: client_entry where
  "new_client_entry = \<lparr>ce_id = 0, ce_address = addr_default, ce_transport = None, ce_approved = False,
     ce_limiter = new_limiter, ce_bytes_sent = 0, ce_bytes_received = 0, ce_packets_sent = 0, ce_packets_received = 0,
     ce_last_bytes_sent = 0, ce_last_bytes_received = 0, ce_last_stats_update = 0, ce_bandwidth_in = 0,
     ce_bandwidth_out = 0\<rparr>"

datatype nm_event = EvConnected u64 | EvDisconnected u64 | EvData u64 bytes

record 's nm =
  nm_mode :: net_mode
  nm_config :: nm_config
  primary :: "'s option"
  extras :: "'s list"
  nm_clients :: "client_entry list"
  message_queue :: "(u64 \<times> bytes) list"
  message_read_idx :: nat
  events :: "nm_event list"
  client_connected :: bool
  local_client_id :: u64
  net_time :: network_time
  last_time_sync :: rat
  awaiting_accept :: bool
  client_token :: bytes
  host_queue :: "(u64 \<times> bytes) list"
  entity_mgr :: "entity_manager option"
  rep_mgr :: "replication option"
  rpc_mgr :: "rpc_manager option"
  clock_reads :: nat

record 's nm_env =
  env_transport :: "'s transport"
  env_default :: 's
  env_endian :: endian
  env_clock :: "nat \<Rightarrow> rat"
  env_approval :: "(address \<Rightarrow> bytes \<Rightarrow> bool) option"
  env_handles :: handle_source
  env_raw :: bytes

definition new_nm :: "'s nm" where
  "new_nm = \<lparr>nm_mode = NmNone, nm_config = default_config, primary = None, extras = [], nm_clients = [], message_queue = [],
     message_read_idx = 0, events = [], client_connected = False, local_client_id = 0, net_time = new_network_time,
     last_time_sync = 0, awaiting_accept = False, client_token = [], host_queue = [], entity_mgr = None,
     rep_mgr = None, rpc_mgr = None, clock_reads = 0\<rparr>"

definition serving :: "'s nm \<Rightarrow> bool" where
  "serving s \<longleftrightarrow> nm_mode s = NmServer \<or> nm_mode s = NmHost"

definition nm_now :: "'s nm_env \<Rightarrow> 's nm \<Rightarrow> rat \<times> 's nm" where
  "nm_now E s = (env_clock E (clock_reads s), s\<lparr>clock_reads := clock_reads s + 1\<rparr>)"

text \<open>The clock in whole seconds, as a 32-bit number.\<close>

definition nm_seconds :: "'s nm_env \<Rightarrow> 's nm \<Rightarrow> u32 \<times> 's nm" where
  "nm_seconds E s = (let (t, s) = nm_now E s in (word_of_int \<lfloor>t\<rfloor>, s))"

subsection \<open>Transports\<close>

definition transport_at :: "tptr \<Rightarrow> 's nm \<Rightarrow> 's option" where
  "transport_at p s = (case p of Primary \<Rightarrow> primary s | Extra k \<Rightarrow> if k < length (extras s) then Some (extras s ! k) else None)"

definition put_transport :: "tptr \<Rightarrow> 's \<Rightarrow> 's nm \<Rightarrow> 's nm" where
  "put_transport p t s = (case p of Primary \<Rightarrow> s\<lparr>primary := Some t\<rparr> | Extra k \<Rightarrow> s\<lparr>extras := (extras s)[k := t]\<rparr>)"

definition transport_send_to :: "'s nm_env \<Rightarrow> tptr \<Rightarrow> address \<Rightarrow> bytes \<Rightarrow> reliability \<Rightarrow> 's nm \<Rightarrow> bool \<times> 's nm" where
  "transport_send_to E p a d r s =
     (case transport_at p s of
        None \<Rightarrow> (False, s)
      | Some t \<Rightarrow> let (ok, t) = t_send_to (env_transport E) a d r t in (ok, put_transport p t s))"

definition primary_send :: "'s nm_env \<Rightarrow> bytes \<Rightarrow> reliability \<Rightarrow> 's nm \<Rightarrow> bool \<times> 's nm" where
  "primary_send E d r s =
     (case primary s of
        None \<Rightarrow> (False, s)
      | Some t \<Rightarrow> let (ok, t) = t_send (env_transport E) d r t in (ok, s\<lparr>primary := Some t\<rparr>))"

definition disconnect_primary :: "'s nm_env \<Rightarrow> 's nm \<Rightarrow> 's nm" where
  "disconnect_primary E s = s\<lparr>primary := map_option (t_disconnect (env_transport E)) (primary s)\<rparr>"

subsection \<open>Helpers\<close>

definition SYS_MAGIC :: bytes where "SYS_MAGIC = [0xCA, 0xFE]"

definition CONNECT_REQUEST :: u8 where "CONNECT_REQUEST = 0"
definition CONNECT_ACCEPT :: u8 where "CONNECT_ACCEPT = 1"
definition CONNECT_REJECT :: u8 where "CONNECT_REJECT = 2"
definition DISCONNECT_NOTIFY :: u8 where "DISCONNECT_NOTIFY = 3"
definition TIME_SYNC_REQUEST :: u8 where "TIME_SYNC_REQUEST = 4"
definition TIME_SYNC_RESPONSE :: u8 where "TIME_SYNC_RESPONSE = 5"

lemmas sys_types = SYS_MAGIC_def CONNECT_REQUEST_def CONNECT_ACCEPT_def CONNECT_REJECT_def DISCONNECT_NOTIFY_def
  TIME_SYNC_REQUEST_def TIME_SYNC_RESPONSE_def

definition find_client_by_id :: "u64 \<Rightarrow> 's nm \<Rightarrow> client_entry option" where
  "find_client_by_id i s = find (\<lambda>c. ce_id c = i) (nm_clients s)"

definition find_client_by_address :: "address \<Rightarrow> 's nm \<Rightarrow> client_entry option" where
  "find_client_by_address a s = find (\<lambda>c. addr_eq (ce_address c) a) (nm_clients s)"

text \<open>A change through the pointer that a search returned: of the first entry that matches.\<close>

fun update_first :: "('a \<Rightarrow> bool) \<Rightarrow> ('a \<Rightarrow> 'a) \<Rightarrow> 'a list \<Rightarrow> 'a list" where
  "update_first P f [] = []"
| "update_first P f (x # xs) = (if P x then f x # xs else x # update_first P f xs)"

definition update_by_address :: "address \<Rightarrow> (client_entry \<Rightarrow> client_entry) \<Rightarrow> 's nm \<Rightarrow> 's nm" where
  "update_by_address a f s = s\<lparr>nm_clients := update_first (\<lambda>c. addr_eq (ce_address c) a) f (nm_clients s)\<rparr>"

definition update_by_id :: "u64 \<Rightarrow> (client_entry \<Rightarrow> client_entry) \<Rightarrow> 's nm \<Rightarrow> 's nm" where
  "update_by_id i f s = s\<lparr>nm_clients := update_first (\<lambda>c. ce_id c = i) f (nm_clients s)\<rparr>"

partial_function (option) free_client_id :: "client_entry list \<Rightarrow> u64 \<Rightarrow> u64 option" where
  "free_client_id cs i = (if find (\<lambda>c. ce_id c = i) cs \<noteq> None then free_client_id cs (i + 1) else Some i)"

definition generate_client_id :: "'s nm \<Rightarrow> u64 option" where
  "generate_client_id s = free_client_id (nm_clients s) 1"

definition push_message :: "u64 \<Rightarrow> bytes \<Rightarrow> 's nm \<Rightarrow> 's nm" where
  "push_message c d s = s\<lparr>message_queue := message_queue s @ [(c, d)]\<rparr>"

definition push_message_to_host_local :: "u64 \<Rightarrow> bytes \<Rightarrow> 's nm \<Rightarrow> 's nm" where
  "push_message_to_host_local c d s = s\<lparr>host_queue := host_queue s @ [(c, d)]\<rparr>"

definition nm_event :: "nm_event \<Rightarrow> 's nm \<Rightarrow> 's nm" where
  "nm_event e s = s\<lparr>events := events s @ [e]\<rparr>"

definition sys_message :: "u8 \<Rightarrow> bytes \<Rightarrow> bytes" where
  "sys_message ty payload = SYS_MAGIC @ [ty] @ payload"

definition send_sys :: "'s nm_env \<Rightarrow> tptr \<Rightarrow> address \<Rightarrow> u8 \<Rightarrow> bytes \<Rightarrow> 's nm \<Rightarrow> 's nm" where
  "send_sys E p a ty payload s = snd (transport_send_to E p a (sys_message ty payload) ReliableOrdered s)"

definition disconnect_transport_client :: "'s nm_env \<Rightarrow> tptr \<Rightarrow> address \<Rightarrow> 's nm \<Rightarrow> 's nm" where
  "disconnect_transport_client E p a s =
     snd (transport_send_to E p a (sys_message DISCONNECT_NOTIFY []) ReliableOrdered s)"

definition rep_connected :: "u64 \<Rightarrow> 's nm \<Rightarrow> 's nm" where
  "rep_connected c s = s\<lparr>rep_mgr := map_option (rep_client_connected c) (rep_mgr s)\<rparr>"

definition rep_disconnected :: "u64 \<Rightarrow> 's nm \<Rightarrow> 's nm" where
  "rep_disconnected c s = s\<lparr>rep_mgr := map_option (rep_client_disconnected c) (rep_mgr s)\<rparr>"

definition erase_client :: "u64 \<Rightarrow> 's nm \<Rightarrow> 's nm" where
  "erase_client i s = s\<lparr>nm_clients := filter (\<lambda>c. ce_id c \<noteq> i) (nm_clients s)\<rparr>"

definition approved_count :: "'s nm \<Rightarrow> nat" where
  "approved_count s = length (filter ce_approved (nm_clients s))"

subsection \<open>System messages\<close>

definition check_token :: "'s nm_env \<Rightarrow> bytes \<Rightarrow> 's nm \<Rightarrow> (bool \<times> bytes) \<times> 's nm" where
  "check_token E s_data s =
     (if require_token (nm_config s)
      then if TOKEN_SIZE \<le> length s_data
           then let (now, s) = nm_seconds E s;
                    valid = token_validate (env_raw E) (take TOKEN_SIZE s_data) (token_secret (nm_config s)) now
                in ((valid, if valid then drop TOKEN_SIZE s_data else s_data), s)
           else ((False, s_data), s)
      else ((True, s_data), s))"

definition configure_limiter :: "'s nm_env \<Rightarrow> 's nm \<Rightarrow> rate_limiter \<times> 's nm" where
  "configure_limiter E s =
     (let cfg = nm_config s; (t1, s) = nm_now E s; (t2, s) = nm_now E s; (t3, s) = nm_now E s
      in (configure_rpcs t3 (max_rpcs_per_sec cfg) (rate_limit_burst cfg)
           (configure_bytes t2 (max_bytes_per_sec cfg) (f32 (rate_limit_burst cfg * 1024))
             (configure_messages t1 (max_messages_per_sec cfg) (rate_limit_burst cfg) new_limiter)), s))"

definition accept_client :: "'s nm_env \<Rightarrow> tptr \<Rightarrow> address \<Rightarrow> 's nm \<Rightarrow> 's nm option" where
  "accept_client E p a s =
     (case generate_client_id s of
        None \<Rightarrow> None
      | Some new_id \<Rightarrow>
          let (limiter, s) = configure_limiter E s;
              entry = new_client_entry\<lparr>ce_id := new_id, ce_address := a, ce_transport := Some p, ce_approved := True,
                ce_limiter := limiter\<rparr>;
              s = s\<lparr>nm_clients := nm_clients s @ [entry]\<rparr>;
              s = send_sys E p a CONNECT_ACCEPT (nm_write_u64 (env_endian E) new_id) s;
              s = nm_event (EvConnected new_id) s
          in Some (rep_connected new_id s))"

definition on_connect_request :: "'s nm_env \<Rightarrow> tptr \<Rightarrow> address \<Rightarrow> bytes \<Rightarrow> 's nm \<Rightarrow> 's nm option" where
  "on_connect_request E p a s_data s =
     (if \<not> serving s then Some s
      else let existing = find_client_by_address a s
           in if existing \<noteq> None \<and> ce_approved (the existing)
              then Some (send_sys E p a CONNECT_ACCEPT (nm_write_u64 (env_endian E) (ce_id (the existing))) s)
              else let ((token_valid, auth_data), s) = check_token E s_data s;
                       approved = (token_valid \<and> (case env_approval E of None \<Rightarrow> True | Some f \<Rightarrow> f a auth_data))
                   in if approved
                      then if max_clients (nm_config s) \<le> approved_count s
                           then Some (disconnect_transport_client E p a
                                  (send_sys E p a CONNECT_REJECT [0x46, 0x55, 0x4C, 0x4C] s))
                           else accept_client E p a s
                      else Some (disconnect_transport_client E p a
                             (send_sys E p a CONNECT_REJECT [0x52, 0x4A, 0x43, 0x54] s)))"

definition on_connect_accept :: "'s nm_env \<Rightarrow> bytes \<Rightarrow> 's nm \<Rightarrow> 's nm" where
  "on_connect_accept E s_data s =
     (if nm_mode s \<noteq> NmClient \<and> nm_mode s \<noteq> NmHost then s
      else if length s_data < 8 then s
      else let s = s\<lparr>local_client_id := nm_read_u64 (env_endian E) s_data, client_connected := True,
                     awaiting_accept := False\<rparr>;
               s = nm_event (EvConnected (local_client_id s)) s
           in rep_connected (local_client_id s) s)"

definition on_connect_reject :: "'s nm_env \<Rightarrow> 's nm \<Rightarrow> 's nm" where
  "on_connect_reject E s =
     (if nm_mode s \<noteq> NmClient \<and> nm_mode s \<noteq> NmHost then s
      else let s = s\<lparr>awaiting_accept := False\<rparr>;
               s = disconnect_primary E s
           in s\<lparr>client_connected := False\<rparr>)"

definition on_disconnect_notify :: "'s nm_env \<Rightarrow> address \<Rightarrow> 's nm \<Rightarrow> 's nm" where
  "on_disconnect_notify E a s =
     (if serving s
      then case find_client_by_address a s of
             None \<Rightarrow> s
           | Some c \<Rightarrow> rep_disconnected (ce_id c) (nm_event (EvDisconnected (ce_id c)) (erase_client (ce_id c) s))
      else if nm_mode s = NmClient
      then let s = s\<lparr>client_connected := False, local_client_id := 0\<rparr>;
               s = disconnect_primary E s
           in rep_disconnected 0 (nm_event (EvDisconnected 0) s)
      else s)"

definition on_time_sync_request :: "'s nm_env \<Rightarrow> tptr \<Rightarrow> address \<Rightarrow> bytes \<Rightarrow> 's nm \<Rightarrow> 's nm" where
  "on_time_sync_request E p a s_data s =
     (if \<not> serving s then s
      else if length s_data < 8 then s
      else let (t1, s) = nm_now E s;
               t0 = nm_read_u64 (env_endian E) s_data;
               (t2, s) = nm_now E s
           in send_sys E p a TIME_SYNC_RESPONSE
                (nm_write_u64 (env_endian E) t0 @ nm_write_double (env_endian E) t1 @ nm_write_double (env_endian E) t2) s)"

definition on_time_sync_response :: "'s nm_env \<Rightarrow> bytes \<Rightarrow> 's nm \<Rightarrow> 's nm option" where
  "on_time_sync_response E s_data s =
     (if nm_mode s \<noteq> NmClient \<and> nm_mode s \<noteq> NmHost then Some s
      else if length s_data < 24 then Some s
      else case (nm_read_double (env_endian E) s_data, nm_read_double (env_endian E) (drop 8 s_data),
                 nm_read_double (env_endian E) (drop 16 s_data)) of
             (Some t0, Some t1, Some t2) \<Rightarrow>
               let (t3, s) = nm_now E s in Some (s\<lparr>net_time := record_sample t0 t1 t2 t3 (net_time s)\<rparr>)
           | _ \<Rightarrow> None)"

definition nm_client_rtt :: "'s nm_env \<Rightarrow> u64 \<Rightarrow> 's nm \<Rightarrow> rat" where
  "nm_client_rtt E c s =
     (if nm_mode s = NmHost \<and> c = local_client_id s then 0
      else case find_client_by_id c s of
        None \<Rightarrow> 0
      | Some e \<Rightarrow> (case ce_transport e of
           None \<Rightarrow> 0
         | Some p \<Rightarrow> (case transport_at p s of
              None \<Rightarrow> 0 | Some t \<Rightarrow> t_connection_rtt (env_transport E) (ce_address e) t)))"

definition nm_network_time :: "'s nm_env \<Rightarrow> 's nm \<Rightarrow> rat \<times> 's nm" where
  "nm_network_time E s =
     (let (t, s) = nm_now E s in (if nm_mode s = NmHost then t else local_to_remote t (net_time s), s))"

text \<open>
  A remote call: the limit of the sender's connection, then the RPC manager, whose own clock reading and
  questions to this manager follow.
\<close>

definition on_rpc_message :: "'s nm_env \<Rightarrow> u64 \<Rightarrow> address \<Rightarrow> bytes \<Rightarrow> 's nm \<Rightarrow> 's nm" where
  "on_rpc_message E sender a s_data s =
     (case rpc_mgr s of
        None \<Rightarrow> s
      | Some rm \<Rightarrow>
          let (allowed, s) =
                (if serving s
                 then case find_client_by_address a s of
                        None \<Rightarrow> (True, s)
                      | Some c \<Rightarrow> let (now, s) = nm_now E s;
                                     (ok, l) = allow_rpc now (ce_limiter c)
                                 in (ok, update_by_address a (\<lambda>c. c\<lparr>ce_limiter := l\<rparr>) s)
                 else (True, s))
          in if \<not> allowed then s
             else let (now, s) = nm_now E s;
                      (time, s) = nm_network_time E s
                  in s\<lparr>rpc_mgr := Some (rpc_receive now time (\<lambda>c. nm_client_rtt E c s) sender s_data rm)\<rparr>)"

definition process_system_message :: "'s nm_env \<Rightarrow> u64 \<Rightarrow> address \<Rightarrow> tptr \<Rightarrow> u8 \<Rightarrow> bytes \<Rightarrow> 's nm \<Rightarrow> 's nm option" where
  "process_system_message E sender a p ty s_data s =
     (if ty = CONNECT_REQUEST then on_connect_request E p a s_data s
      else if ty = CONNECT_ACCEPT then Some (on_connect_accept E s_data s)
      else if ty = CONNECT_REJECT then Some (on_connect_reject E s)
      else if ty = DISCONNECT_NOTIFY then Some (on_disconnect_notify E a s)
      else if ty = TIME_SYNC_REQUEST then Some (on_time_sync_request E p a s_data s)
      else if ty = TIME_SYNC_RESPONSE then on_time_sync_response E s_data s
      else if ty = 0x20 then Some (s\<lparr>rep_mgr := map_option (on_receive_delta s_data) (rep_mgr s)\<rparr>)
      else if ty = 0x21
      then Some (if 2 \<le> length s_data
                 then s\<lparr>rep_mgr := map_option (on_snapshot_ack sender (read_u16_be s_data)) (rep_mgr s)\<rparr> else s)
      else if ty = 0x22 then Some (on_rpc_message E sender a s_data s)
      else Some (s\<lparr>entity_mgr := map_option (entity_message (env_handles E) ty s_data) (entity_mgr s)\<rparr>))"

subsection \<open>Receiving\<close>

definition drop_oversized :: "'s nm_env \<Rightarrow> address \<Rightarrow> 's nm \<Rightarrow> 's nm" where
  "drop_oversized E a s =
     (if \<not> serving s then s
      else case find_client_by_address a s of
        None \<Rightarrow> s
      | Some c \<Rightarrow>
          if ce_id c \<noteq> local_client_id s \<and> ce_transport c \<noteq> None
          then let s = disconnect_transport_client E (the (ce_transport c)) (ce_address c) s;
                   s = erase_client (ce_id c) s
               in rep_disconnected (ce_id c) (nm_event (EvDisconnected (ce_id c)) s)
          else s)"

definition on_user_data :: "'s nm_env \<Rightarrow> address \<Rightarrow> bytes \<Rightarrow> 's nm \<Rightarrow> 's nm" where
  "on_user_data E a d s =
     (if serving s
      then case find_client_by_address a s of
             None \<Rightarrow> s
           | Some c \<Rightarrow>
               let (now1, s) = nm_now E s; (now2, s) = nm_now E s;
                   (ok, l) = allow_message now1 now2 (length d) (ce_limiter c);
                   s = update_by_address a (\<lambda>c. c\<lparr>ce_limiter := l\<rparr>) s
               in if \<not> ok then s
                  else let s = update_by_address a (\<lambda>c. c\<lparr>ce_bytes_received := ce_bytes_received c + of_nat (length d),
                                 ce_packets_received := ce_packets_received c + 1\<rparr>) s
                       in nm_event (EvData (ce_id c) d) (push_message (ce_id c) d s)
      else if nm_mode s = NmClient then nm_event (EvData 0 d) (push_message 0 d s)
      else s)"

definition handle_packet :: "'s nm_env \<Rightarrow> tptr \<Rightarrow> address \<Rightarrow> bytes \<Rightarrow> 's nm \<Rightarrow> 's nm option" where
  "handle_packet E p a d s =
     (if d = [] then Some s
      else if max_packet_size (nm_config s) < length d then Some (drop_oversized E a s)
      else if 3 \<le> length d \<and> take 2 d = SYS_MAGIC
      then let sys_type = d ! 2; payload = drop 3 d
           in if serving s
              then case find_client_by_address a s of
                     Some c \<Rightarrow> process_system_message E (ce_id c) a p sys_type payload s
                   | None \<Rightarrow> if sys_type \<noteq> CONNECT_REQUEST then Some s
                             else process_system_message E 0 a p sys_type payload s
              else process_system_message E 0 a p sys_type payload s
      else Some (on_user_data E a d s))"

definition BUF_SIZE :: nat where "BUF_SIZE = 4096"

partial_function (option) receive_loop :: "'s nm_env \<Rightarrow> tptr \<Rightarrow> 's nm \<Rightarrow> 's nm option" where
  "receive_loop E p s =
     (case transport_at p s of
        None \<Rightarrow> Some s
      | Some t \<Rightarrow>
          (case t_pop_receive (env_transport E) BUF_SIZE t of
             (None, t) \<Rightarrow> Some (put_transport p t s)
           | (Some (d, a), t) \<Rightarrow>
               Option.bind (handle_packet E p a d (put_transport p t s)) (\<lambda>s. receive_loop E p s)))"

text \<open>All transports: the primary one first, then the others in order.\<close>

definition all_tptrs :: "'s nm \<Rightarrow> tptr list" where
  "all_tptrs s = Primary # map Extra [0..<length (extras s)]"

fun receive_each :: "'s nm_env \<Rightarrow> tptr list \<Rightarrow> 's nm \<Rightarrow> 's nm option" where
  "receive_each E [] s = Some s"
| "receive_each E (p # ps) s = Option.bind (receive_loop E p s) (receive_each E ps)"

definition poll_transport_receives :: "'s nm_env \<Rightarrow> 's nm \<Rightarrow> 's nm option" where
  "poll_transport_receives E s = receive_each E (all_tptrs s) s"

subsection \<open>Time synchronization and connecting\<close>

definition poll_client_time_sync :: "'s nm_env \<Rightarrow> 's nm \<Rightarrow> 's nm" where
  "poll_client_time_sync E s =
     (if (nm_mode s \<noteq> NmClient \<and> nm_mode s \<noteq> NmHost) \<or> \<not> client_connected s then s
      else let (t, s) = nm_now E s
           in if last_time_sync s = 0 then s\<lparr>last_time_sync := t\<rparr>
              else if 2 < f64 (t - last_time_sync s)
              then let s = s\<lparr>last_time_sync := t\<rparr>
                   in if nm_mode s = NmHost then s\<lparr>net_time := record_sample t t t t (net_time s)\<rparr>
                      else snd (primary_send E (sys_message TIME_SYNC_REQUEST (nm_write_double (env_endian E) t))
                             ReliableOrdered s)
              else s)"

definition send_connect_request :: "'s nm_env \<Rightarrow> 's nm \<Rightarrow> 's nm" where
  "send_connect_request E s =
     (if primary s = None then s
      else let s = snd (primary_send E (sys_message CONNECT_REQUEST (client_token s)) ReliableOrdered s)
           in s\<lparr>awaiting_accept := True\<rparr>)"

subsection \<open>Polling\<close>

definition BW_OLD :: rat where "BW_OLD = f32 (7 / 10)"

definition BW_NEW :: rat where "BW_NEW = f32 (3 / 10)"

definition update_bandwidth :: "rat \<Rightarrow> client_entry \<Rightarrow> client_entry" where
  "update_bandwidth now c =
     (if \<not> ce_approved c then c
      else let dt = f64 (now - ce_last_stats_update c);
               c = (if 0 < ce_last_stats_update c \<and> 0 < dt
                    then let instant_in = f32 (f64 (f64 (of_nat (unat (ce_bytes_received c - ce_last_bytes_received c))) / dt));
                             instant_out = f32 (f64 (f64 (of_nat (unat (ce_bytes_sent c - ce_last_bytes_sent c))) / dt))
                         in c\<lparr>ce_bandwidth_in := f32 (f32 (ce_bandwidth_in c * BW_OLD) + f32 (instant_in * BW_NEW)),
                              ce_bandwidth_out := f32 (f32 (ce_bandwidth_out c * BW_OLD) + f32 (instant_out * BW_NEW))\<rparr>
                    else c)
           in c\<lparr>ce_last_bytes_received := ce_bytes_received c, ce_last_bytes_sent := ce_bytes_sent c,
                ce_last_stats_update := now\<rparr>)"

fun poll_all :: "'s transport \<Rightarrow> 's list \<Rightarrow> 's list option" where
  "poll_all T [] = Some []"
| "poll_all T (t # ts) = Option.bind (t_poll T t) (\<lambda>t. map_option (\<lambda>ts. t # ts) (poll_all T ts))"

definition poll_transports :: "'s nm_env \<Rightarrow> 's nm \<Rightarrow> 's nm option" where
  "poll_transports E s =
     Option.bind (case primary s of None \<Rightarrow> Some None | Some t \<Rightarrow> map_option Some (t_poll (env_transport E) t))
       (\<lambda>p. map_option (\<lambda>ts. s\<lparr>primary := p, extras := ts\<rparr>) (poll_all (env_transport E) (extras s)))"

definition nm_poll :: "'s nm_env \<Rightarrow> 's nm \<Rightarrow> 's nm option" where
  "nm_poll E s =
     (if primary s = None \<and> nm_mode s \<noteq> NmHost \<and> extras s = [] then Some s
      else Option.bind (poll_transports E s) (\<lambda>s.
           Option.bind (poll_transport_receives E s) (\<lambda>s.
             let s = poll_client_time_sync E s;
                 (now, s) = nm_now E s;
                 s = s\<lparr>nm_clients := map (update_bandwidth now) (nm_clients s)\<rparr>;
                 s = (if nm_mode s = NmClient \<and> \<not> client_connected s \<and> \<not> awaiting_accept s
                      then case primary s of
                             None \<Rightarrow> s
                           | Some t \<Rightarrow> if t_is_connected (env_transport E) t then send_connect_request E s else s
                      else s)
             in Some (if nm_mode s = NmHost
                      then s\<lparr>message_queue := message_queue s @ host_queue s, host_queue := []\<rparr> else s))))"

subsection \<open>Starting and stopping\<close>

definition farewell :: "'s nm_env \<Rightarrow> client_entry \<Rightarrow> 's nm \<Rightarrow> 's nm" where
  "farewell E c s =
     (if ce_approved c \<and> ce_id c \<noteq> local_client_id s
      then case ce_transport c of
             None \<Rightarrow> s
           | Some p \<Rightarrow> snd (transport_send_to E p (ce_address c) (sys_message DISCONNECT_NOTIFY []) ReliableOrdered s)
      else s)"

definition nm_stop :: "'s nm_env \<Rightarrow> 's nm \<Rightarrow> 's nm" where
  "nm_stop E s =
     (let s = (if serving s then fold (farewell E) (nm_clients s) s
               else if nm_mode s = NmClient \<and> client_connected s
               then snd (primary_send E (sys_message DISCONNECT_NOTIFY []) ReliableOrdered s)
               else s);
          s = disconnect_primary E s;
          s = s\<lparr>extras := map (t_disconnect (env_transport E)) (extras s)\<rparr>
      in s\<lparr>nm_clients := [], message_queue := [], message_read_idx := 0, host_queue := [], client_connected := False,
           local_client_id := 0, awaiting_accept := False, net_time := nt_reset (net_time s), nm_mode := NmNone,
           primary := None, extras := []\<rparr>)"

definition set_transport :: "'s nm_env \<Rightarrow> 's option \<Rightarrow> 's nm \<Rightarrow> 's nm" where
  "set_transport E t s = (let s = (if nm_mode s \<noteq> NmNone then nm_stop E s else s) in s\<lparr>primary := t\<rparr>)"

definition add_transport :: "'s option \<Rightarrow> 's nm \<Rightarrow> 's nm" where
  "add_transport t s = (case t of None \<Rightarrow> s | Some t \<Rightarrow> s\<lparr>extras := extras s @ [t]\<rparr>)"

definition start_host :: "'s nm \<Rightarrow> 's nm option" where
  "start_host s =
     (case generate_client_id s of
        None \<Rightarrow> None
      | Some local_id \<Rightarrow>
          let entry = new_client_entry\<lparr>ce_id := local_id, ce_approved := True\<rparr>;
              s = s\<lparr>nm_clients := nm_clients s @ [entry], local_client_id := local_id, client_connected := True\<rparr>
          in Some (nm_event (EvConnected local_id) s))"

definition nm_start :: "'s nm_env \<Rightarrow> nm_config \<Rightarrow> 's nm \<Rightarrow> (bool \<times> 's nm) option" where
  "nm_start E cfg s =
     (let s = (if nm_mode s \<noteq> NmNone then nm_stop E s else s);
          s = s\<lparr>nm_config := cfg, nm_mode := cfg_mode cfg\<rparr>;
          t = (case primary s of None \<Rightarrow> env_default E | Some t \<Rightarrow> t);
          (ok, t) = (if cfg_mode cfg = NmServer \<or> cfg_mode cfg = NmHost then t_bind (env_transport E) (cfg_bind cfg) t
                     else if cfg_mode cfg = NmClient then t_connect (env_transport E) (cfg_server cfg) t
                     else (True, t));
          s = s\<lparr>primary := Some t\<rparr>
      in if \<not> ok then Some (False, s\<lparr>nm_mode := NmNone, primary := None\<rparr>)
         else if cfg_mode cfg = NmClient then Some (True, send_connect_request E (s\<lparr>awaiting_accept := True\<rparr>))
         else if cfg_mode cfg = NmHost then map_option (\<lambda>s. (True, s)) (start_host s)
         else Some (True, s))"

subsection \<open>Local clients\<close>

definition add_local_client :: "'s nm \<Rightarrow> (u64 \<times> 's nm) option" where
  "add_local_client s =
     (if \<not> serving s then Some (0, s)
      else case generate_client_id s of
        None \<Rightarrow> None
      | Some new_id \<Rightarrow>
          let entry = new_client_entry\<lparr>ce_id := new_id, ce_approved := True\<rparr>;
              s = s\<lparr>nm_clients := nm_clients s @ [entry]\<rparr>;
              s = nm_event (EvConnected new_id) s
          in Some (new_id, rep_connected new_id s))"

definition nm_disconnect_client :: "'s nm_env \<Rightarrow> u64 \<Rightarrow> 's nm \<Rightarrow> 's nm" where
  "nm_disconnect_client E c s =
     (if \<not> serving s then s
      else case find_client_by_id c s of
        None \<Rightarrow> s
      | Some e \<Rightarrow>
          let s = (if c = local_client_id s then s\<lparr>client_connected := False, local_client_id := 0\<rparr>
                   else case ce_transport e of
                          None \<Rightarrow> s
                        | Some p \<Rightarrow> snd (transport_send_to E p (ce_address e) (sys_message DISCONNECT_NOTIFY []) ReliableOrdered s));
              s = erase_client c s
          in rep_disconnected c (nm_event (EvDisconnected c) s))"

definition remove_local_client :: "'s nm_env \<Rightarrow> u64 \<Rightarrow> 's nm \<Rightarrow> 's nm" where
  "remove_local_client E c s = nm_disconnect_client E c s"

text \<open>A client leaves with a message of a single byte, the type.\<close>

definition nm_disconnect :: "'s nm_env \<Rightarrow> 's nm \<Rightarrow> 's nm" where
  "nm_disconnect E s =
     (if nm_mode s = NmClient
      then let s = (if primary s \<noteq> None \<and> client_connected s
                    then snd (primary_send E [DISCONNECT_NOTIFY] ReliableOrdered s) else s)
           in nm_stop E s
      else if nm_mode s = NmHost
      then if local_client_id s \<noteq> 0 then nm_disconnect_client E (local_client_id s) s else s
      else s)"

subsection \<open>Sending\<close>

definition count_sent :: "nat \<Rightarrow> client_entry \<Rightarrow> client_entry" where
  "count_sent n c = c\<lparr>ce_bytes_sent := ce_bytes_sent c + of_nat n, ce_packets_sent := ce_packets_sent c + 1\<rparr>"

definition nm_send_to :: "'s nm_env \<Rightarrow> u64 \<Rightarrow> bytes \<Rightarrow> reliability \<Rightarrow> 's nm \<Rightarrow> bool \<times> 's nm" where
  "nm_send_to E c d r s =
     (if \<not> serving s then (False, s)
      else if nm_mode s = NmHost \<and> c = local_client_id s then (True, push_message_to_host_local c d s)
      else case find_client_by_id c s of
        None \<Rightarrow> (False, s)
      | Some e \<Rightarrow>
          if \<not> ce_approved e then (False, s)
          else case ce_transport e of
            None \<Rightarrow> (True, nm_event (EvData c d) (push_message c d s))
          | Some p \<Rightarrow>
              let (ok, s) = transport_send_to E p (ce_address e) d r s
              in (ok, if ok then update_by_id c (count_sent (length d)) s else s))"

fun broadcast_loop :: "'s nm_env \<Rightarrow> bytes \<Rightarrow> reliability \<Rightarrow> u64 \<Rightarrow> client_entry list \<Rightarrow> 's nm \<Rightarrow>
    client_entry list \<times> 's nm" where
  "broadcast_loop E d r exclude [] s = ([], s)"
| "broadcast_loop E d r exclude (c # cs) s =
     (let (c, s) =
            (if ce_id c = exclude \<or> \<not> ce_approved c \<or> ce_id c = local_client_id s then (c, s)
             else case ce_transport c of
                    None \<Rightarrow> (c, nm_event (EvData (ce_id c) d) (push_message (ce_id c) d s))
                  | Some p \<Rightarrow> let (ok, s) = transport_send_to E p (ce_address c) d r s
                              in (if ok then count_sent (length d) c else c, s));
          (cs, s) = broadcast_loop E d r exclude cs s
      in (c # cs, s))"

definition nm_broadcast :: "'s nm_env \<Rightarrow> bytes \<Rightarrow> reliability \<Rightarrow> u64 \<Rightarrow> 's nm \<Rightarrow> 's nm" where
  "nm_broadcast E d r exclude s =
     (if \<not> serving s then s
      else let s = (if nm_mode s = NmHost \<and> local_client_id s \<noteq> 0 \<and> local_client_id s \<noteq> exclude
                    then push_message_to_host_local (local_client_id s) d s else s);
               (cs, s) = broadcast_loop E d r exclude (nm_clients s) s
           in s\<lparr>nm_clients := cs\<rparr>)"

definition nm_send :: "'s nm_env \<Rightarrow> bytes \<Rightarrow> reliability \<Rightarrow> 's nm \<Rightarrow> bool \<times> 's nm" where
  "nm_send E d r s =
     (if nm_mode s = NmClient
      then if primary s = None \<or> \<not> client_connected s then (False, s) else primary_send E d r s
      else if nm_mode s = NmHost
      then if local_client_id s = 0 then (False, s)
           else (True, nm_event (EvData (local_client_id s) d) (push_message (local_client_id s) d s))
      else (False, s))"

text \<open>What the other managers ask for.\<close>

fun nm_call :: "'s nm_env \<Rightarrow> net_call \<Rightarrow> 's nm \<Rightarrow> 's nm" where
  "nm_call E (NetBroadcast d r) s = nm_broadcast E d r 0 s"
| "nm_call E (NetBroadcastExcept d r c) s = nm_broadcast E d r c s"
| "nm_call E (NetSendTo c d r) s = snd (nm_send_to E c d r s)"
| "nm_call E (NetSend d r) s = snd (nm_send E d r s)"

subsection \<open>The application's side\<close>

definition pop_message :: "'s nm \<Rightarrow> (u64 \<times> bytes) option \<times> 's nm" where
  "pop_message s =
     (if length (message_queue s) \<le> message_read_idx s then (None, s\<lparr>message_queue := [], message_read_idx := 0\<rparr>)
      else (Some (message_queue s ! message_read_idx s), s\<lparr>message_read_idx := message_read_idx s + 1\<rparr>))"

definition set_connection_token :: "bytes \<Rightarrow> 's nm \<Rightarrow> 's nm" where
  "set_connection_token tok s = s\<lparr>client_token := take TOKEN_SIZE tok\<rparr>"

definition generate_connection_token :: "'s nm_env \<Rightarrow> u32 \<Rightarrow> 's nm \<Rightarrow> bytes option \<times> 's nm" where
  "generate_connection_token E expiry s =
     (if \<forall>b\<in>set (take 32 (token_secret (nm_config s))). b = 0 then (None, s)
      else let (now, s) = nm_seconds E s
           in (token_generate (env_raw E) (token_secret (nm_config s)) expiry 0 now, s))"

definition nm_is_active :: "'s nm \<Rightarrow> bool" where
  "nm_is_active s \<longleftrightarrow> nm_mode s \<noteq> NmNone"

definition nm_client_count :: "'s nm \<Rightarrow> nat" where
  "nm_client_count s = approved_count s"

definition is_client_connected :: "u64 \<Rightarrow> 's nm \<Rightarrow> bool" where
  "is_client_connected c s \<longleftrightarrow> (case find_client_by_id c s of None \<Rightarrow> False | Some e \<Rightarrow> ce_approved e)"

definition client_address :: "u64 \<Rightarrow> 's nm \<Rightarrow> address" where
  "client_address c s = (case find_client_by_id c s of None \<Rightarrow> addr_default | Some e \<Rightarrow> ce_address e)"

definition nm_client_packet_loss :: "'s nm_env \<Rightarrow> u64 \<Rightarrow> 's nm \<Rightarrow> rat" where
  "nm_client_packet_loss E c s =
     (if nm_mode s = NmHost \<and> c = local_client_id s then 0
      else case find_client_by_id c s of
        None \<Rightarrow> 0
      | Some e \<Rightarrow> (case ce_transport e of
           None \<Rightarrow> 0
         | Some p \<Rightarrow> (case transport_at p s of
              None \<Rightarrow> 0 | Some t \<Rightarrow> t_connection_packet_loss (env_transport E) (ce_address e) t)))"

record net_stats =
  ns_bytes_sent :: u64
  ns_bytes_received :: u64
  ns_packets_sent :: u64
  ns_packets_received :: u64
  ns_bandwidth_out :: rat
  ns_bandwidth_in :: rat
  ns_rtt :: rat
  ns_packet_loss :: rat

definition nm_net_stats :: "'s nm_env \<Rightarrow> u64 \<Rightarrow> 's nm \<Rightarrow> net_stats" where
  "nm_net_stats E c s =
     (case find_client_by_id c s of
        None \<Rightarrow> \<lparr>ns_bytes_sent = 0, ns_bytes_received = 0, ns_packets_sent = 0, ns_packets_received = 0,
          ns_bandwidth_out = 0, ns_bandwidth_in = 0, ns_rtt = 0, ns_packet_loss = 0\<rparr>
      | Some e \<Rightarrow> \<lparr>ns_bytes_sent = ce_bytes_sent e, ns_bytes_received = ce_bytes_received e,
          ns_packets_sent = ce_packets_sent e, ns_packets_received = ce_packets_received e,
          ns_bandwidth_out = ce_bandwidth_out e, ns_bandwidth_in = ce_bandwidth_in e,
          ns_rtt = nm_client_rtt E c s, ns_packet_loss = nm_client_packet_loss E c s\<rparr>)"

definition set_entity_manager :: "entity_manager option \<Rightarrow> 's nm \<Rightarrow> 's nm" where
  "set_entity_manager m s = s\<lparr>entity_mgr := m\<rparr>"

definition set_replication_manager :: "replication option \<Rightarrow> 's nm \<Rightarrow> 's nm" where
  "set_replication_manager m s =
     (let s = s\<lparr>rep_mgr := m\<rparr>;
          s = fold (\<lambda>c s. if ce_approved c then rep_connected (ce_id c) s else s) (nm_clients s) s
      in if nm_mode s = NmHost \<and> local_client_id s \<noteq> 0 then rep_connected (local_client_id s) s else s)"

definition set_rpc_manager :: "rpc_manager option \<Rightarrow> 's nm \<Rightarrow> 's nm" where
  "set_rpc_manager m s = s\<lparr>rpc_mgr := m\<rparr>"

end
