(* ===== verification/NetworkManagerLaws.thy ===== *)
theory NetworkManagerLaws
  imports NetworkManager UdpInterface
begin

text \<open>
  The properties of \<open>NetworkManager\<close>: the invariant of every state that a sequence of operations reaches, who
  is admitted, what a handshake, a time synchronization and a message achieve, and the cases where the code
  does not do what its documentation says.
\<close>

subsection \<open>Fresh identifiers\<close>

lemma find_id_None: "find (\<lambda>c. ce_id c = i) cs = None \<longleftrightarrow> i \<notin> ce_id ` set cs"
  by (auto simp: find_None_iff)

lemma free_client_id_new: "free_client_id cs i = Some r \<Longrightarrow> r \<notin> ce_id ` set cs"
  by (induction rule: free_client_id.raw_induct [rotated 1, consumes 1]) (auto simp: find_id_None split: if_splits)

text \<open>The search takes the first free identifier: after \<open>n\<close> used ones it is the start plus \<open>n\<close>.\<close>

lemma free_client_id_first:
  "(\<forall>k<n. i + of_nat k \<in> ce_id ` set cs) \<Longrightarrow> i + of_nat n \<notin> ce_id ` set cs \<Longrightarrow> free_client_id cs i = Some (i + of_nat n)"
proof (induction n arbitrary: i)
  case 0
  then show ?case by (subst free_client_id.simps) (simp add: find_id_None)
next
  case (Suc n)
  have "i \<in> ce_id ` set cs" using Suc.prems(1) by fastforce
  moreover have "\<forall>k<n. i + 1 + of_nat k \<in> ce_id ` set cs"
  proof (intro allI impI)
    fix k assume "k < n"
    then show "i + 1 + of_nat k \<in> ce_id ` set cs" using Suc.prems(1)[rule_format, of "Suc k"] by (simp add: add.assoc)
  qed
  ultimately show ?case using Suc.IH [of "i + 1"] Suc.prems(2)
    by (subst free_client_id.simps) (simp add: find_id_None add.assoc)
qed

text \<open>With fewer clients than nonzero identifiers there is a free one among \<open>1\<close> to the number of clients plus one.\<close>

lemma free_client_id_small:
  assumes "length cs < 2 ^ 64 - 1"
  obtains r where "free_client_id cs 1 = Some r" "r \<noteq> 0" "r \<notin> ce_id ` set cs" "unat r \<le> length cs + 1"
proof -
  define P where "P n \<longleftrightarrow> 1 + of_nat n \<notin> ce_id ` set cs" for n :: nat
  have "\<exists>n\<le>length cs. P n"
  proof (rule ccontr)
    assume "\<not> ?thesis"
    then have "(\<lambda>n. 1 + of_nat n :: u64) ` {..length cs} \<subseteq> ce_id ` set cs" by (auto simp: P_def)
    then have "card ((\<lambda>n. 1 + of_nat n :: u64) ` {..length cs}) \<le> card (ce_id ` set cs)" by (intro card_mono) simp_all
    moreover have "inj_on (\<lambda>n. 1 + of_nat n :: u64) {..length cs}"
    proof (rule inj_onI)
      fix x y assume "x \<in> {..length cs}" "y \<in> {..length cs}" "(1 + of_nat x :: u64) = 1 + of_nat y"
      then show "x = y" using assms by (simp add: word_of_nat_eq_iff take_bit_nat_eq_self)
    qed
    then have "card ((\<lambda>n. 1 + of_nat n :: u64) ` {..length cs}) = Suc (length cs)" by (simp add: card_image)
    moreover have "card (ce_id ` set cs) \<le> length cs" using card_image_le card_length by (metis List.finite_set le_trans)
    ultimately show False by simp
  qed
  then obtain n where n: "n \<le> length cs" "P n" by blast
  define k where "k = (LEAST n. P n)"
  have "P k" unfolding k_def by (rule LeastI [of P, OF n(2)])
  moreover have "k \<le> length cs" using Least_le [of P, OF n(2)] n(1) unfolding k_def by linarith
  moreover have "\<not> P j" if "j < k" for j using that unfolding k_def by (rule not_less_Least)
  ultimately have k: "P k" "k \<le> length cs" "\<forall>j<k. \<not> P j" by blast+
  have "free_client_id cs 1 = Some (1 + of_nat k)" using k by (intro free_client_id_first) (auto simp: P_def)
  moreover have u: "unat (1 + of_nat k :: u64) = Suc k"
  proof -
    have "Suc k < 2 ^ 64" using k(2) assms by simp
    then have "unat (of_nat (Suc k) :: u64) = Suc k" by (simp add: unat_of_nat del: of_nat_Suc)
    then show ?thesis by simp
  qed
  moreover have "1 + of_nat k \<noteq> (0 :: u64)" using u by (metis nat.distinct(1) unat_0)
  ultimately show thesis using k that [of "1 + of_nat k"] unfolding P_def by simp
qed

subsection \<open>The invariant\<close>

text \<open>
  What the invariant is about: of every entry the identifier, the address, the transport and the approval; the
  mode, the configuration, and which transports there are.
\<close>

type_synonym entry_key = "u64 \<times> address \<times> tptr option \<times> bool"

definition entry_key :: "client_entry \<Rightarrow> entry_key" where
  "entry_key c = (ce_id c, ce_address c, ce_transport c, ce_approved c)"

definition core :: "'s nm \<Rightarrow> net_mode \<times> nm_config \<times> entry_key list \<times> bool \<times> nat" where
  "core s = (nm_mode s, nm_config s, map entry_key (nm_clients s), primary s \<noteq> None, length (extras s))"

definition ptr_in :: "bool \<Rightarrow> nat \<Rightarrow> tptr \<Rightarrow> bool" where
  "ptr_in b n p = (case p of Primary \<Rightarrow> b | Extra k \<Rightarrow> k < n)"

definition remote_key :: "entry_key \<Rightarrow> bool" where "remote_key k \<longleftrightarrow> fst (snd (snd k)) \<noteq> None"

definition other_address :: "entry_key \<Rightarrow> entry_key \<Rightarrow> bool" where
  "other_address k l \<longleftrightarrow> \<not> addr_eq (fst (snd k)) (fst (snd l))"

definition keys_ok :: "nat \<Rightarrow> bool \<Rightarrow> nat \<Rightarrow> entry_key list \<Rightarrow> bool" where
  "keys_ok m b n ks \<longleftrightarrow> distinct (map fst ks) \<and> 0 \<notin> fst ` set ks \<and>
     (\<forall>(i, a, p, ok)\<in>set ks. ok \<and> (\<forall>q. p = Some q \<longrightarrow> ptr_in b n q)) \<and>
     sorted_wrt other_address (filter remote_key ks) \<and> length (filter remote_key ks) \<le> m"

fun core_ok :: "net_mode \<times> nm_config \<times> entry_key list \<times> bool \<times> nat \<Rightarrow> bool" where
  "core_ok (m, cfg, ks, b, n) \<longleftrightarrow> keys_ok (max_clients cfg) b n ks \<and> max_clients cfg < 2 ^ 64 \<and>
     (ks = [] \<or> m = NmServer \<or> m = NmHost)"

definition nm_ok :: "'s nm \<Rightarrow> bool" where "nm_ok s = core_ok (core s)"

lemma keys_ok_filter: "keys_ok m b n ks \<Longrightarrow> keys_ok m b n (filter P ks)"
proof -
  assume ok: "keys_ok m b n ks"
  have f: "filter remote_key (filter P ks) = filter P (filter remote_key ks)" by (simp add: filter_filter conj_commute)
  have "length (filter P (filter remote_key ks)) \<le> m"
    using ok by (meson keys_ok_def le_trans length_filter_le)
  then show ?thesis using ok
    by (auto simp: keys_ok_def f distinct_map_filter sorted_wrt_filter simp del: filter_filter)
qed

lemma keys_ok_mono: "keys_ok m b n ks \<Longrightarrow> n \<le> n' \<Longrightarrow> keys_ok m b n' ks"
  by (fastforce simp: keys_ok_def ptr_in_def split: tptr.splits)

lemma keys_ok_snoc:
  "keys_ok m b n ks \<Longrightarrow> i \<notin> fst ` set ks \<Longrightarrow> i \<noteq> 0 \<Longrightarrow> \<forall>q. p = Some q \<longrightarrow> ptr_in b n q \<and> length (filter remote_key ks) < m \<and>
     (\<forall>k\<in>set ks. other_address k (i, a, p, True)) \<Longrightarrow> keys_ok m b n (ks @ [(i, a, p, True)])"
  by (auto simp: keys_ok_def sorted_wrt_append remote_key_def)

lemma keys_ok_Nil [simp]: "keys_ok m b n []"
  by (simp add: keys_ok_def)

lemma nm_ok_core: "core s' = core s \<Longrightarrow> nm_ok s \<Longrightarrow> nm_ok s'"
  by (simp add: nm_ok_def)

lemma nm_ok_no_clients: "nm_clients s = [] \<Longrightarrow> max_clients (nm_config s) < 2 ^ 64 \<Longrightarrow> nm_ok s"
  by (simp add: nm_ok_def core_def)

text \<open>The operations below change nothing of this.\<close>

named_theorems frame

lemma core_parts:
  "core s' = core s \<longleftrightarrow> nm_mode s' = nm_mode s \<and> nm_config s' = nm_config s \<and>
     map entry_key (nm_clients s') = map entry_key (nm_clients s) \<and> (primary s' = None \<longleftrightarrow> primary s = None) \<and>
     length (extras s') = length (extras s)"
  by (auto simp: core_def)

lemma core_now [frame]: "core (snd (nm_now E s)) = core s" "core (snd (nm_seconds E s)) = core s"
  by (simp_all add: core_parts nm_now_def nm_seconds_def)

lemma core_put [frame]: "transport_at p s \<noteq> None \<Longrightarrow> core (put_transport p t s) = core s"
  by (auto simp: core_parts put_transport_def transport_at_def split: tptr.splits)

lemma core_send_to [frame]: "core (snd (transport_send_to E p a d r s)) = core s"
  by (auto simp: transport_send_to_def case_prod_unfold Let_def core_put split: option.split)

lemma core_sends [frame]:
  "core (send_sys E p a ty d s) = core s" "core (disconnect_transport_client E p a s) = core s"
  "core (snd (primary_send E d r s)) = core s" "core (disconnect_primary E s) = core s"
  "core (send_connect_request E s) = core s"
  by (auto simp: send_sys_def disconnect_transport_client_def core_send_to primary_send_def case_prod_unfold Let_def
      core_parts disconnect_primary_def send_connect_request_def split: option.split)

lemma core_logs [frame]:
  "core (nm_event e s) = core s" "core (push_message c d s) = core s" "core (push_message_to_host_local c d s) = core s"
  "core (rep_connected c s) = core s" "core (rep_disconnected c s) = core s"
  by (simp_all add: core_parts nm_event_def push_message_def push_message_to_host_local_def rep_connected_def
      rep_disconnected_def)

lemma map_update_first: "(\<And>x. g (f x) = g x) \<Longrightarrow> map g (update_first P f xs) = map g xs"
  by (induction xs) auto

lemma core_update [frame]:
  "(\<And>c. entry_key (f c) = entry_key c) \<Longrightarrow> core (update_by_address a f s) = core s"
  "(\<And>c. entry_key (f c) = entry_key c) \<Longrightarrow> core (update_by_id i f s) = core s"
  by (simp_all add: core_parts update_by_address_def update_by_id_def map_update_first)

lemma key_updates [simp]:
  "entry_key (c\<lparr>ce_limiter := l\<rparr>) = entry_key c" "entry_key (count_sent n c) = entry_key c"
  "entry_key (c\<lparr>ce_bytes_received := x, ce_packets_received := y\<rparr>) = entry_key c" "entry_key (update_bandwidth t c) = entry_key c"
  by (simp_all add: entry_key_def count_sent_def update_bandwidth_def Let_def)

lemma core_fields [frame]:
  "core (s\<lparr>net_time := x1\<rparr>) = core s" "core (s\<lparr>last_time_sync := x2\<rparr>) = core s" "core (s\<lparr>awaiting_accept := x3\<rparr>) = core s"
  "core (s\<lparr>client_connected := x3\<rparr>) = core s" "core (s\<lparr>local_client_id := x4\<rparr>) = core s" "core (s\<lparr>rep_mgr := x5\<rparr>) = core s"
  "core (s\<lparr>rpc_mgr := x6\<rparr>) = core s" "core (s\<lparr>entity_mgr := x7\<rparr>) = core s" "core (s\<lparr>message_queue := x8\<rparr>) = core s"
  "core (s\<lparr>message_read_idx := x9\<rparr>) = core s" "core (s\<lparr>host_queue := x8\<rparr>) = core s" "core (s\<lparr>client_token := x10\<rparr>) = core s"
  by (simp_all add: core_parts)

lemma nm_ok_erase: "nm_ok s \<Longrightarrow> nm_ok (erase_client i s)"
proof -
  have "map entry_key (filter (\<lambda>c. ce_id c \<noteq> i) cs) = filter (\<lambda>k. fst k \<noteq> i) (map entry_key cs)" for cs
    by (induction cs) (simp_all add: entry_key_def)
  then show "nm_ok s \<Longrightarrow> nm_ok (erase_client i s)"
    by (auto simp: nm_ok_def core_def erase_client_def keys_ok_filter)
qed

lemma nm_ok_frame: "nm_ok s \<Longrightarrow> core s' = core s \<Longrightarrow> nm_ok s'"
  by (simp add: nm_ok_def)

lemma core_ok_core: "core s' = core s \<Longrightarrow> nm_ok s' = nm_ok s"
  by (simp add: nm_ok_def)

lemma nm_ok_approved: "nm_ok s \<Longrightarrow> c \<in> set (nm_clients s) \<Longrightarrow> ce_approved c"
  by (fastforce simp: nm_ok_def core_def keys_ok_def entry_key_def)

lemma approved_count_all: "nm_ok s \<Longrightarrow> approved_count s = length (nm_clients s)"
  by (simp add: approved_count_def nm_ok_approved)

lemma serving_core: "core s' = core s \<Longrightarrow> serving s' = serving s"
  by (simp add: core_parts serving_def)

lemma transport_at_core: "core s' = core s \<Longrightarrow> transport_at p s' = None \<longleftrightarrow> transport_at p s = None"
  by (cases p) (auto simp: core_parts transport_at_def)

lemma set_keys: "k \<in> set (map entry_key cs) \<longleftrightarrow> (\<exists>c\<in>set cs. k = entry_key c)"
  by auto

lemma find_address_None: "find_client_by_address a s = None \<longleftrightarrow> (\<forall>c\<in>set (nm_clients s). \<not> addr_eq (ce_address c) a)"
  by (auto simp: find_client_by_address_def find_None_iff)

lemma core_limiter [frame]: "core (snd (configure_limiter E s)) = core s"
  by (simp add: configure_limiter_def Let_def case_prod_unfold frame)

text \<open>A client is accepted with a new identifier, at the end of the list.\<close>

lemma nm_ok_add:
  assumes ok: "nm_ok s" and "serving s" "transport_at p s \<noteq> None" "find_client_by_address a s = None"
    and "length (nm_clients s) < max_clients (nm_config s)" "i \<notin> ce_id ` set (nm_clients s)" "i \<noteq> 0"
    and c: "core s' = (nm_mode s, nm_config s, map entry_key (nm_clients s) @ [(i, a, Some p, True)], primary s \<noteq> None, length (extras s))"
  shows "nm_ok s'"
proof -
  let ?ks = "map entry_key (nm_clients s)"
  have "length (filter remote_key ?ks) \<le> length ?ks" by (rule length_filter_le)
  then have "length (filter remote_key ?ks) < max_clients (nm_config s)" using assms(5) by (metis length_map le_less_trans)
  moreover have "ptr_in (primary s \<noteq> None) (length (extras s)) p"
    using assms(3) by (auto simp: ptr_in_def transport_at_def split: tptr.splits if_splits)
  moreover have "\<forall>k\<in>set ?ks. other_address k (i, a, Some p, True)"
    using assms(4) by (auto simp: other_address_def entry_key_def find_address_None)
  moreover have "i \<notin> fst ` set ?ks" using assms(6) by (auto simp: entry_key_def)
  ultimately have "keys_ok (max_clients (nm_config s)) (primary s \<noteq> None) (length (extras s)) (?ks @ [(i, a, Some p, True)])"
    using ok assms(7) by (intro keys_ok_snoc) (auto simp: nm_ok_def core_def)
  moreover have "max_clients (nm_config s) < 2 ^ 64" using ok by (simp add: nm_ok_def core_def)
  ultimately show ?thesis unfolding nm_ok_def c using assms(2) by (auto simp: serving_def)
qed

lemma accept_client_core:
  assumes "accept_client E p a s = Some s'"
  obtains i where "generate_client_id s = Some i"
    "core s' = (nm_mode s, nm_config s, map entry_key (nm_clients s) @ [(i, a, Some p, True)], primary s \<noteq> None, length (extras s))"
proof -
  obtain i where i: "generate_client_id s = Some i" using assms by (auto simp: accept_client_def split: option.splits)
  have "core (s\<lparr>nm_clients := cs\<rparr>) = (nm_mode s, nm_config s, map entry_key cs, primary s \<noteq> None, length (extras s))" for s :: "'a nm" and cs
    by (simp add: core_def)
  moreover note core_limiter [of E s, unfolded core_parts]
  ultimately have "core s' = (nm_mode s, nm_config s, map entry_key (nm_clients s) @ [(i, a, Some p, True)], primary s \<noteq> None, length (extras s))"
    using assms i by (auto simp: accept_client_def Let_def case_prod_unfold frame entry_key_def new_client_entry_def)
  then show thesis using i that by simp
qed

lemma fresh_id_nonzero:
  assumes "length (nm_clients s) < 2 ^ 64 - 1" "generate_client_id s = Some i"
  shows "i \<noteq> 0" "i \<notin> ce_id ` set (nm_clients s)"
  using assms free_client_id_small [of "nm_clients s"] unfolding generate_client_id_def by (metis option.inject)+

lemma nm_ok_accept:
  assumes ok: "nm_ok s" and "serving s" "transport_at p s \<noteq> None" "find_client_by_address a s = None"
    and "approved_count s < max_clients (nm_config s)" and acc: "accept_client E p a s = Some s'"
  shows "nm_ok s'"
proof -
  obtain i where i: "generate_client_id s = Some i"
    "core s' = (nm_mode s, nm_config s, map entry_key (nm_clients s) @ [(i, a, Some p, True)], primary s \<noteq> None, length (extras s))"
    using accept_client_core [OF acc] by metis
  have l: "length (nm_clients s) < max_clients (nm_config s)" using assms(5) approved_count_all [OF ok] by simp
  moreover have "max_clients (nm_config s) < 2 ^ 64" using ok by (simp add: nm_ok_def core_def)
  ultimately have "length (nm_clients s) < 2 ^ 64 - 1" by simp
  note fresh_id_nonzero [OF this i(1)]
  then show ?thesis using nm_ok_add [OF ok assms(2-4) l _ _ i(2)] by blast
qed

lemma core_check_token [frame]: "core (snd (check_token E d s)) = core s"
  by (simp add: check_token_def Let_def case_prod_unfold frame)

lemma nm_ok_connect_request:
  assumes ok: "nm_ok s" and p: "transport_at p s \<noteq> None" and r: "on_connect_request E p a d s = Some s'"
  shows "nm_ok s'"
proof -
  define s1 where "s1 = snd (check_token E d s)"
  have c: "core s1 = core s" by (simp add: s1_def frame)
  have id: "core s' = core s \<or> accept_client E p a s1 = Some s' \<and> approved_count s1 < max_clients (nm_config s1) \<and>
      serving s \<and> (\<forall>c. find_client_by_address a s = Some c \<longrightarrow> \<not> ce_approved c)"
    using r by (auto simp: on_connect_request_def Let_def case_prod_unfold frame s1_def not_le split: if_splits)
  have addr: "find_client_by_address a s = None" if "\<forall>c. find_client_by_address a s = Some c \<longrightarrow> \<not> ce_approved c"
  proof (cases "find_client_by_address a s")
    case (Some x)
    then have "x \<in> set (nm_clients s)" by (auto simp: find_client_by_address_def find_Some_iff)
    then show ?thesis using nm_ok_approved [OF ok] that Some by blast
  qed simp
  moreover have "find_client_by_address a s1 = None" if "find_client_by_address a s = None"
  proof -
    have "map entry_key (nm_clients s1) = map entry_key (nm_clients s)" using c by (simp add: core_parts)
    then have "map (\<lambda>k. fst (snd k)) (map entry_key (nm_clients s1)) = map (\<lambda>k. fst (snd k)) (map entry_key (nm_clients s))"
      by (simp only:)
    then have "map ce_address (nm_clients s1) = map ce_address (nm_clients s)" by (simp add: entry_key_def comp_def)
    then have "ce_address ` set (nm_clients s1) = ce_address ` set (nm_clients s)" by (simp only: set_map [symmetric])
    then show ?thesis using that unfolding find_address_None by (metis imageE imageI)
  qed
  ultimately have addr1: "find_client_by_address a s1 = None"
    if "\<forall>c. find_client_by_address a s = Some c \<longrightarrow> \<not> ce_approved c" using that by blast
  from id show ?thesis
  proof (elim disjE conjE)
    assume "core s' = core s"
    then show ?thesis using ok by (simp add: nm_ok_def)
  next
    assume "accept_client E p a s1 = Some s'" "approved_count s1 < max_clients (nm_config s1)" "serving s"
      "\<forall>c. find_client_by_address a s = Some c \<longrightarrow> \<not> ce_approved c"
    then show ?thesis using nm_ok_core [OF c ok] serving_core [OF c] transport_at_core [OF c, of p] p addr1
      by (intro nm_ok_accept [of s1 p a E s']) simp_all
  qed
qed

lemma core_rpc_message [frame]: "core (on_rpc_message E sender a d s) = core s"
  by (auto simp: on_rpc_message_def Let_def case_prod_unfold frame nm_network_time_def split: option.split)

lemma nm_ok_system:
  assumes "nm_ok s" "transport_at p s \<noteq> None" "process_system_message E sender a p ty d s = Some s'"
  shows "nm_ok s'"
proof -
  have "core_ok (core (erase_client i s))" for i using nm_ok_erase [OF assms(1)] by (simp add: nm_ok_def)
  then have "nm_ok (on_disconnect_notify E a s)" using assms(1)
    by (auto simp: on_disconnect_notify_def nm_ok_def Let_def frame split: option.split)
  then show ?thesis
    using assms nm_ok_connect_request [OF assms(1,2)]
    by (auto simp: process_system_message_def on_connect_accept_def on_connect_reject_def on_time_sync_request_def
        on_time_sync_response_def Let_def case_prod_unfold frame split: if_splits option.splits intro: nm_ok_core [of _ s])
qed

lemma nm_ok_oversized: "nm_ok s \<Longrightarrow> nm_ok (drop_oversized E a s)"
proof -
  assume ok: "nm_ok s"
  then have "nm_ok (erase_client i (disconnect_transport_client E p b s))" for i p b
    by (intro nm_ok_erase) (simp add: nm_ok_core frame)
  then show ?thesis using ok by (auto simp: drop_oversized_def Let_def frame nm_ok_def split: option.split)
qed

lemma core_user_data [frame]: "core (on_user_data E a d s) = core s"
  by (auto simp: on_user_data_def Let_def case_prod_unfold frame split: option.split)

lemma nm_ok_packet:
  "nm_ok s \<Longrightarrow> transport_at p s \<noteq> None \<Longrightarrow> handle_packet E p a d s = Some s' \<Longrightarrow> nm_ok s'"
  by (auto simp: handle_packet_def Let_def nm_ok_oversized frame split: if_splits option.splits
      dest: nm_ok_system intro: nm_ok_core [of _ s])

lemma nm_ok_receive_loop: "receive_loop E p s = Some y \<Longrightarrow> nm_ok s \<Longrightarrow> nm_ok y"
proof (induction rule: receive_loop.raw_induct [rotated 1, consumes 1])
  case (1 rec E p s y)
  show ?case
  proof (cases "transport_at p s")
    case None
    then show ?thesis using 1 by simp
  next
    case (Some t)
    obtain m t' where m: "t_pop_receive (env_transport E) BUF_SIZE t = (m, t')" by (rule prod.exhaust)
    have c: "core (put_transport p t' s) = core s" using Some by (simp add: frame)
    note ok = nm_ok_core [OF c 1(3)]
    have "transport_at p (put_transport p t' s) \<noteq> None" using transport_at_core [OF c, of p] Some by simp
    then show ?thesis using 1(1,2) Some m ok
      by (auto split: option.splits Option.bind_splits dest!: nm_ok_packet [rotated 2])
  qed
qed

lemma nm_ok_receive_each: "receive_each E ps s = Some s' \<Longrightarrow> nm_ok s \<Longrightarrow> nm_ok s'"
  by (induction ps arbitrary: s) (auto split: Option.bind_splits dest: nm_ok_receive_loop)

lemma length_poll_all: "poll_all T ts = Some us \<Longrightarrow> length us = length ts"
  by (induction ts arbitrary: us) (auto split: Option.bind_splits)

lemma core_poll_transports: "poll_transports E s = Some s' \<Longrightarrow> core s' = core s"
  by (auto simp: poll_transports_def core_parts split: Option.bind_splits option.splits dest: length_poll_all)

lemma core_time_sync [frame]: "core (poll_client_time_sync E s) = core s"
  by (simp add: poll_client_time_sync_def Let_def case_prod_unfold frame)

lemma core_update_bandwidth [frame]: "core (s\<lparr>nm_clients := map (update_bandwidth t) (nm_clients s)\<rparr>) = core s"
  by (simp add: core_parts)

lemma nm_ok_poll: "nm_ok s \<Longrightarrow> nm_poll E s = Some s' \<Longrightarrow> nm_ok s'"
proof -
  assume ok: "nm_ok s" and r: "nm_poll E s = Some s'"
  have "core s' = core s \<or> (\<exists>s1 s2. poll_transports E s = Some s1 \<and> poll_transport_receives E s1 = Some s2 \<and> core s' = core s2)"
    using r by (auto simp: nm_poll_def Let_def case_prod_unfold frame split: if_splits Option.bind_splits option.splits)
  then show ?thesis
    using ok nm_ok_receive_each nm_ok_core [OF core_poll_transports] unfolding poll_transport_receives_def
    by (metis nm_ok_core)
qed

lemma core_nm_stop:
  "nm_mode (nm_stop E s) = NmNone" "nm_clients (nm_stop E s) = []" "nm_config (nm_stop E s) = nm_config s"
  "primary (nm_stop E s) = None" "extras (nm_stop E s) = []"
proof -
  have "core (fold (farewell E) cs s) = core s" for cs and s :: "'a nm"
    by (induction cs arbitrary: s) (simp_all add: farewell_def frame split: option.split)
  then have "nm_config (fold (farewell E) cs s) = nm_config s" for cs and s :: "'a nm" unfolding core_parts by blast
  moreover have "nm_config (snd (primary_send E d r s)) = nm_config s" for d r and s :: "'a nm"
    using core_sends(3) [of E d r s] unfolding core_parts by blast
  ultimately show "nm_config (nm_stop E s) = nm_config s" by (simp add: nm_stop_def Let_def disconnect_primary_def)
qed (simp_all add: nm_stop_def Let_def)

lemma max_clients_ok: "nm_ok s \<Longrightarrow> max_clients (nm_config s) < 2 ^ 64"
  by (simp add: nm_ok_def core_def)

lemma nm_ok_stop: "nm_ok s \<Longrightarrow> nm_ok (nm_stop E s)"
  by (metis core_nm_stop(2,3) max_clients_ok nm_ok_no_clients)

text \<open>Local clients have no transport, so only their identifier matters.\<close>

lemma nm_ok_add_local:
  assumes ok: "nm_ok s" and "length (nm_clients s) < 2 ^ 64 - 1" "generate_client_id s = Some i" "serving s"
    and c: "core s' = (nm_mode s, nm_config s, map entry_key (nm_clients s) @ [(i, a, None, True)], primary s \<noteq> None, length (extras s))"
  shows "nm_ok s'"
proof -
  note i = fresh_id_nonzero [OF assms(2,3)]
  have "i \<notin> fst ` set (map entry_key (nm_clients s))" using i(2) by (auto simp: entry_key_def)
  then have "keys_ok (max_clients (nm_config s)) (primary s \<noteq> None) (length (extras s)) (map entry_key (nm_clients s) @ [(i, a, None, True)])"
    using ok i(1) by (intro keys_ok_snoc) (auto simp: nm_ok_def core_def)
  then show ?thesis unfolding nm_ok_def c using assms(4) max_clients_ok [OF ok] by (auto simp: serving_def)
qed

lemma nm_ok_start_host:
  assumes "nm_ok s" "nm_clients s = []" "serving s" "start_host s = Some s'"
  shows "nm_ok s'"
proof -
  obtain i where i: "generate_client_id s = Some i" using assms(4) by (auto simp: start_host_def split: option.splits)
  then show ?thesis using assms
    by (intro nm_ok_add_local [of s i s' addr_default])
      (auto simp: start_host_def Let_def frame core_def entry_key_def new_client_entry_def nm_event_def)
qed

lemma nm_ok_start:
  assumes ok: "nm_ok s" and cfg: "max_clients cfg < 2 ^ 64" and r: "nm_start E cfg s = Some (b, s')"
  shows "nm_ok s'"
proof -
  define s0 where "s0 = (if nm_mode s \<noteq> NmNone then nm_stop E s else s)"
  have e: "nm_clients s0 = []" using ok by (auto simp: s0_def core_nm_stop nm_ok_def core_def)
  have conn: "nm_ok (send_connect_request E s)" if "nm_ok s" for s :: "'a nm" using that by (simp add: nm_ok_def frame)
  have host: "start_host t = Some s' \<Longrightarrow> nm_mode t = NmHost \<Longrightarrow> nm_clients t = [] \<Longrightarrow> nm_config t = cfg \<Longrightarrow> nm_ok s'" for t
    using nm_ok_start_host [of t s'] nm_ok_no_clients [of t] cfg by (simp add: serving_def)
  have none: "nm_clients t = [] \<Longrightarrow> nm_config t = cfg \<Longrightarrow> nm_ok t" for t :: "'a nm" using nm_ok_no_clients [of t] cfg by simp
  show ?thesis using r e
    by (auto simp: nm_start_def s0_def [symmetric] Let_def case_prod_unfold split: if_splits
        intro!: conn intro: none dest: host)
qed

lemma nm_ok_add_local_client:
  assumes "nm_ok s" "length (nm_clients s) < 2 ^ 64 - 1" "add_local_client s = Some (i, s')"
  shows "nm_ok s'"
proof (cases "serving s")
  case True
  have "core (s\<lparr>nm_clients := cs\<rparr>) = (nm_mode s, nm_config s, map entry_key cs, primary s \<noteq> None, length (extras s))" for cs
    by (simp add: core_def)
  then show ?thesis using assms True
    by (intro nm_ok_add_local [of s i s' addr_default])
      (auto simp: add_local_client_def Let_def frame entry_key_def new_client_entry_def split: option.splits)
qed (use assms in \<open>simp add: add_local_client_def\<close>)

lemma core_send_client [frame]: "core (snd (nm_send_to E c d r s)) = core s" "core (snd (nm_send E d r s)) = core s"
  by (auto simp: nm_send_to_def nm_send_def Let_def case_prod_unfold frame split: option.split)

lemma broadcast_loop_core:
  "map entry_key (fst (broadcast_loop E d r x cs s)) = map entry_key cs \<and> core (snd (broadcast_loop E d r x cs s)) = core s"
  by (induction cs arbitrary: s) (auto simp: Let_def case_prod_unfold frame split: option.split)

lemma core_set_clients: "map entry_key cs = map entry_key (nm_clients s) \<Longrightarrow> core (s\<lparr>nm_clients := cs\<rparr>) = core s"
  by (simp add: core_parts)

lemma core_broadcast_loop [frame]:
  "core ((snd (broadcast_loop E d r x (nm_clients s) s))\<lparr>nm_clients := fst (broadcast_loop E d r x (nm_clients s) s)\<rparr>) = core s"
  using broadcast_loop_core [of E d r x "nm_clients s" s] by (simp add: core_parts)

lemma core_broadcast [frame]: "core (nm_broadcast E d r x s) = core s"
  by (simp add: nm_broadcast_def Let_def case_prod_unfold frame)

lemma nm_ok_disconnect_client: "nm_ok s \<Longrightarrow> nm_ok (nm_disconnect_client E c s)"
proof -
  assume ok: "nm_ok s"
  have "core_ok (core (erase_client c s'))" if "core s' = core s" for s'
    using nm_ok_erase [of s'] ok that by (simp add: nm_ok_def)
  then show ?thesis using ok by (auto simp: nm_disconnect_client_def nm_ok_def Let_def frame split: option.split)
qed

lemma nm_ok_disconnect: "nm_ok s \<Longrightarrow> nm_ok (nm_disconnect E s)"
proof -
  assume ok: "nm_ok s"
  have "nm_ok (snd (primary_send E d r s))" for d r using ok by (simp add: nm_ok_def frame)
  then show ?thesis using ok by (simp add: nm_disconnect_def Let_def nm_ok_stop nm_ok_disconnect_client)
qed

lemma nm_ok_add_transport: "nm_ok s \<Longrightarrow> nm_ok (add_transport t s)"
  by (auto simp: nm_ok_def core_def add_transport_def intro: keys_ok_mono split: option.split)

lemma nm_ok_set_transport: "nm_ok s \<Longrightarrow> nm_ok (set_transport E t s)"
  by (auto simp: set_transport_def core_nm_stop nm_ok_def core_def)

lemma core_fold_rep [frame]:
  "core (fold (\<lambda>c s. if ce_approved c then rep_connected (ce_id c) s else s) cs s) = core s"
  by (induction cs arbitrary: s) (simp_all add: frame)

lemma core_managers [frame]: "core (set_replication_manager m s) = core s"
  by (auto simp: set_replication_manager_def Let_def frame)

text \<open>
  The states a manager reaches by its operations, in any order and under any environment (the transports'
  functions and the clock may differ from call to call). \<open>max_clients\<close> is a \<open>size_t\<close>; a list of \<open>2 ^ 64 - 1\<close>
  clients does not fit into memory.
\<close>

inductive nm_reachable :: "'s nm \<Rightarrow> bool" where
  fresh: "nm_reachable new_nm"
| start: "nm_reachable s \<Longrightarrow> max_clients cfg < 2 ^ 64 \<Longrightarrow> nm_start E cfg s = Some (ok, s') \<Longrightarrow> nm_reachable s'"
| stop: "nm_reachable s \<Longrightarrow> nm_reachable (nm_stop E s)"
| poll: "nm_reachable s \<Longrightarrow> nm_poll E s = Some s' \<Longrightarrow> nm_reachable s'"
| set_transport: "nm_reachable s \<Longrightarrow> nm_reachable (set_transport E t s)"
| add_transport: "nm_reachable s \<Longrightarrow> nm_reachable (add_transport t s)"
| add_local: "nm_reachable s \<Longrightarrow> length (nm_clients s) < 2 ^ 64 - 1 \<Longrightarrow> add_local_client s = Some (i, s') \<Longrightarrow> nm_reachable s'"
| kick: "nm_reachable s \<Longrightarrow> nm_reachable (nm_disconnect_client E c s)"
| disconnect: "nm_reachable s \<Longrightarrow> nm_reachable (nm_disconnect E s)"
| call: "nm_reachable s \<Longrightarrow> nm_reachable (nm_call E c s)"
| pop: "nm_reachable s \<Longrightarrow> nm_reachable (snd (pop_message s))"
| set_token: "nm_reachable s \<Longrightarrow> nm_reachable (set_connection_token b s)"
| make_token: "nm_reachable s \<Longrightarrow> nm_reachable (snd (generate_connection_token E e s))"
| set_entity: "nm_reachable s \<Longrightarrow> nm_reachable (set_entity_manager em s)"
| set_replication: "nm_reachable s \<Longrightarrow> nm_reachable (set_replication_manager rep s)"
| set_rpc: "nm_reachable s \<Longrightarrow> nm_reachable (set_rpc_manager rpc s)"

lemma core_application [frame]:
  "core (snd (pop_message s)) = core s" "core (set_connection_token b s) = core s"
  "core (snd (generate_connection_token E e s)) = core s" "core (set_entity_manager em s) = core s"
  "core (set_rpc_manager rpc s) = core s"
  by (simp_all add: pop_message_def set_connection_token_def generate_connection_token_def Let_def case_prod_unfold
      set_entity_manager_def set_rpc_manager_def frame)

lemma core_call [frame]: "core (nm_call E c s) = core s"
  by (cases c) (simp_all add: frame)

lemma nm_ok_reachable: "nm_reachable s \<Longrightarrow> nm_ok s"
proof (induction rule: nm_reachable.induct)
  case fresh
  show ?case by (simp add: nm_ok_def core_def new_nm_def default_config_def)
next
  case (start s cfg E ok s')
  show ?case by (rule nm_ok_start [OF start.IH start.hyps(2,3)])
next
  case (poll s E s')
  show ?case by (rule nm_ok_poll [OF poll.IH poll.hyps(2)])
next
  case (add_local s i s')
  show ?case by (rule nm_ok_add_local_client [OF add_local.IH add_local.hyps(2,3)])
qed (simp_all only: nm_ok_stop nm_ok_set_transport nm_ok_add_transport nm_ok_disconnect_client nm_ok_disconnect,
    simp_all only: nm_ok_def frame)

text \<open>C6: In every state a connection manager reaches by any sequence of its operations, the identifiers of its
  clients are distinct and not zero, every client is approved, the transport a client is reached through
  exists, there are no clients unless the manager is a server or a host, no two clients behind a transport
  have the same address, and there are at most \<open>max_clients\<close> of these.
\<close>

theorem manager_invariant:
  assumes "nm_reachable s"
  shows "distinct (map ce_id (nm_clients s)) \<and> 0 \<notin> ce_id ` set (nm_clients s) \<and>
    (\<forall>c\<in>set (nm_clients s). ce_approved c \<and> (\<forall>p. ce_transport c = Some p \<longrightarrow> transport_at p s \<noteq> None)) \<and>
    (serving s \<or> nm_clients s = []) \<and>
    sorted_wrt (\<lambda>c d. \<not> addr_eq (ce_address c) (ce_address d)) (filter (\<lambda>c. ce_transport c \<noteq> None) (nm_clients s)) \<and>
    length (filter (\<lambda>c. ce_transport c \<noteq> None) (nm_clients s)) \<le> max_clients (nm_config s)"
proof -
  have k: "keys_ok (max_clients (nm_config s)) (primary s \<noteq> None) (length (extras s)) (map entry_key (nm_clients s))"
    and m: "nm_clients s = [] \<or> serving s"
    using nm_ok_reachable [OF assms] by (auto simp: nm_ok_def core_def serving_def)
  have f: "filter remote_key (map entry_key (nm_clients s)) = map entry_key (filter (\<lambda>c. ce_transport c \<noteq> None) (nm_clients s))"
    by (simp add: filter_map comp_def remote_key_def entry_key_def)
  have p: "ptr_in (primary s \<noteq> None) (length (extras s)) p \<longleftrightarrow> transport_at p s \<noteq> None" for p
    by (auto simp: ptr_in_def transport_at_def split: tptr.split)
  from k show ?thesis using m unfolding keys_ok_def f p
    by (auto simp: sorted_wrt_map other_address_def entry_key_def comp_def image_image p)
qed

subsection \<open>Admission\<close>

text \<open>What the helpers leave alone.\<close>

lemma clients_kept [simp]:
  "nm_clients (nm_event e s) = nm_clients s" "nm_clients (rep_connected i s) = nm_clients s"
  "nm_clients (rep_disconnected i s) = nm_clients s" "nm_clients (push_message i d s) = nm_clients s"
  "nm_clients (put_transport p t s) = nm_clients s" "nm_clients (snd (nm_now E s)) = nm_clients s"
  by (simp_all add: nm_event_def rep_connected_def rep_disconnected_def push_message_def put_transport_def nm_now_def
      split: tptr.split)

lemma sends_kept [simp]:
  "nm_clients (snd (transport_send_to E p a d r s)) = nm_clients s"
  "nm_clients (send_sys E p a ty d s) = nm_clients s"
  "nm_clients (disconnect_transport_client E p a s) = nm_clients s"
  by (simp_all add: transport_send_to_def send_sys_def disconnect_transport_client_def case_prod_unfold Let_def split: option.split)

lemma transport_kept [simp]:
  "transport_at p (nm_event e s) = transport_at p s" "transport_at p (rep_connected i s) = transport_at p s"
  "transport_at p (s\<lparr>nm_clients := cs\<rparr>) = transport_at p s" "transport_at p (s\<lparr>clock_reads := n\<rparr>) = transport_at p s"
  by (simp_all add: nm_event_def rep_connected_def transport_at_def split: tptr.split)

lemma send_sys_transport:
  "transport_at p s = Some t \<Longrightarrow> transport_at p (send_sys E p a ty d s) =
     Some (snd (t_send_to (env_transport E) a (sys_message ty d) ReliableOrdered t))"
  by (auto simp: send_sys_def transport_send_to_def case_prod_unfold Let_def transport_at_def put_transport_def
      split: tptr.splits if_splits)

definition request_time :: "'s nm_env \<Rightarrow> 's nm \<Rightarrow> u32" where
  "request_time E s = word_of_int \<lfloor>env_clock E (clock_reads s)\<rfloor>"

lemma check_token_eq:
  "check_token E d s =
     (if require_token (nm_config s) \<and> TOKEN_SIZE \<le> length d
      then ((token_validate (env_raw E) (take TOKEN_SIZE d) (token_secret (nm_config s)) (request_time E s),
             if token_validate (env_raw E) (take TOKEN_SIZE d) (token_secret (nm_config s)) (request_time E s)
             then drop TOKEN_SIZE d else d), s\<lparr>clock_reads := clock_reads s + 1\<rparr>)
      else ((\<not> require_token (nm_config s), d), s))"
  by (simp add: check_token_def Let_def case_prod_unfold nm_seconds_def nm_now_def request_time_def)

lemma configure_limiter_state: "\<exists>n. snd (configure_limiter E s) = s\<lparr>clock_reads := n\<rparr>"
  by (auto simp: configure_limiter_def Let_def case_prod_unfold nm_now_def)

lemma accept_result:
  assumes "transport_at p s = Some t" "generate_client_id s = Some i"
  obtains s' e where "accept_client E p a s = Some s'" "nm_clients s' = nm_clients s @ [e]" "ce_id e = i" "ce_address e = a"
    "ce_transport e = Some p" "ce_approved e"
    "transport_at p s' = Some (snd (t_send_to (env_transport E) a (sys_message CONNECT_ACCEPT (nm_write_u64 (env_endian E) i)) ReliableOrdered t))"
proof -
  obtain n where n: "snd (configure_limiter E s) = s\<lparr>clock_reads := n\<rparr>" using configure_limiter_state by blast
  define e where "e = new_client_entry\<lparr>ce_id := i, ce_address := a, ce_transport := Some p, ce_approved := True,
    ce_limiter := fst (configure_limiter E s)\<rparr>"
  define s1 where "s1 = s\<lparr>clock_reads := n, nm_clients := nm_clients s @ [e]\<rparr>"
  let ?s = "rep_connected i (nm_event (EvConnected i) (send_sys E p a CONNECT_ACCEPT (nm_write_u64 (env_endian E) i) s1))"
  have "accept_client E p a s = Some ?s"
    using assms n by (simp add: accept_client_def Let_def case_prod_unfold e_def s1_def)
  moreover have "nm_clients s1 = nm_clients s @ [e]" "transport_at p s1 = Some t" using assms(1) by (simp_all add: s1_def)
  moreover have "ce_id e = i" "ce_address e = a" "ce_transport e = Some p" "ce_approved e" by (simp_all add: e_def)
  ultimately show thesis by (intro that [of ?s e]) (simp_all add: send_sys_transport)
qed

text \<open>A connection request, and the conditions under which it is granted.\<close>

definition is_request :: "nat \<Rightarrow> bytes \<Rightarrow> bool" where
  "is_request m d \<longleftrightarrow> (\<exists>payload. d = sys_message CONNECT_REQUEST payload) \<and> length d \<le> m"

definition admits :: "'s nm_env \<Rightarrow> 's nm \<Rightarrow> address \<Rightarrow> bytes \<Rightarrow> bool" where
  "admits E s a payload \<longleftrightarrow> approved_count s < max_clients (nm_config s) \<and>
     (require_token (nm_config s) \<longrightarrow> TOKEN_SIZE \<le> length payload \<and>
        token_validate (env_raw E) (take TOKEN_SIZE payload) (token_secret (nm_config s)) (request_time E s)) \<and>
     (\<forall>f. env_approval E = Some f \<longrightarrow> f a (if require_token (nm_config s) then drop TOKEN_SIZE payload else payload))"

lemma magic_split: "3 \<le> length d \<and> take 2 d = SYS_MAGIC \<longleftrightarrow> (\<exists>ty payload. d = sys_message ty payload)"
proof
  assume d: "3 \<le> length d \<and> take 2 d = SYS_MAGIC"
  then have "drop 2 d = d ! 2 # drop 3 d" using Cons_nth_drop_Suc [of 2 d] by (simp add: numeral_3_eq_3 numeral_2_eq_2)
  then have "d = sys_message (d ! 2) (drop 3 d)" using d append_take_drop_id [of 2 d] by (simp add: sys_message_def)
  then show "\<exists>ty payload. d = sys_message ty payload" by blast
qed (auto simp: sys_message_def SYS_MAGIC_def)

lemma sys_message_parts [simp]:
  "sys_message ty d \<noteq> []" "take 2 (sys_message ty d) = SYS_MAGIC" "sys_message ty d ! 2 = ty" "drop 3 (sys_message ty d) = d"
  "length (sys_message ty d) = 3 + length d" "sys_message ty d = sys_message ty' d' \<longleftrightarrow> ty = ty' \<and> d = d'"
  by (simp_all add: sys_message_def SYS_MAGIC_def)

lemma handle_sys_unknown:
  "serving s \<Longrightarrow> find_client_by_address a s = None \<Longrightarrow> length d + 3 \<le> max_packet_size (nm_config s) \<Longrightarrow>
   handle_packet E p a (sys_message ty d) s = (if ty = CONNECT_REQUEST then on_connect_request E p a d s else Some s)"
  by (simp add: handle_packet_def Let_def process_system_message_def)

lemma unknown_not_request:
  "serving s \<Longrightarrow> find_client_by_address a s = None \<Longrightarrow> \<not> is_request (max_packet_size (nm_config s)) d \<Longrightarrow> handle_packet E p a d s = Some s"
  by (cases "3 \<le> length d \<and> take 2 d = SYS_MAGIC")
    (auto simp: magic_split handle_sys_unknown is_request_def handle_packet_def drop_oversized_def on_user_data_def Let_def)

lemma clock_kept [simp]:
  "find_client_by_address a (s\<lparr>clock_reads := n\<rparr>) = find_client_by_address a s"
  "generate_client_id (s\<lparr>clock_reads := n\<rparr>) = generate_client_id s" "approved_count (s\<lparr>clock_reads := n\<rparr>) = approved_count s"
  by (simp_all add: find_client_by_address_def generate_client_id_def approved_count_def)

lemma request_granted:
  assumes "serving s" "find_client_by_address a s = None" "admits E s a d"
  shows "\<exists>n. on_connect_request E p a d s = accept_client E p a (s\<lparr>clock_reads := n\<rparr>)"
proof -
  have "s\<lparr>clock_reads := clock_reads s\<rparr> = s" by simp
  then show ?thesis using assms
    by (auto simp: on_connect_request_def check_token_eq admits_def Let_def not_le split: option.splits intro: exI [of _ "clock_reads s"])
qed

lemma request_denied:
  assumes "serving s" "find_client_by_address a s = None" "\<not> admits E s a d"
  shows "\<exists>s'. on_connect_request E p a d s = Some s' \<and> nm_clients s' = nm_clients s"
  using assms by (auto simp: on_connect_request_def check_token_eq admits_def Let_def not_le split: option.splits)

lemma find_snoc: "find P xs = None \<Longrightarrow> P x \<Longrightarrow> find P (xs @ [x]) = Some x"
  by (induction xs) (auto split: if_splits)

text \<open>C5: Admission is decided by the stated conditions. A packet from an address that is no client's makes a
  server or a host add exactly one client, with a new nonzero identifier, that address and that transport, if it
  is a connection request that has a valid token where tokens are required, is approved by the callback where there
  is one, and finds fewer than \<open>max_clients\<close> clients. Otherwise the clients stay the same, and if the packet is no
  connection request, everything does.
\<close>

theorem admission_decided:
  assumes "nm_reachable s" "serving s" "find_client_by_address a s = None" "transport_at p s \<noteq> None"
  shows "\<exists>s'. handle_packet E p a d s = Some s' \<and>
    (if is_request (max_packet_size (nm_config s)) d \<and> admits E s a (drop 3 d)
     then \<exists>e. nm_clients s' = nm_clients s @ [e] \<and> ce_address e = a \<and> ce_transport e = Some p \<and> ce_approved e \<and>
            ce_id e \<noteq> 0 \<and> ce_id e \<notin> ce_id ` set (nm_clients s)
     else nm_clients s' = nm_clients s \<and> (\<not> is_request (max_packet_size (nm_config s)) d \<longrightarrow> s' = s))"
proof (cases "is_request (max_packet_size (nm_config s)) d")
  case False
  then show ?thesis using unknown_not_request [OF assms(2,3)] by auto
next
  case True
  then obtain payload where d: "d = sys_message CONNECT_REQUEST payload" "length payload + 3 \<le> max_packet_size (nm_config s)"
    by (auto simp: is_request_def)
  have h: "handle_packet E p a d s = on_connect_request E p a payload s" using handle_sys_unknown [OF assms(2,3) d(2)] d(1) by simp
  show ?thesis
  proof (cases "admits E s a payload")
    case False
    then show ?thesis using request_denied [OF assms(2,3) False] h d True by auto
  next
    case adm: True
    obtain n where n: "on_connect_request E p a payload s = accept_client E p a (s\<lparr>clock_reads := n\<rparr>)"
      using request_granted [OF assms(2,3) adm] by blast
    obtain t where t: "transport_at p (s\<lparr>clock_reads := n\<rparr>) = Some t" using assms(4) by auto
    have ok: "nm_ok s" using nm_ok_reachable assms(1) .
    have len: "length (nm_clients s) < 2 ^ 64 - 1"
      using adm approved_count_all [OF ok] max_clients_ok [OF ok] by (simp add: admits_def)
    then obtain i where i: "generate_client_id s = Some i"
      using free_client_id_small unfolding generate_client_id_def by metis
    note fresh = fresh_id_nonzero [OF len i]
    have "generate_client_id (s\<lparr>clock_reads := n\<rparr>) = Some i" using i by simp
    then obtain s' e where "accept_client E p a (s\<lparr>clock_reads := n\<rparr>) = Some s'" "nm_clients s' = nm_clients (s\<lparr>clock_reads := n\<rparr>) @ [e]"
      "ce_id e = i" "ce_address e = a" "ce_transport e = Some p" "ce_approved e"
      by (rule accept_result [OF t])
    then show ?thesis using fresh h n adm True d by auto
  qed
qed

text \<open>C18: The handshake with a token. A client that holds a token the server has issued, still valid, sends its
  connection request; the server, which does not know its address, has room for one more and no approval callback, adds the client and answers; the client
  takes from the answer the identifier under which the server knows it.
\<close>

theorem token_handshake:
  assumes server: "nm_reachable s" "serving s" "find_client_by_address a s = None" "transport_at p s = Some t"
      "approved_count s < max_clients (nm_config s)" "67 \<le> max_packet_size (nm_config s)" "env_approval E = None"
    and token: "token_generate raw (token_secret (nm_config s)) e rid t0 = Some tok" "length raw = 64" "length (env_raw E) = 64"
      "0 < e" "unat e < 65536" "unat t0 + unat e < 2 ^ 32" "unat t0 \<le> unat (request_time E s)"
      "unat (request_time E s) \<le> unat t0 + unat e"
    and client: "nm_mode c = NmClient" "client_token c = tok" "primary c = Some ct" "11 \<le> max_packet_size (nm_config c)"
      "env_endian Ec = env_endian E"
  shows "\<exists>request s' i answer c'.
    primary (send_connect_request Ec c) = Some (snd (t_send (env_transport Ec) request ReliableOrdered ct)) \<and>
    handle_packet E p a request s = Some s' \<and> \<not> is_client_connected i s \<and> is_client_connected i s' \<and> client_address i s' = a \<and>
    transport_at p s' = Some (snd (t_send_to (env_transport E) a answer ReliableOrdered t)) \<and>
    handle_packet Ec q b answer c = Some c' \<and> client_connected c' \<and> local_client_id c' = i"
proof -
  let ?m = "sys_message CONNECT_REQUEST tok" and ?s = "\<lambda>n. s\<lparr>clock_reads := n\<rparr>"
  have e: "e \<le> 86400" using token(5) by (simp add: word_le_nat_alt)
  have len: "length tok = 64" using validate_generated(3) [OF token(3,4) e token(1,2)] .
  have valid: "token_validate (env_raw E) tok (token_secret (nm_config s)) (request_time E s)"
    using validate_generated(1) [OF token(3,4) e token(1,2)] window_iff [OF token(5,6)] token(7,8) by (simp add: word_le_nat_alt)
  then have adm: "admits E s a tok" using server(5,7) len by (simp add: admits_def TOKEN_SIZE_def)
  obtain n where n: "on_connect_request E p a tok s = accept_client E p a (?s n)" using request_granted [OF server(2,3) adm] by blast
  have ok: "nm_ok s" using nm_ok_reachable server(1) .
  have room: "length (nm_clients s) < 2 ^ 64 - 1"
    using server(5) approved_count_all [OF ok] max_clients_ok [OF ok] by simp
  then obtain i where i: "generate_client_id s = Some i" using free_client_id_small unfolding generate_client_id_def by metis
  note fresh = fresh_id_nonzero [OF room i]
  let ?a = "sys_message CONNECT_ACCEPT (nm_write_u64 (env_endian E) i)"
  have "generate_client_id (?s n) = Some i" "transport_at p (?s n) = Some t" using i server(4) by simp_all
  then obtain s' en where s': "accept_client E p a (?s n) = Some s'" "nm_clients s' = nm_clients (?s n) @ [en]"
    "ce_id en = i" "ce_address en = a" "ce_approved en"
    "transport_at p s' = Some (snd (t_send_to (env_transport E) a ?a ReliableOrdered t))"
    by (metis accept_result)
  have "find (\<lambda>c. ce_id c = i) (nm_clients s) = None" using fresh(2) by (simp add: find_id_None)
  moreover from this have "find (\<lambda>c. ce_id c = i) (nm_clients s @ [en]) = Some en"
    using s'(3) by (intro find_snoc)
  moreover have "handle_packet E p a ?m s = Some s'"
    using handle_sys_unknown [OF server(2,3), of tok] len server(6) n s'(1) by simp
  moreover have "\<not> serving c" using client(1) by (simp add: serving_def)
  then have "\<exists>c'. handle_packet Ec q b ?a c = Some c' \<and> client_connected c' \<and> local_client_id c' = i"
    using client by (simp add: handle_packet_def Let_def process_system_message_def sys_types on_connect_accept_def rep_connected_def nm_event_def)
  moreover have "primary (send_connect_request Ec c) = Some (snd (t_send (env_transport Ec) ?m ReliableOrdered ct))"
    using client by (simp add: send_connect_request_def primary_send_def Let_def case_prod_unfold)
  ultimately show ?thesis using s' fresh(2)
    by (intro exI [of _ ?m] exI [of _ s'] exI [of _ i] exI [of _ ?a])
      (auto simp: is_client_connected_def find_client_by_id_def client_address_def)
qed

subsection \<open>Messages\<close>

text \<open>The queue between polling and the application: what is still to be popped, first in, first out.\<close>

definition unread :: "'s nm \<Rightarrow> (u64 \<times> bytes) list" where
  "unread s = drop (message_read_idx s) (message_queue s)"

lemma pop_message_unread:
  "fst (pop_message s) = (case unread s of [] \<Rightarrow> None | m # _ \<Rightarrow> Some m)" "unread (snd (pop_message s)) = tl (unread s)"
  by (auto simp: pop_message_def unread_def drop_Suc tl_drop hd_drop_conv_nth [symmetric] split: list.split)

lemma unread_push: "message_read_idx s \<le> length (message_queue s) \<Longrightarrow> unread (push_message i d s) = unread s @ [(i, d)]"
  by (simp add: unread_def push_message_def)

text \<open>Messages that are not the manager's own, and whom they are attributed to.\<close>

definition user_data :: "nat \<Rightarrow> bytes \<Rightarrow> bool" where
  "user_data m d \<longleftrightarrow> d \<noteq> [] \<and> length d \<le> m \<and> length d \<le> BUF_SIZE \<and> (\<nexists>ty payload. d = sys_message ty payload)"

definition sender_of :: "'s nm \<Rightarrow> address \<Rightarrow> u64 option" where
  "sender_of s a = (if serving s then map_option ce_id (find_client_by_address a s) else if nm_mode s = NmClient then Some 0 else None)"

fun received :: "'s nm \<Rightarrow> (bytes \<times> address) list \<Rightarrow> (u64 \<times> bytes) list" where
  "received s [] = []"
| "received s ((d, a) # ms) = (case sender_of s a of None \<Rightarrow> received s ms | Some i \<Rightarrow> (i, d) # received s ms)"

definition unlimited :: "rate_limiter \<Rightarrow> bool" where
  "unlimited l \<longleftrightarrow> rate_per_sec (msg_bucket l) \<le> 0 \<and> burst (msg_bucket l) \<le> 0 \<and> rate_per_sec (byte_bucket l) \<le> 0 \<and> burst (byte_bucket l) \<le> 0"

definition all_unlimited :: "'s nm \<Rightarrow> bool" where
  "all_unlimited s \<longleftrightarrow> (\<forall>c\<in>set (nm_clients s). unlimited (ce_limiter c))"

lemma allow_unlimited: "unlimited l \<Longrightarrow> fst (allow_message t1 t2 n l) \<and> unlimited (snd (allow_message t1 t2 n l))"
proof
  show "unlimited l \<Longrightarrow> fst (allow_message t1 t2 n l)"
    by (simp add: unlimited_def allow_message_def consume_disabled Let_def)
qed (simp add: unlimited_def allow_message_buckets consume_disabled)

lemma find_map_key: "map_option g (find (\<lambda>x. P (g x)) xs) = find P (map g xs)"
  by (induction xs) simp_all

lemma find_key:
  assumes "map entry_key cs' = map entry_key cs"
  shows "map_option ce_id (find (\<lambda>c. addr_eq (ce_address c) a) cs') = map_option ce_id (find (\<lambda>c. addr_eq (ce_address c) a) cs)"
proof -
  have "map_option ce_id (find (\<lambda>c. addr_eq (ce_address c) a) xs) =
      map_option fst (find (\<lambda>k. addr_eq (fst (snd k)) a) (map entry_key xs))" for xs
    unfolding find_map_key [symmetric] by (simp add: option.map_comp comp_def entry_key_def)
  then show ?thesis using assms by simp
qed

lemma sender_of_core: "core s' = core s \<Longrightarrow> sender_of s' a = sender_of s a"
proof -
  assume c: "core s' = core s"
  then have "map entry_key (nm_clients s') = map entry_key (nm_clients s)" "nm_mode s' = nm_mode s" by (simp_all only: core_parts)
  then show ?thesis using find_key [of "nm_clients s'" "nm_clients s" a]
    by (simp add: sender_of_def find_client_by_address_def serving_core [OF c])
qed

lemma received_core: assumes "core s' = core s" shows "received s' ms = received s ms"
proof (induction ms)
  case (Cons m ms)
  then show ?case by (cases m) (simp add: sender_of_core [OF assms] split: option.split)
qed simp

lemma set_update_first: "x \<in> set (update_first P f xs) \<Longrightarrow> x \<in> set xs \<or> (\<exists>y\<in>set xs. x = f y)"
  by (induction xs) (auto split: if_splits)

lemma unlimited_update:
  "all_unlimited s \<Longrightarrow> (\<And>c. unlimited (ce_limiter c) \<Longrightarrow> unlimited (ce_limiter (f c))) \<Longrightarrow> all_unlimited (update_by_address a f s)"
  by (auto simp: all_unlimited_def update_by_address_def dest!: set_update_first)

lemma unlimited_kept [simp]:
  "all_unlimited (nm_event e s) = all_unlimited s" "all_unlimited (push_message i d s) = all_unlimited s"
  "all_unlimited (put_transport p t s) = all_unlimited s" "all_unlimited (s\<lparr>clock_reads := n\<rparr>) = all_unlimited s"
  by (simp_all add: all_unlimited_def)

definition queues :: "'s nm \<Rightarrow> nat \<times> (u64 \<times> bytes) list \<times> nm_event list \<times> 's option" where
  "queues s = (message_read_idx s, message_queue s, events s, primary s)"

definition inbox :: "'s nm \<Rightarrow> nat \<times> (u64 \<times> bytes) list \<times> nm_event list" where
  "inbox s = (message_read_idx s, message_queue s, events s)"

lemma received_Cons: "received s (m # ms) = received s [m] @ received s ms"
  by (cases m) (simp split: option.split)

text \<open>One message: it is queued under its sender, reported, and nothing else that matters here changes.\<close>

lemma queues_simps [simp]:
  "queues (update_by_address a f s) = queues s" "queues (s\<lparr>clock_reads := n\<rparr>) = queues s"
  "queues (nm_event e (push_message i d s)) = (message_read_idx s, message_queue s @ [(i, d)], events s @ [e], primary s)"
  by (simp_all add: queues_def update_by_address_def nm_event_def push_message_def)

lemma user_data_step:
  assumes "user_data (max_packet_size (nm_config s)) d" "all_unlimited s"
  obtains s' where "handle_packet E p a d s = Some s'" "core s' = core s" "all_unlimited s'"
    "queues s' = (message_read_idx s, message_queue s @ received s [(d, a)],
       events s @ map (\<lambda>(i, d). EvData i d) (received s [(d, a)]), primary s)"
proof -
  have h: "handle_packet E p a d s = Some (on_user_data E a d s)"
    using assms(1) magic_split [of d] by (auto simp: handle_packet_def user_data_def)
  let ?q = "(message_read_idx s, message_queue s @ received s [(d, a)],
    events s @ map (\<lambda>(i, d). EvData i d) (received s [(d, a)]), primary s)"
  have "queues (on_user_data E a d s) = ?q \<and> all_unlimited (on_user_data E a d s)"
  proof (cases "find_client_by_address a s")
    case None
    then show ?thesis using assms(2)
      by (auto simp: on_user_data_def sender_of_def queues_def nm_event_def push_message_def all_unlimited_def)
  next
    case (Some c)
    then have "c \<in> set (nm_clients s)" by (auto simp: find_client_by_address_def find_Some_iff)
    then have l: "unlimited (ce_limiter c)" using assms(2) by (simp add: all_unlimited_def)
    note al = allow_unlimited [OF l]
    have "all_unlimited (on_user_data E a d s)" using Some assms(2) al
      by (auto simp: on_user_data_def Let_def case_prod_unfold nm_now_def intro!: unlimited_update)
    moreover have "queues (on_user_data E a d s) = ?q"
      using Some al by (auto simp: on_user_data_def Let_def case_prod_unfold nm_now_def sender_of_def)
        (auto simp: queues_def update_by_address_def nm_event_def push_message_def)
    ultimately show ?thesis by simp
  qed
  then show thesis using h that [of "on_user_data E a d s"] core_user_data [of E a d s] by blast
qed

text \<open>A transport whose receive queue keeps the contract, holding nothing but such messages.\<close>

locale address_queue = receive_queue pop waiting
  for pop :: "nat \<Rightarrow> 's \<Rightarrow> (bytes \<times> address) option \<times> 's" and waiting :: "'s \<Rightarrow> (bytes \<times> address) list"
begin

text \<open>
  The loop over messages whose handling leaves the transport alone: it ends with the queue empty, and what is
  observed of the state (\<open>f\<close>) has taken one step (\<open>g\<close>) for every message, in order, each cut to the buffer.
\<close>

lemma receive_loop_steps:
  assumes pop: "t_pop_receive (env_transport E) = pop"
    and step: "\<And>s t d a. Q s \<Longrightarrow> primary s = Some t \<Longrightarrow> (d, a) \<in> M \<Longrightarrow>
      \<exists>s'. handle_packet E Primary a (take BUF_SIZE d) s = Some s' \<and> Q s' \<and> primary s' = Some t \<and> f s' = g (take BUF_SIZE d, a) (f s)"
    and put: "\<And>s t. Q s \<Longrightarrow> primary s \<noteq> None \<Longrightarrow> Q (put_transport Primary t s) \<and> f (put_transport Primary t s) = f s"
  shows "primary s = Some t \<Longrightarrow> set (waiting t) \<subseteq> M \<Longrightarrow> Q s \<Longrightarrow>
    \<exists>s' t'. receive_loop E Primary s = Some s' \<and> Q s' \<and> primary s' = Some t' \<and> waiting t' = [] \<and>
      f s' = fold g (map (\<lambda>(d, a). (take BUF_SIZE d, a)) (waiting t)) (f s)"
proof (induction "waiting t" arbitrary: s t)
  case Nil
  then obtain t' where "pop BUF_SIZE t = (None, t')" "waiting t' = []" using pop_none [of t BUF_SIZE] by (metis prod.collapse)
  then show ?case using Nil pop put [of s t']
    by (subst receive_loop.simps) (auto simp: transport_at_def put_transport_def)
next
  case (Cons m q)
  obtain d a where m: "m = (d, a)" by (rule prod.exhaust)
  obtain t1 where t1: "pop BUF_SIZE t = (Some (take BUF_SIZE d, a), t1)" "waiting t1 = q"
    using pop_some [of t d a q BUF_SIZE] Cons(2) m by (metis prod.collapse)
  define s1 where "s1 = put_transport Primary t1 s"
  have s1: "Q s1" "f s1 = f s" "primary s1 = Some t1"
    using put [of s t1] Cons(3,5) by (simp_all add: s1_def) (simp add: put_transport_def)
  have "(d, a) \<in> M" "set (waiting t1) \<subseteq> M" using Cons(2) [symmetric] Cons(4) m t1(2) by auto
  then obtain s2 where s2: "handle_packet E Primary a (take BUF_SIZE d) s1 = Some s2" "Q s2" "primary s2 = Some t1"
      "f s2 = g (take BUF_SIZE d, a) (f s)" using step [OF s1(1,3), of d a] s1(2) by auto
  from Cons(1) [OF t1(2) [symmetric] s2(3) \<open>set (waiting t1) \<subseteq> M\<close> s2(2)] obtain s' t' where
    r: "receive_loop E Primary s2 = Some s'" "Q s'" "primary s' = Some t'" "waiting t' = []"
      "f s' = fold g (map (\<lambda>(d, a). (take BUF_SIZE d, a)) q) (f s2)" using t1(2) by auto
  moreover have "receive_loop E Primary s = Some s'" using Cons(3) pop t1(1) s2(1) r(1)
    by (subst receive_loop.simps) (simp add: transport_at_def s1_def)
  ultimately show ?case using s2(4) Cons(2) [symmetric] m by auto
qed

lemma receive_loop_user_data:
  assumes "t_pop_receive (env_transport E) = pop" "primary s = Some t" "all_unlimited s"
    and data: "\<forall>(d, a)\<in>set (waiting t). user_data (max_packet_size (nm_config s)) d"
  shows "\<exists>s' t'. receive_loop E Primary s = Some s' \<and> primary s' = Some t' \<and> waiting t' = [] \<and> core s' = core s \<and>
    inbox s' = (message_read_idx s, message_queue s @ received s (waiting t),
      events s @ map (\<lambda>(i, d). EvData i d) (received s (waiting t)))"
proof -
  let ?Q = "\<lambda>s'. core s' = core s \<and> all_unlimited s'"
    and ?g = "\<lambda>m (k, q, ev). (k, q @ received s [m], ev @ map (\<lambda>(i, d). EvData i d) (received s [m]))"
  have step: "\<exists>s2. handle_packet E Primary a (take BUF_SIZE d) s1 = Some s2 \<and> ?Q s2 \<and> primary s2 = Some t1 \<and>
      inbox s2 = ?g (take BUF_SIZE d, a) (inbox s1)"
    if "?Q s1" "primary s1 = Some t1" "(d, a) \<in> set (waiting t)" for s1 t1 d a
  proof -
    have d: "user_data (max_packet_size (nm_config s)) d" using data that(3) by blast
    then have cut: "take BUF_SIZE d = d" by (simp add: user_data_def)
    have d1: "user_data (max_packet_size (nm_config s1)) d" and u1: "all_unlimited s1" using d that(1) by (simp_all add: core_parts)
    obtain s2 where "handle_packet E Primary a d s1 = Some s2" "core s2 = core s1" "all_unlimited s2"
      "queues s2 = (message_read_idx s1, message_queue s1 @ received s1 [(d, a)],
        events s1 @ map (\<lambda>(i, d). EvData i d) (received s1 [(d, a)]), primary s1)"
      by (rule user_data_step [OF d1 u1])
    moreover have rec: "received s1 [(d, a)] = received s [(d, a)]" using received_core that(1) by blast
    ultimately show ?thesis using that(1,2) unfolding cut rec by (simp add: queues_def inbox_def del: received.simps)
  qed
  have put: "?Q (put_transport Primary t1 s1) \<and> inbox (put_transport Primary t1 s1) = inbox s1"
    if "?Q s1" "primary s1 \<noteq> None" for s1 t1
    using that by (simp add: put_transport_def core_parts inbox_def all_unlimited_def)
  have cut: "map (\<lambda>(d, a). (take BUF_SIZE d, a)) ms = ms" if "\<forall>(d, a)\<in>set ms. user_data (max_packet_size (nm_config s)) d" for ms
    using that by (induction ms) (auto simp: user_data_def)
  have collect: "fold ?g ms (k, q, ev) = (k, q @ received s ms, ev @ map (\<lambda>(i, d). EvData i d) (received s ms))" for ms k q ev
  proof (induction ms arbitrary: q ev)
    case (Cons m ms)
    then show ?case by (subst (1 2) received_Cons) (simp del: received.simps)
  qed simp
  have "\<exists>s' t'. receive_loop E Primary s = Some s' \<and> ?Q s' \<and> primary s' = Some t' \<and> waiting t' = [] \<and>
      inbox s' = fold ?g (map (\<lambda>(d, a). (take BUF_SIZE d, a)) (waiting t)) (inbox s)"
    by (rule receive_loop_steps [where Q = ?Q and M = "set (waiting t)" and f = inbox, OF assms(1) step put assms(2)])
      (simp_all add: assms(3))
  then show ?thesis unfolding cut [OF data] by (auto simp: inbox_def [of s] collect)
qed

end

interpretation udp_messages: address_queue "\<lambda>n u. udp_pop_receive u n" udp_waiting
  by unfold_locales


subsection \<open>Broadcasts\<close>

definition targets :: "'s nm \<Rightarrow> u64 \<Rightarrow> client_entry list" where
  "targets s exclude = filter (\<lambda>c. ce_id c \<noteq> exclude \<and> ce_id c \<noteq> local_client_id s) (nm_clients s)"

definition send_to_all :: "'s nm_env \<Rightarrow> bytes \<Rightarrow> reliability \<Rightarrow> client_entry list \<Rightarrow> 's \<Rightarrow> 's" where
  "send_to_all E d r cs t = fold (\<lambda>c t. snd (t_send_to (env_transport E) (ce_address c) d r t)) cs t"

lemma broadcast_loop_effect:
  assumes "\<forall>c\<in>set cs. ce_approved c \<and> (ce_transport c = None \<or> ce_transport c = Some Primary)" "primary s = Some t"
  shows "\<exists>cs' s'. broadcast_loop E d r x cs s = (cs', s') \<and> host_queue s' = host_queue s \<and>
    (let ts = filter (\<lambda>c. ce_id c \<noteq> x \<and> ce_id c \<noteq> local_client_id s) cs
     in primary s' = Some (send_to_all E d r (filter (\<lambda>c. ce_transport c \<noteq> None) ts) t) \<and>
        message_queue s' = message_queue s @ map (\<lambda>c. (ce_id c, d)) (filter (\<lambda>c. ce_transport c = None) ts))"
  using assms
proof (induction cs arbitrary: s t)
  case Nil
  then show ?case by (simp add: send_to_all_def)
next
  case (Cons c cs)
  let ?skip = "ce_id c = x \<or> ce_id c = local_client_id s"
  define s1 where "s1 = (if ?skip then s else case ce_transport c of None \<Rightarrow> nm_event (EvData (ce_id c) d) (push_message (ce_id c) d s)
    | Some p \<Rightarrow> snd (transport_send_to E p (ce_address c) d r s))"
  define t1 where "t1 = (if ?skip \<or> ce_transport c = None then t else snd (t_send_to (env_transport E) (ce_address c) d r t))"
  have s1: "primary s1 = Some t1" "host_queue s1 = host_queue s" "local_client_id s1 = local_client_id s"
    "message_queue s1 = message_queue s @ (if ?skip \<or> ce_transport c \<noteq> None then [] else [(ce_id c, d)])"
    using Cons.prems by (auto simp: s1_def t1_def nm_event_def push_message_def transport_send_to_def transport_at_def
        put_transport_def Let_def case_prod_unfold)
  have "\<exists>c'. broadcast_loop E d r x (c # cs) s = (c' # fst (broadcast_loop E d r x cs s1), snd (broadcast_loop E d r x cs s1))"
    using Cons.prems(1) by (auto simp: s1_def Let_def case_prod_unfold split: option.split)
  then show ?case using Cons.IH [OF _ s1(1)] Cons.prems(1) s1
    by (auto simp: Let_def t1_def send_to_all_def)
qed

lemma broadcast_effect:
  assumes "nm_ok s" "serving s" "extras s = []" "primary s = Some t"
  shows "primary (nm_broadcast E d r x s) = Some (send_to_all E d r (filter (\<lambda>c. ce_transport c \<noteq> None) (targets s x)) t) \<and>
    message_queue (nm_broadcast E d r x s) =
      message_queue s @ map (\<lambda>c. (ce_id c, d)) (filter (\<lambda>c. ce_transport c = None) (targets s x)) \<and>
    host_queue (nm_broadcast E d r x s) = host_queue s @
      (if nm_mode s = NmHost \<and> local_client_id s \<noteq> 0 \<and> local_client_id s \<noteq> x then [(local_client_id s, d)] else [])"
proof -
  define h where "h = (if nm_mode s = NmHost \<and> local_client_id s \<noteq> 0 \<and> local_client_id s \<noteq> x
    then push_message_to_host_local (local_client_id s) d s else s)"
  have h: "primary h = Some t" "message_queue h = message_queue s" "local_client_id h = local_client_id s" "nm_clients h = nm_clients s"
    "host_queue h = host_queue s @ (if nm_mode s = NmHost \<and> local_client_id s \<noteq> 0 \<and> local_client_id s \<noteq> x then [(local_client_id s, d)] else [])"
    using assms(4) by (simp_all add: h_def push_message_to_host_local_def)
  have "\<forall>c\<in>set (nm_clients s). ce_approved c \<and> (ce_transport c = None \<or> ce_transport c = Some Primary)"
  proof
    fix c assume c: "c \<in> set (nm_clients s)"
    have "p = Primary" if "ce_transport c = Some p" for p
      using assms(1) c that assms(3)
      by (cases p) (fastforce simp: nm_ok_def core_def keys_ok_def entry_key_def ptr_in_def)+
    then show "ce_approved c \<and> (ce_transport c = None \<or> ce_transport c = Some Primary)"
      using nm_ok_approved [OF assms(1) c] by (cases "ce_transport c") simp_all
  qed
  from broadcast_loop_effect [OF this h(1), of E d r x] show ?thesis using assms(2) h
    by (auto simp: nm_broadcast_def h_def [symmetric] targets_def Let_def)
qed

lemma broadcast_loop_local [simp]: "local_client_id (snd (broadcast_loop E d r x cs s)) = local_client_id s"
  by (induction cs arbitrary: s) (auto simp: Let_def case_prod_unfold transport_send_to_def put_transport_def nm_event_def
      push_message_def split: option.split tptr.split)

lemma broadcast_local [simp]: "local_client_id (nm_broadcast E d r x s) = local_client_id s"
  by (simp add: nm_broadcast_def push_message_to_host_local_def Let_def case_prod_unfold)

text \<open>A broadcast reaches every client of a server or host with one transport exactly once, except the excluded one: it is
  sent to the address of each remote client, in order, put into the queue of the application for each
  local client, and into the host's own queue for the host's client.
\<close>

theorem broadcast_reaches_all:
  assumes "nm_reachable s" "serving s" "extras s = []" "primary s = Some t"
  shows "primary (nm_broadcast E d r x s) = Some (send_to_all E d r (filter (\<lambda>c. ce_transport c \<noteq> None) (targets s x)) t) \<and>
    message_queue (nm_broadcast E d r x s) =
      message_queue s @ map (\<lambda>c. (ce_id c, d)) (filter (\<lambda>c. ce_transport c = None) (targets s x)) \<and>
    host_queue (nm_broadcast E d r x s) = host_queue s @
      (if nm_mode s = NmHost \<and> local_client_id s \<noteq> 0 \<and> local_client_id s \<noteq> x then [(local_client_id s, d)] else [])"
  by (rule broadcast_effect [OF nm_ok_reachable [OF assms(1)] assms(2-4)])

subsection \<open>Time synchronization\<close>

lemma handle_sys_client:
  "\<not> serving s \<Longrightarrow> length d + 3 \<le> max_packet_size (nm_config s) \<Longrightarrow>
   handle_packet E p a (sys_message ty d) s = process_system_message E 0 a p ty d s"
  by (simp add: handle_packet_def Let_def)

lemma handle_sys_known:
  "serving s \<Longrightarrow> find_client_by_address a s = Some c \<Longrightarrow> length d + 3 \<le> max_packet_size (nm_config s) \<Longrightarrow>
   handle_packet E p a (sys_message ty d) s = process_system_message E (ce_id c) a p ty d s"
  by (simp add: handle_packet_def Let_def)

text \<open>C29: The exchange of a time synchronization. A client whose last one is more than two seconds ago sends a
  request with its clock; the server answers with that value and its own clock's two readings; from the
  answer the client takes the sample of exactly these three readings and the time of arrival.
\<close>

theorem time_sync_exchange:
  assumes client: "nm_mode c = NmClient" "client_connected c" "last_time_sync c \<noteq> 0" "t0 = env_clock Ec (clock_reads c)"
      "2 < f64 (t0 - last_time_sync c)" "primary c = Some ct" "27 \<le> max_packet_size (nm_config c)"
    and server: "serving s" "find_client_by_address a s = Some e" "transport_at p s = Some t" "11 \<le> max_packet_size (nm_config s)"
      "t1 = env_clock E (clock_reads s)" "t2 = env_clock E (clock_reads s + 1)" "env_endian E = env_endian Ec"
    and doubles: "normal_double t0" "normal_double t1" "normal_double t2"
  shows "\<exists>request c1 s' answer.
    poll_client_time_sync Ec c = c1 \<and> primary c1 = Some (snd (t_send (env_transport Ec) request ReliableOrdered ct)) \<and>
    handle_packet E p a request s = Some s' \<and>
    transport_at p s' = Some (snd (t_send_to (env_transport E) a answer ReliableOrdered t)) \<and>
    map_option net_time (handle_packet Ec q b answer c1) = Some (record_sample t0 t1 t2 (env_clock Ec (clock_reads c1)) (net_time c))"
proof -
  let ?en = "env_endian Ec"
  let ?m = "sys_message TIME_SYNC_REQUEST (nm_write_double ?en t0)"
  let ?a = "sys_message TIME_SYNC_RESPONSE (nm_write_double ?en t0 @ nm_write_double ?en t1 @ nm_write_double ?en t2)"
  define c1 where "c1 = poll_client_time_sync Ec c"
  have p1: "primary c1 = Some (snd (t_send (env_transport Ec) ?m ReliableOrdered ct))" "nm_config c1 = nm_config c"
      "nm_mode c1 = NmClient" "net_time c1 = net_time c"
    using client by (simp_all add: c1_def poll_client_time_sync_def nm_now_def primary_send_def Let_def case_prod_unfold)
  have "nm_read_u64 ?en (nm_write_double ?en t0) = bits_of_double t0" by (simp add: nm_write_double_def)
  then have "handle_packet E p a ?m s = Some (send_sys E p a TIME_SYNC_RESPONSE (nm_write_double ?en t0 @ nm_write_double ?en t1 @
      nm_write_double ?en t2) (s\<lparr>clock_reads := clock_reads s + 2\<rparr>))"
    using handle_sys_known [OF server(1,2), of "nm_write_double ?en t0" E p TIME_SYNC_REQUEST] server
    by (simp add: process_system_message_def on_time_sync_request_def sys_types nm_now_def nm_write_double_def Let_def)
  moreover have "transport_at p (send_sys E p a TIME_SYNC_RESPONSE d (s\<lparr>clock_reads := clock_reads s + 2\<rparr>)) =
      Some (snd (t_send_to (env_transport E) a (sys_message TIME_SYNC_RESPONSE d) ReliableOrdered t))" for d
    using server(3) by (intro send_sys_transport) simp
  moreover have "drop 16 (nm_write_double ?en t0 @ nm_write_double ?en t1 @ nm_write_double ?en t2) = nm_write_double ?en t2 @ []"
    by simp
  then have "map_option net_time (handle_packet Ec q b ?a c1) = Some (record_sample t0 t1 t2 (env_clock Ec (clock_reads c1)) (net_time c))"
    using handle_sys_client [of c1 "nm_write_double ?en t0 @ nm_write_double ?en t1 @ nm_write_double ?en t2" Ec q b TIME_SYNC_RESPONSE]
      client(7) p1(2-4) doubles nm_double_roundtrip [of t2 ?en "[]"]
    by (simp add: serving_def process_system_message_def on_time_sync_response_def sys_types nm_now_def Let_def)
  ultimately show ?thesis using p1(1) c1_def by (intro exI conjI) (rule refl | assumption | simp)+
qed

subsection \<open>Where the code does something else\<close>

text \<open>A client that leaves by \<open>disconnect\<close> first sends a message of the single byte 3, without the mark of a system
  message. The server takes it for data of the application: it is queued as a message of that client, and
  the client stays.
\<close>

theorem leave_byte_is_data:
  assumes "nm_mode c = NmClient" "client_connected c" "primary c = Some ct"
    and "serving s" "find_client_by_address a s = Some e" "all_unlimited s" "1 \<le> max_packet_size (nm_config s)"
      "message_read_idx s \<le> length (message_queue s)"
  shows "nm_disconnect Ec c = nm_stop Ec (c\<lparr>primary := Some (snd (t_send (env_transport Ec) [DISCONNECT_NOTIFY] ReliableOrdered ct))\<rparr>) \<and>
    (\<exists>s'. handle_packet E p a [DISCONNECT_NOTIFY] s = Some s' \<and> unread s' = unread s @ [(ce_id e, [DISCONNECT_NOTIFY])] \<and>
       core s' = core s)"
proof
  show "nm_disconnect Ec c = nm_stop Ec (c\<lparr>primary := Some (snd (t_send (env_transport Ec) [DISCONNECT_NOTIFY] ReliableOrdered ct))\<rparr>)"
    using assms(1-3) by (simp add: nm_disconnect_def primary_send_def Let_def case_prod_unfold)
  have "user_data (max_packet_size (nm_config s)) [DISCONNECT_NOTIFY]"
    using assms(7) by (simp add: user_data_def BUF_SIZE_def sys_message_def SYS_MAGIC_def)
  then obtain s' where "handle_packet E p a [DISCONNECT_NOTIFY] s = Some s'" "core s' = core s"
    "queues s' = (message_read_idx s, message_queue s @ received s [([DISCONNECT_NOTIFY], a)],
       events s @ map (\<lambda>(i, d). EvData i d) (received s [([DISCONNECT_NOTIFY], a)]), primary s)"
    using user_data_step [of s "[DISCONNECT_NOTIFY]" E p a] assms(6) by metis
  then show "\<exists>s'. handle_packet E p a [DISCONNECT_NOTIFY] s = Some s' \<and> unread s' = unread s @ [(ce_id e, [DISCONNECT_NOTIFY])] \<and>
       core s' = core s"
    using assms(4,5,8) by (auto simp: queues_def unread_def sender_of_def)
qed

text \<open>C36: A host believes the answers meant for clients. A connected client that sends a rejection makes the host disconnect the
  transport it serves its clients with; one that sends an acceptance sets the host's own client identifier.
\<close>

theorem client_shuts_host:
  assumes "nm_mode s = NmHost" "find_client_by_address a s = Some e" "primary s = Some t"
    and "length payload + 3 \<le> max_packet_size (nm_config s)"
  shows "(\<exists>s'. handle_packet E p a (sys_message CONNECT_REJECT payload) s = Some s' \<and>
      primary s' = Some (t_disconnect (env_transport E) t) \<and> \<not> client_connected s' \<and> nm_clients s' = nm_clients s) \<and>
    (8 \<le> length payload \<longrightarrow> (\<exists>s'. handle_packet E p a (sys_message CONNECT_ACCEPT payload) s = Some s' \<and>
      local_client_id s' = nm_read_u64 (env_endian E) payload))"
proof -
  have h: "handle_packet E p a (sys_message ty payload) s = process_system_message E (ce_id e) a p ty payload s" for ty
    using assms(1,2,4) by (intro handle_sys_known) (simp_all add: serving_def)
  show ?thesis using assms(1,3)
    by (simp add: h process_system_message_def on_connect_reject_def on_connect_accept_def sys_types disconnect_primary_def
        rep_connected_def nm_event_def Let_def)
qed

subsection \<open>Witnesses\<close>

text \<open>
  A transport that keeps what is sent and hands out what is in its inbox; a clock that reads 100, 101, and so on.
\<close>

type_synonym post = "(address \<times> bytes) list \<times> (bytes \<times> address) list"

definition post_transport :: "post transport" where
  "post_transport = \<lparr>t_bind = (\<lambda>a t. (True, t)), t_connect = (\<lambda>a t. (True, t)), t_disconnect = (\<lambda>t. ([], [])), t_is_connected = (\<lambda>t. True),
     t_send = (\<lambda>d r t. (True, (fst t @ [(addr_default, d)], snd t))), t_send_to = (\<lambda>a d r t. (True, (fst t @ [(a, d)], snd t))),
     t_poll = Some, t_pop_receive = (\<lambda>n t. case snd t of [] \<Rightarrow> (None, t) | (d, a) # q \<Rightarrow> (Some (take n d, a), (fst t, q))),
     t_rtt = (\<lambda>t. 0), t_packet_loss = (\<lambda>t. 0), t_connection_rtt = (\<lambda>a t. 0), t_connection_packet_loss = (\<lambda>a t. 0)\<rparr>"

definition w_env :: "post nm_env" where
  "w_env = \<lparr>env_transport = post_transport, env_default = ([], []), env_endian = Little, env_clock = (\<lambda>n. of_nat (n + 100)),
     env_approval = None, env_handles = (\<lambda>_ _ _ _. 0), env_raw = replicate 64 0\<rparr>"

definition w_host :: "post nm" where
  "w_host = (let s = new_nm\<lparr>nm_config := default_config\<lparr>cfg_mode := NmHost\<rparr>, nm_mode := NmHost, primary := Some ([], [])\<rparr>
     in s\<lparr>nm_clients := [new_client_entry\<lparr>ce_id := 1, ce_approved := True\<rparr>], local_client_id := 1, client_connected := True,
          events := [EvConnected 1]\<rparr>)"

lemma free_first: "i \<notin> ce_id ` set cs \<Longrightarrow> free_client_id cs i = Some i"
  by (subst free_client_id.simps) (simp add: find_id_None)

lemma host_reachable: "nm_reachable w_host"
proof -
  have "nm_start w_env (default_config\<lparr>cfg_mode := NmHost\<rparr>) new_nm = Some (True, w_host)"
    by (simp add: nm_start_def new_nm_def Let_def w_env_def post_transport_def default_config_def start_host_def
        generate_client_id_def free_first w_host_def nm_event_def)
  then show ?thesis by (rule nm_reachable.start [OF nm_reachable.fresh, rotated]) (simp add: default_config_def)
qed

theorem manager_invariant_witness: "distinct (map ce_id (nm_clients w_host)) \<and> nm_clients w_host \<noteq> []"
  using manager_invariant [OF host_reachable] by (simp add: w_host_def Let_def)

definition w_addr :: address where
  "w_addr = \<lparr>valid = True, storage = SaV4 7 [127, 0, 0, 1], storage_len = 16\<rparr>"

definition w_server :: "nm_config \<Rightarrow> post nm" where
  "w_server cfg = new_nm\<lparr>nm_config := cfg, nm_mode := NmServer, primary := Some ([], [])\<rparr>"

lemma server_reachable: "cfg_mode cfg = NmServer \<Longrightarrow> max_clients cfg < 2 ^ 64 \<Longrightarrow> nm_reachable (w_server cfg)"
proof -
  assume cfg: "cfg_mode cfg = NmServer" "max_clients cfg < 2 ^ 64"
  then have "nm_start w_env cfg new_nm = Some (True, w_server cfg)"
    by (simp add: nm_start_def new_nm_def Let_def w_env_def post_transport_def w_server_def)
  then show ?thesis by (rule nm_reachable.start [OF nm_reachable.fresh cfg(2)])
qed

text \<open>A server with a client at \<open>w_addr\<close> and no limits, and a client of it.\<close>

definition w_busy :: "post nm" where
  "w_busy = (w_server (default_config\<lparr>cfg_mode := NmServer\<rparr>))
     \<lparr>nm_clients := [new_client_entry\<lparr>ce_id := 1, ce_address := w_addr, ce_transport := Some Primary, ce_approved := True\<rparr>]\<rparr>"

definition w_client :: "post nm" where
  "w_client = new_nm\<lparr>nm_mode := NmClient, primary := Some ([], []), client_connected := True, last_time_sync := 1\<rparr>"

lemmas w_defs = w_busy_def w_client_def w_server_def w_host_def w_env_def w_addr_def new_nm_def default_config_def new_client_entry_def
  Let_def

theorem admission_decided_witness:
  "\<exists>s'. handle_packet w_env Primary w_addr (sys_message CONNECT_REQUEST []) w_host = Some s' \<and> length (nm_clients s') = 2"
proof -
  have "is_request (max_packet_size (nm_config w_host)) (sys_message CONNECT_REQUEST [])"
    "admits w_env w_host w_addr (drop 3 (sys_message CONNECT_REQUEST []))"
    by (auto simp: is_request_def admits_def approved_count_def w_defs)
  moreover have "serving w_host" "find_client_by_address w_addr w_host = None" "transport_at Primary w_host \<noteq> None"
    by (simp_all add: w_defs serving_def find_client_by_address_def transport_at_def addr_eq_def addr_default_def)
  ultimately obtain s' e where "handle_packet w_env Primary w_addr (sys_message CONNECT_REQUEST []) w_host = Some s'"
    "nm_clients s' = nm_clients w_host @ [e]"
    using admission_decided [OF host_reachable, of w_addr Primary w_env "sys_message CONNECT_REQUEST []"] by auto
  then show ?thesis by (simp add: w_defs)
qed

theorem token_handshake_witness:
  "\<exists>cfg tok m s'. token_generate (replicate 64 0) (token_secret cfg) 60 5 100 = Some tok \<and> require_token cfg \<and>
     handle_packet w_env Primary w_addr m (w_server cfg) = Some s' \<and> (\<exists>i. is_client_connected i s' \<and> client_address i s' = w_addr)"
proof -
  define cfg where "cfg = default_config\<lparr>cfg_mode := NmServer, token_secret := replicate 32 7, require_token := True\<rparr>"
  obtain tok where tok: "token_generate (replicate 64 0) (token_secret cfg) 60 5 100 = Some tok"
    using token_generate_eq [of "replicate 64 0" 60 "token_secret cfg" 5 100] by auto
  have r: "nm_reachable (w_server cfg)" by (rule server_reachable) (simp_all add: cfg_def default_config_def)
  have s: "serving (w_server cfg)" "find_client_by_address w_addr (w_server cfg) = None" "transport_at Primary (w_server cfg) = Some ([], [])"
    "approved_count (w_server cfg) < max_clients (nm_config (w_server cfg))" "67 \<le> max_packet_size (nm_config (w_server cfg))"
    "env_approval w_env = None" "length (env_raw w_env) = 64" "request_time w_env (w_server cfg) = 100" "token_secret (nm_config (w_server cfg)) = token_secret cfg"
    by (simp_all add: w_defs cfg_def serving_def find_client_by_address_def transport_at_def approved_count_def request_time_def)
  define c where "c = w_client\<lparr>client_token := tok\<rparr>"
  have c: "nm_mode c = NmClient" "client_token c = tok" "primary c = Some ([], [])" "11 \<le> max_packet_size (nm_config c)"
    by (simp_all add: c_def w_defs)
  have "token_generate (replicate 64 0) (token_secret (nm_config (w_server cfg))) 60 5 100 = Some tok" using tok s(9) by simp
  from token_handshake [OF r s(1-6) this _ s(7) _ _ _ _ _ c refl] s(8)
  have "\<exists>m s' i. handle_packet w_env Primary w_addr m (w_server cfg) = Some s' \<and> is_client_connected i s' \<and> client_address i s' = w_addr"
    by simp blast
  then show ?thesis using tok by (intro exI [of _ cfg]) (auto simp: cfg_def)
qed


theorem broadcast_reaches_all_witness: "host_queue (nm_broadcast w_env [5] ReliableOrdered 0 w_host) = [(1, [5])]"
  using broadcast_reaches_all [OF host_reachable, of "([], [])" w_env "[5]" ReliableOrdered 0] by (simp add: w_defs serving_def)

lemma small_doubles: "normal_double 100" "normal_double 101"
proof -
  have "fexp (100 :: rat) = 6" "fexp (101 :: rat) = 6" by (rule fexp_unique; simp add: power_int_numeral)+
  then show "normal_double 100" "normal_double 101" by (simp_all add: normal_double_def)
qed

theorem time_sync_exchange_witness:
  "\<exists>m. primary (poll_client_time_sync w_env w_client) = Some (snd (t_send (env_transport w_env) m ReliableOrdered ([], []))) \<and>
     handle_packet w_env Primary w_addr m w_busy \<noteq> None"
proof -
  have "nm_mode w_client = NmClient" "client_connected w_client" "last_time_sync w_client \<noteq> 0" "100 = env_clock w_env (clock_reads w_client)"
    "2 < f64 (100 - last_time_sync w_client)" "primary w_client = Some ([], [])" "27 \<le> max_packet_size (nm_config w_client)"
    by (simp_all add: w_defs)
  note client = this
  have "serving w_busy" "find_client_by_address w_addr w_busy = Some (hd (nm_clients w_busy))" "transport_at Primary w_busy = Some ([], [])"
    "11 \<le> max_packet_size (nm_config w_busy)" "100 = env_clock w_env (clock_reads w_busy)" "101 = env_clock w_env (clock_reads w_busy + 1)"
    by (simp_all add: w_defs serving_def find_client_by_address_def transport_at_def addr_eq_def)
  from time_sync_exchange [OF client this refl small_doubles(1,1,2)] show ?thesis by blast
qed

theorem leave_byte_is_data_witness:
  "\<exists>s'. handle_packet w_env Primary w_addr [DISCONNECT_NOTIFY] w_busy = Some s' \<and> unread s' = [(1, [3])]"
  using leave_byte_is_data [of w_client "([], [])" w_busy w_addr "hd (nm_clients w_busy)" w_env w_env Primary]
  by (auto simp: w_defs serving_def find_client_by_address_def addr_eq_def all_unlimited_def unlimited_def new_limiter_def
      empty_bucket_def DISCONNECT_NOTIFY_def unread_def)

theorem client_shuts_host_witness:
  "\<exists>s'. handle_packet w_env Primary w_addr (sys_message CONNECT_REJECT []) (w_busy\<lparr>nm_mode := NmHost\<rparr>) = Some s' \<and>
     primary s' = Some ([], []) \<and> length (nm_clients s') = 1"
  using client_shuts_host [of "w_busy\<lparr>nm_mode := NmHost\<rparr>" w_addr "hd (nm_clients w_busy)" "([], [])" "[]" w_env Primary]
  by (auto simp: w_defs find_client_by_address_def addr_eq_def post_transport_def)

end
