(* ===== verification/ManagerStack.thy ===== *)
theory ManagerStack
  imports NetworkManagerLaws
begin

text \<open>
  The managers together: what an operation of the entity, replication or RPC manager of one process does to the
  manager of the same kind in another, through the \<open>NetworkManager\<close>s of both (\<open>src/src/network_manager.cpp\<close>).

  The transports are the hypotheses' business: a theorem says what the sender hands to its transport, and what the
  receiver does once its own transport has these messages.
\<close>

subsection \<open>What a server hands to its transport\<close>

definition remote_addresses :: "'s nm \<Rightarrow> u64 \<Rightarrow> address list" where
  "remote_addresses s x = map ce_address (filter (\<lambda>c. ce_transport c \<noteq> None) (targets s x))"

definition send_each :: "'s nm_env \<Rightarrow> address list \<Rightarrow> bytes \<Rightarrow> 's \<Rightarrow> 's" where
  "send_each E as d t = fold (\<lambda>a t. snd (t_send_to (env_transport E) a d ReliableOrdered t)) as t"

lemma remote_addresses_keys:
  "remote_addresses s x = map (fst \<circ> snd) (filter (\<lambda>k. fst (snd (snd k)) \<noteq> None \<and> fst k \<noteq> x \<and> fst k \<noteq> local_client_id s)
     (map entry_key (nm_clients s)))"
  by (simp add: remote_addresses_def targets_def filter_map filter_filter comp_def entry_key_def conj_ac)

lemma remote_addresses_core:
  "core s' = core s \<Longrightarrow> local_client_id s' = local_client_id s \<Longrightarrow> remote_addresses s' x = remote_addresses s x"
  by (simp only: remote_addresses_keys core_parts)

lemma broadcast_sent:
  assumes "nm_ok s" "serving s" "extras s = []" "primary s = Some t"
  shows "primary (nm_call E (NetBroadcast d ReliableOrdered) s) = Some (send_each E (remote_addresses s 0) d t)"
  using broadcast_effect [OF assms, of E d ReliableOrdered 0]
  by (simp add: send_to_all_def send_each_def remote_addresses_def fold_map comp_def)

definition reliable_broadcast :: "net_call \<Rightarrow> bool" where
  "reliable_broadcast c \<longleftrightarrow> c = NetBroadcast (call_message c) ReliableOrdered"

lemma broadcasts_sent:
  assumes "nm_ok s" "serving s" "extras s = []" "primary s = Some t" "list_all reliable_broadcast cs"
  shows "primary (fold (nm_call E) cs s) = Some (fold (\<lambda>c. send_each E (remote_addresses s 0) (call_message c)) cs t)"
  using assms
proof (induction cs arbitrary: s t)
  case (Cons c cs)
  define s1 where "s1 = nm_call E c s"
  have c: "c = NetBroadcast (call_message c) ReliableOrdered" using Cons.prems(5) by (simp add: reliable_broadcast_def)
  have core: "core s1 = core s" and loc: "local_client_id s1 = local_client_id s"
    unfolding s1_def by (subst c, simp add: frame)+
  have "primary s1 = Some (send_each E (remote_addresses s 0) (call_message c) t)"
    using broadcast_sent [OF Cons.prems(1-4), of E "call_message c"] c by (simp add: s1_def)
  moreover have "serving s1" "extras s1 = []" "nm_ok s1"
    using Cons.prems(1-3) core serving_core [OF core] nm_ok_core [OF core] by (simp_all add: core_parts)
  ultimately show ?case
    using Cons.IH [of s1] Cons.prems(5) remote_addresses_core [OF core loc] by (simp add: s1_def)
qed simp

subsection \<open>Entities\<close>

definition entity_edit :: "bytes \<Rightarrow> bool" where
  "entity_edit d \<longleftrightarrow> (\<exists>payload. d = sys_message 0x10 payload \<or> d = sys_message 0x11 payload)"

lemma spawn_message_sys: "spawn_message ent d = sys_message 0x10 (write_u64_be (e_net_id ent) @ write_u32_be (e_prefab_id ent) @
    write_u16_be (of_nat (length d)) @ d)"
  by (simp add: spawn_message_def sys_message_def SYS_MAGIC_def)

lemma run_op_broadcasts:
  "c \<in> set (fst (run_op mk x m)) \<Longrightarrow> reliable_broadcast c \<and> entity_edit (call_message c)"
  by (cases x) (auto simp: em_spawn_def em_destroy_def broadcast_spawn_def broadcast_destroy_def reliable_broadcast_def entity_edit_def
      spawn_message_sys Let_def case_prod_unfold sys_message_def SYS_MAGIC_def split: if_splits option.splits)

lemma entity_ops_broadcasts:
  "c \<in> set (fst (entity_ops mk ops m)) \<Longrightarrow> reliable_broadcast c \<and> entity_edit (call_message c)"
proof (induction ops arbitrary: m)
  case (Cons x xs)
  then show ?case using run_op_broadcasts [of c mk x m] by (auto simp: Let_def case_prod_unfold)
qed simp

text \<open>A known client's or the server's entity message goes to the entity manager, and nothing else changes.\<close>

lemma handle_entity_message:
  assumes "entity_edit d" "length d \<le> max_packet_size (nm_config s)" "\<not> serving s \<or> find_client_by_address a s \<noteq> None"
  shows "handle_packet E p a d s = Some (s\<lparr>entity_mgr := map_option (entity_message (env_handles E) (d ! 2) (drop 3 d)) (entity_mgr s)\<rparr>)"
proof -
  obtain ty payload where d: "d = sys_message ty payload" "ty = 0x10 \<or> ty = 0x11" using assms(1) by (auto simp: entity_edit_def)
  have len: "length payload + 3 \<le> max_packet_size (nm_config s)" using assms(2) d(1) by (simp add: sys_message_def SYS_MAGIC_def)
  have "\<exists>i. handle_packet E p a d s = process_system_message E i a p ty payload s"
  proof (cases "serving s")
    case True
    then show ?thesis using handle_sys_known [OF True _ len] assms(3) d(1) by blast
  next
    case False
    then show ?thesis using handle_sys_client [OF False len] d(1) by blast
  qed
  then show ?thesis using d(2) by (auto simp: d(1) process_system_message_def sys_types sys_message_def)
qed

text \<open>A client whose UDP transport holds entity messages applies them in order, and its receive loop ends.\<close>

lemma client_applies:
  assumes "env_transport Ec = udp_transport os sock_ok bind_ok now ins" "\<not> serving c" "primary c = Some u" "entity_mgr c = Some em"
    and fits: "\<forall>d\<in>set (map fst (udp_waiting u)). entity_edit d \<and> length d \<le> min BUF_SIZE (max_packet_size (nm_config c))"
  shows "\<exists>c'. receive_loop Ec Primary c = Some c' \<and>
    entity_mgr c' = Some (fold (\<lambda>d. entity_message (env_handles Ec) (d ! 2) (drop 3 d)) (map fst (udp_waiting u)) em)"
proof -
  let ?Q = "\<lambda>s. \<not> serving s \<and> nm_config s = nm_config c" and ?M = "set (udp_waiting u)"
    and ?f = "\<lambda>d. entity_message (env_handles Ec) (d ! 2) (drop 3 d)"
  let ?g = "\<lambda>(d, a :: address). map_option (?f d)"
  have cut: "take BUF_SIZE d = d" "entity_edit d" "length d \<le> max_packet_size (nm_config c)" if "(d, a) \<in> ?M" for d a
    using fits that by force+
  have step: "\<exists>s'. handle_packet Ec Primary a (take BUF_SIZE d) s = Some s' \<and> ?Q s' \<and> primary s' = Some t \<and>
      entity_mgr s' = ?g (take BUF_SIZE d, a) (entity_mgr s)"
    if s: "?Q s" "primary s = Some t" "(d, a) \<in> ?M" for s t d a
    using handle_entity_message [of d s a Ec Primary] cut [OF s(3)] s(1,2) by (auto simp: serving_def)
  have "t_pop_receive (env_transport Ec) = (\<lambda>n u. udp_pop_receive u n)" by (simp add: assms(1) udp_transport_def)
  from udp_messages.receive_loop_steps [where Q = ?Q and M = ?M and f = entity_mgr and g = ?g, OF this step, of c u] obtain c' where
    c': "receive_loop Ec Primary c = Some c'"
      "entity_mgr c' = fold ?g (map (\<lambda>(d, a). (take BUF_SIZE d, a)) (udp_waiting u)) (Some em)"
    using assms(2-4) by (auto simp: put_transport_def serving_def)
  have "map (\<lambda>(d, a). (take BUF_SIZE d, a)) (udp_waiting u) = udp_waiting u" using cut(1) by (auto intro: map_idI)
  moreover have "fold ?g ms (Some em) = Some (fold ?f (map fst ms) em)" for ms
    by (induction ms arbitrary: em) auto
  ultimately show ?thesis using c' by auto
qed

lemma deliver_messages:
  "fold (\<lambda>d. entity_message mk (d ! 2) (drop 3 d)) (map call_message cs) em = fold (deliver_call mk) cs em"
  by (induction cs arbitrary: em) (simp_all add: deliver_call_def)

text \<open>Entities through both managers. The spawns, destroys and ownership changes of a server with one transport are
  handed to its transport for the address of every remote client, in order; a client that held the server's entities
  before (say none), has no entity limit, and whose UDP transport has received these messages, holds after its receive loop,
  which ends, exactly the server's entities with their prefabs.
\<close>

theorem entities_mirrored:
  assumes server: "nm_reachable s" "serving s" "extras s = []" "primary s = Some t"
      "ids_below_next m" "unat (next_id m) + length ops < 2 ^ 64" "calls = fst (entity_ops mk ops m)"
    and client: "env_transport Ec = udp_transport os sock_ok bind_ok now ins" "\<not> serving c" "primary c = Some u" "entity_mgr c = Some em"
      "view em = view m" "max_entities em = 0"
    and arrived: "udp_waiting u = map (\<lambda>c. (call_message c, b)) calls"
      "\<forall>c'\<in>set calls. length (call_message c') \<le> min BUF_SIZE (max_packet_size (nm_config c))"
  shows "primary (fold (nm_call E) calls s) = Some (fold (\<lambda>c. send_each E (remote_addresses s 0) (call_message c)) calls t) \<and>
    (\<exists>c' em'. receive_loop Ec Primary c = Some c' \<and> entity_mgr c' = Some em' \<and> view em' = view (snd (entity_ops mk ops m)))"
proof
  have b: "reliable_broadcast c \<and> entity_edit (call_message c)" if "c \<in> set calls" for c
    using entity_ops_broadcasts that server(7) by blast
  then show "primary (fold (nm_call E) calls s) = Some (fold (\<lambda>c. send_each E (remote_addresses s 0) (call_message c)) calls t)"
    by (intro broadcasts_sent nm_ok_reachable server) (simp add: list_all_iff)
  have w: "map fst (udp_waiting u) = map call_message calls" using arrived(1) by (simp add: comp_def)
  have "\<forall>d\<in>set (map fst (udp_waiting u)). entity_edit d \<and> length d \<le> min BUF_SIZE (max_packet_size (nm_config c))"
    using w arrived(2) b by auto
  from client_applies [OF client(1-4) this] obtain c' where
    "receive_loop Ec Primary c = Some c'" "entity_mgr c' = Some (fold (deliver_call (env_handles Ec)) calls em)"
    by (auto simp: w deliver_messages)
  moreover have "view (fold (deliver_call (env_handles Ec)) calls em) = view (snd (entity_ops mk ops m))"
    unfolding server(7) by (rule client_mirrors_server [OF client(5,6) server(5,6)])
  ultimately show "\<exists>c' em'. receive_loop Ec Primary c = Some c' \<and> entity_mgr c' = Some em' \<and> view em' = view (snd (entity_ops mk ops m))"
    by blast
qed

subsection \<open>Remote calls\<close>

lemma rpc_packet_sys: "[0xCA, 0xFE, 0x22] @ write_u16_be i @ args = sys_message 0x22 (write_u16_be i @ args)"
  by (simp add: sys_message_def SYS_MAGIC_def)

text \<open>A remote call through both managers. A client's call within its payload limit is sent as one message; when that
  arrives, the server runs the handler registered for the identifier, once, with the identifier of the client at the address it came from
  and exactly the argument bytes, if and only if the arguments fit its own limit, anyone may call, and the
  client's rate limiter admits the call; otherwise no handler runs. A call over the client's limit is not sent.
\<close>

theorem rpc_through_managers:
  assumes client: "nm_mode c = NmClient" "client_connected c" "primary c = Some t" "has_net m"
    and server: "serving s" "find_client_by_address a s = Some e" "ce_id e \<noteq> 0" "rpc_mgr s = Some rm" "handlers rm i = Some auth"
      "rate_buckets rm i = None" "length args + 5 \<le> max_packet_size (nm_config s)"
  shows "if fits_payload args m
    then \<exists>msg s' rm'. invoke_server NmClient i args m = [NetSend msg ReliableOrdered] \<and>
      primary (nm_call Ec (NetSend msg ReliableOrdered) c) = Some (snd (t_send (env_transport Ec) msg ReliableOrdered t)) \<and>
      handle_packet E p a msg s = Some s' \<and> rpc_mgr s' = Some rm' \<and>
      (if fits_payload args rm \<and> auth = Anyone \<and> fst (allow_rpc (env_clock E (clock_reads s)) (ce_limiter e))
       then \<exists>ps. rpc_sender ps = ce_id e \<and> rpc_log rm' = rpc_log rm @ [(i, ps, args)] else rm' = rm)
    else invoke_server NmClient i args m = []"
proof (cases "fits_payload args m")
  case True
  let ?msg = "sys_message 0x22 (write_u16_be i @ args)"
  define s1 where "s1 = update_by_address a (\<lambda>c. c\<lparr>ce_limiter := snd (allow_rpc (env_clock E (clock_reads s)) (ce_limiter e))\<rparr>)
    (s\<lparr>clock_reads := clock_reads s + 1\<rparr>)"
  have m: "rpc_mgr s1 = Some rm" using server(4) by (simp add: s1_def update_by_address_def)
  have "invoke_server NmClient i args m = [NetSend ?msg ReliableOrdered]"
    using client(4) True rpc_packet_sys [of i args] by (simp add: invoke_server_def send_rpc_def build_eq sys_message_def)
  moreover have "primary (nm_call Ec (NetSend ?msg ReliableOrdered) c) = Some (snd (t_send (env_transport Ec) ?msg ReliableOrdered t))"
    using client(1-3) by (simp add: nm_send_def primary_send_def case_prod_unfold Let_def)
  moreover have "handle_packet E p a ?msg s = Some (on_rpc_message E (ce_id e) a (write_u16_be i @ args) s)"
    using handle_sys_known [OF server(1,2), of "write_u16_be i @ args" E p "0x22"] server(7)
    by (simp add: process_system_message_def sys_types)
  moreover have "\<exists>rm'. rpc_mgr (on_rpc_message E (ce_id e) a (write_u16_be i @ args) s) = Some rm' \<and>
      (if fits_payload args rm \<and> auth = Anyone \<and> fst (allow_rpc (env_clock E (clock_reads s)) (ce_limiter e))
       then \<exists>ps. rpc_sender ps = ce_id e \<and> rpc_log rm' = rpc_log rm @ [(i, ps, args)] else rm' = rm)"
    using server m by (cases auth) (simp_all add: on_rpc_message_def nm_now_def Let_def case_prod_unfold s1_def rpc_receive_packet)
  ultimately show ?thesis using True by auto
next
  case False
  then show ?thesis using client(4) by (simp add: invoke_server_def send_rpc_def build_eq)
qed

subsection \<open>What the managers do not guard\<close>

text \<open>C31: Any connected client edits the server's entities. A spawn message of a client enters an entity of the identifier and the
  prefab it names, and a destroy message removes the entity it names, whoever owns it; the server sends nothing, so that its
  other clients keep the entities they had.
\<close>

theorem client_edits_server_entities:
  assumes "serving s" "find_client_by_address a s = Some e" "entity_mgr s = Some em" "\<not> at_capacity em"
    and "length d + 17 \<le> max_packet_size (nm_config s)" "view em (e_net_id ent) = None"
  shows "(\<exists>s' em'. handle_packet E p a (spawn_message ent d) s = Some s' \<and> entity_mgr s' = Some em' \<and>
      view em' = (view em)(e_net_id ent \<mapsto> e_prefab_id ent) \<and> primary s' = primary s \<and> extras s' = extras s) \<and>
    (\<exists>s' em'. handle_packet E p a (sys_message 0x11 (write_u64_be nid)) s = Some s' \<and> entity_mgr s' = Some em' \<and>
      view em' = (view em)(nid := None) \<and> primary s' = primary s \<and> extras s' = extras s)"
proof -
  have "entity_edit (spawn_message ent d)" "entity_edit (sys_message 0x11 (write_u64_be nid))"
    using spawn_message_sys by (auto simp: entity_edit_def)
  moreover have "length (spawn_message ent d) \<le> max_packet_size (nm_config s)"
    "length (sys_message 0x11 (write_u64_be nid)) \<le> max_packet_size (nm_config s)"
    using assms(5) by (simp_all add: spawn_message_def sys_message_def SYS_MAGIC_def)
  moreover have "sys_message 0x11 (write_u64_be nid) ! 2 = 0x11" "drop 3 (sys_message 0x11 (write_u64_be nid)) = write_u64_be nid"
    by (simp_all add: sys_message_def SYS_MAGIC_def)
  ultimately show ?thesis using assms
    by (simp add: handle_entity_message spawn_message_received destroy_message_received enter_entity_simps view_None)
qed


text \<open>What an application has been or will be given: the queues of data, and the data reported to its callback.\<close>

fun is_data :: "nm_event \<Rightarrow> bool" where
  "is_data (EvData i d) = True"
| "is_data (EvConnected i) = False"
| "is_data (EvDisconnected i) = False"

definition app_view :: "'s nm \<Rightarrow> (u64 \<times> bytes) list \<times> (u64 \<times> bytes) list \<times> nm_event list" where
  "app_view s = (message_queue s, host_queue s, filter is_data (events s))"

lemma app_view_fields [simp]:
  "app_view (s\<lparr>clock_reads := n\<rparr>) = app_view s" "app_view (s\<lparr>nm_clients := cs\<rparr>) = app_view s"
  "app_view (s\<lparr>rep_mgr := r\<rparr>) = app_view s" "app_view (s\<lparr>entity_mgr := em\<rparr>) = app_view s"
  "app_view (s\<lparr>rpc_mgr := rm\<rparr>) = app_view s" "app_view (s\<lparr>net_time := nt\<rparr>) = app_view s"
  "app_view (s\<lparr>primary := t\<rparr>) = app_view s" "app_view (s\<lparr>client_connected := b\<rparr>) = app_view s"
  "app_view (s\<lparr>local_client_id := i\<rparr>) = app_view s" "app_view (s\<lparr>awaiting_accept := b\<rparr>) = app_view s"
  "\<not> is_data e \<Longrightarrow> app_view (nm_event e s) = app_view s"
  by (simp_all add: app_view_def nm_event_def)

lemma app_view_helpers [simp]:
  "app_view (put_transport p t s) = app_view s" "app_view (snd (transport_send_to E p a d r s)) = app_view s"
  "app_view (send_sys E p a ty d s) = app_view s" "app_view (disconnect_transport_client E p a s) = app_view s"
  "app_view (disconnect_primary E s) = app_view s" "app_view (rep_connected i s) = app_view s"
  "app_view (rep_disconnected i s) = app_view s" "app_view (erase_client i s) = app_view s"
  "app_view (update_by_address a f s) = app_view s" "app_view (snd (nm_now E s)) = app_view s"
  "app_view (snd (check_token E d s)) = app_view s" "app_view (snd (configure_limiter E s)) = app_view s"
  "app_view (snd (nm_network_time E s)) = app_view s"
proof -
  show put: "app_view (put_transport p t s) = app_view s" for p t and s :: "'a nm"
    by (cases p) (simp_all add: put_transport_def app_view_def)
  show "app_view (send_sys E p a ty d s) = app_view s" "app_view (disconnect_transport_client E p a s) = app_view s"
    "app_view (snd (transport_send_to E p a d r s)) = app_view s"
    by (simp_all add: send_sys_def disconnect_transport_client_def transport_send_to_def Let_def case_prod_unfold put split: option.split)
  show "app_view (snd (nm_now E s)) = app_view s" "app_view (snd (check_token E d s)) = app_view s"
    "app_view (snd (configure_limiter E s)) = app_view s" "app_view (snd (nm_network_time E s)) = app_view s"
    by (simp_all add: nm_now_def check_token_def nm_seconds_def configure_limiter_def nm_network_time_def Let_def)
qed (simp_all add: disconnect_primary_def rep_connected_def rep_disconnected_def erase_client_def update_by_address_def)

lemma app_view_requests:
  "on_connect_request E p a d s = Some s' \<Longrightarrow> app_view s' = app_view s"
  by (auto simp: on_connect_request_def accept_client_def Let_def case_prod_unfold split: if_splits option.splits)

lemma app_view_rpc [simp]: "app_view (on_rpc_message E i a d s) = app_view s"
  by (auto simp: on_rpc_message_def Let_def case_prod_unfold split: option.split)

lemma app_view_system: "process_system_message E i a p ty d s = Some s' \<Longrightarrow> app_view s' = app_view s"
  by (auto simp: process_system_message_def on_connect_accept_def on_connect_reject_def on_disconnect_notify_def
      on_time_sync_request_def on_time_sync_response_def Let_def case_prod_unfold app_view_requests
      split: if_splits option.splits)

text \<open>
  C0: Data that looks like a system message never reaches an application. Whatever the state and whoever sends it, handling a
  message of at least three bytes that begins with the manager's mark, which nothing keeps an application from
  sending, queues no data and reports none.
\<close>

theorem marked_data_not_delivered:
  assumes "handle_packet E p a d s = Some s'" "3 \<le> length d" "take 2 d = SYS_MAGIC"
  shows "message_queue s' = message_queue s \<and> host_queue s' = host_queue s \<and> filter is_data (events s') = filter is_data (events s)"
proof -
  have "app_view (drop_oversized E a s) = app_view s"
    by (auto simp: drop_oversized_def Let_def split: option.split)
  then have "app_view s' = app_view s"
    using assms by (auto simp: handle_packet_def Let_def dest: app_view_system split: if_splits option.splits)
  then show ?thesis by (simp add: app_view_def)
qed

subsection \<open>Replication\<close>

lemma ack_loop_calls:
  "snapshot_ack_loop dt r = Some y \<Longrightarrow> set (fst y) \<subseteq> {NetSend (ack_message (last_received r)) Unreliable}"
proof (induction rule: snapshot_ack_loop.raw_induct [rotated 1, consumes 1])
  case (1 run t r y)
  then show ?case by (fastforce simp: Let_def bind_eq_Some_conv split: if_splits)
qed

lemma map_of_map_key: "map_of (map (\<lambda>(k, v). (k, f k v)) al) k = map_option (f k) (map_of al k)"
  by (induction al) auto

lemma build_keeps_unacked:
  assumes "map_of (client_states r) i = Some st" "\<not> has_ack st" "interest_filter r = None"
  shows "map_of (client_states (snd (build_and_send_snapshot ser ents conn r))) i = Some st"
proof -
  have n: "client_states r \<noteq> []" using assms(1) by auto
  have "snd (send_to_client conn force snap (r\<lparr>history := h\<rparr>) i st) = st" for force snap h
    using assms(2,3) by (simp add: send_to_client_def Let_def)
  then show ?thesis using n assms(1)
    by (simp add: build_and_send_snapshot_def Let_def comp_def case_prod_unfold
        map_of_map_key [of "\<lambda>c st. snd (send_to_client _ _ _ _ c st)", unfolded case_prod_unfold])
qed

text \<open>What a client shows, and what it will acknowledge, after it has handled a snapshot of all entities.\<close>

lemma client_takes_snapshot:
  assumes client: "nm_mode c = NmClient" "rep_mgr c = Some rc" "immediate rc" "newer16 i (last_received rc)"
      "length (snapshot_message i (serialize_all ser ids)) \<le> max_packet_size (nm_config c)"
    and entities: "distinct ids" "fits_wire (serialize_all ser ids)"
  obtains rc' where "handle_packet E p a (snapshot_message i (serialize_all ser ids)) c = Some (c\<lparr>rep_mgr := Some rc'\<rparr>)"
    "\<forall>n\<in>set ids. ser n \<noteq> None \<longrightarrow> shown rc' n = ser n" "last_received rc' = i"
    "rep_rate rc' = rep_rate rc" "ack_accumulator rc' = ack_accumulator rc"
proof -
  let ?es = "serialize_all ser ids"
  define msg where "msg = snapshot_message i ?es"
  define rc' where "rc' = receive_message msg rc"
  have sys: "msg = sys_message 0x20 (drop 3 msg)"
    by (simp add: msg_def snapshot_message_def sys_message_def SYS_MAGIC_def)
  have "handle_packet E p a msg c = Some (c\<lparr>rep_mgr := Some rc'\<rparr>)"
    using handle_sys_client [of c "drop 3 msg" E p a "0x20"] sys client(1,2,5) length_snapshot_message [of i ?es]
    by (simp add: process_system_message_def sys_types serving_def rc'_def receive_message_def msg_def)
  moreover have "shown rc' n = ser n" if n: "n \<in> set ids" "ser n \<noteq> None" for n
  proof -
    obtain d where d: "ser n = Some d" using n(2) by blast
    then have "\<lparr>snap_id = n, snap_data = d\<rparr> \<in> set ?es" using n(1) by (simp add: serialize_all_set)
    from show_entities_in [OF serialize_all_distinct [OF entities(1)] this] show ?thesis
      using shown_received [OF client(3) length_snapshot_message, of i ?es] received_fits [OF entities(2)] d
      by (simp add: rc'_def msg_def)
  qed
  moreover have "last_received rc' = i"
    using client(4) by (simp add: rc'_def receive_message_def on_receive_delta_def msg_def snapshot_message_def Let_def)
  moreover have "rep_rate rc' = rep_rate rc" "ack_accumulator rc' = ack_accumulator rc"
    by (simp_all add: rc'_def receive_message_def on_receive_delta_def Let_def)
  ultimately show thesis using that by (simp add: msg_def)
qed

text \<open>C26: The first snapshot through both managers, and back. Without an interest filter, the message a server's tick builds for a
  connected client that never acknowledged one goes to the client's address; a client that shows states as they arrive, and for which
  the snapshot is new and the message not too large, shows, having handled it, every entity the bridge serialized in its current state; its
  next tick in which an interval has passed returns and sends the acknowledgement of this snapshot, unless its identifier is 0, to
  its server, and no tick sends anything else; and when that arrives, the server takes the snapshot as the client's baseline.
\<close>

theorem first_snapshot_acknowledged:
  assumes server: "nm_mode s = NmServer" "find_client_by_id i s = Some e" "find_client_by_address (ce_address e) s = Some e"
      "ce_approved e" "ce_transport e = Some p" "transport_at p s = Some t" "5 \<le> max_packet_size (nm_config s)"
    and tick: "map_of (client_states r) i = Some st" "\<not> has_ack st" "interest_filter r = None"
      "build_and_send_snapshot ser (Some ids) (\<lambda>i. is_client_connected i s) r = (calls, r1)" "rep_mgr s = Some r1"
    and entities: "distinct ids" "serialize_all ser ids \<noteq> []" "fits_wire (serialize_all ser ids)"
    and client: "nm_mode c = NmClient" "client_connected c" "primary c = Some ct" "rep_mgr c = Some rc" "immediate rc"
      "newer16 (snapshot_id r) (last_received rc)"
      "length (snapshot_message (snapshot_id r) (serialize_all ser ids)) \<le> max_packet_size (nm_config c)"
    and interval: "snapshot_id r \<noteq> 0" "0 < rep_rate rc" "f32 (1 / rep_rate rc) \<le> f32 (ack_accumulator rc + dt)"
      "f32 (ack_accumulator rc + dt) \<le> 2 ^ 22 * f32 (1 / rep_rate rc)"
  shows "\<exists>msg ack c' rc' s' r' st'. NetSendTo i msg Unreliable \<in> set calls \<and>
    transport_at p (nm_call E (NetSendTo i msg Unreliable) s) = Some (snd (t_send_to (env_transport E) (ce_address e) msg Unreliable t)) \<and>
    handle_packet Ec q b msg c = Some c' \<and> rep_mgr c' = Some rc' \<and> (\<forall>n\<in>set ids. ser n \<noteq> None \<longrightarrow> shown rc' n = ser n) \<and>
    (\<exists>acks rc2. client_tick NmClient dt rc' = Some (acks, rc2) \<and> set acks = {NetSend ack Unreliable}) \<and>
    (\<forall>dt calls rc2. client_tick NmClient dt rc' = Some (calls, rc2) \<longrightarrow> set calls \<subseteq> {NetSend ack Unreliable}) \<and>
    primary (nm_call Ec (NetSend ack Unreliable) c') = Some (snd (t_send (env_transport Ec) ack Unreliable ct)) \<and>
    handle_packet E p (ce_address e) ack s = Some s' \<and> rep_mgr s' = Some r' \<and>
    map_of (client_states r') i = Some st' \<and> has_ack st' \<and> last_acked st' = snapshot_id r"
proof -
  let ?es = "serialize_all ser ids" and ?conn = "\<lambda>i. is_client_connected i s" and ?i = "snapshot_id r"
  define msg where "msg = snapshot_message ?i ?es"
  define ack where "ack = ack_message ?i"
  obtain rc' where rc': "handle_packet Ec q b msg c = Some (c\<lparr>rep_mgr := Some rc'\<rparr>)"
    "\<forall>n\<in>set ids. ser n \<noteq> None \<longrightarrow> shown rc' n = ser n" "last_received rc' = ?i"
    "rep_rate rc' = rep_rate rc" "ack_accumulator rc' = ack_accumulator rc"
    unfolding msg_def by (rule client_takes_snapshot [OF client(1,4-7) entities(1,3)])
  have "ce_id e = i" using server(2) by (auto simp: find_client_by_id_def find_Some_iff)
  moreover have "serving s" "is_client_connected i s" using server(1,2,4) by (simp_all add: serving_def is_client_connected_def)
  ultimately have e: "ce_id e = i" "serving s" "is_client_connected i s" by blast+
  have sys: "ack = sys_message 0x21 (write_u16_be ?i)" by (simp add: ack_def ack_message_def sys_message_def SYS_MAGIC_def)
  have member: "(i, st) \<in> set (client_states r)" by (rule map_of_SomeD [OF tick(1)])
  have cur: "current_entities ser (Some ids) ?conn r = ?es" using member tick(2) e(3) by (auto simp: current_entities_def)
  have "NetSendTo i msg Unreliable \<in> set calls"
    using build_calls_of [OF member, of msg Unreliable ?conn ser "Some ids"] e(3) tick(2-4) entities(2)
    by (auto simp: cur send_to_client_def send_snapshot_to_client_def Let_def msg_def)
  moreover have "transport_at p (nm_call E (NetSendTo i msg Unreliable) s) = Some (snd (t_send_to (env_transport E) (ce_address e) msg Unreliable t))"
    using server(1,2,4-6) e(2)
    by (cases p) (auto simp: nm_send_to_def transport_send_to_def transport_at_def put_transport_def update_by_id_def Let_def
        case_prod_unfold split: if_splits)
  moreover
  have "\<exists>acks rc2. client_tick NmClient dt rc' = Some (acks, rc2) \<and> set acks = {NetSend ack Unreliable}"
    using client_tick_acknowledges [of NmClient rc' dt] interval rc' by (simp add: ack_def)
  moreover have "set calls \<subseteq> {NetSend ack Unreliable}" if "client_tick NmClient dt rc' = Some (calls, rc2)" for dt calls rc2
    using that rc'(3) by (auto simp: client_tick_def Let_def ack_def split: if_splits dest!: ack_loop_calls)
  moreover have "primary (nm_call Ec (NetSend ack Unreliable) (c\<lparr>rep_mgr := Some rc'\<rparr>)) = Some (snd (t_send (env_transport Ec) ack Unreliable ct))"
    using client(1-3) by (simp add: nm_send_def primary_send_def case_prod_unfold Let_def)
  moreover have "handle_packet E p (ce_address e) ack s = Some (s\<lparr>rep_mgr := Some (on_snapshot_ack i ?i r1)\<rparr>)"
    using handle_sys_known [OF e(2) server(3), of "write_u16_be ?i" E p "0x21"] sys server(7) tick(5) e(1)
      read_write_u16 [of ?i "[]"]
    by (simp add: process_system_message_def sys_types)
  moreover have "map_of (client_states r1) i = Some st"
    using build_keeps_unacked [OF tick(1-3), of ser "Some ids" ?conn] tick(4) by simp
  then obtain st' where "map_of (client_states (on_snapshot_ack i ?i r1)) i = Some st'" "has_ack st'" "last_acked st' = ?i"
    using tick(2) by (simp add: on_snapshot_ack_def Let_def update_conv')
  moreover note rc'(1,2)
  ultimately show ?thesis
    by - (rule exI [of _ msg], rule exI [of _ ack], rule exI [of _ "c\<lparr>rep_mgr := Some rc'\<rparr>"], rule exI [of _ rc'],
        rule exI [of _ "s\<lparr>rep_mgr := Some (on_snapshot_ack i ?i r1)\<rparr>"], rule exI [of _ "on_snapshot_ack i ?i r1"],
        rule exI [of _ st'], intro conjI, (assumption | simp | blast)+)
qed

text \<open>The raw system messages of a host's managers are also queued for the host's own application, as data of its own client.\<close>

theorem host_queues_system_messages:
  assumes "nm_reachable s" "nm_mode s = NmHost" "extras s = []" "primary s = Some t" "local_client_id s \<noteq> 0"
  shows "host_queue (fold (nm_call E) (broadcast_spawn ent d) s) = host_queue s @ [(local_client_id s, spawn_message ent d)]"
  using broadcast_effect [OF nm_ok_reachable [OF assms(1)] _ assms(3,4), of E "spawn_message ent d" ReliableOrdered 0] assms(2,5)
  by (simp add: broadcast_spawn_def serving_def)

subsection \<open>Witnesses\<close>

theorem host_queues_system_messages_witness:
  "host_queue (fold (nm_call w_env) (broadcast_spawn \<lparr>e_net_id = 1, e_prefab_id = 2, e_local_handle = 0, e_owner_id = 0\<rparr> []) w_host) =
     [(1, [0xCA, 0xFE, 0x10, 0, 0, 0, 0, 0, 0, 0, 1, 0, 0, 0, 2, 0, 0])]"
  using host_queues_system_messages [OF host_reachable, of "([], [])" w_env _ "[]"]
  by (simp add: w_defs spawn_message_def write_u64_be_def write_u32_be_def write_u16_be_def)

text \<open>A server that a client has joined.\<close>

lemma limiter_state: "snd (configure_limiter E s) = s\<lparr>clock_reads := clock_reads s + 3\<rparr>"
  by (simp add: configure_limiter_def nm_now_def Let_def)

lemma joined:
  fixes E :: "'s nm_env"
  assumes "env_approval E = None" "t_bind (env_transport E) ba (env_default E) = (True, t0)" "t_poll (env_transport E) t0 = Some t1"
    and pop: "t_pop_receive (env_transport E) BUF_SIZE t1 = (Some (sys_message CONNECT_REQUEST [], a), t2)"
      "t_pop_receive (env_transport E) BUF_SIZE t3 = (None, t4)"
    and send: "t_send_to (env_transport E) a (sys_message CONNECT_ACCEPT (nm_write_u64 (env_endian E) 1)) ReliableOrdered t2 = (ok, t3)"
  obtains s where "nm_reachable s" "serving s" "extras s = []" "primary s = Some t4" "remote_addresses s 0 = [a]"
    "nm_mode s = NmServer" "map entry_key (nm_clients s) = [(1, a, Some Primary, True)]"
proof -
  let ?m = "sys_message CONNECT_REQUEST []" and ?cfg = "default_config\<lparr>cfg_mode := NmServer, cfg_bind := ba\<rparr>"
  define s0 where "s0 = new_nm\<lparr>nm_config := ?cfg, nm_mode := NmServer, primary := Some t0\<rparr>"
  define s1 where "s1 = s0\<lparr>primary := Some t1\<rparr>"
  define sx where "sx = s0\<lparr>primary := Some t2\<rparr>"
  note defs = s0_def s1_def sx_def new_nm_def default_config_def
  have "nm_start E ?cfg new_nm = Some (True, s0)" using assms(2) by (simp add: nm_start_def Let_def defs)
  then have r0: "nm_reachable s0" by (rule nm_reachable.start [OF nm_reachable.fresh, rotated]) (simp add: default_config_def)
  have sx: "nm_mode sx = NmServer" "\<not> require_token (nm_config sx)" "max_clients (nm_config sx) = 32" "max_packet_size (nm_config sx) = 8192"
      "nm_clients sx = []" "rep_mgr sx = None" "extras sx = []" "local_client_id sx = 0" "primary sx = Some t2"
    by (simp_all add: defs)
  have known: "serving sx" "find_client_by_address a sx = None" "generate_client_id sx = Some 1" "approved_count sx = 0"
      "check_token E [] sx = ((True, []), sx)"
    using sx by (simp_all add: serving_def find_client_by_address_def generate_client_id_def free_first approved_count_def check_token_def)
  define sa where "sa = the (accept_client E Primary a sx)"
  have "accept_client E Primary a sx = Some sa \<and> primary sa = Some t3 \<and> nm_mode sa = NmServer \<and> extras sa = [] \<and>
      local_client_id sa = 0 \<and> map entry_key (nm_clients sa) = [(1, a, Some Primary, True)]"
    using sx known(3) send limiter_state [of E sx]
    by (simp add: sa_def accept_client_def case_prod_unfold Let_def send_sys_def transport_send_to_def transport_at_def put_transport_def
        nm_event_def rep_connected_def entry_key_def new_client_entry_def)
  moreover have "handle_packet E Primary a ?m sx = accept_client E Primary a sx"
    using known sx(3,4) assms(1) by (simp add: handle_packet_def process_system_message_def on_connect_request_def)
  ultimately have sa: "handle_packet E Primary a ?m sx = Some sa" "primary sa = Some t3" "nm_mode sa = NmServer"
      "extras sa = []" "local_client_id sa = 0" "map entry_key (nm_clients sa) = [(1, a, Some Primary, True)]" by simp_all
  have "receive_loop E Primary sa = Some (sa\<lparr>primary := Some t4\<rparr>)"
    by (subst receive_loop.simps) (simp add: transport_at_def put_transport_def sa(2) pop(2))
  moreover have "primary s1 = Some t1" "s1\<lparr>primary := Some t2\<rparr> = sx" by (simp_all add: defs)
  ultimately have loop: "receive_loop E Primary s1 = Some (sa\<lparr>primary := Some t4\<rparr>)"
    using sa(1) pop(1) by (subst receive_loop.simps) (simp add: transport_at_def put_transport_def)
  have s0: "poll_transports E s0 = Some s1" "primary s0 \<noteq> None" "extras s1 = []" using assms(3) by (simp_all add: poll_transports_def defs)
  define l where "l = sa\<lparr>primary := Some t4, clock_reads := clock_reads sa + 1,
    nm_clients := map (update_bandwidth (env_clock E (clock_reads sa))) (nm_clients sa)\<rparr>"
  have "nm_poll E s0 = Some l" using s0 loop sa(3)
    by (auto simp: nm_poll_def poll_transport_receives_def all_tptrs_def poll_client_time_sync_def nm_now_def l_def Let_def)
  moreover have keys: "map entry_key (nm_clients l) = [(1, a, Some Primary, True)]" using sa(6) by (simp add: l_def comp_def)
  then have "remote_addresses l 0 = [a]" using sa(5) by (simp add: remote_addresses_keys l_def)
  moreover have "serving l" "extras l = []" "primary l = Some t4" "nm_mode l = NmServer" using sa by (simp_all add: l_def serving_def)
  ultimately show thesis using that [OF nm_reachable.poll [OF r0, of E l]] keys by simp
qed

lemma joined_server:
  obtains s :: "post nm" and t where "nm_reachable s" "serving s" "extras s = []" "primary s = Some t" "remote_addresses s 0 = [w_addr]"
proof -
  let ?t = "([(w_addr, sys_message CONNECT_ACCEPT (nm_write_u64 Little 1))], []) :: post"
  show thesis
    by (rule joined [where E = "w_env\<lparr>env_default := ([], [(sys_message CONNECT_REQUEST [], w_addr)])\<rparr>" and ba = addr_default
          and a = w_addr and ?t2.0 = "([], [])" and ?t4.0 = ?t])
      (simp_all add: w_env_def post_transport_def BUF_SIZE_def sys_message_def SYS_MAGIC_def that [unfolded sys_message_def])+
qed

theorem rpc_through_managers_witness:
  "\<exists>msg s' rm'. invoke_server NmClient 7 [1, 2] (set_network_manager True new_rpc_manager) = [NetSend msg ReliableOrdered] \<and>
     handle_packet w_env Primary w_addr msg (w_busy\<lparr>rpc_mgr := Some (register_handler 7 Anyone new_rpc_manager)\<rparr>) = Some s' \<and>
     rpc_mgr s' = Some rm' \<and> (\<exists>ps. rpc_sender ps = 1 \<and> rpc_log rm' = [(7, ps, [1, 2])])"
proof -
  let ?s = "w_busy\<lparr>rpc_mgr := Some (register_handler 7 Anyone new_rpc_manager)\<rparr>" and ?e = "hd (nm_clients w_busy)"
    and ?rm = "register_handler 7 Anyone new_rpc_manager" and ?m = "set_network_manager True new_rpc_manager"
  have client: "nm_mode w_client = NmClient" "client_connected w_client" "primary w_client = Some ([], [])" "has_net ?m"
    by (simp_all add: w_defs set_network_manager_def)
  have server: "serving ?s" "find_client_by_address w_addr ?s = Some ?e" "ce_id ?e \<noteq> 0" "rpc_mgr ?s = Some ?rm"
      "handlers ?rm 7 = Some Anyone" "rate_buckets ?rm 7 = None" "length [1, 2 :: u8] + 5 \<le> max_packet_size (nm_config ?s)"
    by (simp_all add: w_defs serving_def find_client_by_address_def addr_eq_def register_handler_def new_rpc_manager_def)
  have "ce_id ?e = 1" "rpc_log ?rm = []" by (simp_all add: w_defs register_handler_def new_rpc_manager_def)
  moreover have "fits_payload [1, 2] ?m" "fits_payload [1, 2] ?rm"
    by (simp_all add: fits_payload_def set_network_manager_def register_handler_def new_rpc_manager_def)
  moreover have "fst (allow_rpc t (ce_limiter ?e))" for t
    by (simp add: w_defs allow_rpc_def new_limiter_def consume_disabled empty_bucket_def)
  ultimately show ?thesis
    using rpc_through_managers [OF client server, of w_env w_env Primary] by auto
qed

definition w_entity :: net_entity where
  "w_entity = \<lparr>e_net_id = 5, e_prefab_id = 9, e_local_handle = 0, e_owner_id = 0\<rparr>"

theorem client_edits_server_entities_witness:
  "\<exists>s' em'. handle_packet w_env Primary w_addr (spawn_message w_entity [1]) (w_busy\<lparr>entity_mgr := Some new_entity_manager\<rparr>) = Some s' \<and>
     entity_mgr s' = Some em' \<and> view em' 5 = Some 9"
proof -
  let ?s = "w_busy\<lparr>entity_mgr := Some new_entity_manager\<rparr>"
  have "serving ?s" "find_client_by_address w_addr ?s = Some (hd (nm_clients w_busy))" "entity_mgr ?s = Some new_entity_manager"
    "\<not> at_capacity new_entity_manager" "length [1 :: u8] + 17 \<le> max_packet_size (nm_config ?s)"
    "view new_entity_manager (e_net_id w_entity) = None"
    by (simp_all add: w_defs serving_def find_client_by_address_def addr_eq_def at_capacity_def new_entity_manager_def view_def)
  from client_edits_server_entities [OF this, of w_env Primary] obtain s' em' where
    "handle_packet w_env Primary w_addr (spawn_message w_entity [1]) ?s = Some s'" "entity_mgr s' = Some em'"
    "view em' = (view new_entity_manager)(e_net_id w_entity \<mapsto> e_prefab_id w_entity)" by blast
  then show ?thesis by (simp add: w_entity_def)
qed

theorem marked_data_not_delivered_witness:
  "\<exists>s'. handle_packet w_env Primary w_addr [0xCA, 0xFE, 0xFF] w_busy = Some s' \<and> message_queue s' = []"
proof -
  let ?d = "[0xCA, 0xFE, 0xFF] :: bytes"
  obtain s' where "handle_packet w_env Primary w_addr ?d w_busy = Some s'"
    by (simp add: handle_packet_def w_defs serving_def find_client_by_address_def addr_eq_def SYS_MAGIC_def process_system_message_def
        sys_types)
  moreover have "message_queue w_busy = []" by (simp add: w_defs)
  ultimately show ?thesis using marked_data_not_delivered [of w_env Primary w_addr ?d w_busy s'] by (simp add: SYS_MAGIC_def)
qed

definition w_udp_env :: "udp nm_env" where
  "w_udp_env = \<lparr>env_transport = udp_transport (\<lambda>a d. True) True True 0 [], env_default = new_udp, env_endian = Little,
     env_clock = (\<lambda>n. 0), env_approval = None, env_handles = (\<lambda>_ _ _ _. 0), env_raw = []\<rparr>"

definition w_udp_client :: "bytes list \<Rightarrow> udp nm" where
  "w_udp_client ds = new_nm\<lparr>nm_mode := NmClient, entity_mgr := Some new_entity_manager,
     primary := Some (new_udp\<lparr>receive_queue := map (Pair w_addr) ds, receive_read_idx := 0\<rparr>)\<rparr>"

lemma w_udp_client:
  "env_transport w_udp_env = udp_transport (\<lambda>a d. True) True True 0 []" "nm_mode (w_udp_client ds) = NmClient"
  "\<not> serving (w_udp_client ds)" "entity_mgr (w_udp_client ds) = Some new_entity_manager" "max_packet_size (nm_config (w_udp_client ds)) = 8192"
  "unread (w_udp_client ds) = []" "message_read_idx (w_udp_client ds) = 0"
  "\<exists>u. primary (w_udp_client ds) = Some u \<and> udp_waiting u = map (\<lambda>d. (d, w_addr)) ds"
  by (simp_all add: w_udp_env_def w_udp_client_def serving_def new_nm_def default_config_def unread_def udp_waiting_def comp_def)


theorem entities_mirrored_witness:
  "\<exists>c' em'. receive_loop w_udp_env Primary (w_udp_client (map call_message (fst (entity_ops (\<lambda>_ _ _ _. 4) mirror_ops new_entity_manager)))) = Some c' \<and>
     entity_mgr c' = Some em' \<and> view em' 2 = Some 8"
proof -
  let ?calls = "fst (entity_ops (\<lambda>_ _ _ _. 4) mirror_ops new_entity_manager)" and ?c = "w_udp_client (map call_message (fst (entity_ops (\<lambda>_ _ _ _. 4) mirror_ops new_entity_manager)))"
  obtain s :: "post nm" and t where s: "nm_reachable s" "serving s" "extras s = []" "primary s = Some t" by (rule joined_server)
  obtain u where u: "primary ?c = Some u" "udp_waiting u = map (\<lambda>c. (call_message c, w_addr)) ?calls"
    using w_udp_client(8) [of "map call_message ?calls"] by (auto simp: comp_def)
  have "ids_below_next new_entity_manager" "unat (next_id new_entity_manager) + length mirror_ops < 2 ^ 64"
    by (simp_all add: new_entity_manager_def ids_below_next_def view_def mirror_ops_def)
  note server = s this refl
  have "list_all (\<lambda>c. length (call_message c) \<le> 4096) ?calls" by code_simp
  then have small: "\<forall>c'\<in>set ?calls. length (call_message c') \<le> min BUF_SIZE (max_packet_size (nm_config ?c))"
    by (simp add: list_all_iff w_udp_client BUF_SIZE_def)
  have "max_entities new_entity_manager = 0" by (simp add: new_entity_manager_def)
  from entities_mirrored [OF server w_udp_client(1,3) u(1) w_udp_client(4) refl this u(2) small]
  have "\<exists>c' em'. receive_loop w_udp_env Primary ?c = Some c' \<and> entity_mgr c' = Some em' \<and>
      view em' = view (snd (entity_ops (\<lambda>_ _ _ _. 4) mirror_ops new_entity_manager))" by blast
  moreover have "view (snd (entity_ops (\<lambda>_ _ _ _. 4) mirror_ops new_entity_manager)) 2 = Some 8" by code_simp
  ultimately show ?thesis by fastforce
qed

theorem first_snapshot_acknowledged_witness:
  "\<exists>r1 msg ack c' rc' acks rc2 s' r' st'.
     handle_packet w_env Primary w_addr msg (w_client\<lparr>rep_mgr := Some (set_rep_rate 1 (set_rep_bridge True new_replication))\<rparr>) = Some c' \<and>
     rep_mgr c' = Some rc' \<and> shown rc' 7 = Some [1, 2] \<and>
     client_tick NmClient 1 rc' = Some (acks, rc2) \<and> NetSend ack Unreliable \<in> set acks \<and>
     handle_packet w_env Primary w_addr ack (w_busy\<lparr>rep_mgr := Some r1\<rparr>) = Some s' \<and> rep_mgr s' = Some r' \<and>
     map_of (client_states r') 1 = Some st' \<and> last_acked st' = 1"
proof -
  let ?r = "sync_example\<lparr>snapshot_id := 1\<rparr>" and ?ser = "[7 \<mapsto> [1, 2]] :: u64 \<Rightarrow> bytes option" and ?rc = "set_rep_rate 1 (set_rep_bridge True new_replication)"
    and ?e = "hd (nm_clients w_busy)"
  obtain calls r1 where b: "build_and_send_snapshot ?ser (Some [7]) (\<lambda>i. is_client_connected i w_busy) ?r = (calls, r1)" by fastforce
  let ?s = "w_busy\<lparr>rep_mgr := Some r1\<rparr>" and ?c = "w_client\<lparr>rep_mgr := Some ?rc\<rparr>"
  have server: "nm_mode ?s = NmServer" "find_client_by_id 1 ?s = Some ?e" "find_client_by_address (ce_address ?e) ?s = Some ?e"
      "ce_approved ?e" "ce_transport ?e = Some Primary" "transport_at Primary ?s = Some ([], [])" "5 \<le> max_packet_size (nm_config ?s)"
    by (simp_all add: w_defs find_client_by_id_def find_client_by_address_def addr_eq_def transport_at_def)
  have tick: "map_of (client_states ?r) 1 = Some new_client_state" "\<not> has_ack new_client_state" "interest_filter ?r = None"
    by (simp_all add: sync_example_def rep_client_connected_def set_rep_bridge_def new_replication_def new_client_state_def)
  have b': "build_and_send_snapshot ?ser (Some [7]) (\<lambda>i. is_client_connected i ?s) ?r = (calls, r1)" "rep_mgr ?s = Some r1"
    using b by (simp_all add: is_client_connected_def find_client_by_id_def)
  have entities: "distinct [7 :: u64]" "serialize_all ?ser [7] \<noteq> []" "fits_wire (serialize_all ?ser [7])" by (simp_all add: fits_wire_def)
  have client: "nm_mode ?c = NmClient" "client_connected ?c" "primary ?c = Some ([], [])" "rep_mgr ?c = Some ?rc" "immediate ?rc"
      "newer16 (snapshot_id ?r) (last_received ?rc)"
      "length (snapshot_message (snapshot_id ?r) (serialize_all ?ser [7])) \<le> max_packet_size (nm_config ?c)"
    by (simp_all add: w_defs set_rep_rate_def set_rep_bridge_def new_replication_def immediate_def newer16_def snapshot_message_def snapshot_entry_def)
  have interval: "snapshot_id ?r \<noteq> 0" "0 < rep_rate ?rc" "f32 (1 / rep_rate ?rc) \<le> f32 (ack_accumulator ?rc + 1)"
      "f32 (ack_accumulator ?rc + 1) \<le> 2 ^ 22 * f32 (1 / rep_rate ?rc)"
    by (simp_all add: set_rep_rate_def set_rep_bridge_def new_replication_def)
  have a: "ce_address ?e = w_addr" by (simp add: w_defs)
  from first_snapshot_acknowledged [OF server tick b' entities client interval, of w_env w_env Primary w_addr]
  obtain msg ack c' rc' s' r' st' acks rc2 where "handle_packet w_env Primary w_addr msg ?c = Some c'" "rep_mgr c' = Some rc'"
    "\<forall>n\<in>set [7]. ?ser n \<noteq> None \<longrightarrow> shown rc' n = ?ser n"
    "client_tick NmClient 1 rc' = Some (acks, rc2)" "set acks = {NetSend ack Unreliable}"
    "handle_packet w_env Primary w_addr ack ?s = Some s'" "rep_mgr s' = Some r'"
    "map_of (client_states r') 1 = Some st'" "last_acked st' = snapshot_id ?r"
    unfolding a by - (elim exE conjE, rule that, assumption+)
  then show ?thesis
    by (intro exI [of _ r1] exI [of _ msg] exI [of _ ack] exI [of _ c'] exI [of _ rc'] exI [of _ acks] exI [of _ rc2] exI [of _ s']
        exI [of _ r'] exI [of _ st']) simp
qed

end
