(* ===== verification/ManagerNetwork.thy ===== *)
theory ManagerNetwork
  imports ManagerStack UdpReliable
begin

text \<open>
  The managers over a real link: a server and a client whose \<open>NetworkManager\<close>s use a \<open>UdpTransport\<close> each, connected by
  a network that loses, duplicates, delays and reorders datagrams (\<open>link_reach\<close> of \<open>UdpReliable\<close>).

  What the server's managers send are steps of the link, and what the client's receive loop takes from its transport is a prefix
  of it. So the client's application gets the server's messages in order, each once, and the client's entities are at every moment those
  the server had at some earlier moment. The witnesses are a run of both from the join on.
\<close>

subsection \<open>Broadcasts are steps of the link\<close>

definition send_reliable :: "(address \<Rightarrow> bytes \<Rightarrow> bool) \<Rightarrow> time \<Rightarrow> address \<Rightarrow> bytes \<Rightarrow> udp \<Rightarrow> udp" where
  "send_reliable os now a d u = snd (udp_send_to os now u a d ReliableOrdered)"

definition open_to :: "address \<Rightarrow> udp \<Rightarrow> bool" where
  "open_to a u \<longleftrightarrow> (\<exists>i. find_connection u a = Some i \<and> c_state (connections u ! i) \<noteq> Disconnecting)"

lemma find_index_bound: "find_index a cs = Some i \<Longrightarrow> i < length cs"
  by (induction cs arbitrary: i) (auto split: if_splits)

lemma find_index_update: "find_index a cs = Some i \<Longrightarrow> c_address c = c_address (cs ! i) \<Longrightarrow> find_index a (cs[i := c]) = Some i"
  by (induction cs arbitrary: i) (auto split: if_splits)

lemma send_to_connection_same:
  assumes "length d \<le> MAX_PAYLOAD_SIZE" "send_to_connection os now c u d ReliableOrdered p = (ok, c', u')"
  shows "c_address c' = c_address c \<and> c_state c' = c_state c \<and> connections u' = connections u"
  using assms by (auto simp: send_to_connection_def Let_def upd_channel_def send_raw_def is_reliable_def split: if_splits option.splits prod.splits)

lemma send_reliable_open:
  assumes "length d \<le> MAX_PAYLOAD_SIZE" "open_to a u"
  shows "open_to a (send_reliable os now a d u)"
proof -
  obtain i where i: "find_connection u a = Some i" "c_state (connections u ! i) \<noteq> Disconnecting" using assms(2) by (auto simp: open_to_def)
  obtain ok c u1 where s: "send_to_connection os now (connections u ! i) u d ReliableOrdered 0 = (ok, c, u1)" by (metis prod_cases3)
  have same: "c_address c = c_address (connections u ! i)" "c_state c = c_state (connections u ! i)" "connections u1 = connections u"
    using send_to_connection_same [OF assms(1) s] by blast+
  have "send_reliable os now a d u = u1\<lparr>connections := (connections u)[i := c]\<rparr>"
    using i(1) s same(3) by (simp add: send_reliable_def udp_send_to_def send_at_def)
  then show ?thesis using i same find_index_bound find_index_update [of a "connections u" i c]
    by (auto simp: open_to_def find_connection_def)
qed

lemma link_sends:
  assumes "link_reach a b x y" "open_to a (ep y)" "\<forall>d\<in>set ds. length d \<le> MAX_PAYLOAD_SIZE" "length (sent_log y) + length ds \<le> 65535"
  shows "link_reach a b x (y\<lparr>ep := fold (send_reliable os now a) ds (ep y), sent_log := sent_log y @ ds\<rparr>)"
  using assms
proof (induction ds arbitrary: y)
  case (Cons d ds)
  let ?y = "y\<lparr>ep := send_reliable os now a d (ep y), sent_log := sent_log y @ [d]\<rparr>"
  obtain i where i: "find_connection (ep y) a = Some i" "c_state (connections (ep y) ! i) \<noteq> Disconnecting"
    using Cons.prems(2) by (auto simp: open_to_def)
  obtain ok u' where u': "udp_send_to os now (ep y) a d ReliableOrdered = (ok, u')" by fastforce
  have "ep_step a (wire (ep x)) y (y\<lparr>ep := u', sent_log := sent_log y @ [d]\<rparr>)"
    by (rule ep_send [OF _ _ i u']) (use Cons.prems(3,4) in simp_all)
  then have "ep_step a (wire (ep x)) y ?y" using u' by (simp add: send_reliable_def)
  from link_right [OF Cons.prems(1) this] have l: "link_reach a b x ?y" .
  have "open_to a (ep ?y)" using send_reliable_open Cons.prems(2,3) by simp
  from Cons.IH [OF l this] Cons.prems(3,4) show ?case by simp
qed simp

subsection \<open>A prefix of the messages is a moment of the server\<close>

lemma run_op_calls: "length (fst (run_op mk x m)) \<le> 1"
  by (cases x) (auto simp: em_spawn_def em_destroy_def broadcast_spawn_def broadcast_destroy_def Let_def case_prod_unfold
      split: option.split)

lemma prefix_is_moment:
  "prefix cs (fst (entity_ops mk ops m)) \<Longrightarrow> \<exists>k\<le>length ops. cs = fst (entity_ops mk (take k ops) m)"
proof (induction ops arbitrary: cs m)
  case (Cons x xs)
  define c1 m1 where "c1 = fst (run_op mk x m)" and "m1 = snd (run_op mk x m)"
  have p: "prefix cs (c1 @ fst (entity_ops mk xs m1))" using Cons.prems by (simp add: c1_def m1_def Let_def case_prod_unfold)
  show ?case
  proof (cases "cs = []")
    case True
    then show ?thesis by (intro exI [of _ 0]) simp
  next
    case False
    then obtain cs' where cs': "cs = c1 @ cs'" "prefix cs' (fst (entity_ops mk xs m1))"
    proof (cases c1)
      case (Cons c q)
      then have "c1 = [c]" using run_op_calls [of mk x m] by (simp add: c1_def)
      then show ?thesis using False p that by (cases cs) auto
    qed (use p that in simp)
    from Cons.IH [OF cs'(2)] obtain k where "k \<le> length xs" "cs' = fst (entity_ops mk (take k xs) m1)" by blast
    then show ?thesis using cs'(1) by (intro exI [of _ "Suc k"]) (simp add: c1_def m1_def Let_def case_prod_unfold)
  qed
qed simp

subsection \<open>Entities over the network\<close>

lemma waiting_prefix:
  assumes "link_reach a b x y" "addr_ok a" "addr_ok b" "sent_log y = got x @ ms"
  shows "prefix (map fst (udp_waiting (ep x))) ms" "UdpReliable.delivered x = got x @ map fst (udp_waiting (ep x))"
    "\<forall>d\<in>set (map fst (udp_waiting (ep x))). length d \<le> MAX_PAYLOAD_SIZE"
proof -
  note ok = link_reach_ok [OF assms(1-3)]
  show d: "UdpReliable.delivered x = got x @ map fst (udp_waiting (ep x))"
    by (auto simp: UdpReliable.delivered_def udp_waiting_def)
  show "prefix (map fst (udp_waiting (ep x))) ms" using ok assms(4) d by (auto simp: flow_ok_def prefix_def)
  show "\<forall>d\<in>set (map fst (udp_waiting (ep x))). length d \<le> MAX_PAYLOAD_SIZE"
    using ok by (auto simp: end_ok_def udp_waiting_def dest!: in_set_dropD)
qed

text \<open>C4: Entities over the network. Two managers use UDP transports over a network that loses, duplicates, delays and reorders
  datagrams; the server has one remote client and spawns under fresh identifiers, and the client has no limit of entities. If the messages
  of the server's edits all fit a datagram, and the link carries at most 65535 messages, the edits are put on the link; whatever
  happens after that, a client that had the server's entities and had taken everything sent before holds, after any receive loop, which
  ends, exactly the entities that the server had after some number of the edits, and after all of them once everything has arrived.
\<close>

theorem entities_mirrored_over_network:
  assumes server: "nm_reachable s" "serving s" "extras s = []" "primary s = Some (ep y)" "env_transport E = udp_transport os sock_ok bind_ok now ins"
      "remote_addresses s 0 = [a]" "open_to a (ep y)"
    and edits: "calls = fst (entity_ops mk ops m)" "\<forall>k\<in>set calls. length (call_message k) \<le> MAX_PAYLOAD_SIZE"
      "ids_below_next m" "unat (next_id m) + length ops < 2 ^ 64"
    and link: "addr_ok a" "addr_ok b" "link_reach a b x y" "length (sent_log y) + length calls \<le> 65535"
    and later: "link_reach a b x' y'" "sent_log y' = sent_log y @ map call_message calls" "got x' = sent_log y"
    and client: "env_transport Ec = udp_transport os' sock_ok' bind_ok' now' ins'" "\<not> serving c" "primary c = Some (ep x')"
      "entity_mgr c = Some em" "view em = view m" "max_entities em = 0" "MAX_PAYLOAD_SIZE \<le> max_packet_size (nm_config c)"
  shows "(\<exists>y1. primary (fold (nm_call E) calls s) = Some (ep y1) \<and> sent_log y1 = sent_log y @ map call_message calls \<and>
      link_reach a b x y1) \<and>
    (\<exists>c' em' n. receive_loop Ec Primary c = Some c' \<and> entity_mgr c' = Some em' \<and> n \<le> length ops \<and>
      view em' = view (snd (entity_ops mk (take n ops) m)) \<and>
      (UdpReliable.delivered x' = sent_log y' \<longrightarrow> view em' = view (snd (entity_ops mk ops m))))"
proof
  have b: "reliable_broadcast k \<and> entity_edit (call_message k)" if "k \<in> set calls" for k
    using entity_ops_broadcasts that edits(1) by blast
  define y1 where "y1 = y\<lparr>ep := fold (send_reliable os now a) (map call_message calls) (ep y),
    sent_log := sent_log y @ map call_message calls\<rparr>"
  have "send_each E [a] d = send_reliable os now a d" for d
    by (rule ext) (simp add: send_each_def send_reliable_def server(5) udp_transport_def)
  then have "primary (fold (nm_call E) calls s) = Some (fold (send_reliable os now a) (map call_message calls) (ep y))"
    using broadcasts_sent [OF nm_ok_reachable [OF server(1)] server(2-4), of calls E] b
    by (simp add: list_all_iff server(6) fold_map comp_def)
  moreover have "link_reach a b x y1"
    using edits(2) link(4) unfolding y1_def by (intro link_sends [OF link(3) server(7)]) auto
  ultimately show "\<exists>y1. primary (fold (nm_call E) calls s) = Some (ep y1) \<and> sent_log y1 = sent_log y @ map call_message calls \<and>
      link_reach a b x y1" by (intro exI [of _ y1]) (simp add: y1_def)
  note w = waiting_prefix [OF later(1) link(1,2), of "map call_message calls"]
  obtain cs where cs: "prefix cs calls" "map fst (udp_waiting (ep x')) = map call_message cs"
  proof -
    have "map fst (udp_waiting (ep x')) = take (length (udp_waiting (ep x'))) (map call_message calls)"
      using w(1) later(2,3) by (auto simp: prefix_def append_eq_conv_conj)
    then show ?thesis using that [OF take_is_prefix] by (simp add: take_map)
  qed
  then have "set cs \<subseteq> set calls" by (auto simp: prefix_def)
  moreover have "MAX_PAYLOAD_SIZE \<le> BUF_SIZE" by (simp add: MAX_PAYLOAD_SIZE_def MAX_PACKET_SIZE_def HDR_SIZE_def BUF_SIZE_def)
  ultimately have "\<forall>d\<in>set (map fst (udp_waiting (ep x'))). entity_edit d \<and> length d \<le> min BUF_SIZE (max_packet_size (nm_config c))"
    using w(3) later(2,3) client(7) b cs(2) by force
  from client_applies [OF client(1-4) this] obtain c' where
    c': "receive_loop Ec Primary c = Some c'" "entity_mgr c' = Some (fold (deliver_call (env_handles Ec)) cs em)"
    by (auto simp: cs(2) deliver_messages)
  obtain n where n: "n \<le> length ops" "cs = fst (entity_ops mk (take n ops) m)" using prefix_is_moment cs(1) edits(1) by blast
  have "view (fold (deliver_call (env_handles Ec)) cs em) = view (snd (entity_ops mk (take n ops) m))"
    unfolding n(2) by (rule client_mirrors_server [OF client(5,6) edits(3)]) (use edits(4) n(1) in simp)
  moreover have "view (fold (deliver_call (env_handles Ec)) cs em) = view (snd (entity_ops mk ops m))"
    if "UdpReliable.delivered x' = sent_log y'"
  proof -
    have "map call_message cs = map call_message calls" using that w(2) later(2,3) cs(2) by simp
    then have "length cs = length calls" by (metis length_map)
    then have "cs = calls" using cs(1) by (auto simp: prefix_def)
    then show ?thesis unfolding edits(1) by (auto intro: client_mirrors_server [OF client(5,6) edits(3,4)])
  qed
  ultimately show "\<exists>c' em' n. receive_loop Ec Primary c = Some c' \<and> entity_mgr c' = Some em' \<and> n \<le> length ops \<and>
      view em' = view (snd (entity_ops mk (take n ops) m)) \<and>
      (UdpReliable.delivered x' = sent_log y' \<longrightarrow> view em' = view (snd (entity_ops mk ops m)))"
    using c' n(1) by blast
qed

subsection \<open>Messages of the application over the network\<close>

definition send_reliable_to :: "'s nm_env \<Rightarrow> u64 \<Rightarrow> bytes \<Rightarrow> 's nm \<Rightarrow> 's nm" where
  "send_reliable_to E i d s = snd (nm_send_to E i d ReliableOrdered s)"

definition serves_at :: "u64 \<Rightarrow> address \<Rightarrow> 's nm \<Rightarrow> bool" where
  "serves_at i a s \<longleftrightarrow> nm_mode s = NmServer \<and> (\<exists>e. find_client_by_id i s = Some e \<and> ce_approved e \<and> ce_transport e = Some Primary \<and>
     ce_address e = a)"

lemma find_update_first: "(\<And>x. P (f x) = P x) \<Longrightarrow> find P (update_first P f xs) = map_option f (find P xs)"
  by (induction xs) auto

lemma send_reliable_to_step:
  assumes "serves_at i a s" "primary s = Some t"
  shows "serves_at i a (send_reliable_to E i d s) \<and>
    primary (send_reliable_to E i d s) = Some (snd (t_send_to (env_transport E) a d ReliableOrdered t))"
proof -
  obtain e where e: "find_client_by_id i s = Some e" "ce_approved e" "ce_transport e = Some Primary" "ce_address e = a" "nm_mode s = NmServer"
    using assms(1) by (auto simp: serves_at_def)
  have "find (\<lambda>c. ce_id c = i) (update_first (\<lambda>c. ce_id c = i) (count_sent n) (nm_clients s)) = Some (count_sent n e)" for n
    using e(1) find_update_first [of "\<lambda>c. ce_id c = i" "count_sent n"] by (simp add: find_client_by_id_def count_sent_def)
  then show ?thesis using e assms(2)
    by (auto simp: send_reliable_to_def nm_send_to_def serving_def transport_send_to_def transport_at_def put_transport_def update_by_id_def
        serves_at_def find_client_by_id_def Let_def case_prod_unfold count_sent_def)
qed

lemma sends_reliable_to:
  assumes "serves_at i a s" "primary s = Some u" "env_transport E = udp_transport os sock_ok bind_ok now ins"
  shows "primary (fold (send_reliable_to E i) ds s) = Some (fold (send_reliable os now a) ds u)"
  using assms(1,2)
proof (induction ds arbitrary: s u)
  case (Cons d ds)
  have "primary (send_reliable_to E i d s) = Some (send_reliable os now a d u)"
    using send_reliable_to_step [OF Cons.prems, of E d] assms(3) by (simp add: udp_transport_def send_reliable_def)
  then show ?case using Cons.IH send_reliable_to_step [OF Cons.prems, of E d] by simp
qed simp

lemma received_client: "nm_mode c = NmClient \<Longrightarrow> NetworkManagerLaws.received c ms = map (Pair 0) (map fst ms)"
  by (induction ms) (auto simp: sender_of_def serving_def)

text \<open>C3: Messages over the network. The messages a server sends to one client, each of which is not empty, fits a datagram and
  \<open>max_packet_size\<close> and is not marked as a system message, are put on the link in order, which carries at most 65535 messages; whatever
  the network loses, duplicates, delays or reorders after that, the receive loop of a client without rate limits that had taken everything
  sent before ends and hands its application a prefix of exactly these messages, in order, each once, and all of them
  once everything has arrived. Longer and marked messages do not arrive (\<open>ordered_fragments_lost\<close>, \<open>marked_data_not_delivered\<close>).
\<close>

theorem messages_over_network:
  assumes server: "serves_at i a s" "primary s = Some (ep y)" "env_transport E = udp_transport os sock_ok bind_ok now ins" "open_to a (ep y)"
    and link: "addr_ok a" "addr_ok b" "link_reach a b x y" "length (sent_log y) + length ds \<le> 65535"
    and later: "link_reach a b x' y'" "sent_log y' = sent_log y @ ds" "got x' = sent_log y"
    and client: "env_transport Ec = udp_transport os' sock_ok' bind_ok' now' ins'" "nm_mode c = NmClient" "primary c = Some (ep x')"
      "all_unlimited c" "message_read_idx c \<le> length (message_queue c)"
    and data: "\<forall>d\<in>set ds. user_data (max_packet_size (nm_config c)) d \<and> length d \<le> MAX_PAYLOAD_SIZE"
  shows "(\<exists>y1. primary (fold (send_reliable_to E i) ds s) = Some (ep y1) \<and> sent_log y1 = sent_log y @ ds \<and> link_reach a b x y1) \<and>
    (\<exists>c' n. receive_loop Ec Primary c = Some c' \<and> n \<le> length ds \<and> unread c' = unread c @ map (Pair 0) (take n ds) \<and>
      (UdpReliable.delivered x' = sent_log y' \<longrightarrow> n = length ds))"
proof
  define y1 where "y1 = y\<lparr>ep := fold (send_reliable os now a) ds (ep y), sent_log := sent_log y @ ds\<rparr>"
  have "link_reach a b x y1" unfolding y1_def using data link(4) by (intro link_sends [OF link(3) server(4)]) auto
  then show "\<exists>y1. primary (fold (send_reliable_to E i) ds s) = Some (ep y1) \<and> sent_log y1 = sent_log y @ ds \<and> link_reach a b x y1"
    using sends_reliable_to [OF server(1-3), of ds] by (intro exI [of _ y1]) (simp add: y1_def)
  note w = waiting_prefix [OF later(1) link(1,2), of ds]
  define n where "n = length (udp_waiting (ep x'))"
  have ms: "map fst (udp_waiting (ep x')) = take n ds" "n \<le> length ds"
    using w(1) later(2,3) by (auto simp: prefix_def n_def append_eq_conv_conj dest: arg_cong [of _ _ length])
  have "t_pop_receive (env_transport Ec) = (\<lambda>n u. udp_pop_receive u n)" by (simp add: client(1) udp_transport_def)
  moreover have "\<forall>(d, a)\<in>set (udp_waiting (ep x')). user_data (max_packet_size (nm_config c)) d"
  proof clarify
    fix d a assume "(d, a) \<in> set (udp_waiting (ep x'))"
    then have "d \<in> set (map fst (udp_waiting (ep x')))" by force
    then show "user_data (max_packet_size (nm_config c)) d" using data unfolding ms(1) by (auto dest: in_set_takeD)
  qed
  ultimately obtain c' where "receive_loop Ec Primary c = Some c'"
      "inbox c' = (message_read_idx c, message_queue c @ NetworkManagerLaws.received c (udp_waiting (ep x')),
         events c @ map (\<lambda>(i, d). EvData i d) (NetworkManagerLaws.received c (udp_waiting (ep x'))))"
    using udp_messages.receive_loop_user_data [OF _ client(3,4)] by blast
  then have "receive_loop Ec Primary c = Some c'" "unread c' = unread c @ map (Pair 0) (take n ds)"
    using client(2,5) by (simp_all add: inbox_def unread_def received_client ms(1))
  moreover have "n = length ds" if "UdpReliable.delivered x' = sent_log y'"
    using that w(2) later(2,3) ms by simp
  ultimately show "\<exists>c' n. receive_loop Ec Primary c = Some c' \<and> n \<le> length ds \<and> unread c' = unread c @ map (Pair 0) (take n ds) \<and>
      (UdpReliable.delivered x' = sent_log y' \<longrightarrow> n = length ds)"
    using ms(2) by blast
qed

subsection \<open>A run\<close>

text \<open>
  A client joins the server, the server spawns an entity, and the client's transport receives the message: the datagrams, and the
  states of the two transports.
\<close>

definition nw_request :: bytes where "nw_request = sys_message CONNECT_REQUEST []"

definition nw_accept :: bytes where "nw_accept = sys_message CONNECT_ACCEPT (nm_write_u64 Little 1)"

definition nw_spawn :: bytes where "nw_spawn = [0xCA, 0xFE, 0x10, 0, 0, 0, 0, 0, 0, 0, 1, 0, 0, 0, 7, 0, 0]"

definition nw_data :: bytes where "nw_data = [104, 105]"

definition nw_datagram :: "bytes \<Rightarrow> u8 \<Rightarrow> bytes \<Rightarrow> bytes" where
  "nw_datagram acks sq d = [0xCA, 0x17, 0, 5, 0, sq] @ acks @ [0, of_nat (length d), 0, 0] @ d"

definition nw_acks :: bytes where "nw_acks = [0, 0, 0, 0, 0, 1]"

definition nw_pending :: "u16 \<Rightarrow> bytes \<Rightarrow> pending" where
  "nw_pending sq d = \<lparr>p_sequence = sq, p_send_time = 0, p_retries = 0, p_data = d, p_fragmented = False, p_priority = 0\<rparr>"

definition nw_c1 :: udp where
  "nw_c1 = run_c0\<lparr>connections := [upd_channel 1 (\<lambda>k. k\<lparr>local_seq := 1, pendings := [nw_pending 0 nw_request]\<rparr>) (new_connection (run_addr 2) 0)],
     packets_sent := 2, wire := wire run_c0 @ [(run_addr 2, nw_datagram [0xFF, 0xFF, 0, 0, 0, 0] 0 nw_request)]\<rparr>"

definition nw_s1 :: udp where "nw_s1 = run_s2\<lparr>receive_queue := [(run_addr 1, nw_request)]\<rparr>"

definition nw_s4 :: udp where
  "nw_s4 = run_s2\<lparr>connections := [upd_channel 1 (\<lambda>k. k\<lparr>local_seq := 1, pendings := [nw_pending 0 nw_accept]\<rparr>) (connections run_s2 ! 0)],
     receive_queue := [], packets_sent := 2, wire := wire run_s2 @ [(run_addr 1, nw_datagram nw_acks 0 nw_accept)]\<rparr>"

lemma nw_server:
  "snd (udp_send_to run_os 0 run_c0 (run_addr 2) nw_request ReliableOrdered) = nw_c1"
  "udp_poll run_os 0 [run_arrival 1 run_handshake, run_arrival 1 (nw_datagram [0xFF, 0xFF, 0, 0, 0, 0] 0 nw_request)] run_s0 = Inr nw_s1"
  "udp_pop_receive nw_s1 BUF_SIZE = (Some (nw_request, run_addr 1), nw_s1\<lparr>receive_read_idx := 1\<rparr>)"
  "udp_send_to run_os 0 (nw_s1\<lparr>receive_read_idx := 1\<rparr>) (run_addr 1) nw_accept ReliableOrdered =
     (True, nw_s4\<lparr>receive_queue := [(run_addr 1, nw_request)], receive_read_idx := 1\<rparr>)"
  "udp_pop_receive (nw_s4\<lparr>receive_queue := [(run_addr 1, nw_request)], receive_read_idx := 1\<rparr>) BUF_SIZE = (None, nw_s4)"
  by code_simp+

lemma nw_connections:
  "connections nw_s1 \<noteq> []" "find_connection (nw_s1\<lparr>receive_read_idx := 1\<rparr>) (run_addr 1) = Some 0" "find_connection nw_s4 (run_addr 1) = Some 0"
  "c_state (connections nw_s1 ! 0) = Connected" "c_state (connections nw_s4 ! 0) = Connected" "find_connection run_c0 (run_addr 2) = Some 0"
  by code_simp+

definition nw_back :: "bytes \<Rightarrow> arrival list" where
  "nw_back d = [run_arrival 2 run_handshake, run_arrival 2 (nw_datagram nw_acks 0 nw_accept), run_arrival 2 (nw_datagram nw_acks 1 d)]"

text \<open>A message that the server sends next reaches the client.\<close>

definition nw_arrives :: "bytes \<Rightarrow> bool" where
  "nw_arrives d \<longleftrightarrow> length d \<le> MAX_PAYLOAD_SIZE \<and>
     map snd (wire (snd (udp_send_to run_os 0 nw_s4 (run_addr 1) d ReliableOrdered))) =
       [run_handshake, nw_datagram nw_acks 0 nw_accept, nw_datagram nw_acks 1 d] \<and>
     (case udp_poll run_os 0 (nw_back d) nw_c1 of Inl _ \<Rightarrow> False
      | Inr u \<Rightarrow> connections u \<noteq> [] \<and> receive_read_idx u = 0 \<and> receive_queue u = [(run_addr 2, nw_accept), (run_addr 2, d)])"

lemma nw_spawn_arrives: "nw_arrives nw_spawn"
  by code_simp

lemma nw_data_arrives: "nw_arrives nw_data"
  by code_simp

lemma nw_spawned: "map call_message (fst (entity_ops (\<lambda>_ _ _ _. 0) [OpSpawn 7 []] new_entity_manager)) = [nw_spawn]"
  by code_simp

abbreviation endpoint_of :: "udp \<Rightarrow> bytes list \<Rightarrow> bytes list \<Rightarrow> endpoint" where
  "endpoint_of u L G \<equiv> \<lparr>ep = u, sent_log = L, got = G\<rparr>"

lemma nw_step_send:
  "length d \<le> MAX_PAYLOAD_SIZE \<Longrightarrow> length L < 65535 \<Longrightarrow> find_connection u p = Some i \<Longrightarrow> c_state (connections u ! i) \<noteq> Disconnecting \<Longrightarrow>
   snd (udp_send_to os now u p d ReliableOrdered) = u' \<Longrightarrow> ep_step p W (endpoint_of u L G) (endpoint_of u' (L @ [d]) G)"
  using ep_send [where x = "endpoint_of u L G" and d = d and peer = p and W = W and u' = u' and os = os and now = now and i = i
      and ok = "fst (udp_send_to os now u p d ReliableOrdered)"] by auto

lemma nw_step_poll:
  "udp_poll os t (map (run_arrival k) ds) u = Inr u' \<Longrightarrow> connections u' \<noteq> [] \<Longrightarrow> set ds \<subseteq> snd ` set W \<Longrightarrow>
   ep_step (run_addr k) W (endpoint_of u L G) (endpoint_of u' L G)"
  using ep_poll [of "map (run_arrival k) ds" "run_addr k" W os t "endpoint_of u L G" u']
  by (auto simp: from_peer_def run_arrival_def run_addr_def set_raw_storage_def)

lemma nw_step_pop:
  "udp_pop_receive u n = (Some (d, a), u') \<Longrightarrow> MAX_PAYLOAD_SIZE \<le> n \<Longrightarrow> ep_step p W (endpoint_of u L G) (endpoint_of u' L (G @ [d]))"
  using ep_pop [of "endpoint_of u L G" n d a u' p W] by simp

lemma nw_step_pop_empty: "udp_pop_receive u n = (None, u') \<Longrightarrow> ep_step p W (endpoint_of u L G) (endpoint_of u' L G)"
  using ep_pop_empty [of "endpoint_of u L G" n u' p W] by simp

lemma link_steps:
  "link_reach a b (endpoint_of u L G) y \<Longrightarrow> ep_step a (wire u) y y' \<Longrightarrow> link_reach a b (endpoint_of u L G) y'"
  "link_reach a b x (endpoint_of v L G) \<Longrightarrow> ep_step b (wire v) x x' \<Longrightarrow> link_reach a b x' (endpoint_of v L G)"
  using link_right [of a b "endpoint_of u L G" y y'] link_left [of a b x "endpoint_of v L G" x'] by simp_all

lemma nw_small:
  "length nw_request \<le> MAX_PAYLOAD_SIZE" "length nw_accept \<le> MAX_PAYLOAD_SIZE" "MAX_PAYLOAD_SIZE \<le> BUF_SIZE"
  by (simp_all add: nw_request_def nw_accept_def sys_message_def SYS_MAGIC_def MAX_PAYLOAD_SIZE_def MAX_PACKET_SIZE_def
      HDR_SIZE_def BUF_SIZE_def)

text \<open>The client joins; then the server spawns, and the client receives and takes the acceptance.\<close>

lemma nw_joined: "link_reach (run_addr 1) (run_addr 2) (endpoint_of nw_c1 [nw_request] []) (endpoint_of nw_s4 [nw_accept] [nw_request])"
proof -
  let ?s2 = "nw_s1\<lparr>receive_read_idx := 1\<rparr>" and ?s3 = "nw_s4\<lparr>receive_queue := [(run_addr 1, nw_request)], receive_read_idx := 1\<rparr>"
  let ?W = "wire nw_c1" and ?x = "endpoint_of nw_c1 [nw_request] []"
  have w: "snd ` set ?W = {run_handshake, nw_datagram [0xFF, 0xFF, 0, 0, 0, 0] 0 nw_request}" by (auto simp: nw_c1_def run_c0_def)
  have "c_state (connections run_c0 ! 0) \<noteq> Disconnecting" by (simp add: run_steps(5))
  from nw_step_send [OF nw_small(1) _ nw_connections(6) this nw_server(1), of "[]"]
  have x: "ep_step (run_addr 2) W (endpoint_of run_c0 [] []) ?x" for W by simp
  have 1: "ep_step (run_addr 1) ?W (endpoint_of run_s0 [] []) (endpoint_of nw_s1 [] [])"
    using nw_step_poll [where ds = "[run_handshake, nw_datagram [0xFF, 0xFF, 0, 0, 0, 0] 0 nw_request]" and k = 1 and W = ?W]
      nw_server(2) nw_connections(1) w by auto
  have 2: "ep_step (run_addr 1) ?W (endpoint_of nw_s1 [] []) (endpoint_of ?s2 [] [nw_request])"
    using nw_step_pop [OF nw_server(3) nw_small(3), of _ _ _ "[]"] by simp
  have "c_state (connections ?s2 ! 0) \<noteq> Disconnecting" using nw_connections(4) by simp
  from nw_step_send [OF nw_small(2) _ nw_connections(2) this, of "[]" run_os 0]
  have 3: "ep_step (run_addr 1) ?W (endpoint_of ?s2 [] [nw_request]) (endpoint_of ?s3 [nw_accept] [nw_request])"
    using nw_server(4) by simp
  have 4: "ep_step (run_addr 1) ?W (endpoint_of ?s3 [nw_accept] [nw_request]) (endpoint_of nw_s4 [nw_accept] [nw_request])"
    by (rule nw_step_pop_empty [OF nw_server(5)])
  have "link_reach (run_addr 1) (run_addr 2) ?x (endpoint_of run_s0 [] [])"
    by (rule link_left [OF link_init [OF run_steps(1,2)] x])
  from link_steps(1) [OF link_steps(1) [OF link_steps(1) [OF link_steps(1) [OF this 1] 2] 3] 4] show ?thesis .
qed

lemma nw_received:
  assumes "nw_arrives d"
  obtains u v where "link_reach (run_addr 1) (run_addr 2) (endpoint_of u [nw_request] [nw_accept]) (endpoint_of v [nw_accept, d] [nw_request])"
    "receive_queue u = [(run_addr 2, nw_accept), (run_addr 2, d)]" "receive_read_idx u = 1"
proof -
  define v where "v = snd (udp_send_to run_os 0 nw_s4 (run_addr 1) d ReliableOrdered)"
  obtain u where u: "udp_poll run_os 0 (nw_back d) nw_c1 = Inr u" "connections u \<noteq> []" "receive_read_idx u = 0"
      "receive_queue u = [(run_addr 2, nw_accept), (run_addr 2, d)]"
    using assms by (auto simp: nw_arrives_def split: sum.splits)
  have d: "length d \<le> MAX_PAYLOAD_SIZE" "c_state (connections nw_s4 ! 0) \<noteq> Disconnecting"
    using assms nw_connections(5) by (simp_all add: nw_arrives_def)
  from nw_step_send [OF d(1) _ nw_connections(3) d(2) v_def [symmetric], of "[nw_accept]"]
  have v: "ep_step (run_addr 1) W (endpoint_of nw_s4 [nw_accept] [nw_request]) (endpoint_of v [nw_accept, d] [nw_request])" for W by simp
  have "snd ` set (wire v) = set (map snd (wire v))" by simp
  also have "map snd (wire v) = [run_handshake, nw_datagram nw_acks 0 nw_accept, nw_datagram nw_acks 1 d]"
    using assms by (simp add: v_def nw_arrives_def)
  finally have p: "ep_step (run_addr 2) (wire v) (endpoint_of nw_c1 [nw_request] []) (endpoint_of u [nw_request] [])"
    using nw_step_poll [where ds = "[run_handshake, nw_datagram nw_acks 0 nw_accept, nw_datagram nw_acks 1 d]" and k = 2 and W = "wire v"]
      u(1,2) by (simp add: nw_back_def)
  have "length nw_accept \<le> BUF_SIZE" using nw_small by simp
  then have "udp_pop_receive u BUF_SIZE = (Some (nw_accept, run_addr 2), u\<lparr>receive_read_idx := 1\<rparr>)"
    using u(3,4) by (simp add: udp_pop_receive_def min_absorb2)
  from nw_step_pop [OF this nw_small(3), of "run_addr 2" "wire v" "[nw_request]" "[]"]
  have q: "ep_step (run_addr 2) (wire v) (endpoint_of u [nw_request] []) (endpoint_of (u\<lparr>receive_read_idx := 1\<rparr>) [nw_request] [nw_accept])" by simp
  have "link_reach (run_addr 1) (run_addr 2) (endpoint_of (u\<lparr>receive_read_idx := 1\<rparr>) [nw_request] [nw_accept])
      (endpoint_of v [nw_accept, d] [nw_request])"
    by (rule link_steps(2) [OF link_steps(2) [OF link_steps(1) [OF nw_joined v] p] q])
  then show thesis using u(4) by (intro that [of "u\<lparr>receive_read_idx := 1\<rparr>" v]) simp_all
qed

definition nw_env :: "udp nm_env" where
  "nw_env = \<lparr>env_transport = udp_transport run_os True True 0 [run_arrival 1 run_handshake,
       run_arrival 1 (nw_datagram [0xFF, 0xFF, 0, 0, 0, 0] 0 nw_request)],
     env_default = new_udp, env_endian = Little, env_clock = (\<lambda>n. 0), env_approval = None, env_handles = (\<lambda>_ _ _ _. 0), env_raw = []\<rparr>"

lemma nw_manager:
  obtains s where "nm_reachable s" "serving s" "extras s = []" "primary s = Some nw_s4" "remote_addresses s 0 = [run_addr 1]"
    "serves_at 1 (run_addr 1) s"
proof -
  have T: "t_bind (env_transport nw_env) (run_addr 2) (env_default nw_env) = (True, run_s0)"
    "t_poll (env_transport nw_env) run_s0 = Some nw_s1"
    "t_pop_receive (env_transport nw_env) BUF_SIZE nw_s1 = (Some (sys_message CONNECT_REQUEST [], run_addr 1), nw_s1\<lparr>receive_read_idx := 1\<rparr>)"
    "t_pop_receive (env_transport nw_env) BUF_SIZE (nw_s4\<lparr>receive_queue := [(run_addr 1, nw_request)], receive_read_idx := 1\<rparr>) = (None, nw_s4)"
    "t_send_to (env_transport nw_env) (run_addr 1) (sys_message CONNECT_ACCEPT (nm_write_u64 (env_endian nw_env) 1)) ReliableOrdered
       (nw_s1\<lparr>receive_read_idx := 1\<rparr>) = (True, nw_s4\<lparr>receive_queue := [(run_addr 1, nw_request)], receive_read_idx := 1\<rparr>)"
    "env_approval nw_env = None"
    using run_steps(2) nw_server by (simp_all add: nw_env_def udp_transport_def nw_request_def nw_accept_def)
  obtain s where s: "nm_reachable s" "serving s" "extras s = []" "primary s = Some nw_s4" "remote_addresses s 0 = [run_addr 1]"
      "nm_mode s = NmServer" "map entry_key (nm_clients s) = [(1, run_addr 1, Some Primary, True)]"
    by (rule joined [OF T(6,1-5)])
  then obtain e where "nm_clients s = [e]" "entry_key e = (1, run_addr 1, Some Primary, True)" by auto
  then have "serves_at 1 (run_addr 1) s" using s(6) by (simp add: serves_at_def find_client_by_id_def entry_key_def)
  then show thesis using that s by blast
qed

theorem entities_mirrored_over_network_witness:
  "\<exists>s c c' em'. nm_reachable s \<and> primary s = Some nw_s4 \<and> receive_loop nw_env Primary c = Some c' \<and> entity_mgr c' = Some em' \<and>
     view em' 1 = Some 7"
proof -
  let ?ops = "[OpSpawn 7 []]" and ?m = new_entity_manager and ?mk = "\<lambda>_ _ _ _. 0 :: u64"
  let ?y = "endpoint_of nw_s4 [nw_accept] [nw_request]"
  obtain s where s: "nm_reachable s" "serving s" "extras s = []" "primary s = Some (ep ?y)" "remote_addresses s 0 = [run_addr 1]"
    using nw_manager by (metis endpoint.select_convs(1))
  obtain u v where l: "link_reach (run_addr 1) (run_addr 2) (endpoint_of u [nw_request] [nw_accept]) (endpoint_of v [nw_accept, nw_spawn] [nw_request])"
    "receive_queue u = [(run_addr 2, nw_accept), (run_addr 2, nw_spawn)]" "receive_read_idx u = 1" by (rule nw_received [OF nw_spawn_arrives])
  define c where "c = new_nm\<lparr>nm_mode := NmClient, entity_mgr := Some ?m, primary := Some u\<rparr>"
  have c: "\<not> serving c" "primary c = Some (ep (endpoint_of u [nw_request] [nw_accept]))" "entity_mgr c = Some ?m"
      "max_entities ?m = 0" "MAX_PAYLOAD_SIZE \<le> max_packet_size (nm_config c)"
    by (simp_all add: c_def serving_def new_entity_manager_def new_nm_def default_config_def MAX_PAYLOAD_SIZE_def MAX_PACKET_SIZE_def HDR_SIZE_def)
  have o: "open_to (run_addr 1) (ep ?y)" using nw_connections(3,5) by (auto simp: open_to_def)
  have calls: "map call_message (fst (entity_ops ?mk ?ops ?m)) = [nw_spawn]" by (rule nw_spawned)
  then have fits: "\<forall>k\<in>set (fst (entity_ops ?mk ?ops ?m)). length (call_message k) \<le> MAX_PAYLOAD_SIZE" "length (fst (entity_ops ?mk ?ops ?m)) = 1"
    using nw_spawn_arrives by (auto simp: nw_arrives_def)
  have ids: "ids_below_next ?m" "unat (next_id ?m) + length ?ops < 2 ^ 64"
    by (simp_all add: new_entity_manager_def ids_below_next_def view_def)
  have e: "env_transport nw_env = udp_transport run_os True True 0 [run_arrival 1 run_handshake,
      run_arrival 1 (nw_datagram [0xFF, 0xFF, 0, 0, 0, 0] 0 nw_request)]" by (simp add: nw_env_def)
  have "length (sent_log ?y) + length (fst (entity_ops ?mk ?ops ?m)) \<le> 65535" using fits(2) by simp
  moreover have "sent_log (endpoint_of v [nw_accept, nw_spawn] [nw_request]) = sent_log ?y @ map call_message (fst (entity_ops ?mk ?ops ?m))"
    "got (endpoint_of u [nw_request] [nw_accept]) = sent_log ?y" by (simp_all add: calls del: entity_ops.simps)
  ultimately obtain c' em' where r: "receive_loop nw_env Primary c = Some c'" "entity_mgr c' = Some em'"
      "UdpReliable.delivered (endpoint_of u [nw_request] [nw_accept]) = sent_log (endpoint_of v [nw_accept, nw_spawn] [nw_request]) \<longrightarrow>
         view em' = view (snd (entity_ops ?mk ?ops ?m))"
    using entities_mirrored_over_network [OF s(1-4) e s(5) o refl fits(1) ids run_addr_ok run_addr_ok nw_joined _ l(1) _ _ e c(1-3) refl c(4,5)]
    by blast
  moreover have "UdpReliable.delivered (endpoint_of u [nw_request] [nw_accept]) = [nw_accept, nw_spawn]"
    by (simp add: UdpReliable.delivered_def l(2,3))
  moreover have "view (snd (entity_ops ?mk ?ops ?m)) 1 = Some 7" by code_simp
  ultimately have "view em' 1 = Some 7" by simp
  then show ?thesis using s(1,4) r(1,2) by auto
qed

theorem messages_over_network_witness:
  "\<exists>s c c'. nm_reachable s \<and> primary s = Some nw_s4 \<and> receive_loop nw_env Primary c = Some c' \<and> unread c' = [(0, nw_data)]"
proof -
  let ?y = "endpoint_of nw_s4 [nw_accept] [nw_request]"
  obtain s where s: "nm_reachable s" "serves_at 1 (run_addr 1) s" "primary s = Some (ep ?y)"
    using nw_manager by (metis endpoint.select_convs(1))
  obtain u v where l: "link_reach (run_addr 1) (run_addr 2) (endpoint_of u [nw_request] [nw_accept]) (endpoint_of v [nw_accept, nw_data] [nw_request])"
    "receive_queue u = [(run_addr 2, nw_accept), (run_addr 2, nw_data)]" "receive_read_idx u = 1" by (rule nw_received [OF nw_data_arrives])
  define c where "c = new_nm\<lparr>nm_mode := NmClient, primary := Some u\<rparr>"
  have c: "nm_mode c = NmClient" "primary c = Some (ep (endpoint_of u [nw_request] [nw_accept]))" "all_unlimited c"
      "message_read_idx c \<le> length (message_queue c)" "unread c = []"
    by (simp_all add: c_def new_nm_def all_unlimited_def unread_def)
  have o: "open_to (run_addr 1) (ep ?y)" using nw_connections(3,5) by (auto simp: open_to_def)
  have e: "env_transport nw_env = udp_transport run_os True True 0 [run_arrival 1 run_handshake,
      run_arrival 1 (nw_datagram [0xFF, 0xFF, 0, 0, 0, 0] 0 nw_request)]" by (simp add: nw_env_def)
  have "\<forall>d\<in>set [nw_data]. user_data (max_packet_size (nm_config c)) d \<and> length d \<le> MAX_PAYLOAD_SIZE"
    using nw_data_arrives by (auto simp: nw_arrives_def user_data_def nw_data_def c_def new_nm_def default_config_def BUF_SIZE_def
        sys_message_def SYS_MAGIC_def)
  moreover have "length (sent_log ?y) + length [nw_data] \<le> 65535"
    "sent_log (endpoint_of v [nw_accept, nw_data] [nw_request]) = sent_log ?y @ [nw_data]"
    "got (endpoint_of u [nw_request] [nw_accept]) = sent_log ?y" by simp_all
  ultimately obtain c' n where r: "receive_loop nw_env Primary c = Some c'" "unread c' = unread c @ map (Pair 0) (take n [nw_data])"
      "UdpReliable.delivered (endpoint_of u [nw_request] [nw_accept]) = sent_log (endpoint_of v [nw_accept, nw_data] [nw_request]) \<longrightarrow>
         n = length [nw_data]"
    using messages_over_network [OF s(2,3) e o run_addr_ok run_addr_ok nw_joined _ l(1) _ _ e c(1-4)] by blast
  moreover have "UdpReliable.delivered (endpoint_of u [nw_request] [nw_accept]) = [nw_accept, nw_data]"
    by (simp add: UdpReliable.delivered_def l(2,3))
  ultimately have "unread c' = [(0, nw_data)]" by (simp add: c(5))
  then show ?thesis using s(1,3) r(1) by auto
qed

end
