(* ===== verification/RpcTyped.thy ===== *)
theory RpcTyped
  imports ManagerStack Serializable
begin

text \<open>
  The variadic calls of \<open>RpcManager\<close> (\<open>src/include/campello_net/rpc_manager.hpp\<close>): an argument pack is serialized
  by the overloads of \<open>serialize\<close>, left to right, to one stream, whose bytes are the arguments of the call.

  An argument is a value of a sum over the overloads, so that overload resolution is the choice of the constructor; the types a
  handler reads its arguments as are a list of tags. \<open>std::vector\<close> appears with the element type \<open>std::uint8_t\<close>; a
  \<open>MemberSerializable\<close> argument is user code.
\<close>

subsection \<open>Argument packs\<close>

datatype rpc_arg =
    ABool bool | AUint8 u8 | AUint16 u16 | AUint32 u32 | AUint64 u64
  | AInt8 int | AInt16 int | AInt32 int | AInt64 int
  | AFloat u32 | ADouble u64 | AString bytes | AVector bytes

datatype arg_type =
    TBool | TUint8 | TUint16 | TUint32 | TUint64 | TInt8 | TInt16 | TInt32 | TInt64 | TFloat | TDouble | TString | TVector

fun type_of_arg :: "rpc_arg \<Rightarrow> arg_type" where
  "type_of_arg (ABool _) = TBool"
| "type_of_arg (AUint8 _) = TUint8"
| "type_of_arg (AUint16 _) = TUint16"
| "type_of_arg (AUint32 _) = TUint32"
| "type_of_arg (AUint64 _) = TUint64"
| "type_of_arg (AInt8 _) = TInt8"
| "type_of_arg (AInt16 _) = TInt16"
| "type_of_arg (AInt32 _) = TInt32"
| "type_of_arg (AInt64 _) = TInt64"
| "type_of_arg (AFloat _) = TFloat"
| "type_of_arg (ADouble _) = TDouble"
| "type_of_arg (AString _) = TString"
| "type_of_arg (AVector _) = TVector"

text \<open>The values of the C++ types, and the lengths the readers accept.\<close>

fun arg_ok :: "rpc_arg \<Rightarrow> bool" where
  "arg_ok (AInt8 v) = fits_signed 8 v"
| "arg_ok (AInt16 v) = fits_signed 16 v"
| "arg_ok (AInt32 v) = fits_signed 32 v"
| "arg_ok (AInt64 v) = fits_signed 64 v"
| "arg_ok (AString v) = (length v \<le> 65535)"
| "arg_ok (AVector v) = (length v \<le> 1000000)"
| "arg_ok _ = True"

fun serialize_arg :: "endian \<Rightarrow> bitstream \<Rightarrow> rpc_arg \<Rightarrow> bitstream" where
  "serialize_arg en s (ABool v) = serialize_bool s v"
| "serialize_arg en s (AUint8 v) = serialize_uint8 s v"
| "serialize_arg en s (AUint16 v) = serialize_uint16 en s v"
| "serialize_arg en s (AUint32 v) = serialize_uint32 en s v"
| "serialize_arg en s (AUint64 v) = serialize_uint64 en s v"
| "serialize_arg en s (AInt8 v) = serialize_int8 s v"
| "serialize_arg en s (AInt16 v) = serialize_int16 en s v"
| "serialize_arg en s (AInt32 v) = serialize_int32 en s v"
| "serialize_arg en s (AInt64 v) = serialize_int64 en s v"
| "serialize_arg en s (AFloat v) = serialize_float en s v"
| "serialize_arg en s (ADouble v) = serialize_double en s v"
| "serialize_arg en s (AString v) = serialize_string s v"
| "serialize_arg en s (AVector v) = serialize_vector serialize_uint8 s v"

definition serialize_args :: "endian \<Rightarrow> bitstream \<Rightarrow> rpc_arg list \<Rightarrow> bitstream" where
  "serialize_args en s as = foldl (serialize_arg en) s as"

definition read_as :: "('a \<Rightarrow> rpc_arg) \<Rightarrow> 'a option \<times> bitstream \<Rightarrow> rpc_arg option \<times> bitstream" where
  "read_as C r = (map_option C (fst r), snd r)"

fun deserialize_arg :: "endian \<Rightarrow> arg_type \<Rightarrow> bitstream \<Rightarrow> rpc_arg option \<times> bitstream" where
  "deserialize_arg en TBool s = read_as ABool (deserialize_bool s)"
| "deserialize_arg en TUint8 s = read_as AUint8 (deserialize_uint8 s)"
| "deserialize_arg en TUint16 s = read_as AUint16 (deserialize_uint16 en s)"
| "deserialize_arg en TUint32 s = read_as AUint32 (deserialize_uint32 en s)"
| "deserialize_arg en TUint64 s = read_as AUint64 (deserialize_uint64 en s)"
| "deserialize_arg en TInt8 s = read_as AInt8 (deserialize_int8 s)"
| "deserialize_arg en TInt16 s = read_as AInt16 (deserialize_int16 en s)"
| "deserialize_arg en TInt32 s = read_as AInt32 (deserialize_int32 en s)"
| "deserialize_arg en TInt64 s = read_as AInt64 (deserialize_int64 en s)"
| "deserialize_arg en TFloat s = read_as AFloat (deserialize_float en s)"
| "deserialize_arg en TDouble s = read_as ADouble (deserialize_double en s)"
| "deserialize_arg en TString s = read_as AString (deserialize_string s)"
| "deserialize_arg en TVector s = read_as AVector (deserialize_vector deserialize_uint8 s)"

text \<open>A handler that reads its arguments one after the other and stops at the first that is missing.\<close>

fun deserialize_args :: "endian \<Rightarrow> arg_type list \<Rightarrow> bitstream \<Rightarrow> rpc_arg list option \<times> bitstream" where
  "deserialize_args en [] s = (Some [], s)"
| "deserialize_args en (t # ts) s =
     (case deserialize_arg en t s of
        (None, s) \<Rightarrow> (None, s)
      | (Some a, s) \<Rightarrow> (case deserialize_args en ts s of (None, s) \<Rightarrow> (None, s) | (Some as, s) \<Rightarrow> (Some (a # as), s)))"

subsection \<open>The calls\<close>

definition invoke_client_args :: "endian \<Rightarrow> net_mode \<Rightarrow> u64 \<Rightarrow> u16 \<Rightarrow> rpc_arg list \<Rightarrow> rpc_manager \<Rightarrow> net_call list" where
  "invoke_client_args en md c i as m = (let stream = serialize_args en bs_empty as in send_rpc md c i (bs_span stream) m)"

definition invoke_server_args :: "endian \<Rightarrow> net_mode \<Rightarrow> u16 \<Rightarrow> rpc_arg list \<Rightarrow> rpc_manager \<Rightarrow> net_call list" where
  "invoke_server_args en md i as m = (let stream = serialize_args en bs_empty as in send_rpc md 0 i (bs_span stream) m)"

definition invoke_broadcast_args :: "endian \<Rightarrow> u16 \<Rightarrow> rpc_arg list \<Rightarrow> rpc_manager \<Rightarrow> net_call list" where
  "invoke_broadcast_args en i as m = (let stream = serialize_args en bs_empty as in invoke_broadcast i (bs_span stream) m)"

definition invoke_owner_args ::
  "endian \<Rightarrow> net_mode \<Rightarrow> entity_manager option \<Rightarrow> u16 \<Rightarrow> u64 \<Rightarrow> rpc_arg list \<Rightarrow> rpc_manager \<Rightarrow> net_call list" where
  "invoke_owner_args en md ents i entity as m =
     (let stream = serialize_args en bs_empty as
      in case ents of
           None \<Rightarrow> []
         | Some em \<Rightarrow> let owner = em_owner entity em
                     in if owner = 0 then [] else send_rpc md owner i (bs_span stream) m)"

definition invoke_not_owner_args ::
  "endian \<Rightarrow> entity_manager option \<Rightarrow> u16 \<Rightarrow> u64 \<Rightarrow> rpc_arg list \<Rightarrow> rpc_manager \<Rightarrow> net_call list" where
  "invoke_not_owner_args en ents i entity as m =
     (let stream = serialize_args en bs_empty as
      in case ents of
           None \<Rightarrow> []
         | Some em \<Rightarrow>
             if \<not> has_net m then []
             else let owner = em_owner entity em; packet = build_rpc_packet i (bs_span stream) m
                  in if packet = [] then [] else [NetBroadcastExcept packet ReliableOrdered owner])"

subsection \<open>A pack comes back as it was written\<close>

lemma codec_into:
  assumes "codec f d v" and "\<And>s x. ser s (C x) = f s x" and "\<And>s. des s = read_as C (d s)"
    and "\<And>a. w a \<Longrightarrow> \<exists>x. a = C x \<and> v x"
  shows "codec ser des w"
  using assms(1)
  by unfold_locales
    (auto simp: assms(2,3) read_as_def codec.ser_ok codec.ser_appends codec.ser_read_pos codec.des_ser dest!: assms(4))

lemma codec_cong:
  assumes "codec f d v" and "\<And>x. w x \<Longrightarrow> v x \<and> (\<forall>s. ser s x = f s x)" and "\<And>s. des s = d s"
  shows "codec ser des w"
  using assms(1)
  by unfold_locales (auto simp: assms(3) codec.ser_ok codec.ser_appends codec.ser_read_pos codec.des_ser dest!: assms(2))

lemma type_of_arg_iff:
  "type_of_arg a = TBool \<longleftrightarrow> (\<exists>x. a = ABool x)"
  "type_of_arg a = TUint8 \<longleftrightarrow> (\<exists>x. a = AUint8 x)"
  "type_of_arg a = TUint16 \<longleftrightarrow> (\<exists>x. a = AUint16 x)"
  "type_of_arg a = TUint32 \<longleftrightarrow> (\<exists>x. a = AUint32 x)"
  "type_of_arg a = TUint64 \<longleftrightarrow> (\<exists>x. a = AUint64 x)"
  "type_of_arg a = TInt8 \<longleftrightarrow> (\<exists>x. a = AInt8 x)"
  "type_of_arg a = TInt16 \<longleftrightarrow> (\<exists>x. a = AInt16 x)"
  "type_of_arg a = TInt32 \<longleftrightarrow> (\<exists>x. a = AInt32 x)"
  "type_of_arg a = TInt64 \<longleftrightarrow> (\<exists>x. a = AInt64 x)"
  "type_of_arg a = TFloat \<longleftrightarrow> (\<exists>x. a = AFloat x)"
  "type_of_arg a = TDouble \<longleftrightarrow> (\<exists>x. a = ADouble x)"
  "type_of_arg a = TString \<longleftrightarrow> (\<exists>x. a = AString x)"
  "type_of_arg a = TVector \<longleftrightarrow> (\<exists>x. a = AVector x)"
  by (cases a; simp)+

lemma codec_arg: "codec (serialize_arg en) (deserialize_arg en t) (\<lambda>a. type_of_arg a = t \<and> arg_ok a)"
proof (cases t)
  case TBool
  then show ?thesis
    by (intro codec_into [OF bool_codec.codec_axioms, where C = ABool]) (auto simp: type_of_arg_iff)
next
  case TUint8
  then show ?thesis
    by (intro codec_into [OF uint8_codec.codec_axioms, where C = AUint8]) (auto simp: type_of_arg_iff)
next
  case TUint16
  then show ?thesis
    by (intro codec_into [OF uint16_codec.codec_axioms, where C = AUint16]) (auto simp: type_of_arg_iff)
next
  case TUint32
  then show ?thesis
    by (intro codec_into [OF uint32_codec.codec_axioms, where C = AUint32]) (auto simp: type_of_arg_iff)
next
  case TUint64
  then show ?thesis
    by (intro codec_into [OF uint64_codec.codec_axioms, where C = AUint64]) (auto simp: type_of_arg_iff)
next
  case TInt8
  then show ?thesis
    by (intro codec_into [OF int8_codec.codec_axioms, where C = AInt8]) (auto simp: type_of_arg_iff)
next
  case TInt16
  then show ?thesis
    by (intro codec_into [OF int16_codec.codec_axioms, where C = AInt16]) (auto simp: type_of_arg_iff)
next
  case TInt32
  then show ?thesis
    by (intro codec_into [OF int32_codec.codec_axioms, where C = AInt32]) (auto simp: type_of_arg_iff)
next
  case TInt64
  then show ?thesis
    by (intro codec_into [OF int64_codec.codec_axioms, where C = AInt64]) (auto simp: type_of_arg_iff)
next
  case TFloat
  then show ?thesis
    by (intro codec_into [OF float_codec.codec_axioms, where C = AFloat]) (auto simp: type_of_arg_iff)
next
  case TDouble
  then show ?thesis
    by (intro codec_into [OF double_codec.codec_axioms, where C = ADouble]) (auto simp: type_of_arg_iff)
next
  case TString
  then show ?thesis
    by (intro codec_into [OF string_codec.codec_axioms, where C = AString]) (auto simp: type_of_arg_iff)
next
  case TVector
  then show ?thesis
    by (intro codec_into [OF bytes_vector_codec.codec_axioms, where C = AVector]) (auto simp: type_of_arg_iff)
qed

lemma codec_args: "codec (serialize_args en) (deserialize_args en ts) (\<lambda>xs. map type_of_arg xs = ts \<and> list_all arg_ok xs)"
proof (induction ts)
  case Nil
  show ?case by unfold_locales (auto simp: serialize_args_def)
next
  case (Cons t ts)
  let ?p = "\<lambda>xs. (hd xs, tl xs)"
  have "codec (\<lambda>s xs. ser_pair (serialize_arg en) (serialize_args en) s (?p xs))
      (\<lambda>s. let (r, s') = des_pair (deserialize_arg en t) (deserialize_args en ts) s in (map_option (\<lambda>(a, xs). a # xs) r, s'))
      (\<lambda>xs. (\<lambda>p. (type_of_arg (fst p) = t \<and> arg_ok (fst p)) \<and> map type_of_arg (snd p) = ts \<and> list_all arg_ok (snd p)) (?p xs)
        \<and> (\<lambda>(a, xs). a # xs) (?p xs) = xs)"
    by (rule codec_map [OF codec_pair [OF codec_arg Cons.IH]])
  then show ?case
    by (rule codec_cong)
      (auto simp: ser_pair_def serialize_args_def des_pair_def split: prod.splits option.splits)
qed

interpretation args_codec: codec "serialize_args en" "deserialize_args en ts" "\<lambda>xs. map type_of_arg xs = ts \<and> list_all arg_ok xs" for en ts
  by (rule codec_args)

definition pack_bytes :: "endian \<Rightarrow> rpc_arg list \<Rightarrow> bytes" where
  "pack_bytes en xs = bs_span (serialize_args en bs_empty xs)"

lemma pack_roundtrip:
  "list_all arg_ok xs \<Longrightarrow> fst (deserialize_args en (map type_of_arg xs) (bs_of_span (pack_bytes en xs))) = Some xs"
  using args_codec.packet_roundtrip by (simp add: pack_bytes_def)

text \<open>The variadic calls do what the calls with a stream do; only the broadcasts differ, on oversized arguments.\<close>

lemma invoke_args:
  "invoke_client_args en md c i xs m = invoke_client md c i (pack_bytes en xs) m"
  "invoke_server_args en md i xs m = invoke_server md i (pack_bytes en xs) m"
  "invoke_owner_args en md ents i entity xs m = invoke_owner md ents i entity (pack_bytes en xs) m"
  "invoke_not_owner_args en ents i entity xs m = invoke_not_owner ents i entity (pack_bytes en xs) m"
  "fits_payload (pack_bytes en xs) m \<Longrightarrow>
     invoke_broadcast_args en i xs m = invoke_broadcast_stream i (pack_bytes en xs) m"
  by (simp_all add: invoke_client_args_def invoke_client_def invoke_server_args_def invoke_server_def invoke_owner_args_def
      invoke_owner_def invoke_not_owner_args_def invoke_not_owner_def invoke_broadcast_args_def invoke_broadcast_def
      invoke_broadcast_stream_def pack_bytes_def build_eq)

subsection \<open>A typed call through both managers\<close>

text \<open>C23: A typed call arrives with its values. A client calls its server with any pack of arguments of the supported types; if the
  serialized pack fits the client's payload limit it is handed to the transport as one message, and the server, handling that
  message, which fits its \<open>max_packet_size\<close>, with no rate bucket on the call, runs the registered handler once, with the identifier of the client at that address and with bytes from which the types
  of the pack read back exactly its values, if the pack fits the server's limit as well, anyone may call and the client's rate
  limiter admits the call, and otherwise runs no handler. A pack that does not fit is not sent.
\<close>

theorem typed_call_arrives:
  assumes client: "nm_mode c = NmClient" "client_connected c" "primary c = Some t" "has_net m"
    and server: "serving s" "find_client_by_address a s = Some e" "ce_id e \<noteq> 0" "rpc_mgr s = Some rm" "handlers rm i = Some auth"
      "rate_buckets rm i = None" "length (pack_bytes en xs) + 5 \<le> max_packet_size (nm_config s)"
    and args: "list_all arg_ok xs"
  shows "if fits_payload (pack_bytes en xs) m
    then \<exists>msg s' rm'. invoke_server_args en NmClient i xs m = [NetSend msg ReliableOrdered] \<and>
      primary (nm_call Ec (NetSend msg ReliableOrdered) c) = Some (snd (t_send (env_transport Ec) msg ReliableOrdered t)) \<and>
      handle_packet E p a msg s = Some s' \<and> rpc_mgr s' = Some rm' \<and>
      (if fits_payload (pack_bytes en xs) rm \<and> auth = Anyone \<and> fst (allow_rpc (env_clock E (clock_reads s)) (ce_limiter e))
       then \<exists>ps d. rpc_sender ps = ce_id e \<and> rpc_log rm' = rpc_log rm @ [(i, ps, d)] \<and>
         fst (deserialize_args en (map type_of_arg xs) (bs_of_span d)) = Some xs
       else rm' = rm)
    else invoke_server_args en NmClient i xs m = []"
proof -
  note call = rpc_through_managers [OF client server, of Ec E p]
  show ?thesis
  proof (cases "fits_payload (pack_bytes en xs) m")
    case True
    with call obtain msg s' rm' where r: "invoke_server NmClient i (pack_bytes en xs) m = [NetSend msg ReliableOrdered]"
      "primary (nm_call Ec (NetSend msg ReliableOrdered) c) = Some (snd (t_send (env_transport Ec) msg ReliableOrdered t))"
      "handle_packet E p a msg s = Some s'" "rpc_mgr s' = Some rm'"
      "if fits_payload (pack_bytes en xs) rm \<and> auth = Anyone \<and> fst (allow_rpc (env_clock E (clock_reads s)) (ce_limiter e))
       then \<exists>ps. rpc_sender ps = ce_id e \<and> rpc_log rm' = rpc_log rm @ [(i, ps, pack_bytes en xs)] else rm' = rm"
      by (simp only: if_True) blast
    have "if fits_payload (pack_bytes en xs) rm \<and> auth = Anyone \<and> fst (allow_rpc (env_clock E (clock_reads s)) (ce_limiter e))
       then \<exists>ps d. rpc_sender ps = ce_id e \<and> rpc_log rm' = rpc_log rm @ [(i, ps, d)] \<and>
         fst (deserialize_args en (map type_of_arg xs) (bs_of_span d)) = Some xs
       else rm' = rm"
      using r(5) pack_roundtrip [OF args] by (fastforce split: if_splits)
    with r(1-4) True show ?thesis by (simp only: if_True invoke_args) blast
  next
    case False
    with call show ?thesis by (simp add: invoke_args)
  qed
qed

theorem typed_call_arrives_witness:
  "\<exists>msg s' rm' ps d. invoke_server_args Little NmClient 7 [AUint16 500, AString [104, 105], AInt32 (- 3)]
       (set_network_manager True new_rpc_manager) = [NetSend msg ReliableOrdered] \<and>
     handle_packet w_env Primary w_addr msg (w_busy\<lparr>rpc_mgr := Some (register_handler 7 Anyone new_rpc_manager)\<rparr>) = Some s' \<and>
     rpc_mgr s' = Some rm' \<and> rpc_sender ps = 1 \<and> rpc_log rm' = [(7, ps, d)] \<and>
     fst (deserialize_args Little [TUint16, TString, TInt32] (bs_of_span d)) = Some [AUint16 500, AString [104, 105], AInt32 (- 3)]"
proof -
  let ?s = "w_busy\<lparr>rpc_mgr := Some (register_handler 7 Anyone new_rpc_manager)\<rparr>" and ?e = "hd (nm_clients w_busy)"
    and ?rm = "register_handler 7 Anyone new_rpc_manager" and ?m = "set_network_manager True new_rpc_manager"
    and ?xs = "[AUint16 500, AString [104, 105], AInt32 (- 3)]"
  have client: "nm_mode w_client = NmClient" "client_connected w_client" "primary w_client = Some ([], [])" "has_net ?m"
    by (simp_all add: w_defs set_network_manager_def)
  have len: "length (pack_bytes Little ?xs) = 9" by code_simp
  have server: "serving ?s" "find_client_by_address w_addr ?s = Some ?e" "ce_id ?e \<noteq> 0" "rpc_mgr ?s = Some ?rm"
      "handlers ?rm 7 = Some Anyone" "rate_buckets ?rm 7 = None" "length (pack_bytes Little ?xs) + 5 \<le> max_packet_size (nm_config ?s)"
    unfolding len
    by (simp_all add: w_defs serving_def find_client_by_address_def addr_eq_def register_handler_def new_rpc_manager_def)
  have ok: "list_all arg_ok ?xs" by (simp add: fits_signed_def)
  have "ce_id ?e = 1" "rpc_log ?rm = []" by (simp_all add: w_defs register_handler_def new_rpc_manager_def)
  moreover have "fits_payload x ?m" "fits_payload x ?rm" for x
    by (simp_all add: fits_payload_def set_network_manager_def register_handler_def new_rpc_manager_def)
  moreover have "fst (allow_rpc t (ce_limiter ?e))" for t
    by (simp add: w_defs allow_rpc_def new_limiter_def consume_disabled empty_bucket_def)
  ultimately show ?thesis
    using typed_call_arrives [OF client server ok, of w_env w_env Primary] by simp blast
qed

end
