(* ===== verification/LanDiscovery.thy ===== *)
theory LanDiscovery
  imports Address Floats
begin

text \<open>
  \<open>LanDiscovery\<close> (\<open>src/include/campello_net/discovery/lan_discovery.hpp\<close>, \<open>src/src/discovery/lan_discovery.cpp\<close>): the beacons
  of servers on a local network.

  The socket is the port it is bound to (0 for an ephemeral one); what is sent is the log \<open>d_sent\<close>, the
  callback the log \<open>beacons\<close>. Parameters: whether the operating system opens and binds a socket, the clock in
  nanoseconds, the datagrams waiting with their senders' addresses as text, and \<open>inet_pton\<close>. Reading ends at the
  first datagram that is too short; the others stay in the socket.
\<close>

subsection \<open>State\<close>

record beacon =
  server_address :: address
  beacon_name :: bytes
  beacon_max_players :: u32
  beacon_current_players :: u32

datatype destination = ToBroadcast | ToLoopback

record discovery =
  d_socket :: "u16 option"
  advertising :: bool
  advert_interval :: rat
  advert_accumulator :: rat
  discovery_port :: u16
  game_port :: u16
  server_name :: bytes
  max_players :: u32
  current_players :: u32
  listening :: bool
  beacon_cb :: bool
  last_poll :: int
  d_sent :: "(destination \<times> u16 \<times> bytes) list"
  beacons :: "beacon list"

definition BEACON_MAGIC :: u32 where "BEACON_MAGIC = 0x43414D50"

definition BEACON_VERSION :: u8 where "BEACON_VERSION = 1"

definition new_discovery :: "int \<Rightarrow> discovery" where
  "new_discovery now = \<lparr>d_socket = None, advertising = False, advert_interval = 1, advert_accumulator = 0,
     discovery_port = 34590, game_port = 0, server_name = [], max_players = 0, current_players = 0, listening = False,
     beacon_cb = False, last_poll = now, d_sent = [], beacons = []\<rparr>"

definition close_socket :: "discovery \<Rightarrow> discovery" where
  "close_socket s = s\<lparr>d_socket := None, advertising := False, listening := False\<rparr>"

definition create_socket :: "bool \<Rightarrow> u16 \<Rightarrow> discovery \<Rightarrow> bool \<times> discovery" where
  "create_socket os_ok p s =
     (let s = close_socket s in if os_ok then (True, s\<lparr>d_socket := Some p\<rparr>) else (False, s))"

subsection \<open>Advertising\<close>

definition start_advertising :: "bool \<Rightarrow> u16 \<Rightarrow> u16 \<Rightarrow> bytes \<Rightarrow> u32 \<Rightarrow> rat \<Rightarrow> discovery \<Rightarrow> bool \<times> discovery" where
  "start_advertising os_ok dport gport name maxp interval s =
     (let (ok, s) = create_socket os_ok 0 s
      in if \<not> ok then (False, s)
         else (True, s\<lparr>advertising := True, discovery_port := dport, game_port := gport, server_name := take 255 name,
                max_players := maxp, current_players := 0, advert_interval := interval, advert_accumulator := 0\<rparr>))"

definition stop_advertising :: "discovery \<Rightarrow> discovery" where
  "stop_advertising s = (if \<not> listening s then close_socket s else s\<lparr>advertising := False\<rparr>)"

definition set_current_players :: "u32 \<Rightarrow> discovery \<Rightarrow> discovery" where
  "set_current_players n s = s\<lparr>current_players := n\<rparr>"

definition beacon_packet :: "u16 \<Rightarrow> u32 \<Rightarrow> u32 \<Rightarrow> bytes \<Rightarrow> bytes" where
  "beacon_packet gport maxp curp name =
     be_bytes 4 BEACON_MAGIC @ [BEACON_VERSION] @ be_bytes 2 gport @ be_bytes 4 maxp @ be_bytes 4 curp @
     [of_nat (min (length name) 255)] @ take (min (length name) 255) name"

definition send_beacon :: "discovery \<Rightarrow> discovery" where
  "send_beacon s =
     (if d_socket s = None then s
      else let p = beacon_packet (game_port s) (max_players s) (current_players s) (server_name s)
           in s\<lparr>d_sent := d_sent s @ [(ToBroadcast, discovery_port s, p), (ToLoopback, discovery_port s, p)]\<rparr>)"

subsection \<open>Listening\<close>

definition start_listening :: "bool \<Rightarrow> u16 \<Rightarrow> discovery \<Rightarrow> bool \<times> discovery" where
  "start_listening os_ok dport s =
     (let (ok, s) = (if d_socket s = None then create_socket os_ok dport s else (True, s))
      in if \<not> ok then (False, s) else (True, s\<lparr>listening := True\<rparr>))"

definition stop_listening :: "discovery \<Rightarrow> discovery" where
  "stop_listening s = (if \<not> advertising s then close_socket s else s\<lparr>listening := False\<rparr>)"

definition on_beacon_received :: "bool \<Rightarrow> discovery \<Rightarrow> discovery" where
  "on_beacon_received cb s = s\<lparr>beacon_cb := cb\<rparr>"

definition parse_beacon :: "(string \<Rightarrow> bytes option) \<Rightarrow> (string \<Rightarrow> bytes option) \<Rightarrow> string \<Rightarrow> bytes \<Rightarrow> beacon option" where
  "parse_beacon pton4 pton6 ip d =
     (if of_be (take 4 d) \<noteq> BEACON_MAGIC then None
      else if d ! 4 \<noteq> BEACON_VERSION then None
      else let gport = of_be (take 2 (drop 5 d)); maxp = of_be (take 4 (drop 7 d)); curp = of_be (take 4 (drop 11 d))
           in if length d \<le> 15 then None
              else let n = unat (d ! 15)
                   in if length d < 16 + n then None
                      else Some \<lparr>server_address = addr_parse pton4 pton6 (''::ffff:'' @ ip) gport,
                             beacon_name = take n (drop 16 d), beacon_max_players = maxp, beacon_current_players = curp\<rparr>)"

fun beacon_loop :: "(string \<Rightarrow> bytes option) \<Rightarrow> (string \<Rightarrow> bytes option) \<Rightarrow> (string \<times> bytes) list \<Rightarrow> discovery \<Rightarrow>
    (string \<times> bytes) list \<times> discovery" where
  "beacon_loop pton4 pton6 [] s = ([], s)"
| "beacon_loop pton4 pton6 ((ip, d) # q) s =
     (if length (take 1024 d) < 13 then (q, s)
      else beacon_loop pton4 pton6 q
        (case parse_beacon pton4 pton6 ip (take 1024 d) of None \<Rightarrow> s | Some b \<Rightarrow> s\<lparr>beacons := beacons s @ [b]\<rparr>))"

definition receive_beacons :: "(string \<Rightarrow> bytes option) \<Rightarrow> (string \<Rightarrow> bytes option) \<Rightarrow> (string \<times> bytes) list \<Rightarrow> discovery \<Rightarrow>
    (string \<times> bytes) list \<times> discovery" where
  "receive_beacons pton4 pton6 q s =
     (if d_socket s = None \<or> \<not> beacon_cb s then (q, s) else beacon_loop pton4 pton6 q s)"

subsection \<open>Polling\<close>

partial_function (option) advert_loop :: "discovery \<Rightarrow> discovery option" where
  "advert_loop s =
     (if advert_interval s \<le> advert_accumulator s
      then advert_loop (send_beacon (s\<lparr>advert_accumulator := f32 (advert_accumulator s - advert_interval s)\<rparr>))
      else Some s)"

definition elapsed_seconds :: "int \<Rightarrow> rat" where
  "elapsed_seconds ns = f32 (f32 (of_int ns) / f32 (10 ^ 9))"

definition discovery_poll :: "(string \<Rightarrow> bytes option) \<Rightarrow> (string \<Rightarrow> bytes option) \<Rightarrow> int \<Rightarrow> (string \<times> bytes) list \<Rightarrow> discovery \<Rightarrow>
    ((string \<times> bytes) list \<times> discovery) option" where
  "discovery_poll pton4 pton6 now q s =
     (let dt = elapsed_seconds (now - last_poll s); s = s\<lparr>last_poll := now\<rparr>
      in map_option (\<lambda>s. if listening s then receive_beacons pton4 pton6 q s else (q, s))
           (if advertising s then advert_loop (s\<lparr>advert_accumulator := f32 (advert_accumulator s + dt)\<rparr>) else Some s))"

subsection \<open>The format of a beacon\<close>

lemma beacon_packet_name: "length name \<le> 255 \<Longrightarrow>
  beacon_packet g m c name = be_bytes 4 BEACON_MAGIC @ [BEACON_VERSION] @ be_bytes 2 g @ be_bytes 4 m @ be_bytes 4 c @ [of_nat (length name)] @ name"
  by (simp add: beacon_packet_def min_def)

lemma split_beacon:
  assumes "15 < length d"
  shows "d = take 4 d @ [d ! 4] @ take 2 (drop 5 d) @ take 4 (drop 7 d) @ take 4 (drop 11 d) @ [d ! 15] @ drop 16 d"
proof -
  have s: "drop k d = take n (drop k d) @ drop (k + n) d" for k n by (metis add.commute append_take_drop_id drop_drop)
  have n: "drop k d = d ! k # drop (Suc k) d" if "k \<le> 15" for k using assms that by (simp add: Cons_nth_drop_Suc)
  have "drop 11 d = take 4 (drop 11 d) @ d ! 15 # drop 16 d" using s [of 11 4] n [of 15] by simp
  moreover have "drop 7 d = take 4 (drop 7 d) @ drop 11 d" using s [of 7 4] by simp
  moreover have "drop 5 d = take 2 (drop 5 d) @ drop 7 d" using s [of 5 2] by simp
  moreover have "drop 4 d = d ! 4 # drop 5 d" using n [of 4] by simp
  moreover have "d = take 4 d @ drop 4 d" by simp
  ultimately show ?thesis by (metis append.assoc append_Cons append_Nil)
qed

lemma parse_packet:
  assumes "length name \<le> 255"
  shows "parse_beacon pton4 pton6 ip (beacon_packet g m c name @ rest) =
    Some \<lparr>server_address = addr_parse pton4 pton6 (''::ffff:'' @ ip) g, beacon_name = name, beacon_max_players = m,
      beacon_current_players = c\<rparr>"
proof -
  have "unat (of_nat (length name) :: u8) = length name" using assms by (simp add: unat_of_nat)
  then show ?thesis unfolding beacon_packet_name [OF assms] parse_beacon_def Let_def
    by (simp add: of_be_be_bytes_full nth_append)
qed

text \<open>C39: A datagram is taken for a beacon exactly when it is the packet of some server, with a name of at most 255
  bytes, followed by anything; the beacon reported has the port, the counts and the name of that
  packet, and the sender's address.
\<close>

theorem beacon_accepted_iff:
  "parse_beacon pton4 pton6 ip d = Some b \<longleftrightarrow>
    (\<exists>g m c name rest. length name \<le> 255 \<and> d = beacon_packet g m c name @ rest \<and>
       b = \<lparr>server_address = addr_parse pton4 pton6 (''::ffff:'' @ ip) g, beacon_name = name, beacon_max_players = m,
         beacon_current_players = c\<rparr>)"
proof
  assume p: "parse_beacon pton4 pton6 ip d = Some b"
  define n where "n = unat (d ! 15)"
  have h: "of_be (take 4 d) = BEACON_MAGIC" "d ! 4 = BEACON_VERSION" "15 < length d" "16 + n \<le> length d"
    and b: "b = \<lparr>server_address = addr_parse pton4 pton6 (''::ffff:'' @ ip) (of_be (take 2 (drop 5 d))),
      beacon_name = take n (drop 16 d), beacon_max_players = of_be (take 4 (drop 7 d)),
      beacon_current_players = of_be (take 4 (drop 11 d))\<rparr>"
    using p by (auto simp: parse_beacon_def n_def Let_def not_less not_le split: if_splits)
  have "unat (d ! 15) < 2 ^ 8" using unsigned_less [of "d ! 15"] by simp
  then have "n \<le> 255" by (simp add: n_def)
  then have l: "length (take n (drop 16 d)) = n" "length (take n (drop 16 d)) \<le> 255" using h(4) by simp_all
  have f: "be_bytes 4 BEACON_MAGIC = take 4 d" using h(1,3) be_bytes_of_be [of "take 4 d" 4, where 'a = 32] by simp
  have g: "be_bytes 2 (of_be (take 2 (drop 5 d)) :: u16) = take 2 (drop 5 d)" "be_bytes 4 (of_be (take 4 (drop 7 d)) :: u32) = take 4 (drop 7 d)"
    "be_bytes 4 (of_be (take 4 (drop 11 d)) :: u32) = take 4 (drop 11 d)"
    using h(3) by (simp_all add: be_bytes_of_be)
  have "d = beacon_packet (of_be (take 2 (drop 5 d))) (of_be (take 4 (drop 7 d))) (of_be (take 4 (drop 11 d))) (take n (drop 16 d)) @ drop n (drop 16 d)"
    using split_beacon [OF h(3)] unfolding beacon_packet_name [OF l(2)] f g l(1) by (simp add: h(2) n_def del: drop_drop)
  then show "\<exists>g m c name rest. length name \<le> 255 \<and> d = beacon_packet g m c name @ rest \<and>
       b = \<lparr>server_address = addr_parse pton4 pton6 (''::ffff:'' @ ip) g, beacon_name = name, beacon_max_players = m,
         beacon_current_players = c\<rparr>" using b l(2) by blast
qed (auto simp: parse_packet)

subsection \<open>From a server to a listener\<close>

text \<open>A server with a name of any length is announced, at every listener with a callback, with the first 255 bytes of it.\<close>

theorem beacon_roundtrip:
  assumes "start_advertising True dport gport name maxp interval s = (True, a)" "d_socket l \<noteq> None" "beacon_cb l"
  obtains p where "d_sent (send_beacon (set_current_players n a)) = d_sent s @ [(ToBroadcast, dport, p), (ToLoopback, dport, p)]"
    "receive_beacons pton4 pton6 [(ip, p)] l = ([], l\<lparr>beacons := beacons l @ [\<lparr>server_address = addr_parse pton4 pton6 (''::ffff:'' @ ip) gport,
       beacon_name = take 255 name, beacon_max_players = maxp, beacon_current_players = n\<rparr>]\<rparr>)"
proof -
  let ?p = "beacon_packet gport maxp n (take 255 name)"
  have "length (take 255 name) \<le> 255" by simp
  note b = parse_packet [OF this, of pton4 pton6 ip gport maxp n "[]"]
  have "13 \<le> length ?p" "length ?p \<le> 1024" by (simp_all add: beacon_packet_def)
  then have "receive_beacons pton4 pton6 [(ip, ?p)] l = ([], l\<lparr>beacons := beacons l @ [\<lparr>server_address = addr_parse pton4 pton6 (''::ffff:'' @ ip) gport,
       beacon_name = take 255 name, beacon_max_players = maxp, beacon_current_players = n\<rparr>]\<rparr>)"
    using assms(2,3) b by (simp add: receive_beacons_def)
  then show thesis using assms(1)
    by (intro that [of ?p]) (auto simp: start_advertising_def create_socket_def close_socket_def send_beacon_def
        set_current_players_def Let_def)
qed

text \<open>One object for both: who listens after it has begun to advertise stays on the ephemeral port, where no beacon
  arrives, and \<open>start_listening\<close> returns true; who advertises after it has begun to listen no longer listens.\<close>

theorem one_object_cannot_do_both:
  assumes "start_advertising True dport gport name maxp interval s = (True, a)"
  shows "start_listening os_ok dport' a = (True, a\<lparr>listening := True\<rparr>) \<and> d_socket a = Some 0 \<and> \<not> listening a"
  using assms by (auto simp: start_advertising_def create_socket_def close_socket_def start_listening_def Let_def)

subsection \<open>The loop of poll\<close>

lemma send_beacon_fields [simp]:
  "advert_interval (send_beacon s) = advert_interval s" "advert_accumulator (send_beacon s) = advert_accumulator s"
  "d_socket (send_beacon s) = d_socket s"
  by (simp_all add: send_beacon_def Let_def)

text \<open>Every pass takes at least half an interval off the accumulator.\<close>

lemma advert_loop_returns:
  assumes "0 < advert_interval s" "advert_accumulator s \<le> 2 ^ 22 * advert_interval s"
  shows "\<exists>s'. advert_loop s = Some s' \<and> advert_accumulator s' < advert_interval s"
  using assms
proof (induction "nat \<lceil>advert_accumulator s / (advert_interval s / 2)\<rceil>" arbitrary: s rule: less_induct)
  case less
  define i a where "i = advert_interval s" and "a = advert_accumulator s"
  show ?case
  proof (cases "i \<le> a")
    case False
    then show ?thesis by (subst advert_loop.simps) (simp add: i_def a_def)
  next
    case True
    define b where "b = f32 (a - i)"
    have i: "0 < i" "a \<le> 2 ^ 22 * i" using less.prems by (simp_all add: i_def a_def)
    have "\<bar>b - (a - i)\<bar> \<le> \<bar>a - i\<bar> / 2 ^ 24" unfolding b_def by (rule fround_error) simp
    then have b: "b \<le> a - i / 2" using i True by (simp add: abs_if split: if_splits)
    have "b / (i / 2) \<le> (a - i / 2) / (i / 2)" using b i(1) by (intro divide_right_mono) simp_all
    also have "\<dots> = a / (i / 2) - 1" using i(1) by (simp add: field_simps)
    finally have "\<lceil>b / (i / 2)\<rceil> \<le> \<lceil>a / (i / 2)\<rceil> - 1" using ceiling_mono by fastforce
    moreover have "0 < a / (i / 2)" using True i(1) by simp
    ultimately have "nat \<lceil>b / (i / 2)\<rceil> < nat \<lceil>a / (i / 2)\<rceil>" by linarith
    moreover have "b \<le> 2 ^ 22 * i" using b i by linarith
    moreover have "advert_loop s = advert_loop (send_beacon (s\<lparr>advert_accumulator := b\<rparr>))"
      using True by (subst advert_loop.simps) (simp add: i_def a_def b_def)
    ultimately show ?thesis using less.hyps [of "send_beacon (s\<lparr>advert_accumulator := b\<rparr>)"] i(1) by (simp add: i_def a_def)
  qed
qed

text \<open>With an interval of zero or less, which \<open>start_advertising\<close> accepts, the first poll never returns.\<close>

lemma advert_loop_stuck: "advert_loop s = Some y \<Longrightarrow> advert_interval s \<le> 0 \<Longrightarrow> 0 \<le> advert_accumulator s \<Longrightarrow> False"
proof (induction rule: advert_loop.raw_induct [rotated 1, consumes 1])
  case (1 rec s y)
  have "0 \<le> f32 (advert_accumulator s - advert_interval s)" using 1(3,4) by (intro fround_nonneg) simp_all
  then show ?case
    using 1(1) [of "send_beacon (s\<lparr>advert_accumulator := f32 (advert_accumulator s - advert_interval s)\<rparr>)" y] 1(2-4) by simp
qed

theorem advertising_interval_zero_hangs:
  assumes "start_advertising True dport gport name maxp interval s = (True, a)" "interval \<le> 0" "last_poll s \<le> now"
  shows "discovery_poll pton4 pton6 now q a = None"
proof -
  have "advertising a" "advert_interval a \<le> 0" "advert_accumulator a = 0" "last_poll a = last_poll s"
    using assms(1,2) by (auto simp: start_advertising_def create_socket_def close_socket_def Let_def)
  moreover have "0 \<le> elapsed_seconds (now - last_poll s)"
    unfolding elapsed_seconds_def using assms(3) by (intro fround_nonneg divide_nonneg_nonneg) simp_all
  then have "0 \<le> f32 (elapsed_seconds (now - last_poll s))" by (intro fround_nonneg) simp_all
  ultimately show ?thesis
    using advert_loop_stuck [of "a\<lparr>last_poll := now, advert_accumulator := f32 (elapsed_seconds (now - last_poll s))\<rparr>"]
    by (cases "advert_loop (a\<lparr>last_poll := now, advert_accumulator := f32 (elapsed_seconds (now - last_poll s))\<rparr>)")
      (auto simp: discovery_poll_def Let_def)
qed

end
