(* ===== verification/WebSocket.thy ===== *)
theory WebSocket
  imports Transport
begin

text \<open>
  \<open>EmscriptenWebSocketTransport\<close> (\<open>src/src/transport/emscripten_websocket_transport.cpp\<close>): the transport of the WASM build,
  a client over the browser's WebSocket.

  The JavaScript half of the file, the tables it keeps in \<open>Module\<close>, is \<open>js_module\<close>, and its functions are the
  \<open>js_\<close> definitions. What the browser does is a parameter: whether the constructor of \<open>WebSocket\<close> throws on a URL,
  and when it changes a socket's state or calls \<open>onmessage\<close>, the steps \<open>js_state\<close> and \<open>js_on_message\<close>.

  Three of the JavaScript functions, \<open>ws_send\<close>, \<open>ws_peek_message_length\<close> and \<open>ws_pop_message\<close>, are not JavaScript: they compare with
  \<open>!= =\<close> and \<open>== =\<close>, and do not parse. They have no meaning to model and are parameters of the C++ half, \<open>js_api\<close>; the lemmas
  on receiving and sending assume \<open>js_contract\<close>, what that half relies on.
\<close>

subsection \<open>The JavaScript tables\<close>

record js_socket =
  js_url :: string
  ready_state :: int
  js_sent :: "bytes list"

record js_module =
  js_sockets :: "int \<rightharpoonup> js_socket"
  js_queue :: "int \<rightharpoonup> bytes list"
  js_next_id :: int

definition new_module :: js_module where
  "new_module = \<lparr>js_sockets = Map.empty, js_queue = Map.empty, js_next_id = 1\<rparr>"

definition js_connect :: "(string \<Rightarrow> bool) \<Rightarrow> string \<Rightarrow> js_module \<Rightarrow> (int \<times> js_module) option" where
  "js_connect url_ok url m =
     (let i = js_next_id m
      in if url_ok url
         then Some (i, m\<lparr>js_next_id := i + 1, js_sockets := (js_sockets m)(i \<mapsto> \<lparr>js_url = url, ready_state = 0, js_sent = []\<rparr>)\<rparr>)
         else None)"

definition js_on_message :: "int \<Rightarrow> bytes \<Rightarrow> js_module \<Rightarrow> js_module" where
  "js_on_message i d m =
     (let q = (case js_queue m i of None \<Rightarrow> [] | Some q \<Rightarrow> q) in m\<lparr>js_queue := (js_queue m)(i \<mapsto> q @ [d])\<rparr>)"

definition js_state :: "int \<Rightarrow> int \<Rightarrow> js_module \<Rightarrow> js_module" where
  "js_state i st m = m\<lparr>js_sockets := (js_sockets m)(i := map_option (\<lambda>s. s\<lparr>ready_state := st\<rparr>) (js_sockets m i))\<rparr>"

definition js_close :: "int \<Rightarrow> js_module \<Rightarrow> js_module" where
  "js_close i m =
     (if js_sockets m i = None then m
      else m\<lparr>js_sockets := (js_sockets m)(i := None), js_queue := (js_queue m)(i := None)\<rparr>)"

definition js_ready_state :: "int \<Rightarrow> js_module \<Rightarrow> int" where
  "js_ready_state i m = (case js_sockets m i of None \<Rightarrow> 3 | Some s \<Rightarrow> ready_state s)"

definition js_messages :: "int \<Rightarrow> js_module \<Rightarrow> bytes list" where
  "js_messages i m = (case js_queue m i of None \<Rightarrow> [] | Some q \<Rightarrow> q)"

record js_api =
  api_send :: "int \<Rightarrow> bytes \<Rightarrow> js_module \<Rightarrow> js_module"
  api_peek :: "int \<Rightarrow> js_module \<Rightarrow> int"
  api_pop :: "int \<Rightarrow> nat \<Rightarrow> js_module \<Rightarrow> (int \<times> bytes) \<times> js_module"

definition js_contract :: "js_api \<Rightarrow> bool" where
  "js_contract J \<longleftrightarrow>
     (\<forall>i m. api_peek J i m = (case js_messages i m of [] \<Rightarrow> - 1 | d # q \<Rightarrow> int (length d))) \<and>
     (\<forall>i n m d q. js_messages i m = d # q \<longrightarrow>
        api_pop J i n m = ((int (min (length d) n), take n d), m\<lparr>js_queue := (js_queue m)(i \<mapsto> q)\<rparr>)) \<and>
     (\<forall>i d m. js_ready_state i m \<noteq> 1 \<longrightarrow> api_send J i d m = m)"

subsection \<open>The transport\<close>

record ws =
  ws_handle :: int
  ws_server :: wasm_address
  ws_connecting :: bool
  ws_connected :: bool
  ws_queue :: "(wasm_address \<times> bytes) list"
  ws_read_idx :: nat

definition wasm_default :: wasm_address where
  "wasm_default = \<lparr>w_valid = False, w_port = 0, w_host_len = 0, w_host = [], w_storage_len = 0\<rparr>"

definition new_ws :: ws where
  "new_ws = \<lparr>ws_handle = 0, ws_server = wasm_default, ws_connecting = False, ws_connected = False, ws_queue = [], ws_read_idx = 0\<rparr>"

definition ws_bind :: "wasm_address \<Rightarrow> ws \<Rightarrow> bool \<times> ws" where
  "ws_bind a w = (False, w)"

definition ws_disconnect :: "ws \<Rightarrow> js_module \<Rightarrow> ws \<times> js_module" where
  "ws_disconnect w m =
     (let (w, m) = (if ws_handle w \<noteq> 0 then (w\<lparr>ws_handle := 0\<rparr>, js_close (ws_handle w) m) else (w, m))
      in (w\<lparr>ws_connecting := False, ws_connected := False, ws_queue := [], ws_read_idx := 0\<rparr>, m))"

definition ws_url :: "wasm_address \<Rightarrow> string" where
  "ws_url a = ''ws://'' @ map (\<lambda>b. char_of (unat b)) (wasm_ip a) @ '':'' @ decimal (unat (wasm_addr_port a))"

text \<open>\<open>None\<close> is the exception of the browser.\<close>

definition ws_connect :: "(string \<Rightarrow> bool) \<Rightarrow> wasm_address \<Rightarrow> ws \<Rightarrow> js_module \<Rightarrow> (bool \<times> ws \<times> js_module) option" where
  "ws_connect url_ok a w m =
     (let (w, m) = ws_disconnect w m
      in map_option (\<lambda>(h, m). let w = w\<lparr>ws_handle := h\<rparr>
                              in if h \<le> 0 then (False, w, m)
                                 else (True, w\<lparr>ws_server := a, ws_connecting := True, ws_connected := False\<rparr>, m))
           (js_connect url_ok (ws_url a) m))"

definition ws_is_connected :: "ws \<Rightarrow> bool" where "ws_is_connected w = ws_connected w"

definition ws_send :: "js_api \<Rightarrow> bytes \<Rightarrow> reliability \<Rightarrow> ws \<Rightarrow> js_module \<Rightarrow> bool \<times> js_module" where
  "ws_send J d r w m = (if \<not> ws_connected w \<or> ws_handle w = 0 then (False, m) else (True, api_send J (ws_handle w) d m))"

partial_function (option) ws_drain :: "js_api \<Rightarrow> ws \<Rightarrow> js_module \<Rightarrow> (ws \<times> js_module) option" where
  "ws_drain J w m =
     (let len = api_peek J (ws_handle w) m
      in if len < 0 then Some (w, m)
         else let ((copied, buf), m) = api_pop J (ws_handle w) (nat len) m
              in if 0 < copied then ws_drain J (w\<lparr>ws_queue := ws_queue w @ [(ws_server w, take (nat copied) buf)]\<rparr>) m
                 else Some (w, m))"

definition ws_poll :: "js_api \<Rightarrow> ws \<Rightarrow> js_module \<Rightarrow> (ws \<times> js_module) option" where
  "ws_poll J w m =
     (if ws_handle w = 0 then Some (w, m)
      else let ready = js_ready_state (ws_handle w) m;
               w = (if ready = 1 then if ws_connecting w then w\<lparr>ws_connecting := False, ws_connected := True\<rparr> else w
                    else if ready = 3 then if ws_connected w \<or> ws_connecting w then w\<lparr>ws_connected := False, ws_connecting := False\<rparr> else w
                    else w)
           in if \<not> ws_connected w then Some (w, m) else ws_drain J w m)"

definition ws_pop_receive :: "nat \<Rightarrow> ws \<Rightarrow> (bytes \<times> wasm_address) option \<times> ws" where
  "ws_pop_receive n w =
     (if length (ws_queue w) \<le> ws_read_idx w then (None, w\<lparr>ws_queue := [], ws_read_idx := 0\<rparr>)
      else let (a, d) = ws_queue w ! ws_read_idx w; out_length = min n (length d)
           in (Some (take out_length d, a), w\<lparr>ws_read_idx := ws_read_idx w + 1\<rparr>))"

definition ws_rtt :: "ws \<Rightarrow> rat" where "ws_rtt w = 0"

definition ws_packet_loss :: "ws \<Rightarrow> rat" where "ws_packet_loss w = 0"

subsection \<open>The receive queue\<close>

definition ws_waiting :: "ws \<Rightarrow> (bytes \<times> wasm_address) list" where
  "ws_waiting w = map (\<lambda>(a, d). (d, a)) (drop (ws_read_idx w) (ws_queue w))"

lemma ws_pop_none: "ws_waiting w = [] \<Longrightarrow> fst (ws_pop_receive n w) = None \<and> ws_waiting (snd (ws_pop_receive n w)) = []"
  by (auto simp: ws_waiting_def ws_pop_receive_def)

lemma ws_pop_some:
  "ws_waiting w = (d, a) # q \<Longrightarrow> fst (ws_pop_receive n w) = Some (take n d, a) \<and> ws_waiting (snd (ws_pop_receive n w)) = q"
proof -
  assume w: "ws_waiting w = (d, a) # q"
  then have ix: "ws_read_idx w < length (ws_queue w)"
    by (metis drop_all linorder_not_le list.distinct(1) list.simps(8) ws_waiting_def)
  then have "drop (ws_read_idx w) (ws_queue w) = ws_queue w ! ws_read_idx w # drop (Suc (ws_read_idx w)) (ws_queue w)"
    by (rule Cons_nth_drop_Suc [symmetric])
  with w have "ws_queue w ! ws_read_idx w = (a, d)" "map (\<lambda>(a, d). (d, a)) (drop (Suc (ws_read_idx w)) (ws_queue w)) = q"
    by (auto simp: ws_waiting_def split: prod.splits)
  then show ?thesis using ix by (cases "n \<le> length d") (simp_all add: ws_pop_receive_def ws_waiting_def min_def)
qed

interpretation wsq: receive_queue ws_pop_receive ws_waiting
  by unfold_locales (auto dest: ws_pop_none ws_pop_some)

subsection \<open>Polling\<close>

text \<open>The loop moves the messages up to the first empty one, which it takes out and stops at.\<close>

lemma ws_drain_returns:
  assumes J: "js_contract J"
  shows "\<exists>m'. ws_drain J w m = Some (w\<lparr>ws_queue := ws_queue w @ map (Pair (ws_server w)) (takeWhile (\<lambda>d. d \<noteq> []) (js_messages (ws_handle w) m))\<rparr>, m') \<and>
     js_messages (ws_handle w) m' = tl (dropWhile (\<lambda>d. d \<noteq> []) (js_messages (ws_handle w) m)) \<and>
     js_sockets m' = js_sockets m"
proof (induction "js_messages (ws_handle w) m" arbitrary: w m)
  case Nil
  then have "api_peek J (ws_handle w) m < 0" using J by (simp add: js_contract_def)
  then show ?case using Nil by (subst ws_drain.simps) auto
next
  case (Cons d q)
  define m1 where "m1 = m\<lparr>js_queue := (js_queue m)(ws_handle w \<mapsto> q)\<rparr>"
  have step: "ws_drain J w m = (if d = [] then Some (w, m1) else ws_drain J (w\<lparr>ws_queue := ws_queue w @ [(ws_server w, d)]\<rparr>) m1)"
    using J Cons(2) [symmetric] by (subst ws_drain.simps) (simp add: js_contract_def m1_def Let_def)
  have m1: "js_messages (ws_handle w) m1 = q" "js_sockets m1 = js_sockets m" by (simp_all add: js_messages_def m1_def)
  show ?case
  proof (cases "d = []")
    case True
    then show ?thesis using step m1 Cons(2) [symmetric] by simp
  next
    case False
    define w1 where "w1 = w\<lparr>ws_queue := ws_queue w @ [(ws_server w, d)]\<rparr>"
    have "q = js_messages (ws_handle w1) m1" by (simp add: m1 w1_def)
    from Cons(1) [OF this] show ?thesis using step m1 Cons(2) [symmetric] False by (auto simp: w1_def)
  qed
qed

text \<open>
  What the application still gets from a socket, in order: the waiting messages, then the ones in the browser that are not empty.
\<close>

definition ws_stream :: "ws \<Rightarrow> js_module \<Rightarrow> bytes list" where
  "ws_stream w m = map fst (ws_waiting w) @ filter (\<lambda>d. d \<noteq> []) (js_messages (ws_handle w) m)"

definition ws_ok :: "ws \<Rightarrow> bool" where
  "ws_ok w \<longleftrightarrow> ws_read_idx w \<le> length (ws_queue w) \<and> (\<forall>(a, d)\<in>set (ws_queue w). a = ws_server w)"

lemma filter_takeWhile_dropWhile:
  "takeWhile (\<lambda>d. d \<noteq> []) q @ filter (\<lambda>d. d \<noteq> []) (tl (dropWhile (\<lambda>d. d \<noteq> []) q)) = filter (\<lambda>d. d \<noteq> []) q"
  by (induction q) auto

lemma ws_poll_stream:
  assumes "ws_ok w" "ws_handle w \<noteq> 0" "js_contract J"
  shows "\<exists>w' m'. ws_poll J w m = Some (w', m') \<and> ws_stream w' m' = ws_stream w m \<and> ws_ok w' \<and> ws_handle w' = ws_handle w \<and>
    (js_ready_state (ws_handle w) m = 1 \<and> (ws_connecting w \<or> ws_connected w) \<longrightarrow>
       ws_connected w' \<and> length (ws_waiting w) + length (takeWhile (\<lambda>d. d \<noteq> []) (js_messages (ws_handle w) m)) = length (ws_waiting w'))"
proof -
  define w1 where "w1 = (if js_ready_state (ws_handle w) m = 1 then if ws_connecting w then w\<lparr>ws_connecting := False, ws_connected := True\<rparr> else w
      else if js_ready_state (ws_handle w) m = 3
      then if ws_connected w \<or> ws_connecting w then w\<lparr>ws_connected := False, ws_connecting := False\<rparr> else w else w)"
  have w1: "ws_handle w1 = ws_handle w" "ws_waiting w1 = ws_waiting w" "ws_ok w1" "ws_read_idx w1 = ws_read_idx w" "ws_queue w1 = ws_queue w"
    using assms(1) by (simp_all add: w1_def ws_waiting_def ws_ok_def)
  have p: "ws_poll J w m = (if \<not> ws_connected w1 then Some (w1, m) else ws_drain J w1 m)"
    using assms(2) by (simp add: ws_poll_def w1_def Let_def)
  show ?thesis
  proof (cases "ws_connected w1")
    case False
    then show ?thesis using p w1 by (auto simp: ws_stream_def w1_def split: if_splits)
  next
    case True
    let ?tw = "takeWhile (\<lambda>d. d \<noteq> []) (js_messages (ws_handle w) m)"
    let ?w = "w1\<lparr>ws_queue := ws_queue w1 @ map (Pair (ws_server w1)) ?tw\<rparr>"
    obtain m' where m': "ws_drain J w1 m = Some (?w, m')"
      "js_messages (ws_handle w) m' = tl (dropWhile (\<lambda>d. d \<noteq> []) (js_messages (ws_handle w) m))"
      using ws_drain_returns [OF assms(3), of w1 m] w1(1) by auto
    have w: "ws_waiting ?w = ws_waiting w @ map (\<lambda>d. (d, ws_server w1)) ?tw"
      using assms(1) w1 by (simp add: ws_waiting_def ws_ok_def)
    then have "map fst (ws_waiting ?w) = map fst (ws_waiting w) @ ?tw" by (simp add: comp_def)
    then have "ws_stream ?w m' = ws_stream w m"
      using w1(1) m'(2) filter_takeWhile_dropWhile [of "js_messages (ws_handle w) m"] by (simp add: ws_stream_def)
    moreover have "ws_ok ?w" using w1(3) by (auto simp: ws_ok_def)
    ultimately show ?thesis using p True m'(1) w1(1) w by auto
  qed
qed

text \<open>The transport of a browser client is a queue. A message the socket receives is appended, unless it is empty; polling,
  which returns, changes nothing of what is still to come, and with an open socket moves the messages up to the next empty one
  to the application's side; taking a message out takes the first. The JavaScript functions are any that keep the contract.
\<close>

theorem ws_refines_queue:
  assumes "ws_ok w" "ws_handle w \<noteq> 0" "js_contract J"
  shows "ws_stream w (js_on_message (ws_handle w) d m) = ws_stream w m @ (if d = [] then [] else [d]) \<and>
    (\<exists>w' m'. ws_poll J w m = Some (w', m') \<and> ws_stream w' m' = ws_stream w m \<and> ws_ok w' \<and> ws_handle w' = ws_handle w \<and>
      (js_ready_state (ws_handle w) m = 1 \<and> (ws_connecting w \<or> ws_connected w) \<longrightarrow>
         ws_connected w' \<and> length (ws_waiting w) + length (takeWhile (\<lambda>d. d \<noteq> []) (js_messages (ws_handle w) m)) = length (ws_waiting w'))) \<and>
    (ws_waiting w \<noteq> [] \<longrightarrow> fst (ws_pop_receive n w) = Some (take n (hd (ws_stream w m)), ws_server w) \<and>
       ws_stream (snd (ws_pop_receive n w)) m = tl (ws_stream w m))"
proof (intro conjI impI)
  show "ws_stream w (js_on_message (ws_handle w) d m) = ws_stream w m @ (if d = [] then [] else [d])"
    by (simp add: ws_stream_def js_messages_def js_on_message_def Let_def split: option.split)
next
  assume "ws_waiting w \<noteq> []"
  then obtain d a q where q: "ws_waiting w = (d, a) # q" by (metis list.exhaust surj_pair)
  then have "(a, d) \<in> set (ws_queue w)" by (auto simp: ws_waiting_def dest!: in_set_dropD split: prod.splits
      intro: in_set_dropD [of _ "ws_read_idx w"] dest: arg_cong [of _ _ set])
  then have a: "a = ws_server w" using assms(1) by (auto simp: ws_ok_def)
  have h: "ws_handle (snd (ws_pop_receive n w)) = ws_handle w" by (simp add: ws_pop_receive_def case_prod_unfold Let_def)
  show "fst (ws_pop_receive n w) = Some (take n (hd (ws_stream w m)), ws_server w)"
    "ws_stream (snd (ws_pop_receive n w)) m = tl (ws_stream w m)"
    using ws_pop_some [OF q, of n] q a h by (simp_all add: ws_stream_def)
qed (rule ws_poll_stream [OF assms])

text \<open>Messages that a socket received before it was closed, and that were not polled, are lost: the transport stops
  reading the socket's queue as soon as it sees the state.\<close>

theorem ws_close_loses_messages:
  assumes "ws_handle w \<noteq> 0" "js_ready_state (ws_handle w) m = 3"
  obtains w' where "ws_poll J w m = Some (w', m)" "ws_waiting w' = ws_waiting w" "\<not> ws_is_connected w'"
    "\<And>m2. js_ready_state (ws_handle w) m2 = 3 \<Longrightarrow> ws_poll J w' m2 = Some (w', m2)"
proof -
  define w' where "w' = w\<lparr>ws_connected := False, ws_connecting := False\<rparr>"
  have "w' = w" if "\<not> ws_connected w" "\<not> ws_connecting w" using that by (cases w) (simp add: w'_def)
  then have "ws_poll J w m = Some (w', m)" using assms by (auto simp: ws_poll_def Let_def w'_def)
  then show thesis using assms(1)
    by (intro that [of w']) (simp_all add: w'_def ws_waiting_def ws_is_connected_def ws_poll_def Let_def)
qed

text \<open>While the socket closes, a message is reported as sent and is not.\<close>

theorem ws_send_while_closing:
  "js_contract J \<Longrightarrow> ws_connected w \<Longrightarrow> ws_handle w \<noteq> 0 \<Longrightarrow> js_ready_state (ws_handle w) m \<noteq> 1 \<Longrightarrow> ws_send J d r w m = (True, m)"
  by (simp add: ws_send_def js_contract_def)

text \<open>Functions that keep the contract.\<close>

definition queue_api :: js_api where
  "queue_api = \<lparr>api_send = \<lambda>i d m. if js_ready_state i m \<noteq> 1 then m
       else m\<lparr>js_sockets := (js_sockets m)(i := map_option (\<lambda>s. s\<lparr>js_sent := js_sent s @ [d]\<rparr>) (js_sockets m i))\<rparr>,
     api_peek = \<lambda>i m. (case js_messages i m of [] \<Rightarrow> - 1 | d # q \<Rightarrow> int (length d)),
     api_pop = \<lambda>i n m. (case js_messages i m of [] \<Rightarrow> ((- 1, []), m)
       | d # q \<Rightarrow> ((int (min (length d) n), take n d), m\<lparr>js_queue := (js_queue m)(i \<mapsto> q)\<rparr>))\<rparr>"

lemma queue_api_contract: "js_contract queue_api"
  by (simp add: js_contract_def queue_api_def)

theorem ws_refines_queue_witness:
  "\<exists>w' m'. ws_poll queue_api (new_ws\<lparr>ws_handle := 1, ws_connecting := True\<rparr>)
       (js_state 1 1 (js_on_message 1 [5] (snd (the (js_connect (\<lambda>_. True) ''ws://h:80'' new_module))))) = Some (w', m') \<and>
     ws_connected w' \<and> length (ws_waiting w') = 1"
proof -
  let ?w = "new_ws\<lparr>ws_handle := 1, ws_connecting := True\<rparr>"
    and ?m = "js_state 1 1 (js_on_message 1 [5] (snd (the (js_connect (\<lambda>_. True) ''ws://h:80'' new_module))))"
  have w: "ws_ok ?w" "ws_handle ?w = 1" "ws_connecting ?w" "ws_waiting ?w = []" by (simp_all add: ws_ok_def new_ws_def ws_waiting_def)
  have m: "js_ready_state 1 ?m = 1" "js_messages 1 ?m = [[5]]"
    by (simp_all add: js_ready_state_def js_state_def js_on_message_def js_connect_def new_module_def js_messages_def Let_def)
  have h: "ws_handle ?w \<noteq> 0" using w(2) by simp
  show ?thesis using ws_refines_queue [OF w(1) h queue_api_contract, of "[]" ?m 0] unfolding w(2,4) m using w(3) by auto
qed

end
