(* ===== verification/Spec2Isabelle.thy ===== *)
theory Spec2Isabelle
  imports StreamLaws UdpLaws ConnectionToken EncryptedTransport RateLimiter NetworkClock InputBuffer
    Quantization Loopback Simulator Replication NetworkVariable SpatialInterest RpcManager ManagerNetwork
    RpcTyped LanDiscovery WebSocket
begin

text \<open>
  A verification development for campello_net, a C++ networking library for games (\<open>src/include/campello_net\<close>,
  \<open>src/src\<close>): bit-level serialization, a reliable transport over UDP with an encrypting, a simulating and an
  in-memory variant, and the managers of connections, entities, replicated state and remote calls above them.

  \<^bold>\<open>How the program is put together.\<close> An application polls a \<open>NetworkManager\<close>. It owns transports (\<open>ITransport\<close>), keeps
  the list of clients, answers the handshake and the time synchronization, and forwards other system
  messages to the \<open>NetworkEntityManager\<close>, the \<open>NetworkReplicationManager\<close> and the \<open>RpcManager\<close>; these ask it to
  send. \<open>UdpTransport\<close> turns messages into datagrams with a 16-byte header, acknowledges, resends and
  fragments; \<open>EncryptedTransport\<close> and \<open>NetworkSimulator\<close> wrap another transport; \<open>LoopbackTransport\<close> is one in
  memory. Everything on the wire goes through \<open>BitStream\<close> or explicit big-endian bytes.

  \<^bold>\<open>Conventions.\<close> A class is a record of its members and an operation is a function of the old state to the new one.
  Integers are words of their width. A \<open>float\<close> or \<open>double\<close> is the rational it denotes, rounded after every
  operation (\<open>Floats\<close>: \<open>f32\<close>, \<open>f64\<close>; no infinities, NaNs or subnormal rounding). \<open>None\<close>, or \<open>Inl\<close> where a
  component has several failures, is undefined behaviour, an exception or a loop that does not end, and
  \<open>false\<close> results are values. The system (sockets, clock, random numbers, the order of the bytes of the host,
  \<open>inet_pton\<close>) and the user's callbacks are parameters or logs.

  \<^bold>\<open>The theories, in the order of the layers.\<close>

  \<^item> \<open>Prelude\<close>, \<open>Floats\<close>, \<open>OrderedMap\<close>: bytes and words, rounding, and \<open>std::map\<close> as an association list in
    key order (locale \<open>key_order\<close>, interpreted for addresses).
  \<^item> \<open>BitStream\<close>, \<open>Serializable\<close>, \<open>StreamLaws\<close> (\<open>serialization/bit_stream.hpp\<close>, \<open>serializable.hpp\<close>): the stream, its
    readers and writers. The locale \<open>codec\<close> states that a reader undoes a writer, \<open>reader\<close> that a reader
    moves forward and stays in its buffer; both are interpreted for every overload. Shown: writing is appending bits,
    messages read back as written, and parsing untrusted bytes never leaves the buffer.
  \<^item> \<open>Quantization\<close> (\<open>serialization/quantization.hpp\<close>): the error bound, and where the top value wraps.
  \<^item> \<open>Packet\<close>, \<open>Address\<close> (\<open>transport/packet.*\<close>, \<open>address.*\<close>): the header is a bijection on its wire image; addresses are
    linearly ordered and equality agrees with the order.
  \<^item> \<open>UdpState\<close>, \<open>UdpSend\<close>, \<open>UdpReceive\<close>, \<open>UdpTransport\<close> (\<open>transport/udp_transport.*\<close>): connections, channels, pending and
    received packets; sending, polling, the public functions. \<open>UdpReliable\<close>: two endpoints as a step
    relation with loss, duplication and reordering; what the reliable ordered channel delivers is a prefix of what
    was sent, and it makes progress. \<open>UdpLaws\<close>: reassembly, the bandwidth window, and the channels that do
    not keep their promise. \<open>Transport\<close>, \<open>UdpInterface\<close>: \<open>ITransport\<close> as a record of functions, and the contract of its
    receive queue (locale \<open>receive_queue\<close>), interpreted for UDP, loopback, the simulator and the browser's WebSocket.
  \<^item> \<open>Sha256\<close>, \<open>ByteStore\<close>, \<open>ConnectionToken\<close>, \<open>ChaCha20\<close>, \<open>Poly1305\<close>, \<open>Poly1305Laws\<close>, \<open>ChaChaPoly\<close> (\<open>crypto\<close>,
    \<open>connection_token.*\<close>): the optimised code against the standards' definitions; what Poly1305 does instead of RFC 8439 (it clamps the key with \<open>fe\<close> for
    \<open>fc\<close>, and leaves out the last carry and the last reduction), and when the two agree; a token is
    accepted exactly when it is signed and in time; \<open>open\<close> accepts exactly what \<open>seal\<close> makes.
  \<^item> \<open>EncryptedTransport\<close> (\<open>transport/encrypted_transport.*\<close>): the replay window refines the set of counters seen; what
    is delivered was sealed with the key of the other direction, once.
  \<^item> \<open>Loopback\<close>, \<open>Simulator\<close>: no table of the hub holds a transport that is gone; packets due are delivered, the others kept.
  \<^item> \<open>RateLimiter\<close>, \<open>NetworkClock\<close>, \<open>InputBuffer\<close>: token buckets, time synchronization and ticks, and the ring of inputs.
  \<^item> \<open>EntityManager\<close> (\<open>network_entity.*\<close>): a client that receives a server's messages in order mirrors its entities; local
    handles are destroyed once.
  \<^item> \<open>Snapshots\<close>, \<open>Replication\<close>, \<open>NetworkVariable\<close>, \<open>SpatialInterest\<close> (\<open>network_replication.*\<close>, \<open>replication\<close>,
    \<open>prediction/lag_compensator.*\<close>): which snapshots the history still has; that a delta brings a client that has its
    baseline to the current state and shows it nothing the filter hides; that the grid answers range queries exactly.
  \<^item> \<open>RpcManager\<close> (\<open>rpc_manager.*\<close>): authority, payload limits and rate limits of remote calls. \<open>RpcTyped\<close>:
    the variadic templates, with an argument pack as a list of values of the overloads of \<open>serialize\<close>; packs of any length
    are interpretations of \<open>codec\<close>, so that a call through both managers hands the handler the values of the caller.
  \<^item> \<open>ManagerWire\<close>, \<open>NetworkManager\<close>, \<open>NetworkManagerLaws\<close> (\<open>network_manager.*\<close>): the connection manager over any
    transports, with the managers it forwards to as part of its state. The invariant of all reachable
    states (\<open>nm_reachable\<close>), admission, the handshake with a token, time synchronization, delivery of application data
    over the UDP queue, broadcasts; a client's stray byte and a host that obeys its clients.
  \<^item> \<open>ManagerStack\<close>, \<open>ManagerNetwork\<close>: the managers of two processes together. A remote call, a first snapshot with its
    acknowledgement, and entity edits go through both \<open>NetworkManager\<close>s; over two UDP transports and a network that
    loses, duplicates and reorders, a client's application gets the server's messages in order, each once, and its entities are always
    those the server had at some moment; the witnesses are runs from the join on. Also what the managers do not guard: clients edit the server's entities, messages
    are cut to 4096 bytes, data that begins with the mark of system messages is never delivered, and a host's
    application is handed its managers' messages.
  \<^item> \<open>LanDiscovery\<close> (\<open>discovery/lan_discovery.*\<close>): beacons are accepted exactly when well-formed; the loop of \<open>poll\<close>.
  \<^item> \<open>WebSocket\<close> (\<open>transport/emscripten_websocket_transport.*\<close>): the transport of the browser build, with the JavaScript tables behind it,
    as a queue, over any JavaScript functions that keep a contract where the source's do not parse; the contract \<open>receive_queue\<close> is interpreted for it too.

  \<^bold>\<open>Loops.\<close> Loops over data are structural. Loops whose end depends on numbers or on another component are partial
  functions with \<open>None\<close> for a run without end: \<open>drain\<close>, \<open>ws_drain\<close>, \<open>sim_intercept\<close>, \<open>receive_loop\<close>, \<open>run_ticks\<close>, \<open>server_loop\<close>,
  \<open>snapshot_ack_loop\<close>, \<open>advert_loop\<close>, \<open>free_client_id\<close>, \<open>fresh_client\<close>. The theorems that they return state the bounds: the
  receive queue of the transport is finite, an accumulator is at most \<open>2 ^ 51\<close> (double) or \<open>2 ^ 22\<close> (float) intervals,
  there are fewer clients than identifiers or ports; where an interval of zero makes a loop run for ever, that is
  shown too. No definition uses fuel.

  \<^bold>\<open>Not modelled, and why.\<close> The browser behind \<open>EmscriptenWebSocketTransport\<close> is not in the repository: what it does are
  steps of that model. Three of its JavaScript functions are no JavaScript (\<open>!= =\<close>, \<open>== =\<close>) and have no meaning to model. The socket calls of \<open>UdpTransport\<close> and \<open>LanDiscovery\<close> are parameters. Logging, build configuration and version
  constants have no state. The examples are programs of terminal and window input and output around the library. Callbacks
  that call back into the object that invokes them, the order of threads (the library has none), and the contents of
  moved-from objects are outside the model.
\<close>

end
